(* ===== verification/Prelude.thy ===== *)
theory Prelude
  imports Main "HOL-Library.Char_ord" "HOL-Library.Code_Target_Nat"
begin

text \<open>
  Shared vocabulary of the development: ECMAScript strings as lists of UTF-16 code units, the
  exceptions of the backend as values, the numbers the code accepts as sizes, and database tables
  as lists of rows with a numeric primary key.  The generic lemmas declared here carry most of the
  component proofs.
\<close>

named_theorems row_simps \<open>equations about keyed tables\<close>
named_theorems err_simps \<open>inversion of successful and failed computations\<close>


section \<open>Strings\<close>

text \<open>An ECMAScript string is a sequence of UTF-16 code units.\<close>

type_synonym ustring = "nat list"

definition js :: "string \<Rightarrow> ustring" where
  "js s = map of_char s"

lemma js_Nil [simp]: "js [] = []"
  by (simp add: js_def)

lemma js_Cons [simp]: "js (c # s) = of_char c # js s"
  by (simp add: js_def)

text \<open>White space as \<open>String.prototype.trim\<close> sees it.\<close>

definition js_space :: "nat \<Rightarrow> bool" where
  "js_space c \<longleftrightarrow> c \<in> {9, 10, 11, 12, 13, 32, 160, 5760, 8232, 8233, 8239, 8287, 12288, 65279}
     \<or> 8192 \<le> c \<and> c \<le> 8202"

definition trim :: "ustring \<Rightarrow> ustring" where
  "trim s = rev (dropWhile js_space (rev (dropWhile js_space s)))"

lemma length_trim: "length (trim s) \<le> length s"
  using length_dropWhile_le [of js_space s]
    length_dropWhile_le [of js_space "rev (dropWhile js_space s)"]
  by (simp add: trim_def)

lemma set_trim: "set (trim s) \<subseteq> set s"
  unfolding trim_def by (auto dest!: set_dropWhileD)

text \<open>Unsigned decimal digits, as template literals print a natural number.\<close>

fun dec :: "nat \<Rightarrow> ustring" where
  "dec n = (if n < 10 then [48 + n] else dec (n div 10) @ [48 + n mod 10])"

declare dec.simps [simp del]

fun undec :: "nat \<Rightarrow> ustring \<Rightarrow> nat" where
  "undec acc [] = acc"
| "undec acc (c # cs) = undec (acc * 10 + (c - 48)) cs"

lemma undec_append: "undec a (xs @ ys) = undec (undec a xs) ys"
  by (induction xs arbitrary: a) auto

definition digit :: "nat \<Rightarrow> bool" where
  "digit c \<longleftrightarrow> 48 \<le> c \<and> c \<le> 57"

lemma dec_digits: "\<forall>c \<in> set (dec n). digit c"
proof (induction n rule: dec.induct)
  case (1 n)
  then show ?case
    by (cases "n < 10") (auto simp: dec.simps [of n] digit_def)
qed

lemma dec_not_Nil [simp]: "dec n \<noteq> []"
  by (cases "n < 10") (simp_all add: dec.simps [of n])

lemma undec_dec [simp]: "undec 0 (dec n) = n"
proof (induction n rule: dec.induct)
  case (1 n)
  then show ?case
    by (cases "n < 10") (simp_all add: dec.simps [of n] undec_append)
qed

lemma dec_inject [simp]: "dec m = dec n \<longleftrightarrow> m = n"
  by (metis undec_dec)

lemma length_dec_mono: "n < 10 ^ k \<Longrightarrow> 0 < k \<Longrightarrow> length (dec n) \<le> k"
proof (induction k arbitrary: n)
  case (Suc k)
  show ?case
  proof (cases "n < 10")
    case False
    then have "0 < k" using Suc.prems by (cases k) auto
    moreover have "n div 10 < 10 ^ k"
      using Suc.prems by (simp add: div_less_iff_less_mult mult.commute)
    ultimately show ?thesis
      using Suc.IH [of "n div 10"] False by (simp add: dec.simps [of n])
  qed (simp add: dec.simps [of n])
qed simp

text \<open>\<open>String.prototype.lastIndexOf\<close> of one code unit.\<close>

fun last_index :: "nat \<Rightarrow> ustring \<Rightarrow> nat option" where
  "last_index c [] = None"
| "last_index c (x # xs) =
     (case last_index c xs of Some i \<Rightarrow> Some (Suc i) | None \<Rightarrow> if x = c then Some 0 else None)"

lemma last_index_SomeD:
  "last_index c s = Some i \<Longrightarrow> i < length s \<and> s ! i = c \<and> c \<notin> set (drop (Suc i) s)"
proof (induction s arbitrary: i)
  case (Cons x xs)
  have none: "last_index c ys = None \<Longrightarrow> c \<notin> set ys" for ys
    by (induction ys) (auto split: option.splits if_splits)
  from Cons show ?case
    by (auto split: option.splits if_splits dest: none)
qed simp

lemma last_index_None_iff: "last_index c s = None \<longleftrightarrow> c \<notin> set s"
  by (induction s) (auto split: option.splits)

text \<open>\<open>String.prototype.split\<close> and \<open>Array.prototype.join\<close> with one code unit.\<close>

fun split_on :: "nat \<Rightarrow> ustring \<Rightarrow> ustring list" where
  "split_on c [] = [[]]"
| "split_on c (x # xs) =
     (if x = c then [] # split_on c xs
      else case split_on c xs of [] \<Rightarrow> [[x]] | p # ps \<Rightarrow> (x # p) # ps)"

fun join_with :: "nat \<Rightarrow> ustring list \<Rightarrow> ustring" where
  "join_with c [] = []"
| "join_with c [p] = p"
| "join_with c (p # q # ps) = p @ [c] @ join_with c (q # ps)"

lemma join_with_no_sep:
  "(\<And>p. p \<in> set ps \<Longrightarrow> c \<notin> set p) \<Longrightarrow> ps \<noteq> [] \<Longrightarrow> split_on c (join_with c ps) = ps"
proof (induction c ps rule: join_with.induct)
  case (2 c p)
  have "c \<notin> set p \<Longrightarrow> split_on c p = [p]" by (induction p) auto
  then show ?case using 2 by simp
next
  case (3 c p q ps)
  have "c \<notin> set p \<Longrightarrow> split_on c (p @ c # xs) = p # split_on c xs" for xs
    by (induction p) auto
  then show ?case using 3 by simp
qed simp

lemma split_on_sep: "p \<in> set (split_on c s) \<Longrightarrow> c \<notin> set p \<and> set p \<subseteq> set s"
proof (induction s arbitrary: p)
  case (Cons x xs)
  then show ?case by (cases "split_on c xs") (auto split: if_splits, blast+)
qed simp

lemma split_on_not_Nil [simp]: "split_on c s \<noteq> []"
  by (induction s) (auto split: list.splits)

lemma join_split [simp]: "join_with c (split_on c s) = s"
proof (induction s)
  case (Cons x xs)
  obtain p ps where "split_on c xs = p # ps" by (cases "split_on c xs") auto
  then show ?case using Cons by (cases ps) auto
qed simp

lemma set_join_with: "set (join_with c ps) \<subseteq> insert c (\<Union> (set ` set ps))"
  by (induction c ps rule: join_with.induct) auto

text \<open>
  Length of a string in Unicode code points: a high surrogate followed by a low one counts once.
  This is the length a \<open>varchar\<close> column of the database bounds.
\<close>

definition high_surrogate :: "nat \<Rightarrow> bool" where
  "high_surrogate c \<longleftrightarrow> 55296 \<le> c \<and> c \<le> 56319"

definition low_surrogate :: "nat \<Rightarrow> bool" where
  "low_surrogate c \<longleftrightarrow> 56320 \<le> c \<and> c \<le> 57343"

fun cp_length :: "ustring \<Rightarrow> nat" where
  "cp_length (a # b # s) =
     (if high_surrogate a \<and> low_surrogate b then Suc (cp_length s) else Suc (cp_length (b # s)))"
| "cp_length [a] = 1"
| "cp_length [] = 0"

lemma cp_length_le: "cp_length s \<le> length s"
  by (induction s rule: cp_length.induct) auto

text \<open>No surrogate stands alone.\<close>

fun well_formed :: "ustring \<Rightarrow> bool" where
  "well_formed [] = True"
| "well_formed [a] = (\<not> high_surrogate a \<and> \<not> low_surrogate a)"
| "well_formed (a # b # s) =
     (if high_surrogate a then low_surrogate b \<and> well_formed s
      else \<not> low_surrogate a \<and> well_formed (b # s))"


section \<open>Exceptions\<close>

text \<open>
  The HTTP exceptions of the framework, with the literal message of the code; \<open>DbError\<close> is an
  error raised by the database itself (a constraint, a column length, a trigger) and
  \<open>PlainError\<close> a bare \<open>Error\<close>.  A computation that throws is an \<open>Inl\<close>; when it is a
  database transaction, its \<open>Inl\<close> means that every change was rolled back.
\<close>

datatype http_error =
    BadRequest string
  | Unauthorized string
  | Forbidden string
  | NotFound string
  | Conflict string
  | Gone string
  | PayloadTooLarge string
  | TooManyRequests string
  | RangeNotSatisfiable string
  | ServiceUnavailable string
  | InternalError string
  | DbError string
  | PlainError string
  | Diverges

type_synonym 'a res = "http_error + 'a"

definition bindE :: "'e + 'a \<Rightarrow> ('a \<Rightarrow> 'e + 'b) \<Rightarrow> 'e + 'b" where
  "bindE m f = (case m of Inl e \<Rightarrow> Inl e | Inr x \<Rightarrow> f x)"

lemma bindE_simps [simp]:
  "bindE (Inl e) f = Inl e"
  "bindE (Inr x) f = f x"
  by (simp_all add: bindE_def)

lemma bindE_eq_Inr [err_simps]: "bindE m f = Inr y \<longleftrightarrow> (\<exists>x. m = Inr x \<and> f x = Inr y)"
  by (cases m) auto

lemma bindE_eq_Inl [err_simps]:
  "bindE m f = Inl e \<longleftrightarrow> m = Inl e \<or> (\<exists>x. m = Inr x \<and> f x = Inl e)"
  by (cases m) auto

text \<open>\<open>if (!b) throw e;\<close>\<close>

definition ensure :: "bool \<Rightarrow> 'e \<Rightarrow> 'e + unit" where
  "ensure b e = (if b then Inr () else Inl e)"

lemma ensure_simps [simp]:
  "ensure True e = Inr ()"
  "ensure False e = Inl e"
  by (simp_all add: ensure_def)

lemma ensure_eq_Inr [err_simps]: "ensure b e = Inr u \<longleftrightarrow> b"
  by (simp add: ensure_def)

lemma ensure_eq_Inl [err_simps]: "ensure b e = Inl e' \<longleftrightarrow> \<not> b \<and> e = e'"
  by (auto simp: ensure_def)

text \<open>\<open>const x = \<dots>; if (!x) throw e;\<close>\<close>

definition require :: "'a option \<Rightarrow> 'e \<Rightarrow> 'e + 'a" where
  "require m e = (case m of None \<Rightarrow> Inl e | Some x \<Rightarrow> Inr x)"

lemma require_simps [simp]:
  "require None e = Inl e"
  "require (Some x) e = Inr x"
  by (simp_all add: require_def)

lemma require_eq_Inr [err_simps]: "require m e = Inr x \<longleftrightarrow> m = Some x"
  by (cases m) auto

lemma require_eq_Inl [err_simps]: "require m e = Inl e' \<longleftrightarrow> m = None \<and> e = e'"
  by (cases m) auto

definition is_ok :: "'e + 'a \<Rightarrow> bool" where
  "is_ok r \<longleftrightarrow> (case r of Inl _ \<Rightarrow> False | Inr _ \<Rightarrow> True)"

lemma is_ok_simps [simp]: "is_ok (Inr x)" "\<not> is_ok (Inl e)"
  by (simp_all add: is_ok_def)


section \<open>Numbers\<close>

text \<open>\<open>Number.MAX_SAFE_INTEGER\<close>.  Below it every double with an integer value is exact.\<close>

definition max_safe :: int where
  "max_safe = 9007199254740991"

definition safe_integer :: "int \<Rightarrow> bool" where
  "safe_integer n \<longleftrightarrow> - max_safe \<le> n \<and> n \<le> max_safe"

text \<open>
  What reaches a parameter of type \<open>unknown\<close>: a number with an integer value, any other number
  (a fraction, \<open>NaN\<close>, an infinity), a string, or something else.
\<close>

datatype js_value = JInt int | JNonInt | JStr ustring | JOther


section \<open>Tables\<close>

text \<open>
  A table is the list of its rows; \<open>key\<close> reads the primary key.  \<open>put_row\<close> is an update of one
  row by primary key, \<open>drop_rows\<close> a delete by a set of keys.
\<close>

definition put_row :: "('r \<Rightarrow> nat) \<Rightarrow> 'r \<Rightarrow> 'r list \<Rightarrow> 'r list" where
  "put_row key r rs = map (\<lambda>x. if key x = key r then r else x) rs"

definition drop_rows :: "('r \<Rightarrow> nat) \<Rightarrow> nat list \<Rightarrow> 'r list \<Rightarrow> 'r list" where
  "drop_rows key ks rs = filter (\<lambda>x. key x \<notin> set ks) rs"

lemma find_SomeD: "find P xs = Some x \<Longrightarrow> x \<in> set xs \<and> P x"
  by (auto simp: find_Some_iff)

lemma find_SomeI: "x \<in> set xs \<Longrightarrow> P x \<Longrightarrow> \<exists>y. find P xs = Some y \<and> y \<in> set xs \<and> P y"
  by (metis find_None_iff find_SomeD not_Some_eq)

lemma find_NoneD: "find P xs = None \<Longrightarrow> x \<in> set xs \<Longrightarrow> \<not> P x"
  by (auto simp: find_None_iff)

lemma find_append: "find P (xs @ ys) = (case find P xs of None \<Rightarrow> find P ys | Some x \<Rightarrow> Some x)"
  by (induction xs) auto

lemma map_key_put_row [row_simps]: "map key (put_row key r rs) = map key rs"
  by (simp add: put_row_def comp_def)

lemma set_put_row [row_simps]:
  assumes "distinct (map key rs)" "r \<in> set rs" "key r' = key r"
  shows "set (put_row key r' rs) = insert r' (set rs - {r})"
  using assms by (auto simp: put_row_def distinct_map inj_on_def)

lemma set_drop_rows [row_simps]: "set (drop_rows key ks rs) = {r \<in> set rs. key r \<notin> set ks}"
  by (auto simp: drop_rows_def)

lemma distinct_key_drop_rows: "distinct (map key rs) \<Longrightarrow> distinct (map key (drop_rows key ks rs))"
  by (simp add: drop_rows_def distinct_map_filter)

lemma key_unique:
  "distinct (map key rs) \<Longrightarrow> x \<in> set rs \<Longrightarrow> y \<in> set rs \<Longrightarrow> key x = key y \<Longrightarrow> x = y"
  by (auto simp: distinct_map inj_on_def)

lemma find_key:
  "distinct (map key rs) \<Longrightarrow> r \<in> set rs \<Longrightarrow> find (\<lambda>x. key x = key r \<and> P x) rs = (if P r then Some r else None)"
  by (induction rs) (auto simp: find_None_iff image_iff)

lemma find_key_Some_iff:
  "distinct (map key rs) \<Longrightarrow> find (\<lambda>x. key x = k) rs = Some r \<longleftrightarrow> r \<in> set rs \<and> key r = k"
  by (induction rs) auto

lemma find_key_None_iff: "find (\<lambda>x. key x = k) rs = None \<longleftrightarrow> k \<notin> key ` set rs"
  by (auto simp: find_None_iff)

lemma find_put_row:
  "find (\<lambda>x. key x = j) (put_row key r rs) =
     (if key r = j then map_option (\<lambda>_. r) (find (\<lambda>x. key x = j) rs) else find (\<lambda>x. key x = j) rs)"
  by (induction rs) (auto simp: put_row_def)

text \<open>Totals of a numeric column.\<close>

definition total :: "('r \<Rightarrow> int) \<Rightarrow> 'r list \<Rightarrow> int" where
  "total col rs = sum_list (map col rs)"

lemma total_simps [simp]:
  "total col [] = 0"
  "total col (r # rs) = col r + total col rs"
  "total col (rs @ ss) = total col rs + total col ss"
  by (simp_all add: total_def)

lemma total_nonneg: "(\<And>r. r \<in> set rs \<Longrightarrow> 0 \<le> col r) \<Longrightarrow> 0 \<le> total col rs"
  by (induction rs) auto

lemma total_filter_split:
  "total col (filter P rs) + total col (filter (\<lambda>r. \<not> P r) rs) = total col rs"
  by (induction rs) auto

lemma total_filter_le:
  "(\<And>r. r \<in> set rs \<Longrightarrow> 0 \<le> col r) \<Longrightarrow> total col (filter P rs) \<le> total col rs"
  by (induction rs) (auto intro: add_increasing)

lemma total_put_row:
  assumes "distinct (map key rs)" "r \<in> set rs" "key r' = key r"
  shows "total col (put_row key r' rs) = total col rs - col r + col r'"
  using assms
proof (induction rs)
  case (Cons x xs)
  show ?case
  proof (cases "x = r")
    case True
    have "map (\<lambda>y. if key y = key r then r' else y) xs = xs"
      using Cons.prems True by (intro map_idI) (auto simp: image_iff)
    then show ?thesis using True Cons.prems by (simp add: put_row_def)
  next
    case False
    then show ?thesis using Cons by (auto simp: put_row_def)
  qed
qed simp

end
