(* ===== verification/Entities.thy ===== *)
theory Entities
  imports Prelude
begin

text \<open>
  The rows of the tables \<open>users\<close>, \<open>files\<close> and \<open>folders\<close> (backend/src/entities) and the database
  state made of them.  Columns that no modelled operation reads (avatar, star, e-mail verification,
  creation and update times) are left out.  A nullable column is an option.
\<close>

text \<open>entities/user.entity.ts\<close>

record user_row =
  u_id :: nat
  u_email :: ustring
  u_password :: ustring
  u_isActive :: bool
  u_storageQuota :: int
  u_storageUsed :: int

text \<open>entities/file.entity.ts; a row with \<open>f_isFolder\<close> is the mirror of a folder\<close>

record file_row =
  f_id :: nat
  f_name :: ustring
  f_storagePath :: "ustring option"
  f_storageLocationId :: "ustring option"
  f_relativeObjectKey :: "ustring option"
  f_size :: int
  f_mimeType :: "ustring option"
  f_isFolder :: bool
  f_isDeleted :: bool
  f_deletedAt :: "int option"
  f_parentId :: "nat option"
  f_folderId :: "nat option"
  f_version :: int
  f_uploadId :: "ustring option"
  f_userId :: nat

text \<open>entities/folder.entity.ts\<close>

record folder_row =
  d_id :: nat
  d_name :: ustring
  d_isDeleted :: bool
  d_deletedAt :: "int option"
  d_parentId :: "nat option"
  d_userId :: nat

text \<open>
  The database: the three tables and the sequences behind their generated primary keys.
\<close>

record db =
  users :: "user_row list"
  files :: "file_row list"
  folders :: "folder_row list"
  next_file :: nat
  next_folder :: nat

text \<open>
  The check constraint \<open>CHK_files_placement\<close>: a mirror has no object, every other file has a
  complete placement.
\<close>

definition chk_files_placement :: "file_row \<Rightarrow> bool" where
  "chk_files_placement f \<longleftrightarrow>
     (f_isFolder f \<and> f_storageLocationId f = None \<and> f_relativeObjectKey f = None \<and> f_storagePath f = None)
   \<or> (\<not> f_isFolder f \<and> f_storageLocationId f \<noteq> None \<and> f_relativeObjectKey f \<noteq> None
        \<and> f_storagePath f \<noteq> None)"

text \<open>
  A value stored in a column \<open>varchar(n)\<close>: at most \<open>n\<close> code points and no NUL character, which the
  database refuses in text.
\<close>

definition varchar_ok :: "nat \<Rightarrow> ustring \<Rightarrow> bool" where
  "varchar_ok n s \<longleftrightarrow> cp_length s \<le> n \<and> 0 \<notin> set s"

text \<open>
  The foreign keys \<open>files.parentId\<close>, \<open>files.folderId\<close> and \<open>folders.parentId\<close> are declared
  \<open>ON DELETE SET NULL\<close>: deleting folders clears the references to them.
\<close>

definition clear_ref :: "nat list \<Rightarrow> nat option \<Rightarrow> nat option" where
  "clear_ref ks p = (case p of Some k \<Rightarrow> if k \<in> set ks then None else p | None \<Rightarrow> None)"

definition delete_files :: "nat list \<Rightarrow> db \<Rightarrow> db" where
  "delete_files ks s = s\<lparr>files := drop_rows f_id ks (files s)\<rparr>"

definition delete_folders :: "nat list \<Rightarrow> db \<Rightarrow> db" where
  "delete_folders ks s = s\<lparr>
     folders := map (\<lambda>d. d\<lparr>d_parentId := clear_ref ks (d_parentId d)\<rparr>) (drop_rows d_id ks (folders s)),
     files := map (\<lambda>f. f\<lparr>f_parentId := clear_ref ks (f_parentId f), f_folderId := clear_ref ks (f_folderId f)\<rparr>)
                (files s)\<rparr>"

definition save_file :: "file_row \<Rightarrow> db \<Rightarrow> db" where
  "save_file f s = s\<lparr>files := put_row f_id f (files s)\<rparr>"

definition save_folder :: "folder_row \<Rightarrow> db \<Rightarrow> db" where
  "save_folder d s = s\<lparr>folders := put_row d_id d (folders s)\<rparr>"

text \<open>
  Inserting a row draws the next value of the sequence and checks the column length, the placement
  constraint and the foreign key of the owner.
\<close>

definition user_exists :: "db \<Rightarrow> nat \<Rightarrow> bool" where
  "user_exists s k \<longleftrightarrow> (\<exists>u \<in> set (users s). u_id u = k)"

definition insert_file :: "file_row \<Rightarrow> db \<Rightarrow> (db \<times> file_row) res" where
  "insert_file f s =
     (if \<not> varchar_ok 255 (f_name f) then Inl (DbError ''value too long for type character varying(255)'')
      else if \<not> chk_files_placement f then Inl (DbError ''CHK_files_placement'')
      else if \<not> user_exists s (f_userId f) then Inl (DbError ''files.userId'')
      else let r = f\<lparr>f_id := next_file s\<rparr>
           in Inr (s\<lparr>files := files s @ [r], next_file := Suc (next_file s)\<rparr>, r))"

definition insert_folder :: "folder_row \<Rightarrow> db \<Rightarrow> (db \<times> folder_row) res" where
  "insert_folder d s =
     (if \<not> varchar_ok 255 (d_name d) then Inl (DbError ''value too long for type character varying(255)'')
      else if \<not> user_exists s (d_userId d) then Inl (DbError ''folders.userId'')
      else let r = d\<lparr>d_id := next_folder s\<rparr>
           in Inr (s\<lparr>folders := folders s @ [r], next_folder := Suc (next_folder s)\<rparr>, r))"

lemma insert_file_Inr [err_simps]:
  "insert_file f s = Inr (s', r) \<longleftrightarrow>
     varchar_ok 255 (f_name f) \<and> chk_files_placement f \<and> user_exists s (f_userId f) \<and> r = f\<lparr>f_id := next_file s\<rparr> \<and>
     s' = s\<lparr>files := files s @ [r], next_file := Suc (next_file s)\<rparr>"
  by (auto simp: insert_file_def Let_def)

lemma insert_folder_Inr [err_simps]:
  "insert_folder d s = Inr (s', r) \<longleftrightarrow>
     varchar_ok 255 (d_name d) \<and> user_exists s (d_userId d) \<and> r = d\<lparr>d_id := next_folder s\<rparr> \<and>
     s' = s\<lparr>folders := folders s @ [r], next_folder := Suc (next_folder s)\<rparr>"
  by (auto simp: insert_folder_def Let_def)

end
