(* ===== verification/Quota.thy ===== *)
theory Quota
  imports Entities
begin

text \<open>
  Sizes and the storage quota (backend/src/common/database-size.ts and
  backend/src/users/users.service.ts).  The contract the file services rely on is the locale
  \<open>quota_ledger\<close>; it is interpreted on the model of \<open>UsersService\<close>.
\<close>


section \<open>Reading a size\<close>

text \<open>
  The regular expression \<open>/^\d+$/\<close> and \<open>Number\<close> of a string of digits.  \<open>Number\<close> rounds above
  \<open>2^53\<close>, but rounding is monotone, so a string whose value is not a safe integer stays unsafe.
\<close>

definition all_digits :: "ustring \<Rightarrow> bool" where
  "all_digits s \<longleftrightarrow> s \<noteq> [] \<and> (\<forall>c \<in> set s. digit c)"

definition parseDatabaseSize :: "js_value \<Rightarrow> string \<Rightarrow> int res" where
  "parseDatabaseSize v msg =
     (case v of
        JOther \<Rightarrow> Inl (BadRequest msg)
      | JNonInt \<Rightarrow> Inl (BadRequest msg)
      | JInt n \<Rightarrow> if safe_integer n \<and> 0 \<le> n then Inr n else Inl (BadRequest msg)
      | JStr s \<Rightarrow>
          if \<not> all_digits s then Inl (BadRequest msg)
          else let n = int (undec 0 s)
               in if safe_integer n \<and> 0 \<le> n then Inr n else Inl (BadRequest msg))"

definition size_msg :: string where
  "size_msg = ''Invalid storage size metadata''"

text \<open>A \<open>bigint\<close> column arrives from the database driver as decimal text.\<close>

definition bigint_text :: "int \<Rightarrow> js_value" where
  "bigint_text n = JStr (if n < 0 then 45 # dec (nat (- n)) else dec (nat n))"

lemma parse_JInt [simp]:
  "parseDatabaseSize (JInt n) msg = (if 0 \<le> n \<and> n \<le> max_safe then Inr n else Inl (BadRequest msg))"
  by (auto simp: parseDatabaseSize_def safe_integer_def max_safe_def)

lemma all_digits_dec [simp]: "all_digits (dec n)"
  using dec_digits by (simp add: all_digits_def)

lemma parse_bigint_text [simp]:
  "parseDatabaseSize (bigint_text n) msg =
     (if 0 \<le> n \<and> n \<le> max_safe then Inr n else Inl (BadRequest msg))"
  by (auto simp: parseDatabaseSize_def bigint_text_def safe_integer_def max_safe_def all_digits_def
      digit_def dec_digits [unfolded digit_def])

lemma parse_Inr_range:
  "parseDatabaseSize v msg = Inr n \<Longrightarrow> 0 \<le> n \<and> n \<le> max_safe"
  by (auto simp: parseDatabaseSize_def safe_integer_def Let_def split: js_value.splits if_splits)


section \<open>UsersService\<close>

definition findById :: "db \<Rightarrow> nat \<Rightarrow> user_row option" where
  "findById s k = find (\<lambda>u. u_id u = k) (users s)"

definition save_user :: "user_row \<Rightarrow> db \<Rightarrow> db" where
  "save_user u s = s\<lparr>users := put_row u_id u (users s)\<rparr>"

text \<open>The conditional \<open>UPDATE\<close> of one column, with the number of rows it affected.\<close>

definition update_used :: "(user_row \<Rightarrow> bool) \<Rightarrow> (int \<Rightarrow> int) \<Rightarrow> db \<Rightarrow> db \<times> nat" where
  "update_used P f s =
     (s\<lparr>users := map (\<lambda>u. if P u then u\<lparr>u_storageUsed := f (u_storageUsed u)\<rparr> else u) (users s)\<rparr>,
      length (filter P (users s)))"

definition updateStorageUsed :: "nat \<Rightarrow> int \<Rightarrow> db \<Rightarrow> db res" where
  "updateStorageUsed k bytes0 s =
     bindE (parseDatabaseSize (JInt bytes0) size_msg) (\<lambda>bytes.
     if bytes = 0 then Inr s
     else case update_used (\<lambda>u. u_id u = k \<and> u_storageUsed u + bytes \<le> u_storageQuota u)
                 (\<lambda>used. used + bytes) s of (s', affected) \<Rightarrow>
       if affected \<noteq> 1 then
         bindE (require (findById s' k) (NotFound ''User not found'')) (\<lambda>u.
         bindE (parseDatabaseSize (bigint_text (u_storageUsed u)) size_msg) (\<lambda>used.
         bindE (parseDatabaseSize (bigint_text (u_storageQuota u)) size_msg) (\<lambda>quota.
         bindE (parseDatabaseSize (JInt (used + bytes)) size_msg) (\<lambda>needed.
         if needed > quota then Inl (Forbidden ''Storage quota exceeded'')
         else Inl (BadRequest ''Storage quota update failed'')))))
       else Inr s')"

definition decrementStorageUsed :: "nat \<Rightarrow> int \<Rightarrow> db \<Rightarrow> db res" where
  "decrementStorageUsed k bytes0 s =
     bindE (parseDatabaseSize (JInt bytes0) size_msg) (\<lambda>bytes.
     if bytes = 0 then Inr s
     else case update_used (\<lambda>u. u_id u = k \<and> bytes \<le> u_storageUsed u) (\<lambda>used. used - bytes) s of
       (s', affected) \<Rightarrow>
       if affected = 0 then
         bindE (require (findById s' k) (NotFound ''User not found'')) (\<lambda>u.
         bindE (parseDatabaseSize (bigint_text (u_storageUsed u)) size_msg) (\<lambda>used.
         if used < bytes
         then Inl (BadRequest ''Storage used would go negative - data inconsistency detected'')
         else Inl (BadRequest ''Concurrent storage modification - please retry'')))
       else Inr s')"

text \<open>Fields of \<open>Partial<UserEntity>\<close> a profile update may set; a missing field is left alone.\<close>

record profile_data =
  pd_email :: "ustring option"
  pd_password :: "ustring option"

definition updateProfile :: "nat \<Rightarrow> profile_data \<Rightarrow> db \<Rightarrow> (db \<times> user_row) res" where
  "updateProfile k d s =
     (let s' = s\<lparr>users := map (\<lambda>u. if u_id u = k
                  then u\<lparr>u_email := case pd_email d of None \<Rightarrow> u_email u | Some e \<Rightarrow> e,
                         u_password := case pd_password d of None \<Rightarrow> u_password u | Some p \<Rightarrow> p\<rparr>
                  else u) (users s)\<rparr>
      in bindE (require (findById s' k) (NotFound ''User not found'')) (\<lambda>u. Inr (s', u)))"


section \<open>Behaviour with unique users\<close>

definition users_ok :: "db \<Rightarrow> bool" where
  "users_ok s \<longleftrightarrow> distinct (map u_id (users s)) \<and>
     (\<forall>u \<in> set (users s). 0 \<le> u_storageUsed u \<and> u_storageUsed u \<le> u_storageQuota u
        \<and> u_storageQuota u \<le> max_safe)"

definition used_of :: "db \<Rightarrow> nat \<Rightarrow> int" where
  "used_of s k = (case findById s k of None \<Rightarrow> 0 | Some u \<Rightarrow> u_storageUsed u)"

definition quota_of :: "db \<Rightarrow> nat \<Rightarrow> int" where
  "quota_of s k = (case findById s k of None \<Rightarrow> 0 | Some u \<Rightarrow> u_storageQuota u)"

lemma findById_Some:
  "users_ok s \<Longrightarrow> findById s k = Some u \<longleftrightarrow> u \<in> set (users s) \<and> u_id u = k"
  by (simp add: findById_def users_ok_def find_key_Some_iff)

lemma findById_None: "findById s k = None \<longleftrightarrow> k \<notin> u_id ` set (users s)"
  by (auto simp: findById_def find_None_iff)

lemma user_range:
  "users_ok s \<Longrightarrow> findById s k = Some u \<Longrightarrow>
     0 \<le> u_storageUsed u \<and> u_storageUsed u \<le> u_storageQuota u \<and> u_storageQuota u \<le> max_safe"
  by (auto simp: findById_Some users_ok_def)

lemma affected_unique:
  assumes "distinct (map u_id us)"
  shows "length (filter (\<lambda>u. u_id u = k \<and> P u) us) =
    (case find (\<lambda>u. u_id u = k) us of None \<Rightarrow> 0 | Some u \<Rightarrow> if P u then 1 else 0)"
  using assms
proof (induction us)
  case (Cons a us)
  show ?case
  proof (cases "u_id a = k")
    case True
    then have "filter (\<lambda>u. u_id u = k \<and> P u) us = []"
      using Cons.prems by (auto simp: filter_empty_conv image_iff)
    then show ?thesis using True by simp
  qed (use Cons in auto)
qed simp

lemma map_if_unique:
  assumes "distinct (map u_id us)" "u \<in> set us" "u_id u = k"
  shows "map (\<lambda>x. if u_id x = k \<and> P x then g x else x) us =
    (if P u then map (\<lambda>x. if u_id x = k then g u else x) us else us)"
proof -
  have *: "x = u" if "x \<in> set us" "u_id x = k" for x
    using key_unique [OF assms(1) that(1) assms(2)] that(2) assms(3) by simp
  show ?thesis by (auto intro!: map_idI dest: *)
qed

text \<open>The row update a successful charge or refund amounts to.\<close>

definition add_used :: "nat \<Rightarrow> int \<Rightarrow> db \<Rightarrow> db" where
  "add_used k n s =
     (case findById s k of None \<Rightarrow> s
      | Some u \<Rightarrow> save_user (u\<lparr>u_storageUsed := u_storageUsed u + n\<rparr>) s)"

lemma update_used_unique:
  assumes "users_ok s" "\<And>u. u_id (u\<lparr>u_storageUsed := f (u_storageUsed u)\<rparr>) = u_id u"
  shows "update_used (\<lambda>u. u_id u = k \<and> P u) f s =
    (case findById s k of None \<Rightarrow> (s, 0)
     | Some u \<Rightarrow> if P u then (save_user (u\<lparr>u_storageUsed := f (u_storageUsed u)\<rparr>) s, 1) else (s, 0))"
proof (cases "findById s k")
  case None
  then have "map (\<lambda>x. if u_id x = k \<and> P x then g x else x) (users s) = users s" for g
    by (intro map_idI) (auto simp: findById_None)
  then show ?thesis using None assms(1)
    by (simp add: update_used_def affected_unique users_ok_def findById_def)
next
  case (Some u)
  then have u: "u \<in> set (users s)" "u_id u = k" using assms(1) by (simp_all add: findById_Some)
  show ?thesis
    using Some assms(1) u
    by (simp add: update_used_def affected_unique users_ok_def map_if_unique [of _ u] save_user_def
        put_row_def findById_def)
qed

text \<open>Every branch of a charge, for a database that satisfies the invariant.\<close>

lemma updateStorageUsed_eq:
  assumes "users_ok s"
  shows "updateStorageUsed k n s =
    (if n < 0 \<or> max_safe < n then Inl (BadRequest size_msg)
     else if n = 0 then Inr s
     else case findById s k of
       None \<Rightarrow> Inl (NotFound ''User not found'')
     | Some u \<Rightarrow>
         if u_storageUsed u + n \<le> u_storageQuota u then Inr (add_used k n s)
         else if max_safe < u_storageUsed u + n then Inl (BadRequest size_msg)
         else Inl (Forbidden ''Storage quota exceeded''))"
proof (cases "findById s k")
  case None
  then show ?thesis
    using assms by (simp add: updateStorageUsed_def update_used_unique)
next
  case (Some u)
  then show ?thesis
    using assms user_range [OF assms Some]
    by (simp add: updateStorageUsed_def update_used_unique add_used_def)
qed

lemma decrementStorageUsed_eq:
  assumes "users_ok s"
  shows "decrementStorageUsed k n s =
    (if n < 0 \<or> max_safe < n then Inl (BadRequest size_msg)
     else if n = 0 then Inr s
     else case findById s k of
       None \<Rightarrow> Inl (NotFound ''User not found'')
     | Some u \<Rightarrow>
         if n \<le> u_storageUsed u then Inr (add_used k (- n) s)
         else Inl (BadRequest ''Storage used would go negative - data inconsistency detected''))"
proof (cases "findById s k")
  case None
  then show ?thesis
    using assms by (simp add: decrementStorageUsed_def update_used_unique)
next
  case (Some u)
  then show ?thesis
    using assms user_range [OF assms Some]
    by (simp add: decrementStorageUsed_def update_used_unique add_used_def)
qed

lemma findById_add_used:
  assumes "users_ok s"
  shows "findById (add_used k n s) j =
    (case findById s j of None \<Rightarrow> None
     | Some u \<Rightarrow> Some (if j = k then u\<lparr>u_storageUsed := u_storageUsed u + n\<rparr> else u))"
proof (cases "findById s k")
  case (Some u)
  then have "u_id u = k" using assms by (simp add: findById_Some)
  then show ?thesis
    using Some by (auto simp: add_used_def save_user_def findById_def find_put_row split: option.splits)
next
  case None
  then show ?thesis by (auto simp: add_used_def split: option.splits)
qed

lemma add_used_frame [simp]:
  "files (add_used k n s) = files s"
  "folders (add_used k n s) = folders s"
  "next_file (add_used k n s) = next_file s"
  "next_folder (add_used k n s) = next_folder s"
  "map u_id (users (add_used k n s)) = map u_id (users s)"
  by (simp_all add: add_used_def save_user_def map_key_put_row split: option.splits)

lemma used_of_add_used:
  "users_ok s \<Longrightarrow> used_of (add_used k n s) j =
     used_of s j + (if j = k \<and> findById s k \<noteq> None then n else 0)"
  by (auto simp: used_of_def findById_add_used split: option.splits)

lemma quota_of_add_used: "users_ok s \<Longrightarrow> quota_of (add_used k n s) j = quota_of s j"
  by (auto simp: quota_of_def findById_add_used split: option.splits)

lemma users_ok_add_used:
  assumes "users_ok s" "0 \<le> used_of s k + n" "used_of s k + n \<le> quota_of s k"
  shows "users_ok (add_used k n s)"
proof (cases "findById s k")
  case (Some u)
  then have u: "u \<in> set (users s)" "u_id u = k" using assms(1) by (simp_all add: findById_Some)
  then show ?thesis
    using assms Some
    by (auto simp: users_ok_def add_used_def save_user_def map_key_put_row set_put_row used_of_def
        quota_of_def)
qed (use assms in \<open>simp add: add_used_def\<close>)


section \<open>The ledger contract\<close>

text \<open>
  What the services that create and delete files rely on.  \<open>inv\<close> is the state invariant, \<open>used\<close>
  and \<open>quota\<close> read an account, \<open>charge\<close> and \<open>refund\<close> move it.
\<close>

locale quota_ledger =
  fixes inv :: "'s \<Rightarrow> bool"
    and used :: "'s \<Rightarrow> nat \<Rightarrow> int"
    and quota :: "'s \<Rightarrow> nat \<Rightarrow> int"
    and charge :: "nat \<Rightarrow> int \<Rightarrow> 's \<Rightarrow> 'e + 's"
    and refund :: "nat \<Rightarrow> int \<Rightarrow> 's \<Rightarrow> 'e + 's"
  assumes range: "inv s \<Longrightarrow> 0 \<le> used s k \<and> used s k \<le> quota s k"
    and charge_inv: "inv s \<Longrightarrow> charge k n s = Inr s' \<Longrightarrow> inv s'"
    and refund_inv: "inv s \<Longrightarrow> refund k n s = Inr s' \<Longrightarrow> inv s'"
    and charge_used: "inv s \<Longrightarrow> charge k n s = Inr s' \<Longrightarrow>
      0 \<le> n \<and> used s' j = used s j + (if j = k then n else 0) \<and> quota s' j = quota s j"
    and refund_used: "inv s \<Longrightarrow> refund k n s = Inr s' \<Longrightarrow>
      0 \<le> n \<and> used s' j = used s j - (if j = k then n else 0) \<and> quota s' j = quota s j"
    and charge_ok: "inv s \<Longrightarrow> 0 < n \<Longrightarrow> used s k + n \<le> quota s k \<Longrightarrow> \<exists>s'. charge k n s = Inr s'"
    and refund_ok: "inv s \<Longrightarrow> 0 < n \<Longrightarrow> n \<le> used s k \<Longrightarrow> \<exists>s'. refund k n s = Inr s'"

text \<open>
  A history of an account: charges and refunds in any order, by any user, each of which either
  succeeds or leaves the state as it was.
\<close>

datatype move = Charge nat int | Refund nat int

fun run_move :: "(nat \<Rightarrow> int \<Rightarrow> 's \<Rightarrow> 'e + 's) \<Rightarrow> (nat \<Rightarrow> int \<Rightarrow> 's \<Rightarrow> 'e + 's) \<Rightarrow> move \<Rightarrow> 's \<Rightarrow> 's \<times> int" where
  "run_move ch re (Charge k n) s = (case ch k n s of Inl _ \<Rightarrow> (s, 0) | Inr s' \<Rightarrow> (s', n))"
| "run_move ch re (Refund k n) s = (case re k n s of Inl _ \<Rightarrow> (s, 0) | Inr s' \<Rightarrow> (s', - n))"

fun mover :: "move \<Rightarrow> nat" where
  "mover (Charge k n) = k"
| "mover (Refund k n) = k"

fun run_moves :: "(nat \<Rightarrow> int \<Rightarrow> 's \<Rightarrow> 'e + 's) \<Rightarrow> (nat \<Rightarrow> int \<Rightarrow> 's \<Rightarrow> 'e + 's) \<Rightarrow> move list \<Rightarrow> 's
    \<Rightarrow> 's \<times> (nat \<times> int) list" where
  "run_moves ch re [] s = (s, [])"
| "run_moves ch re (m # ms) s =
     (case run_move ch re m s of (s1, d) \<Rightarrow>
      case run_moves ch re ms s1 of (s2, ds) \<Rightarrow> (s2, (mover m, d) # ds))"

definition net :: "nat \<Rightarrow> (nat \<times> int) list \<Rightarrow> int" where
  "net k ds = sum_list (map (\<lambda>(j, d). if j = k then d else 0) ds)"

context quota_ledger
begin

lemma run_move_step:
  assumes "inv s" "run_move charge refund m s = (s', d)"
  shows "inv s' \<and> used s' k = used s k + (if k = mover m then d else 0) \<and> quota s' k = quota s k"
proof (cases m)
  case (Charge j n)
  then show ?thesis
    using assms charge_used [of s j n _ k] charge_inv
    by (auto split: sum.splits)
next
  case (Refund j n)
  then show ?thesis
    using assms refund_used [of s j n _ k] refund_inv
    by (auto split: sum.splits)
qed

lemma run_moves_balance:
  "inv s \<Longrightarrow> run_moves charge refund ms s = (s', ds) \<Longrightarrow>
     inv s' \<and> used s' k = used s k + net k ds \<and> quota s' k = quota s k"
proof (induction ms arbitrary: s ds)
  case (Cons m ms)
  obtain s1 d where 1: "run_move charge refund m s = (s1, d)" by (cases "run_move charge refund m s")
  obtain s2 es where 2: "run_moves charge refund ms s1 = (s2, es)"
    by (cases "run_moves charge refund ms s1")
  have ds: "ds = (mover m, d) # es" "s' = s2" using Cons.prems 1 2 by auto
  show ?case
    using run_move_step [OF Cons.prems(1) 1, of k] Cons.IH [of s1 es] 2 ds by (auto simp: net_def)
qed (simp add: net_def)

lemma run_moves_within:
  assumes "inv s" "run_moves charge refund ms s = (s', ds)"
  shows "0 \<le> used s' k \<and> used s' k \<le> quota s k"
  using run_moves_balance [OF assms, of k] range [of s' k] by simp

lemma charge_refund:
  assumes "inv s" "0 < n" "charge k n s = Inr s'"
  shows "\<exists>s''. refund k n s' = Inr s'' \<and> (\<forall>j. used s'' j = used s j)"
proof -
  have s': "inv s'" "\<And>j. used s' j = used s j + (if j = k then n else 0)"
    using charge_inv [OF assms(1,3)] charge_used [OF assms(1,3)] by auto
  then have "n \<le> used s' k" using range [OF assms(1), of k] by simp
  then obtain s'' where r: "refund k n s' = Inr s''" using refund_ok s'(1) assms(2) by blast
  then show ?thesis using refund_used [OF s'(1) r] s'(2) by auto
qed

end

lemma used_range: "users_ok s \<Longrightarrow> 0 \<le> used_of s k \<and> used_of s k \<le> quota_of s k \<and> quota_of s k \<le> max_safe"
  using user_range [of s k]
  by (cases "findById s k") (auto simp: used_of_def quota_of_def max_safe_def)

lemma updateStorageUsed_Inr:
  assumes "users_ok s"
  shows "updateStorageUsed k n s = Inr s' \<longleftrightarrow>
    (if n = 0 then s' = s
     else 0 < n \<and> findById s k \<noteq> None \<and> used_of s k + n \<le> quota_of s k \<and> s' = add_used k n s)"
  using assms used_range [OF assms, of k]
  by (auto simp: updateStorageUsed_eq max_safe_def used_of_def quota_of_def split: option.splits if_splits)

lemma decrementStorageUsed_Inr:
  assumes "users_ok s"
  shows "decrementStorageUsed k n s = Inr s' \<longleftrightarrow>
    (if n = 0 then s' = s
     else 0 < n \<and> findById s k \<noteq> None \<and> n \<le> used_of s k \<and> s' = add_used k (- n) s)"
  using assms used_range [OF assms, of k]
  by (auto simp: decrementStorageUsed_eq max_safe_def used_of_def quota_of_def split: option.splits if_splits)

lemma positive_account: "0 < used_of s k \<or> 0 < quota_of s k \<Longrightarrow> findById s k \<noteq> None"
  by (auto simp: used_of_def quota_of_def split: option.splits)

interpretation users: quota_ledger users_ok used_of quota_of updateStorageUsed decrementStorageUsed
proof (unfold_locales, goal_cases)
  case (1 s k)
  then show ?case using used_range by blast
next
  case (2 s k n s')
  then show ?case
    using used_range [OF 2(1), of k]
    by (auto simp: updateStorageUsed_Inr users_ok_add_used split: if_splits)
next
  case (3 s k n s')
  then show ?case
    using used_range [OF 3(1), of k]
    by (auto simp: decrementStorageUsed_Inr users_ok_add_used split: if_splits)
next
  case (4 s k n s' j)
  then show ?case
    by (auto simp: updateStorageUsed_Inr used_of_add_used quota_of_add_used split: if_splits)
next
  case (5 s k n s' j)
  then show ?case
    by (auto simp: decrementStorageUsed_Inr used_of_add_used quota_of_add_used split: if_splits)
next
  case (6 s n k)
  then show ?case
    using used_range [OF 6(1), of k] positive_account [of s k] by (auto simp: updateStorageUsed_Inr)
next
  case (7 s n k)
  then show ?case
    using positive_account [of s k] by (auto simp: decrementStorageUsed_Inr)
qed

end
