(* ===== verification/Namespace.thy ===== *)
theory Namespace
  imports Entities
begin

text \<open>
  Choice of a free name in a destination folder (backend/src/files/namespace-name.ts).  The
  contract that callers use is the locale \<open>name_allocator\<close>.
\<close>

datatype entry_kind = KFile | KFolder

text \<open>\<open>NOT "isDeleted"\<close> rows of the user under one parent, without the excluded row.\<close>

definition occupied_names :: "db \<Rightarrow> nat \<Rightarrow> nat option \<Rightarrow> nat option \<Rightarrow> nat option \<Rightarrow> ustring list" where
  "occupied_names s user parent xfile xfolder =
     map f_name (filter (\<lambda>f. f_userId f = user \<and> f_parentId f = parent \<and> \<not> f_isDeleted f
        \<and> xfile \<noteq> Some (f_id f)) (files s))
   @ map d_name (filter (\<lambda>d. d_userId d = user \<and> d_parentId d = parent \<and> \<not> d_isDeleted d
        \<and> xfolder \<noteq> Some (d_id d)) (folders s))"

definition live_folder :: "db \<Rightarrow> nat \<Rightarrow> nat \<Rightarrow> bool" where
  "live_folder s user k \<longleftrightarrow> (\<exists>d \<in> set (folders s). d_id d = k \<and> d_userId d = user \<and> \<not> d_isDeleted d)"

definition split_extension :: "entry_kind \<Rightarrow> ustring \<Rightarrow> ustring \<times> ustring" where
  "split_extension kind requested =
     (let dot = (case kind of KFile \<Rightarrow> last_index 46 requested | KFolder \<Rightarrow> None);
          extension = (case dot of Some i \<Rightarrow> if 0 < i then drop i requested else [] | None \<Rightarrow> []);
          stem = (if extension \<noteq> [] then take (the dot) requested else requested)
      in (stem, extension))"

definition suffix :: "nat \<Rightarrow> ustring" where
  "suffix i = [32, 40] @ dec i @ [41]"

definition candidate :: "ustring \<Rightarrow> ustring \<Rightarrow> nat \<Rightarrow> ustring" where
  "candidate stem extension i =
     (let budget = 255 - length (suffix i);
          safe_extension = take (budget - 1) extension
      in take (budget - length safe_extension) stem @ suffix i @ safe_extension)"

text \<open>The loop over the indices \<open>i, i + 1, \<dots>\<close>, of which \<open>n\<close> are left.\<close>

fun first_free :: "ustring list \<Rightarrow> ustring \<Rightarrow> ustring \<Rightarrow> nat \<Rightarrow> nat \<Rightarrow> ustring option" where
  "first_free occ stem ext i 0 = None"
| "first_free occ stem ext i (Suc n) =
     (if candidate stem ext i \<notin> set occ then Some (candidate stem ext i)
      else first_free occ stem ext (i + 1) n)"

text \<open>The choice itself, for a given set of occupied names.\<close>

definition choose_name :: "ustring list \<Rightarrow> ustring \<Rightarrow> entry_kind \<Rightarrow> ustring res" where
  "choose_name occ requested kind =
     (if requested \<notin> set occ then Inr requested
      else case split_extension kind requested of (stem, ext) \<Rightarrow>
        require (first_free occ stem ext 1 10000) (Conflict ''Destination name space exhausted''))"

definition allocateNamespaceName ::
  "db \<Rightarrow> nat \<Rightarrow> nat option \<Rightarrow> ustring \<Rightarrow> entry_kind \<Rightarrow> nat option \<Rightarrow> nat option \<Rightarrow> ustring res" where
  "allocateNamespaceName s user parent requested kind xfile xfolder =
     bindE (ensure (case parent of None \<Rightarrow> True | Some p \<Rightarrow> live_folder s user p)
              (NotFound ''Destination folder unavailable'')) (\<lambda>_.
     choose_name (occupied_names s user parent xfile xfolder) requested kind)"


section \<open>The choice\<close>

lemma first_free_SomeD:
  "first_free occ stem ext i n = Some c \<Longrightarrow> c \<notin> set occ \<and> (\<exists>j \<in> {i..<i + n}. c = candidate stem ext j)"
  by (induction occ stem ext i n rule: first_free.induct) (fastforce split: if_splits)+

lemma first_free_None:
  "first_free occ stem ext i n = None \<Longrightarrow> j \<in> {i..<i + n} \<Longrightarrow> candidate stem ext j \<in> set occ"
proof (induction occ stem ext i n rule: first_free.induct)
  case (2 occ stem ext i n)
  then show ?case by (cases "j = i") (auto split: if_splits)
qed simp

lemma choose_name_free: "choose_name occ requested kind = Inr n \<Longrightarrow> n \<notin> set occ"
  by (auto simp: choose_name_def err_simps dest: first_free_SomeD split: if_splits prod.splits)

lemma length_suffix: "1 \<le> i \<Longrightarrow> i \<le> 10000 \<Longrightarrow> 4 \<le> length (suffix i) \<and> length (suffix i) \<le> 8"
proof -
  assume "i \<le> 10000"
  then have "length (dec i) \<le> 5" by (intro length_dec_mono) auto
  moreover have "0 < length (dec i)" by simp
  ultimately show ?thesis by (auto simp: suffix_def Suc_le_eq simp del: length_greater_0_conv)
qed

lemma length_candidate:
  assumes "1 \<le> i" "i \<le> 10000"
  shows "length (candidate stem ext i) \<le> 255"
  using length_suffix [OF assms] by (auto simp: candidate_def Let_def)

lemma choose_name_length:
  "length requested \<le> 255 \<Longrightarrow> choose_name occ requested kind = Inr n \<Longrightarrow> length n \<le> 255"
  using length_candidate
  by (fastforce simp: choose_name_def err_simps dest: first_free_SomeD split: if_splits prod.splits)

lemma split_extension_append:
  "split_extension kind requested = (stem, ext) \<Longrightarrow> stem @ ext = requested"
  by (auto simp: split_extension_def Let_def split: option.splits if_splits entry_kind.splits)

text \<open>
  Two candidates differ when their extension is kept whole: read from the right, the digits between
  the parentheses determine the index.
\<close>

lemma takeWhile_no_paren: "takeWhile (\<lambda>c. c \<noteq> 40) (rev (dec i) @ 40 # xs) = rev (dec i)"
proof -
  have "\<forall>c \<in> set (rev (dec i)). c \<noteq> 40" using dec_digits [of i] by (auto simp: digit_def)
  then have "takeWhile (\<lambda>c. c \<noteq> 40) (rev (dec i) @ 40 # xs) = rev (dec i) @ takeWhile (\<lambda>c. c \<noteq> 40) (40 # xs)"
    by (intro takeWhile_append2) blast
  then show ?thesis by simp
qed

lemma candidate_keep:
  assumes "1 \<le> i" "i \<le> 10000" "length ext \<le> 246"
  shows "candidate stem ext i = take (255 - length (suffix i) - length ext) stem @ suffix i @ ext"
proof -
  have "length ext \<le> 254 - length (suffix i)" using length_suffix [OF assms(1,2)] assms(3) by linarith
  then show ?thesis by (simp add: candidate_def Let_def min_absorb1)
qed

lemma candidate_inj:
  assumes "i \<in> {1..10000}" "j \<in> {1..10000}" "length ext \<le> 246"
    and eq: "candidate stem ext i = candidate stem ext j"
  shows "i = j"
proof -
  obtain a b where "a @ suffix i @ ext = b @ suffix j @ ext"
    using eq assms(1-3) by (simp add: candidate_keep)
  then have "rev (a @ suffix i) = rev (b @ suffix j)" by simp
  then have "rev (dec i) @ 40 # 32 # rev a = rev (dec j) @ 40 # 32 # rev b"
    by (simp add: suffix_def)
  then have "rev (dec i) = rev (dec j)" by (metis takeWhile_no_paren)
  then show ?thesis by simp
qed

lemma choose_name_succeeds:
  assumes "card (set occ) < 10000" "length (snd (split_extension kind requested)) \<le> 246"
  shows "is_ok (choose_name occ requested kind)"
proof (cases "requested \<in> set occ")
  case True
  obtain stem ext where se: "split_extension kind requested = (stem, ext)" by fastforce
  have "\<not> candidate stem ext ` {1..10000} \<subseteq> set occ"
  proof
    assume "candidate stem ext ` {1..10000} \<subseteq> set occ"
    moreover have "inj_on (candidate stem ext) {1..10000}"
      using candidate_inj assms(2) se by (auto intro!: inj_onI)
    ultimately have "card {1..10000::nat} \<le> card (set occ)"
      by (metis List.finite_set card_image card_mono)
    then show False using assms(1) by simp
  qed
  then have "first_free occ stem ext 1 10000 \<noteq> None"
    using first_free_None [of occ stem ext 1 10000] by fastforce
  then show ?thesis using True se by (auto simp: choose_name_def)
qed (simp add: choose_name_def)


section \<open>The allocator contract\<close>

text \<open>
  \<open>names s u p xf xd\<close> are the live names below \<open>p\<close>, the excluded rows left out.
\<close>

locale name_allocator =
  fixes names :: "'s \<Rightarrow> nat \<Rightarrow> nat option \<Rightarrow> nat option \<Rightarrow> nat option \<Rightarrow> ustring set"
    and live :: "'s \<Rightarrow> nat \<Rightarrow> nat \<Rightarrow> bool"
    and alloc :: "'s \<Rightarrow> nat \<Rightarrow> nat option \<Rightarrow> ustring \<Rightarrow> entry_kind \<Rightarrow> nat option \<Rightarrow> nat option \<Rightarrow> 'e + ustring"
  assumes fresh: "alloc s u p r k xf xd = Inr n \<Longrightarrow> n \<notin> names s u p xf xd"
    and parent_live: "alloc s u (Some q) r k xf xd = Inr n \<Longrightarrow> live s u q"
    and short: "length r \<le> 255 \<Longrightarrow> alloc s u p r k xf xd = Inr n \<Longrightarrow> length n \<le> 255"
    and keeps: "r \<notin> names s u p xf xd \<Longrightarrow> (case p of None \<Rightarrow> True | Some q \<Rightarrow> live s u q) \<Longrightarrow>
      alloc s u p r k xf xd = Inr r"
begin

text \<open>A name that fits its column never makes the insertion fail on its length.\<close>

lemma fits_column: "length r \<le> 255 \<Longrightarrow> alloc s u p r k xf xd = Inr n \<Longrightarrow> cp_length n \<le> 255"
  using short cp_length_le order_trans by blast

lemma allocated_once:
  assumes "alloc s u p r k xf xd = Inr n" "names s' u p xf xd = insert n (names s u p xf xd)"
    "alloc s' u p r' k' xf xd = Inr n'"
  shows "n' \<noteq> n"
  using fresh [OF assms(3)] assms(2) by auto

lemma dead_parent: "\<not> live s u p \<Longrightarrow> alloc s u (Some p) r k xf xd \<noteq> Inr n"
  using parent_live by blast

end

interpretation ns: name_allocator "\<lambda>s u p xf xd. set (occupied_names s u p xf xd)" live_folder
  allocateNamespaceName
proof (unfold_locales, goal_cases)
  case 1
  then show ?case by (auto simp: allocateNamespaceName_def err_simps dest: choose_name_free)
next
  case 2
  then show ?case by (simp add: allocateNamespaceName_def err_simps)
next
  case 3
  then show ?case by (auto simp: allocateNamespaceName_def err_simps dest: choose_name_length)
next
  case 4
  then show ?case by (simp add: allocateNamespaceName_def choose_name_def)
qed

end
