(* ===== verification/Closure.thy ===== *)
theory Closure
  imports Prelude
begin

text \<open>
  The recursive queries of the program (\<open>WITH RECURSIVE\<close>) as executable closures over a function
  that lists the children of a node.  \<open>closure_union\<close> is a query with \<open>UNION\<close>, which keeps each row
  once; \<open>closure_all\<close> is one with \<open>UNION ALL\<close>, which never returns on cyclic data.  Both are related
  to reachability.
\<close>

definition child_of :: "(nat \<Rightarrow> nat list) \<Rightarrow> (nat \<times> nat) set" where
  "child_of ch = {(c, p). c \<in> set (ch p)}"

fun closure_union :: "nat \<Rightarrow> (nat \<Rightarrow> nat list) \<Rightarrow> nat list \<Rightarrow> nat list \<Rightarrow> nat list" where
  "closure_union 0 ch seen frontier = seen"
| "closure_union (Suc n) ch seen frontier =
     (let new = remdups (filter (\<lambda>c. c \<notin> set seen) (concat (map ch frontier)))
      in if new = [] then seen else closure_union n ch (seen @ new) new)"

fun closure_all :: "nat \<Rightarrow> (nat \<Rightarrow> nat list) \<Rightarrow> nat list \<Rightarrow> nat list \<Rightarrow> nat list option" where
  "closure_all n ch acc [] = Some acc"
| "closure_all 0 ch acc (x # xs) = None"
| "closure_all (Suc n) ch acc (x # xs) = closure_all n ch (acc @ x # xs) (concat (map ch (x # xs)))"


section \<open>\<open>UNION\<close>\<close>

lemma closure_union_distinct:
  "distinct seen \<Longrightarrow> distinct (closure_union n ch seen frontier)"
  by (induction n ch seen frontier rule: closure_union.induct) (auto simp: Let_def)

lemma closure_union_sound:
  "set frontier \<subseteq> set seen \<Longrightarrow> x \<in> set (closure_union n ch seen frontier) \<Longrightarrow>
     \<exists>r \<in> set seen. (x, r) \<in> (child_of ch)\<^sup>*"
proof (induction n ch seen frontier rule: closure_union.induct)
  case (2 n ch seen frontier)
  let ?new = "remdups (filter (\<lambda>c. c \<notin> set seen) (concat (map ch frontier)))"
  show ?case
  proof (cases "?new = []")
    case False
    then have "\<exists>r \<in> set (seen @ ?new). (x, r) \<in> (child_of ch)\<^sup>*"
      using 2 by (intro "2.IH") (auto simp: Let_def)
    then obtain r where r: "r \<in> set (seen @ ?new)" "(x, r) \<in> (child_of ch)\<^sup>*" by blast
    show ?thesis
    proof (cases "r \<in> set seen")
      case False
      then obtain p where "p \<in> set frontier" "r \<in> set (ch p)" using r(1) by auto
      then have "(r, p) \<in> child_of ch" "p \<in> set seen" using 2 by (auto simp: child_of_def)
      then show ?thesis using r(2) by (meson rtrancl.rtrancl_into_rtrancl)
    qed (use r in blast)
  qed (use 2 in \<open>auto simp: Let_def\<close>)
qed auto

lemma closure_union_mono: "set seen \<subseteq> set (closure_union n ch seen frontier)"
  by (induction n ch seen frontier rule: closure_union.induct) (auto simp: Let_def)

text \<open>
  With enough fuel the result is closed under children.  The nodes that can be children all lie in
  a finite set \<open>U\<close>.
\<close>

lemma closure_union_closed:
  assumes "finite U" "\<And>p. set (ch p) \<subseteq> U"
  shows "card (U - set seen) \<le> n \<Longrightarrow> set frontier \<subseteq> set seen \<Longrightarrow>
    (\<And>p. p \<in> set seen - set frontier \<Longrightarrow> set (ch p) \<subseteq> set seen) \<Longrightarrow>
    p \<in> set (closure_union n ch seen frontier) \<Longrightarrow>
    set (ch p) \<subseteq> set (closure_union n ch seen frontier)"
proof (induction n arbitrary: seen frontier)
  case 0
  then have "U \<subseteq> set seen" using assms(1) by auto
  then show ?case using assms(2) [of p] by auto
next
  case (Suc n)
  define new where "new = remdups (filter (\<lambda>c. c \<notin> set seen) (concat (map ch frontier)))"
  have cases: "closure_union (Suc n) ch seen frontier =
      (if new = [] then seen else closure_union n ch (seen @ new) new)"
    by (simp add: new_def Let_def)
  have fr: "set (ch q) \<subseteq> set seen \<union> set new" if "q \<in> set frontier" for q
    using that by (auto simp: new_def)
  show ?case
  proof (cases "new = []")
    case True
    then show ?thesis using Suc.prems cases fr [of p] by auto
  next
    case False
    then obtain c where c: "c \<in> set new" by (cases new) auto
    have "set new \<subseteq> U - set seen" using assms(2) by (fastforce simp: new_def)
    then have "card (U - set (seen @ new)) < card (U - set seen)"
      using c assms(1) by (intro psubset_card_mono) auto
    then have "card (U - set (seen @ new)) \<le> n" using Suc.prems(1) by simp
    then show ?thesis
      using Suc.IH [of "seen @ new" new] Suc.prems False cases fr by fastforce
  qed
qed

theorem closure_union_correct:
  assumes "finite U" "\<And>p. set (ch p) \<subseteq> U" "card U \<le> n"
  shows "set (closure_union n ch roots roots) = {x. \<exists>r \<in> set roots. (x, r) \<in> (child_of ch)\<^sup>*}"
proof (intro equalityI subsetI)
  fix x assume "x \<in> set (closure_union n ch roots roots)"
  then show "x \<in> {x. \<exists>r \<in> set roots. (x, r) \<in> (child_of ch)\<^sup>*}"
    using closure_union_sound [of roots roots] by auto
next
  fix x assume "x \<in> {x. \<exists>r \<in> set roots. (x, r) \<in> (child_of ch)\<^sup>*}"
  then obtain r where r: "r \<in> set roots" "(x, r) \<in> (child_of ch)\<^sup>*" by auto
  have "card (U - set roots) \<le> n" using assms(1,3) by (meson Diff_subset card_mono order_trans)
  then have closed: "set (ch p) \<subseteq> set (closure_union n ch roots roots)"
    if "p \<in> set (closure_union n ch roots roots)" for p
    using closure_union_closed [where U = U and ch = ch and seen = roots and frontier = roots and n = n and p = p]
      assms(1,2) that by auto
  show "x \<in> set (closure_union n ch roots roots)"
    using r(2,1)
  proof (induction rule: converse_rtrancl_induct)
    case base
    then show ?case using closure_union_mono [of roots] by auto
  next
    case (step y z)
    then have "y \<in> set (ch z)" "z \<in> set (closure_union n ch roots roots)" by (auto simp: child_of_def)
    then show ?case using closed [of z] by blast
  qed
qed


section \<open>\<open>UNION ALL\<close>\<close>

lemma closure_all_set:
  "closure_all n ch acc frontier = Some ids \<Longrightarrow>
     set ids = set acc \<union> {x. \<exists>r \<in> set frontier. (x, r) \<in> (child_of ch)\<^sup>*}"
proof (induction n ch acc frontier rule: closure_all.induct)
  case (3 n ch acc y ys)
  have kids: "{x. \<exists>r \<in> set (concat (map ch zs)). (x, r) \<in> (child_of ch)\<^sup>*} \<union> set zs =
      {x. \<exists>r \<in> set zs. (x, r) \<in> (child_of ch)\<^sup>*}" for zs
  proof (intro equalityI subsetI)
    fix x assume "x \<in> {x. \<exists>r \<in> set zs. (x, r) \<in> (child_of ch)\<^sup>*}"
    then obtain r where "r \<in> set zs" "(x, r) \<in> (child_of ch)\<^sup>*" by auto
    then show "x \<in> {x. \<exists>r \<in> set (concat (map ch zs)). (x, r) \<in> (child_of ch)\<^sup>*} \<union> set zs"
      by (auto elim!: rtranclE [of x r] simp: child_of_def)
  qed (auto simp: child_of_def intro: rtrancl.rtrancl_into_rtrancl)
  have "set ids = set acc \<union> (set (y # ys) \<union>
      {x. \<exists>r \<in> set (concat (map ch (y # ys))). (x, r) \<in> (child_of ch)\<^sup>*})"
    using 3 by (simp add: Un_assoc)
  then show ?case using kids [of "y # ys"] by blast
qed auto

lemma closure_all_level:
  "closure_all n ch acc frontier = None \<Longrightarrow> \<exists>x. \<exists>r \<in> set frontier. (x, r) \<in> child_of ch ^^ n"
proof (induction n ch acc frontier rule: closure_all.induct)
  case (3 n ch acc y ys)
  then obtain x c where "c \<in> set (concat (map ch (y # ys)))" "(x, c) \<in> child_of ch ^^ n" by fastforce
  moreover then obtain r where "r \<in> set (y # ys)" "(c, r) \<in> child_of ch" by (auto simp: child_of_def)
  ultimately show ?case by (metis relcomp.relcompI relpow.simps(2))
qed auto

lemma acyclic_relpow_bound:
  assumes "acyclic R" "finite U" "\<And>c p. (c, p) \<in> R \<Longrightarrow> c \<in> U" "(x, y) \<in> R ^^ n"
  shows "n \<le> card U"
proof -
  obtain f where f: "\<And>i. i < n \<Longrightarrow> (f i, f (Suc i)) \<in> R"
    using assms(4) by (auto simp: relpow_fun_conv)
  have path: "(f i, f j) \<in> R\<^sup>+" if "i < j" "j \<le> n" for i j
    using that
  proof (induction j)
    case (Suc j)
    then show ?case
      using f [of j] by (cases "i = j") (auto intro: trancl.trancl_into_trancl simp: less_Suc_eq)
  qed simp
  have "inj_on f {..<n}"
  proof (rule inj_onI)
    fix i j assume "i \<in> {..<n}" "j \<in> {..<n}" "f i = f j"
    then show "i = j"
      using path [of i j] path [of j i] assms(1) by (cases i j rule: linorder_cases) (auto simp: acyclic_def)
  qed
  moreover have "f ` {..<n} \<subseteq> U" using f assms(3) by auto
  ultimately have "card {..<n} \<le> card U" using assms(2) by (metis card_image card_mono)
  then show ?thesis by simp
qed

theorem closure_all_terminates:
  assumes "acyclic (child_of ch)" "finite U" "\<And>p. set (ch p) \<subseteq> U" "card U < n"
  shows "\<exists>ids. closure_all n ch [] roots = Some ids \<and>
    set ids = {x. \<exists>r \<in> set roots. (x, r) \<in> (child_of ch)\<^sup>*}"
proof (cases "closure_all n ch [] roots")
  case None
  then obtain x r where "(x, r) \<in> child_of ch ^^ n" using closure_all_level by blast
  then have "n \<le> card U"
    using assms(1-3) by (intro acyclic_relpow_bound [of "child_of ch" U]) (auto simp: child_of_def)
  then show ?thesis using assms(4) by simp
qed (auto dest: closure_all_set)

end
