(* ===== verification/FileOps.thy ===== *)
theory FileOps
  imports Quota Namespace Closure
begin

text \<open>
  The operations of \<open>FilesService\<close> (backend/src/files/files.service.ts) on the database state.  Each
  operation runs in one transaction under the lock on the user row, so it is one function from the
  state to a result; an \<open>Inl\<close> leaves the database as it was.  The checks an operation makes before
  its transaction read a state of their own (the parameter \<open>s0\<close>), because other requests may commit
  in between.  Rows whose physical object is unlinked after the commit are part of the result.  The
  placement of a new object (a random path) is a parameter.
\<close>

definition validateDisplayName :: "ustring \<Rightarrow> ustring res" where
  "validateDisplayName name =
     (let trimmed = trim name
      in if trimmed = [] \<or> 255 < length trimmed \<or> 47 \<in> set trimmed \<or> 92 \<in> set trimmed
           \<or> list_ex (\<lambda>c. c < 32 \<or> c = 127) trimmed \<or> trimmed = [46] \<or> trimmed = [46, 46]
         then Inl (BadRequest ''Invalid file name'') else Inr trimmed)"

fun sum_sizes :: "int \<Rightarrow> file_row list \<Rightarrow> int res" where
  "sum_sizes acc [] = Inr acc"
| "sum_sizes acc (f # fs) =
     bindE (parseDatabaseSize (bigint_text (f_size f)) ''Invalid file size metadata'') (\<lambda>bytes.
     if \<not> safe_integer bytes \<or> bytes < 0 \<or> \<not> safe_integer (acc + bytes)
     then Inl (BadRequest ''Invalid file size metadata'') else sum_sizes (acc + bytes) fs)"

definition sumFileSizes :: "file_row list \<Rightarrow> int res" where
  "sumFileSizes fs = sum_sizes 0 fs"


section \<open>Lookups\<close>

definition file_of :: "db \<Rightarrow> nat \<Rightarrow> nat \<Rightarrow> file_row option" where
  "file_of s user k = find (\<lambda>f. f_id f = k \<and> f_userId f = user) (files s)"

definition folder_of :: "db \<Rightarrow> nat \<Rightarrow> nat \<Rightarrow> folder_row option" where
  "folder_of s user k = find (\<lambda>d. d_id d = k \<and> d_userId d = user) (folders s)"

definition mirror_of :: "db \<Rightarrow> nat \<Rightarrow> nat \<Rightarrow> file_row option" where
  "mirror_of s user k =
     find (\<lambda>f. f_folderId f = Some k \<and> f_userId f = user \<and> f_isFolder f) (files s)"

definition findOne :: "db \<Rightarrow> nat \<Rightarrow> nat \<Rightarrow> file_row res" where
  "findOne s user k = require (file_of s user k) (NotFound ''File not found'')"

text \<open>The query with \<open>ILIKE\<close> and the order of the collation are the database's.\<close>

definition findAll :: "(ustring \<Rightarrow> ustring \<Rightarrow> bool) \<Rightarrow> (file_row list \<Rightarrow> file_row list) \<Rightarrow> db \<Rightarrow> nat
    \<Rightarrow> nat option \<Rightarrow> ustring option \<Rightarrow> bool \<Rightarrow> file_row list" where
  "findAll ilike order s user parent search include_deleted =
     order (filter (\<lambda>f. f_userId f = user \<and> \<not> f_isFolder f
        \<and> (include_deleted \<or> \<not> f_isDeleted f)
        \<and> (if parent \<noteq> None \<and> parent \<noteq> Some 0 then f_parentId f = parent else f_parentId f = None)
        \<and> (case search of None \<Rightarrow> True | Some q \<Rightarrow> q = [] \<or> ilike (f_name f) q)) (files s))"

fun with_mirrors :: "(nat \<times> nat) list \<Rightarrow> folder_row list \<Rightarrow> (folder_row \<times> nat) list res" where
  "with_mirrors m [] = Inr []"
| "with_mirrors m (d # ds) =
     (case map_of m (d_id d) of
        None \<Rightarrow> Inl (NotFound ''Folder mirror not found'')
      | Some i \<Rightarrow> if i = 0 then Inl (NotFound ''Folder mirror not found'')
                  else bindE (with_mirrors m ds) (\<lambda>rest. Inr ((d, i) # rest)))"

text \<open>
  \<open>new Map(mirrors.map(\<dots>))\<close> keeps the last entry of a key, hence the reversal.
\<close>

definition findFolders :: "(folder_row list \<Rightarrow> folder_row list) \<Rightarrow> db \<Rightarrow> nat \<Rightarrow> nat option \<Rightarrow> bool
    \<Rightarrow> (folder_row \<times> nat) list res" where
  "findFolders order s user parent include_deleted =
     (let ds = order (filter (\<lambda>d. d_userId d = user \<and> d_isDeleted d = include_deleted
            \<and> (if parent \<noteq> None \<and> parent \<noteq> Some 0 then d_parentId d = parent else d_parentId d = None))
            (folders s))
      in if ds = [] then Inr []
         else let ms = filter (\<lambda>f. f_userId f = user \<and> f_folderId f \<in> Some ` set (map d_id ds)
                  \<and> f_isFolder f \<and> f_isDeleted f = include_deleted) (files s)
              in with_mirrors (rev (map (\<lambda>f. (the (f_folderId f), f_id f)) ms)) ds)"

definition findFolder :: "db \<Rightarrow> nat \<Rightarrow> nat \<Rightarrow> (folder_row \<times> nat) res" where
  "findFolder s user k =
     bindE (require (find (\<lambda>d. d_id d = k \<and> d_userId d = user \<and> \<not> d_isDeleted d) (folders s))
        (NotFound ''Folder not found'')) (\<lambda>d.
     bindE (require (find (\<lambda>f. f_folderId f = Some k \<and> f_userId f = user \<and> f_isFolder f \<and> \<not> f_isDeleted f)
        (files s)) (NotFound ''Folder mirror not found'')) (\<lambda>m.
     Inr (d, f_id m)))"

definition assertFolderOwnership :: "db \<Rightarrow> nat \<Rightarrow> nat option \<Rightarrow> unit res" where
  "assertFolderOwnership s user folder =
     (case folder of None \<Rightarrow> Inr ()
      | Some k \<Rightarrow> if k = 0 then Inr ()
          else ensure (folder_of s user k \<noteq> None)
                 (Forbidden ''Target folder not found or access denied''))"

definition getTrash :: "(file_row list \<Rightarrow> file_row list) \<Rightarrow> (folder_row list \<Rightarrow> folder_row list) \<Rightarrow> db \<Rightarrow> nat
    \<Rightarrow> file_row list \<times> folder_row list" where
  "getTrash forder dorder s user =
     (forder (filter (\<lambda>f. f_userId f = user \<and> f_isDeleted f \<and> \<not> f_isFolder f) (files s)),
      dorder (filter (\<lambda>d. d_userId d = user \<and> d_isDeleted d) (folders s)))"

definition search :: "(ustring \<Rightarrow> ustring \<Rightarrow> bool) \<Rightarrow> (file_row list \<Rightarrow> file_row list)
    \<Rightarrow> (folder_row list \<Rightarrow> folder_row list) \<Rightarrow> db \<Rightarrow> nat \<Rightarrow> ustring \<Rightarrow> file_row list \<times> folder_row list" where
  "search ilike forder dorder s user q =
     (forder (filter (\<lambda>f. f_userId f = user \<and> \<not> f_isDeleted f \<and> ilike (f_name f) q) (files s)),
      dorder (filter (\<lambda>d. d_userId d = user \<and> \<not> d_isDeleted d \<and> ilike (d_name d) q) (folders s)))"

definition getStorageInfo :: "db \<Rightarrow> nat \<Rightarrow> (int \<times> int \<times> nat \<times> nat) res" where
  "getStorageInfo s user =
     bindE (require (findById s user) (Forbidden ''User not found'')) (\<lambda>u.
     Inr (u_storageQuota u, u_storageUsed u,
       length (filter (\<lambda>f. f_userId f = user \<and> \<not> f_isDeleted f \<and> \<not> f_isFolder f) (files s)),
       length (filter (\<lambda>d. d_userId d = user \<and> \<not> d_isDeleted d) (folders s))))"

text \<open>A row update checks the length of the name, as an insertion does.\<close>

definition save_fileE :: "file_row \<Rightarrow> db \<Rightarrow> db res" where
  "save_fileE f s =
     (if varchar_ok 255 (f_name f) then Inr (save_file f s)
      else Inl (DbError ''value too long for type character varying(255)''))"

definition save_folderE :: "folder_row \<Rightarrow> db \<Rightarrow> db res" where
  "save_folderE d s =
     (if varchar_ok 255 (d_name d) then Inr (save_folder d s)
      else Inl (DbError ''value too long for type character varying(255)''))"

lemma save_fileE_Inr [err_simps]: "save_fileE f s = Inr s' \<longleftrightarrow> varchar_ok 255 (f_name f) \<and> s' = save_file f s"
  by (auto simp: save_fileE_def)

lemma save_folderE_Inr [err_simps]:
  "save_folderE d s = Inr s' \<longleftrightarrow> varchar_ok 255 (d_name d) \<and> s' = save_folder d s"
  by (auto simp: save_folderE_def)


section \<open>Creation\<close>

record placement =
  pl_storagePath :: ustring
  pl_storageLocationId :: ustring
  pl_relativeObjectKey :: ustring

definition new_file :: "ustring \<Rightarrow> placement \<Rightarrow> int \<Rightarrow> ustring option \<Rightarrow> nat option \<Rightarrow> nat \<Rightarrow> file_row" where
  "new_file name pl bytes mime parent user =
     \<lparr>f_id = 0, f_name = name, f_storagePath = Some (pl_storagePath pl),
      f_storageLocationId = Some (pl_storageLocationId pl),
      f_relativeObjectKey = Some (pl_relativeObjectKey pl), f_size = bytes, f_mimeType = mime,
      f_isFolder = False, f_isDeleted = False, f_deletedAt = None, f_parentId = parent,
      f_folderId = None, f_version = 0, f_uploadId = None, f_userId = user\<rparr>"

definition createFile :: "db \<Rightarrow> placement \<Rightarrow> nat \<Rightarrow> ustring \<Rightarrow> int \<Rightarrow> ustring option \<Rightarrow> nat option \<Rightarrow> db
    \<Rightarrow> (db \<times> file_row) res" where
  "createFile s0 pl user name bytes mime parent s =
     bindE (validateDisplayName name) (\<lambda>displayName.
     bindE (require (findById s0 user) (Forbidden ''User not found'')) (\<lambda>_.
     bindE (assertFolderOwnership s0 user parent) (\<lambda>_.
     bindE (allocateNamespaceName s user parent displayName KFile None None) (\<lambda>chosen.
     bindE (insert_file (new_file chosen pl bytes mime parent user) s) (\<lambda>(s1, file).
     bindE (updateStorageUsed user bytes s1) (\<lambda>s2. Inr (s2, file)))))))"

definition new_folder :: "ustring \<Rightarrow> nat option \<Rightarrow> nat \<Rightarrow> folder_row" where
  "new_folder name parent user =
     \<lparr>d_id = 0, d_name = name, d_isDeleted = False, d_deletedAt = None, d_parentId = parent,
      d_userId = user\<rparr>"

definition new_mirror :: "folder_row \<Rightarrow> file_row" where
  "new_mirror d =
     \<lparr>f_id = 0, f_name = d_name d, f_storagePath = None, f_storageLocationId = None,
      f_relativeObjectKey = None, f_size = 0, f_mimeType = None, f_isFolder = True,
      f_isDeleted = False, f_deletedAt = None, f_parentId = d_parentId d, f_folderId = Some (d_id d),
      f_version = 1, f_uploadId = None, f_userId = d_userId d\<rparr>"

definition createFolder :: "db \<Rightarrow> nat \<Rightarrow> ustring \<Rightarrow> nat option \<Rightarrow> db \<Rightarrow> (db \<times> file_row) res" where
  "createFolder s0 user name parent s =
     bindE (ensure (trim name \<noteq> []) (BadRequest ''Folder name must not be empty'')) (\<lambda>_.
     bindE (assertFolderOwnership s0 user parent) (\<lambda>_.
     bindE (allocateNamespaceName s user parent name KFolder None None) (\<lambda>chosen.
     bindE (insert_folder (new_folder chosen parent user) s) (\<lambda>(s1, d).
     insert_file (new_mirror d) s1))))"


section \<open>Renaming and moving\<close>

text \<open>\<open>undefined\<close> keeps the current parent; a restored file whose folder is gone moves to the root.\<close>

definition wanted_parent :: "nat option option \<Rightarrow> nat option \<Rightarrow> nat option" where
  "wanted_parent parent current = (case parent of None \<Rightarrow> current | Some p \<Rightarrow> p)"

definition active_parent :: "db \<Rightarrow> nat \<Rightarrow> nat option \<Rightarrow> nat option" where
  "active_parent s user parent =
     (case parent of None \<Rightarrow> None | Some p \<Rightarrow> if live_folder s user p then Some p else None)"

text \<open>The name of the file at its destination: allocated again when something about it changes.\<close>

definition placed_name :: "db \<Rightarrow> nat \<Rightarrow> file_row \<Rightarrow> ustring option \<Rightarrow> nat option \<Rightarrow> bool \<Rightarrow> ustring res" where
  "placed_name s user f name destination restore =
     (if (restore \<and> f_isDeleted f) \<or> (name \<noteq> None \<and> name \<noteq> Some (f_name f)) \<or> destination \<noteq> f_parentId f
      then allocateNamespaceName s user destination
             (case name of None \<Rightarrow> f_name f | Some n \<Rightarrow> n) KFile (Some (f_id f)) None
      else Inr (f_name f))"

definition changeFilePlacement :: "nat \<Rightarrow> nat \<Rightarrow> ustring option \<Rightarrow> nat option option \<Rightarrow> bool \<Rightarrow> db
    \<Rightarrow> (db \<times> file_row) res" where
  "changeFilePlacement user k name parent restore s =
     bindE (require (file_of s user k) (NotFound ''File not found'')) (\<lambda>f.
     bindE (ensure (\<not> f_isFolder f) (BadRequest ''Cannot update folder via files endpoint'')) (\<lambda>_.
     let destination = (if restore then active_parent s user (wanted_parent parent (f_parentId f))
                        else wanted_parent parent (f_parentId f))
     in bindE (placed_name s user f name destination restore) (\<lambda>chosen.
     let f1 = f\<lparr>f_name := chosen, f_parentId := destination\<rparr>;
         f2 = (if restore then f1\<lparr>f_isDeleted := False, f_deletedAt := None\<rparr> else f1)
     in bindE (save_fileE f2 s) (\<lambda>s'. Inr (s', f2)))))"

definition updateFile :: "db \<Rightarrow> nat \<Rightarrow> nat \<Rightarrow> ustring option \<Rightarrow> nat option option \<Rightarrow> db
    \<Rightarrow> (db \<times> file_row) res" where
  "updateFile s0 user k name parent s =
     bindE (case name of None \<Rightarrow> Inr None
              | Some n \<Rightarrow> bindE (validateDisplayName n) (\<lambda>m. Inr (Some m))) (\<lambda>name'.
     bindE (case parent of None \<Rightarrow> Inr () | Some p \<Rightarrow> assertFolderOwnership s0 user p) (\<lambda>_.
     changeFilePlacement user k name' parent False s))"

text \<open>
  Children of a folder for the recursive queries: \<open>assertNoCycle\<close> follows every folder and uses
  \<open>UNION ALL\<close>, the deletions follow the folders of the user and use \<open>UNION\<close>.
\<close>

definition subfolders :: "db \<Rightarrow> nat \<Rightarrow> nat list" where
  "subfolders s p = map d_id (filter (\<lambda>d. d_parentId d = Some p) (folders s))"

definition subfolders_of :: "db \<Rightarrow> nat \<Rightarrow> nat \<Rightarrow> nat list" where
  "subfolders_of s user p = map d_id (filter (\<lambda>d. d_parentId d = Some p \<and> d_userId d = user) (folders s))"

definition assertNoCycle :: "db \<Rightarrow> nat \<Rightarrow> nat \<Rightarrow> unit res" where
  "assertNoCycle s folder target =
     (case closure_all (Suc (length (folders s))) (subfolders s) []
             (map d_id (filter (\<lambda>d. d_id d = folder) (folders s))) of
        None \<Rightarrow> Inl Diverges
      | Some ids \<Rightarrow> ensure (target \<notin> set ids) (BadRequest ''Cannot move folder into its own subtree''))"

definition updateFolder_checks :: "db \<Rightarrow> nat \<Rightarrow> nat \<Rightarrow> ustring option \<Rightarrow> nat option option \<Rightarrow> unit res" where
  "updateFolder_checks s0 user k name parent =
     bindE (ensure (case name of None \<Rightarrow> True | Some n \<Rightarrow> trim n \<noteq> [])
        (BadRequest ''Folder name must not be empty'')) (\<lambda>_.
     case parent of
       None \<Rightarrow> Inr ()
     | Some p \<Rightarrow> bindE (assertFolderOwnership s0 user p) (\<lambda>_.
         case p of None \<Rightarrow> Inr () | Some q \<Rightarrow> assertNoCycle s0 k q))"

text \<open>\<open>data.name && data.name.trim() ? data.name : folder.name\<close>\<close>

definition requested_name :: "ustring option \<Rightarrow> ustring \<Rightarrow> ustring" where
  "requested_name name current =
     (case name of None \<Rightarrow> current | Some n \<Rightarrow> if trim n \<noteq> [] then n else current)"

text \<open>A folder and its mirror take an allocated name and a parent together.\<close>

definition rename_pair :: "db \<Rightarrow> nat \<Rightarrow> folder_row \<Rightarrow> file_row \<Rightarrow> ustring \<Rightarrow> nat option
    \<Rightarrow> (folder_row \<times> file_row) res" where
  "rename_pair s user folder mirror requested destination =
     bindE (allocateNamespaceName s user destination requested KFolder (Some (f_id mirror)) (Some (d_id folder)))
       (\<lambda>chosen. Inr (folder\<lparr>d_name := chosen, d_parentId := destination\<rparr>,
                      mirror\<lparr>f_name := chosen, f_parentId := destination\<rparr>))"

definition save_pair :: "folder_row \<Rightarrow> file_row \<Rightarrow> db \<Rightarrow> db res" where
  "save_pair folder mirror s = bindE (save_folderE folder s) (save_fileE mirror)"

definition updateFolder :: "db \<Rightarrow> nat \<Rightarrow> nat \<Rightarrow> ustring option \<Rightarrow> nat option option \<Rightarrow> db
    \<Rightarrow> (db \<times> file_row) res" where
  "updateFolder s0 user k name parent s =
     bindE (updateFolder_checks s0 user k name parent) (\<lambda>_.
     bindE (require (folder_of s user k) (NotFound ''Folder not found'')) (\<lambda>folder.
     bindE (require (mirror_of s user k) (NotFound ''Folder mirror not found'')) (\<lambda>mirror.
     let destination = wanted_parent parent (d_parentId folder)
     in bindE (case wanted_parent parent None of Some q \<Rightarrow> assertNoCycle s k q | None \<Rightarrow> Inr ()) (\<lambda>_.
     let requested = requested_name name (d_name folder)
     in bindE (if requested \<noteq> d_name folder \<or> destination \<noteq> d_parentId folder
               then rename_pair s user folder mirror requested destination
               else Inr (folder, mirror)) (\<lambda>(folder', mirror').
     bindE (save_pair folder' mirror' s) (\<lambda>s'. Inr (s', mirror')))))))"

definition moveFile :: "db \<Rightarrow> nat \<Rightarrow> nat \<Rightarrow> nat option \<Rightarrow> db \<Rightarrow> (db \<times> file_row) res" where
  "moveFile s0 user k target s =
     bindE (assertFolderOwnership s0 user target) (\<lambda>_.
     bindE (findOne s0 user k) (\<lambda>current.
     if f_isFolder current then
       (case f_folderId current of
          None \<Rightarrow> Inl (NotFound ''Folder not found'')
        | Some d \<Rightarrow> updateFolder s0 user d None (Some target) s)
     else changeFilePlacement user k None (Some target) False s))"


section \<open>Trash\<close>

text \<open>
  \<open>removeFile\<close> reads the row and saves it without a transaction.  \<open>save\<close> of the object-relational
  mapper updates the row with this primary key, and inserts it when there is none any more.
\<close>

definition upsert_file :: "file_row \<Rightarrow> db \<Rightarrow> db" where
  "upsert_file f s =
     (if f_id f \<in> f_id ` set (files s) then save_file f s else s\<lparr>files := files s @ [f]\<rparr>)"

definition removeFile :: "db \<Rightarrow> int \<Rightarrow> nat \<Rightarrow> nat \<Rightarrow> db \<Rightarrow> db res" where
  "removeFile s0 now user k s =
     bindE (findOne s0 user k) (\<lambda>file.
     bindE (ensure (\<not> f_isFolder file) (BadRequest ''Cannot delete folder via files endpoint'')) (\<lambda>_.
     Inr (upsert_file (file\<lparr>f_isDeleted := True, f_deletedAt := Some now\<rparr>) s)))"

definition removeFolder :: "int \<Rightarrow> nat \<Rightarrow> nat \<Rightarrow> db \<Rightarrow> db res" where
  "removeFolder now user k s =
     bindE (require (folder_of s user k) (NotFound ''Folder not found'')) (\<lambda>folder.
     bindE (require (mirror_of s user k) (NotFound ''Folder mirror not found'')) (\<lambda>mirror.
     save_pair (folder\<lparr>d_isDeleted := True, d_deletedAt := Some now\<rparr>)
               (mirror\<lparr>f_isDeleted := True, f_deletedAt := Some now\<rparr>) s))"

definition restoreFile :: "nat \<Rightarrow> nat \<Rightarrow> db \<Rightarrow> db res" where
  "restoreFile user k s = bindE (changeFilePlacement user k None None True s) (\<lambda>(s', _). Inr s')"

definition restoreFolder :: "nat \<Rightarrow> nat \<Rightarrow> db \<Rightarrow> db res" where
  "restoreFolder user k s =
     bindE (require (folder_of s user k) (NotFound ''Folder not found'')) (\<lambda>folder0.
     bindE (require (mirror_of s user k) (NotFound ''Folder mirror not found'')) (\<lambda>mirror0.
     let orphaned = d_parentId folder0 \<noteq> None \<and> active_parent s user (d_parentId folder0) = None;
         folder = (if orphaned then folder0\<lparr>d_parentId := None\<rparr> else folder0);
         mirror = (if orphaned then mirror0\<lparr>f_parentId := None\<rparr> else mirror0)
     in bindE (if d_isDeleted folder
               then rename_pair s user folder mirror (d_name folder) (d_parentId folder)
               else Inr (folder, mirror)) (\<lambda>(folder', mirror').
     save_pair (folder'\<lparr>d_isDeleted := False, d_deletedAt := None\<rparr>)
               (mirror'\<lparr>f_isDeleted := False, f_deletedAt := None\<rparr>) s)))"


section \<open>Permanent deletion\<close>

text \<open>The result holds the rows whose object is unlinked after the commit.\<close>

definition has_object :: "file_row \<Rightarrow> bool" where
  "has_object f \<longleftrightarrow> f_storagePath f \<noteq> None \<and> f_storagePath f \<noteq> Some []"

definition deleteFilePermanently :: "nat \<Rightarrow> nat \<Rightarrow> db \<Rightarrow> (db \<times> file_row list) res" where
  "deleteFilePermanently user k s =
     bindE (require (file_of s user k) (NotFound ''File not found'')) (\<lambda>file.
     bindE (decrementStorageUsed user (f_size file) s) (\<lambda>s1.
     Inr (delete_files [k] s1, filter has_object [file])))"

definition deleteFolderPermanently :: "nat \<Rightarrow> nat \<Rightarrow> db \<Rightarrow> (db \<times> file_row list) res" where
  "deleteFolderPermanently user k s =
     bindE (require (folder_of s user k) (NotFound ''Folder not found'')) (\<lambda>_.
     let ids = closure_union (length (folders s)) (subfolders_of s user) [k] [k]
     in bindE (ensure (length (filter (\<lambda>d. d_id d \<in> set ids \<and> d_userId d = user) (folders s)) = length ids)
          (NotFound ''Folder subtree is inconsistent'')) (\<lambda>_.
     let descendants = filter (\<lambda>f. f_userId f = user \<and> f_parentId f \<in> Some ` set ids \<and> \<not> f_isFolder f) (files s);
         mirrors = filter (\<lambda>f. f_userId f = user \<and> f_folderId f \<in> Some ` set ids \<and> f_isFolder f) (files s)
     in bindE (ensure (length mirrors = length ids \<and> (\<forall>i \<in> set ids. Some i \<in> set (map f_folderId mirrors)))
          (NotFound ''Folder mirror not found'')) (\<lambda>_.
     bindE (sumFileSizes descendants) (\<lambda>total_size.
     bindE (decrementStorageUsed user total_size s) (\<lambda>s1.
     Inr (delete_folders ids (delete_files (map f_id (descendants @ mirrors)) s1),
          filter has_object descendants))))))"

fun by_id :: "nat list \<Rightarrow> file_row list \<Rightarrow> file_row list" where
  "by_id seen [] = []"
| "by_id seen (f # fs) = (if f_id f \<in> set seen then by_id seen fs else f # by_id (f_id f # seen) fs)"

definition emptyTrash :: "nat \<Rightarrow> db \<Rightarrow> (db \<times> file_row list) res" where
  "emptyTrash user s =
     (let roots = map d_id (filter (\<lambda>d. d_userId d = user \<and> d_isDeleted d) (folders s));
          ids = closure_union (length (folders s)) (subfolders_of s user) roots roots
      in bindE (ensure (ids = [] \<or>
            length (filter (\<lambda>d. d_id d \<in> set ids \<and> d_userId d = user) (folders s)) = length ids)
           (NotFound ''Trash folder subtree is inconsistent'')) (\<lambda>_.
      let direct = filter (\<lambda>f. f_userId f = user \<and> f_isDeleted f \<and> \<not> f_isFolder f) (files s);
          inside = filter (\<lambda>f. f_userId f = user \<and> f_parentId f \<in> Some ` set ids \<and> \<not> f_isFolder f) (files s);
          mirrors = filter (\<lambda>f. f_userId f = user \<and> f_folderId f \<in> Some ` set ids \<and> f_isFolder f) (files s)
      in bindE (ensure (ids = [] \<or>
            length mirrors = length ids \<and> (\<forall>i \<in> set ids. Some i \<in> set (map f_folderId mirrors)))
           (NotFound ''Folder mirror not found'')) (\<lambda>_.
      let ordinary = by_id [] (direct @ inside)
      in bindE (sumFileSizes ordinary) (\<lambda>total_size.
      bindE (decrementStorageUsed user total_size s) (\<lambda>s1.
      Inr (delete_folders ids (delete_files (map f_id (ordinary @ mirrors)) s1),
           filter has_object ordinary))))))"


section \<open>Copying\<close>

text \<open>
  A copy touches the disk before the transaction.  \<open>copy_env\<close> says what happens outside the
  service: whether the physical copy succeeds, how the commit ends, whether the reconciliation query
  and the removal of the destination succeed.  The disk is the list of existing objects.
\<close>

datatype commit_outcome = Committed | CommitFailed | CommitAmbiguous

record copy_env =
  ce_target :: placement
  ce_copy_ok :: bool
  ce_commit :: commit_outcome
  ce_query_ok :: bool
  ce_unlink_ok :: bool

definition unlink :: "bool \<Rightarrow> ustring \<Rightarrow> ustring list \<Rightarrow> ustring list" where
  "unlink ok p disk = (if ok then filter (\<lambda>q. q \<noteq> p) disk else disk)"

definition copy_checks :: "db \<Rightarrow> nat \<Rightarrow> nat \<Rightarrow> nat option \<Rightarrow> (file_row \<times> int \<times> ustring) res" where
  "copy_checks s0 user k target =
     bindE (findOne s0 user k) (\<lambda>source.
     bindE (require (findById s0 user) (Forbidden ''User not found'')) (\<lambda>_.
     bindE (assertFolderOwnership s0 user target) (\<lambda>_.
     bindE (parseDatabaseSize (bigint_text (f_size source)) ''Invalid file size metadata'') (\<lambda>bytes.
     bindE (ensure (safe_integer bytes \<and> 0 \<le> bytes) (BadRequest ''Invalid file size metadata'')) (\<lambda>_.
     bindE (validateDisplayName (f_name source)) (\<lambda>name.
     Inr (source, bytes, name)))))))"

definition copy_tx :: "placement \<Rightarrow> file_row \<Rightarrow> int \<Rightarrow> ustring \<Rightarrow> nat \<Rightarrow> nat option \<Rightarrow> db \<Rightarrow> (db \<times> file_row) res" where
  "copy_tx pl source bytes name user target s =
     bindE (updateStorageUsed user bytes s) (\<lambda>s1.
     bindE (allocateNamespaceName s1 user target name KFile None None) (\<lambda>chosen.
     insert_file (new_file chosen pl bytes (f_mimeType source) target user) s1))"

text \<open>\<open>resolveFilePath\<close> refuses a row without a complete placement, such as a mirror.\<close>

definition resolvable :: "file_row \<Rightarrow> bool" where
  "resolvable f \<longleftrightarrow> f_storageLocationId f \<noteq> None \<and> f_relativeObjectKey f \<noteq> None
     \<and> f_relativeObjectKey f \<noteq> Some []"

definition persisted_copy :: "db \<Rightarrow> nat \<Rightarrow> nat \<Rightarrow> placement \<Rightarrow> bool" where
  "persisted_copy s k user pl \<longleftrightarrow> (\<exists>f \<in> set (files s). f_id f = k \<and> f_userId f = user
     \<and> f_storageLocationId f = Some (pl_storageLocationId pl)
     \<and> f_relativeObjectKey f = Some (pl_relativeObjectKey pl))"

definition copyFile :: "copy_env \<Rightarrow> db \<Rightarrow> nat \<Rightarrow> nat \<Rightarrow> nat option \<Rightarrow> db \<Rightarrow> ustring list
    \<Rightarrow> db \<times> ustring list \<times> file_row res" where
  "copyFile env s0 user k target s disk =
     (case copy_checks s0 user k target of
        Inl e \<Rightarrow> (s, disk, Inl e)
      | Inr (source, bytes, name) \<Rightarrow>
          let path = pl_storagePath (ce_target env)
          in if \<not> (ce_copy_ok env \<and> resolvable source) then (s, disk, Inl (PlainError ''copy failed''))
             else let disk1 = path # disk
                  in case copy_tx (ce_target env) source bytes name user target s of
                       Inl e \<Rightarrow> (s, unlink (ce_unlink_ok env) path disk1, Inl e)
                     | Inr (s', copy) \<Rightarrow>
                         (case ce_commit env of
                            Committed \<Rightarrow> (s', disk1, Inr copy)
                          | outcome \<Rightarrow>
                              let s2 = (if outcome = CommitAmbiguous then s' else s)
                              in (s2,
                                  if ce_query_ok env \<and> \<not> persisted_copy s2 (f_id copy) user (ce_target env)
                                  then unlink (ce_unlink_ok env) path disk1 else disk1,
                                  Inl (PlainError ''commit failed''))))"

end
