(* ===== verification/FileTree.thy ===== *)
theory FileTree
  imports FileOps
begin

text \<open>
  The invariant of the file tree: keys are unique, folders and their mirror rows correspond one to
  one, every parent is an existing folder of the same user and the folders form a forest, names are
  unique among the live entries of a folder, and the quota of every user counts exactly the bytes of
  the rows the user owns.  Every operation of \<open>FilesService\<close> preserves it, outside three uses that
  FileTreeOps names (\<open>safe_op\<close>) and FileClaims shows to break it.
\<close>

definition agree :: "file_row \<Rightarrow> folder_row \<Rightarrow> bool" where
  "agree f d \<longleftrightarrow> f_isFolder f \<and> f_folderId f = Some (d_id d) \<and> f_userId f = d_userId d
     \<and> f_name f = d_name d \<and> f_parentId f = d_parentId d \<and> f_isDeleted f = d_isDeleted d \<and> f_size f = 0"

definition keys_ok :: "db \<Rightarrow> bool" where
  "keys_ok s \<longleftrightarrow> distinct (map f_id (files s)) \<and> distinct (map d_id (folders s))
     \<and> (\<forall>f \<in> set (files s). 0 < f_id f \<and> f_id f < next_file s)
     \<and> (\<forall>d \<in> set (folders s). 0 < d_id d \<and> d_id d < next_folder s) \<and> 0 < next_file s \<and> 0 < next_folder s"

definition mirrors_on :: "file_row set \<Rightarrow> folder_row set \<Rightarrow> bool" where
  "mirrors_on F D \<longleftrightarrow>
     (\<forall>d \<in> D. \<exists>f \<in> F. agree f d)
     \<and> (\<forall>f \<in> F. f_isFolder f \<longrightarrow> (\<exists>d \<in> D. agree f d))
     \<and> (\<forall>f \<in> F. \<forall>g \<in> F. f_isFolder f \<and> f_isFolder g \<and> f_folderId f = f_folderId g \<longrightarrow> f = g)
     \<and> (\<forall>f \<in> F. \<not> f_isFolder f \<longrightarrow> f_folderId f = None)"

definition mirrors_ok :: "db \<Rightarrow> bool" where
  "mirrors_ok s \<longleftrightarrow> mirrors_on (set (files s)) (set (folders s))"

definition parent_rel :: "db \<Rightarrow> (nat \<times> nat) set" where
  "parent_rel s = {(d_id d, p) |d p. d \<in> set (folders s) \<and> d_parentId d = Some p}"

lemma parent_relI: "d \<in> set (folders s) \<Longrightarrow> d_parentId d = Some p \<Longrightarrow> (d_id d, p) \<in> parent_rel s"
  by (auto simp: parent_rel_def)

definition has_parent :: "db \<Rightarrow> nat \<Rightarrow> nat option \<Rightarrow> bool" where
  "has_parent s user parent \<longleftrightarrow>
     (case parent of None \<Rightarrow> True | Some p \<Rightarrow> \<exists>d \<in> set (folders s). d_id d = p \<and> d_userId d = user)"

definition tree_ok :: "db \<Rightarrow> bool" where
  "tree_ok s \<longleftrightarrow>
     (\<forall>d \<in> set (folders s). has_parent s (d_userId d) (d_parentId d))
     \<and> (\<forall>f \<in> set (files s). has_parent s (f_userId f) (f_parentId f))
     \<and> acyclic (parent_rel s)"

text \<open>Two ordinary files, two folders, or a file and a folder clash when live, in one place and of one name.\<close>

definition live_file_at :: "nat \<Rightarrow> nat option \<Rightarrow> ustring \<Rightarrow> file_row \<Rightarrow> bool" where
  "live_file_at user parent name f \<longleftrightarrow> \<not> f_isFolder f \<and> \<not> f_isDeleted f \<and> f_userId f = user
     \<and> f_parentId f = parent \<and> f_name f = name"

definition live_folder_at :: "nat \<Rightarrow> nat option \<Rightarrow> ustring \<Rightarrow> folder_row \<Rightarrow> bool" where
  "live_folder_at user parent name d \<longleftrightarrow> \<not> d_isDeleted d \<and> d_userId d = user
     \<and> d_parentId d = parent \<and> d_name d = name"

definition file_clash :: "file_row \<Rightarrow> file_row \<Rightarrow> bool" where
  "file_clash f g \<longleftrightarrow> \<not> f_isFolder f \<and> \<not> f_isDeleted f \<and> live_file_at (f_userId f) (f_parentId f) (f_name f) g"

definition folder_clash :: "folder_row \<Rightarrow> folder_row \<Rightarrow> bool" where
  "folder_clash d e \<longleftrightarrow> \<not> d_isDeleted d \<and> live_folder_at (d_userId d) (d_parentId d) (d_name d) e"

definition mixed_clash :: "file_row \<Rightarrow> folder_row \<Rightarrow> bool" where
  "mixed_clash f d \<longleftrightarrow> \<not> f_isFolder f \<and> \<not> f_isDeleted f \<and> live_folder_at (f_userId f) (f_parentId f) (f_name f) d"

lemma clash_sym: "file_clash f g \<longleftrightarrow> file_clash g f" "folder_clash d e \<longleftrightarrow> folder_clash e d"
  by (auto simp: file_clash_def folder_clash_def live_file_at_def live_folder_at_def)

definition names_on :: "file_row set \<Rightarrow> folder_row set \<Rightarrow> bool" where
  "names_on F D \<longleftrightarrow>
     (\<forall>f \<in> F. \<forall>g \<in> F. file_clash f g \<longrightarrow> f = g)
     \<and> (\<forall>d \<in> D. \<forall>e \<in> D. folder_clash d e \<longrightarrow> d = e)
     \<and> (\<forall>f \<in> F. \<forall>d \<in> D. \<not> mixed_clash f d)"

definition names_ok :: "db \<Rightarrow> bool" where
  "names_ok s \<longleftrightarrow> names_on (set (files s)) (set (folders s))"

definition owned :: "db \<Rightarrow> nat \<Rightarrow> int" where
  "owned s user = total f_size (filter (\<lambda>f. f_userId f = user) (files s))"

definition quota_ok :: "db \<Rightarrow> bool" where
  "quota_ok s \<longleftrightarrow> users_ok s
     \<and> (\<forall>f \<in> set (files s). 0 \<le> f_size f \<and> user_exists s (f_userId f))
     \<and> (\<forall>u \<in> set (users s). u_storageUsed u = owned s (u_id u))"

lemma quota_okD:
  assumes "quota_ok s"
  shows "f \<in> set (files s) \<Longrightarrow> 0 \<le> f_size f" "f \<in> set (files s) \<Longrightarrow> user_exists s (f_userId f)"
    "users_ok s" "u \<in> set (users s) \<Longrightarrow> u_storageUsed u = owned s (u_id u)"
  using assms unfolding quota_ok_def by blast+

lemma quota_ok_used:
  "quota_ok s \<longleftrightarrow> users_ok s \<and> (\<forall>f \<in> set (files s). 0 \<le> f_size f \<and> user_exists s (f_userId f))
     \<and> (\<forall>k. user_exists s k \<longrightarrow> used_of s k = owned s k)"
proof -
  have "(\<forall>u \<in> set (users s). u_storageUsed u = owned s (u_id u)) \<longleftrightarrow>
      (\<forall>k. user_exists s k \<longrightarrow> used_of s k = owned s k)" if "users_ok s"
  proof -
    have "used_of s (u_id u) = u_storageUsed u" if "u \<in> set (users s)" for u
      using findById_Some [OF \<open>users_ok s\<close>, of "u_id u" u] that by (simp add: used_of_def)
    then show ?thesis by (auto simp: user_exists_def)
  qed
  then show ?thesis unfolding quota_ok_def by blast
qed

definition tree_inv :: "db \<Rightarrow> bool" where
  "tree_inv s \<longleftrightarrow> keys_ok s \<and> mirrors_ok s \<and> tree_ok s \<and> names_ok s \<and> quota_ok s"

lemma tree_invD:
  assumes "tree_inv s"
  shows "keys_ok s" "mirrors_ok s" "tree_ok s" "names_ok s" "quota_ok s" "users_ok s"
    "distinct (map f_id (files s))" "distinct (map d_id (folders s))"
  using assms by (auto simp: tree_inv_def keys_ok_def quota_ok_def)

text \<open>No live entry of \<open>(user, parent)\<close> other than the excluded ones is called \<open>name\<close>.\<close>

definition name_free :: "db \<Rightarrow> nat \<Rightarrow> nat option \<Rightarrow> nat option \<Rightarrow> nat option \<Rightarrow> ustring \<Rightarrow> bool" where
  "name_free s user parent xf xd name \<longleftrightarrow>
     (\<forall>f \<in> set (files s). Some (f_id f) \<noteq> xf \<longrightarrow> \<not> live_file_at user parent name f)
   \<and> (\<forall>d \<in> set (folders s). Some (d_id d) \<noteq> xd \<longrightarrow> \<not> live_folder_at user parent name d)"

lemma allocate_name_free:
  "allocateNamespaceName s user parent r kind xf xd = Inr n \<Longrightarrow> name_free s user parent xf xd n"
  by (drule ns.fresh) (auto simp: occupied_names_def name_free_def live_file_at_def live_folder_at_def)

lemma has_parent_simps [simp]:
  "has_parent s user None"
  "has_parent s user (Some p) \<longleftrightarrow> (\<exists>d \<in> set (folders s). d_id d = p \<and> d_userId d = user)"
  by (simp_all add: has_parent_def)

lemma has_parent_cong: "folders s' = folders s \<Longrightarrow> has_parent s' user p = has_parent s user p"
  by (cases p) auto

lemma allocate_parent:
  "allocateNamespaceName s user parent r kind xf xd = Inr n \<Longrightarrow> has_parent s user parent"
  by (cases parent) (auto dest!: ns.parent_live simp: live_folder_def)

lemma owned_set:
  "keys_ok s \<Longrightarrow> owned s user = (\<Sum>f \<in> {f \<in> set (files s). f_userId f = user}. f_size f)"
  by (simp add: owned_def total_def keys_ok_def sum_list_distinct_conv_sum_set distinct_map)


section \<open>Saving one ordinary file\<close>

lemma save_file_frame [simp]:
  "folders (save_file f s) = folders s" "users (save_file f s) = users s"
  "next_file (save_file f s) = next_file s" "next_folder (save_file f s) = next_folder s"
  "map f_id (files (save_file f s)) = map f_id (files s)"
  by (simp_all add: save_file_def map_key_put_row)

lemma files_save_file:
  "distinct (map f_id (files s)) \<Longrightarrow> f \<in> set (files s) \<Longrightarrow> f_id f' = f_id f \<Longrightarrow>
     set (files (save_file f' s)) = insert f' (set (files s) - {f})"
  by (simp add: save_file_def set_put_row)

lemma keys_ok_save_file:
  "keys_ok s \<Longrightarrow> f \<in> set (files s) \<Longrightarrow> f_id f' = f_id f \<Longrightarrow> keys_ok (save_file f' s)"
  by (auto simp: keys_ok_def files_save_file)

lemma owned_save_file:
  assumes "keys_ok s" "f \<in> set (files s)" "f_id f' = f_id f" "f_userId f' = f_userId f" "f_size f' = f_size f"
  shows "owned (save_file f' s) k = owned s k"
proof -
  have "total (\<lambda>g. if f_userId g = k then f_size g else 0) (put_row f_id f' (files s))
      = total (\<lambda>g. if f_userId g = k then f_size g else 0) (files s)"
    using assms total_put_row [of f_id "files s" f f'] by (simp add: keys_ok_def)
  then show ?thesis
    by (simp add: owned_def save_file_def total_def sum_list_map_filter')
qed

lemma quota_ok_save_file:
  assumes "keys_ok s" "f \<in> set (files s)" "f_id f' = f_id f" "f_userId f' = f_userId f" "f_size f' = f_size f"
    "quota_ok s"
  shows "quota_ok (save_file f' s)"
  using assms
  by (auto simp: quota_ok_def owned_save_file [OF assms(1-5)] files_save_file keys_ok_def users_ok_def
      user_exists_def)

lemma mirrors_on_ordinary:
  "mirrors_on F D \<Longrightarrow> \<not> f_isFolder f \<Longrightarrow> \<not> f_isFolder f' \<Longrightarrow> f_folderId f' = None \<Longrightarrow>
     mirrors_on (insert f' (F - {f})) D"
proof -
  assume *: "mirrors_on F D" "\<not> f_isFolder f" "\<not> f_isFolder f'" "f_folderId f' = None"
  have "\<exists>g \<in> insert f' (F - {f}). agree g d" if "d \<in> D" for d
    using * that unfolding mirrors_on_def by (metis Diff_iff agree_def insert_iff singletonD)
  then show ?thesis using * by (simp add: mirrors_on_def)
qed

lemma mirrors_on_insert: "mirrors_on F D \<Longrightarrow> \<not> f_isFolder f \<Longrightarrow> f_folderId f = None \<Longrightarrow> mirrors_on (insert f F) D"
  using mirrors_on_ordinary [of F D f f] by simp

lemma names_on_file:
  assumes "names_on F D" "\<And>g. g \<in> F - {f} \<Longrightarrow> \<not> file_clash f' g" "\<And>d. d \<in> D \<Longrightarrow> \<not> mixed_clash f' d"
  shows "names_on (insert f' (F - {f})) D"
  using assms clash_sym unfolding names_on_def by auto

theorem file_change:
  assumes inv: "tree_inv s" and mem: "f \<in> set (files s)" and ord: "\<not> f_isFolder f" "\<not> f_isFolder f'"
    and same: "f_id f' = f_id f" "f_userId f' = f_userId f" "f_size f' = f_size f" "f_folderId f' = f_folderId f"
    and parent: "has_parent s (f_userId f) (f_parentId f')"
    and free: "\<not> f_isDeleted f' \<Longrightarrow> name_free s (f_userId f) (f_parentId f') (Some (f_id f)) None (f_name f')"
  shows "tree_inv (save_file f' s)"
proof -
  note D = tree_invD [OF inv]
  have files: "set (files (save_file f' s)) = insert f' (set (files s) - {f})"
    using D(7) mem same(1) by (rule files_save_file)
  have "f_id g \<noteq> f_id f" if "g \<in> set (files s) - {f}" for g
    using key_unique [OF D(7)] mem that by auto
  then have "names_ok (save_file f' s)"
    using D(4) free same(2) unfolding names_ok_def files save_file_frame
    by (intro names_on_file) (auto simp: file_clash_def mixed_clash_def name_free_def)
  moreover have "mirrors_ok (save_file f' s)"
    using D(2) ord same(4) mem mirrors_on_ordinary unfolding mirrors_ok_def files save_file_frame
    by (simp add: mirrors_on_def)
  moreover have "tree_ok (save_file f' s)"
    using D(3) parent same(2) mem
    by (auto simp: tree_ok_def files parent_rel_def has_parent_cong [of "save_file f' s" s])
  ultimately show ?thesis
    using D mem same by (simp add: tree_inv_def keys_ok_save_file quota_ok_save_file)
qed


section \<open>Saving a folder together with its mirror\<close>

lemma save_folder_frame [simp]:
  "files (save_folder d s) = files s" "users (save_folder d s) = users s"
  "next_file (save_folder d s) = next_file s" "next_folder (save_folder d s) = next_folder s"
  "map d_id (folders (save_folder d s)) = map d_id (folders s)"
  by (simp_all add: save_folder_def map_key_put_row)

lemma folders_save_folder:
  "distinct (map d_id (folders s)) \<Longrightarrow> d \<in> set (folders s) \<Longrightarrow> d_id d' = d_id d \<Longrightarrow>
     set (folders (save_folder d' s)) = insert d' (set (folders s) - {d})"
  by (simp add: save_folder_def set_put_row)

lemma keys_ok_save_folder:
  "keys_ok s \<Longrightarrow> d \<in> set (folders s) \<Longrightarrow> d_id d' = d_id d \<Longrightarrow> keys_ok (save_folder d' s)"
  by (auto simp: keys_ok_def folders_save_folder)

lemma user_exists_keys: "user_exists s k \<longleftrightarrow> k \<in> set (map u_id (users s))"
  by (auto simp: user_exists_def)

lemma quota_ok_cong:
  "quota_ok s \<Longrightarrow> files s' = files s \<Longrightarrow> users s' = users s \<Longrightarrow> quota_ok s'"
  by (simp only: quota_ok_def owned_def users_ok_def user_exists_def) blast

lemma mirrors_on_folder:
  assumes "mirrors_on F D" "m \<in> F" "d \<in> D" "agree m d" "agree m' d'" "d_id d' = d_id d"
    and inj: "\<And>e. e \<in> D \<Longrightarrow> d_id e = d_id d \<Longrightarrow> e = d"
  shows "mirrors_on (insert m' (F - {m})) (insert d' (D - {d}))"
proof -
  have 1: "\<exists>g \<in> insert m' (F - {m}). agree g e" if e: "e \<in> D - {d}" for e
  proof -
    obtain g where g: "g \<in> F" "agree g e" using assms(1) e by (auto simp: mirrors_on_def)
    have "g \<noteq> m" using g(2) assms(4) inj [of e] e by (auto simp: agree_def)
    then show ?thesis using g by auto
  qed
  have uniq: "g = m" if "g \<in> F" "f_isFolder g" "f_folderId g = Some (d_id d)" for g
    using assms(1,2,4) that unfolding mirrors_on_def agree_def by metis
  have 2: "\<exists>e \<in> insert d' (D - {d}). agree g e" if g: "g \<in> F - {m}" "f_isFolder g" for g
  proof -
    obtain e where e: "e \<in> D" "agree g e" using assms(1) g by (auto simp: mirrors_on_def)
    then have "e \<noteq> d" using uniq [of g] g by (auto simp: agree_def)
    then show ?thesis using e by auto
  qed
  have 3: "f_folderId g \<noteq> f_folderId m'" if "g \<in> F - {m}" "f_isFolder g" for g
    using uniq [of g] that assms(5,6) by (auto simp: agree_def)
  have "agree m' d'" "f_isFolder m'" using assms(5) by (auto simp: agree_def)
  moreover have "f = g" if "f \<in> insert m' (F - {m})" "g \<in> insert m' (F - {m})" "f_isFolder f" "f_isFolder g"
      "f_folderId f = f_folderId g" for f g
    using that 3 [of f] 3 [of g] assms(1) unfolding mirrors_on_def by auto
  ultimately show ?thesis
    using 1 2 assms(1) unfolding mirrors_on_def by (intro conjI ballI impI) blast+
qed

lemma names_on_folder:
  assumes "names_on F D" "f_isFolder m'" "\<And>e. e \<in> D - {d} \<Longrightarrow> \<not> folder_clash d' e"
    "\<And>f. f \<in> F - {m} \<Longrightarrow> \<not> mixed_clash f d'"
  shows "names_on (insert m' (F - {m})) (insert d' (D - {d}))"
proof -
  have "\<not> file_clash m' g" "\<not> file_clash g m'" "\<not> mixed_clash m' e" for g e
    using assms(2) by (auto simp: file_clash_def mixed_clash_def live_file_at_def)
  then show ?thesis using assms clash_sym unfolding names_on_def by auto
qed

lemma acyclic_reparent:
  assumes "acyclic R" "R' \<subseteq> insert (x, p) R" "(p, x) \<notin> R\<^sup>*"
  shows "acyclic R'"
  using assms acyclic_insert acyclic_subset by (metis (no_types))

theorem folder_change:
  assumes inv: "tree_inv s" and mem: "d \<in> set (folders s)" "m \<in> set (files s)"
    and agree: "agree m d" "agree m' d'"
    and same: "d_id d' = d_id d" "d_userId d' = d_userId d" "f_id m' = f_id m"
    and parent: "has_parent s (d_userId d) (d_parentId d')"
    and down: "\<And>p. d_parentId d' = Some p \<Longrightarrow> d_parentId d = Some p \<or> (p, d_id d) \<notin> (parent_rel s)\<^sup>*"
    and free: "\<not> d_isDeleted d' \<Longrightarrow>
      name_free s (d_userId d) (d_parentId d') (Some (f_id m)) (Some (d_id d)) (d_name d')"
  shows "tree_inv (save_file m' (save_folder d' s))"
proof -
  let ?s = "save_file m' (save_folder d' s)"
  note D = tree_invD [OF inv]
  have folders: "set (folders ?s) = insert d' (set (folders s) - {d})"
    using folders_save_folder [OF D(8) mem(1) same(1)] by simp
  then have folders': "set (folders (save_folder d' s)) = insert d' (set (folders s) - {d})" by simp
  have files: "set (files ?s) = insert m' (set (files s) - {m})"
    using files_save_file [of "save_folder d' s" m m'] D(7) mem(2) same(3) by simp
  have ids: "d_id e = d_id d \<Longrightarrow> e = d" if "e \<in> set (folders s)" for e
    using key_unique [OF D(8) that mem(1)] .
  have fids: "f_id g = f_id m \<Longrightarrow> g = m" if "g \<in> set (files s)" for g
    using key_unique [OF D(7) that mem(2)] .
  have "mirrors_ok ?s"
    using D(2) mem agree same ids unfolding mirrors_ok_def files folders by (intro mirrors_on_folder) auto
  moreover have "names_ok ?s"
    unfolding names_ok_def files folders
  proof (rule names_on_folder)
    fix e assume e: "e \<in> set (folders s) - {d}"
    then have "d_id e \<noteq> d_id d" using ids by auto
    then show "\<not> folder_clash d' e"
      using free e same(2) by (auto simp: folder_clash_def name_free_def)
  next
    fix g assume g: "g \<in> set (files s) - {m}"
    then have "f_id g \<noteq> f_id m" using fids by auto
    then show "\<not> mixed_clash g d'"
      using free g same(2) by (auto simp: mixed_clash_def live_file_at_def live_folder_at_def name_free_def)
  qed (use D(4) agree(2) in \<open>simp_all add: names_ok_def agree_def\<close>)
  moreover have "tree_ok ?s"
  proof -
    have hp: "has_parent ?s u p \<longleftrightarrow> has_parent s u p" for u p
      using folders' mem(1) same by (cases p) auto
    have "acyclic (parent_rel ?s)"
    proof (cases "d_parentId d'")
      case None
      then have "parent_rel ?s \<subseteq> parent_rel s" by (auto simp: parent_rel_def folders')
      then show ?thesis using D(3) acyclic_subset by (auto simp: tree_ok_def)
    next
      case (Some p)
      have sub: "parent_rel ?s \<subseteq> insert (d_id d, p) (parent_rel s)"
        using Some same(1) by (auto simp: parent_rel_def folders')
      have "d_parentId d = Some p \<Longrightarrow> parent_rel ?s \<subseteq> parent_rel s"
        using sub mem(1) parent_relI [of d s p] by auto
      then show ?thesis
        using down [OF Some] D(3) sub acyclic_subset acyclic_reparent unfolding tree_ok_def by metis
    qed
    then show ?thesis
      using D(3) parent same agree mem by (auto simp: tree_ok_def hp files folders' agree_def)
  qed
  moreover have "keys_ok ?s"
    using keys_ok_save_folder [OF D(1) mem(1) same(1)] mem(2) same(3) keys_ok_save_file by simp
  moreover have "quota_ok ?s"
    using D(1,5) mem same agree quota_ok_cong [of s "save_folder d' s"] keys_ok_save_folder [OF D(1) mem(1) same(1)]
    by (intro quota_ok_save_file [of _ m]) (auto simp: agree_def)
  ultimately show ?thesis by (simp add: tree_inv_def)
qed


section \<open>Insertions\<close>

lemma keys_ok_new_file:
  "keys_ok s \<Longrightarrow> files s' = files s @ [f] \<Longrightarrow> f_id f = next_file s \<Longrightarrow> next_file s' = Suc (next_file s) \<Longrightarrow>
     folders s' = folders s \<Longrightarrow> next_folder s' = next_folder s \<Longrightarrow> keys_ok s'"
  by (auto simp: keys_ok_def less_Suc_eq)

theorem file_insert:
  assumes inv: "tree_inv s" and ord: "\<not> f_isFolder f" "f_folderId f = None" and id: "f_id f = next_file s"
    and parent: "has_parent s (f_userId f) (f_parentId f)"
    and user: "user_exists s (f_userId f)"
    and free: "name_free s (f_userId f) (f_parentId f) None None (f_name f)"
    and charge: "updateStorageUsed (f_userId f) (f_size f)
      (s\<lparr>files := files s @ [f], next_file := Suc (next_file s)\<rparr>) = Inr s'"
  shows "tree_inv s'"
proof -
  note D = tree_invD [OF inv]
  let ?t = "s\<lparr>files := files s @ [f], next_file := Suc (next_file s)\<rparr>"
  let ?u = "f_userId f"
  have ut: "users_ok ?t" using D(6) by (simp add: users_ok_def)
  have s': "s' = (if f_size f = 0 then ?t else add_used ?u (f_size f) ?t)"
    and size: "0 \<le> f_size f"
    using charge updateStorageUsed_Inr [OF ut] by (auto split: if_splits)
  have fr: "files s' = files s @ [f]" "folders s' = folders s" "next_file s' = Suc (next_file s)"
    "next_folder s' = next_folder s" "map u_id (users s') = map u_id (users s)"
    by (simp_all add: s')
  have us': "users_ok s'" "\<And>k. used_of s' k = used_of ?t k + (if k = ?u then f_size f else 0)"
    using users.charge_inv [OF ut charge] users.charge_used [OF ut charge] by auto
  have ue: "user_exists s' k = user_exists s k" for k
    by (simp only: user_exists_keys fr(5))
  have "quota_ok s'"
  proof -
    have "used_of s' k = owned s' k" if "user_exists s' k" for k
      using that us'(2) [of k] D(5) ue [of k] fr(1)
      by (simp add: quota_ok_used owned_def used_of_def findById_def)
    moreover have "0 \<le> f_size g \<and> user_exists s' (f_userId g)" if "g \<in> set (files s')" for g
      using quota_okD(1,2) [OF D(5)] that size user ue by (auto simp: fr)
    ultimately show ?thesis using us'(1) unfolding quota_ok_used by blast
  qed
  moreover have "keys_ok s'" by (rule keys_ok_new_file [OF D(1) fr(1) id fr(3) fr(2) fr(4)])
  moreover have "mirrors_ok s'"
    using mirrors_on_insert [OF _ ord] D(2) by (simp add: mirrors_ok_def fr)
  moreover have "names_ok s'"
  proof -
    have "f \<notin> set (files s)" using D(1) id by (auto simp: keys_ok_def)
    then have "names_on (insert f (set (files s) - {f})) (set (folders s))"
      using D(4) free unfolding names_ok_def
      by (intro names_on_file) (auto simp: file_clash_def mixed_clash_def name_free_def)
    then show ?thesis using \<open>f \<notin> _\<close> by (simp add: names_ok_def fr)
  qed
  moreover have "tree_ok s'"
    using D(3) parent by (auto simp: tree_ok_def fr parent_rel_def has_parent_cong [of s' s])
  ultimately show ?thesis by (simp add: tree_inv_def)
qed

theorem folder_insert:
  assumes inv: "tree_inv s" and id: "d_id d = next_folder s" "f_id m = next_file s"
    and agree: "agree m d" and user: "user_exists s (d_userId d)"
    and parent: "has_parent s (d_userId d) (d_parentId d)"
    and free: "name_free s (d_userId d) (d_parentId d) None None (d_name d)"
    and s': "s' = s\<lparr>folders := folders s @ [d], next_folder := Suc (next_folder s),
      files := files s @ [m], next_file := Suc (next_file s)\<rparr>"
  shows "tree_inv s'"
proof -
  note D = tree_invD [OF inv]
  have new: "e \<in> set (folders s) \<Longrightarrow> d_id e \<noteq> d_id d" "g \<in> set (files s) \<Longrightarrow> f_id g \<noteq> f_id m" for e g
    using D(1) id by (auto simp: keys_ok_def)
  have fr: "set (files s') = insert m (set (files s))" "set (folders s') = insert d (set (folders s))"
    by (simp_all add: s')
  have "keys_ok s'" using D(1) id by (auto simp: keys_ok_def s' less_Suc_eq)
  moreover have "mirrors_ok s'"
  proof -
    have nofolder: "f_folderId g \<noteq> f_folderId m" if g: "g \<in> set (files s)" "f_isFolder g" for g
    proof -
      obtain e where "e \<in> set (folders s)" "agree g e"
        using D(2) g by (auto simp: mirrors_ok_def mirrors_on_def)
      then show ?thesis using new(1) [of e] agree by (auto simp: agree_def)
    qed
    have mf: "f_isFolder m" using agree by (simp add: agree_def)
    have M: "mirrors_on (set (files s)) (set (folders s))" using D(2) by (simp add: mirrors_ok_def)
    have "f = g" if "f \<in> insert m (set (files s))" "g \<in> insert m (set (files s))"
        "f_isFolder f \<and> f_isFolder g \<and> f_folderId f = f_folderId g" for f g
      using that nofolder [of f] nofolder [of g] M unfolding mirrors_on_def by auto
    then show ?thesis
      using M agree mf unfolding mirrors_ok_def mirrors_on_def fr
      by (intro conjI ballI impI) blast+
  qed
  moreover have "names_ok s'"
  proof -
    have "d \<notin> set (folders s)" "m \<notin> set (files s)" using new by blast+
    then have "names_on (insert m (set (files s) - {m})) (insert d (set (folders s) - {d}))"
      using D(4) free agree unfolding names_ok_def
      by (intro names_on_folder)
         (auto simp: folder_clash_def mixed_clash_def live_file_at_def live_folder_at_def name_free_def agree_def)
    then show ?thesis using \<open>d \<notin> _\<close> \<open>m \<notin> _\<close> by (simp add: names_ok_def fr)
  qed
  moreover have "tree_ok s'"
  proof -
    have mono: "has_parent s u p \<Longrightarrow> has_parent s' u p" for u p
      by (cases p) (auto simp: fr)
    have into: "(c, q) \<in> parent_rel s \<Longrightarrow> q \<noteq> d_id d" for c q
      using D(3) new(1) by (fastforce simp: parent_rel_def tree_ok_def)
    have "acyclic (parent_rel s')"
    proof (cases "d_parentId d")
      case None
      then have "parent_rel s' \<subseteq> parent_rel s" by (auto simp: parent_rel_def fr)
      then show ?thesis using D(3) acyclic_subset by (auto simp: tree_ok_def)
    next
      case (Some p)
      have "p \<noteq> d_id d" using parent Some new(1) by auto
      then have "(p, d_id d) \<notin> (parent_rel s)\<^sup>*" using into by (auto elim!: rtranclE [of p "d_id d"])
      moreover have "parent_rel s' \<subseteq> insert (d_id d, p) (parent_rel s)"
        using Some by (auto simp: parent_rel_def fr)
      ultimately show ?thesis using D(3) acyclic_reparent by (auto simp: tree_ok_def)
    qed
    then show ?thesis
      using D(3) mono parent agree unfolding tree_ok_def fr by (auto simp: agree_def)
  qed
  moreover have "quota_ok s'"
  proof -
    have "owned s' k = owned s k" "used_of s' k = used_of s k" "user_exists s' k = user_exists s k" for k
      using agree by (simp_all add: owned_def s' agree_def used_of_def findById_def user_exists_def)
    moreover have "users_ok s'" using D(6) by (simp add: users_ok_def s')
    ultimately show ?thesis
      using D(5) user agree unfolding quota_ok_used fr by (auto simp: agree_def)
  qed
  ultimately show ?thesis by (simp add: tree_inv_def)
qed


section \<open>Deletions\<close>

lemma clear_ref_None [simp]: "clear_ref ks None = None"
  by (simp add: clear_ref_def)

lemma clear_ref_id: "p \<notin> Some ` set ks \<Longrightarrow> clear_ref ks p = p"
  by (auto simp: clear_ref_def split: option.splits)

text \<open>
  One deletion covers the three of the service: the folders \<open>K\<close>, closed under subfolders, their
  mirrors \<open>M\<close> and ordinary files \<open>G\<close> that include those inside the folders.
\<close>

definition deletable :: "db \<Rightarrow> nat \<Rightarrow> nat list \<Rightarrow> file_row list \<Rightarrow> file_row list \<Rightarrow> bool" where
  "deletable s user K G M \<longleftrightarrow>
     (\<forall>d \<in> set (folders s). d_parentId d \<in> Some ` set K \<longrightarrow> d_id d \<in> set K)
   \<and> distinct G \<and> (\<forall>g \<in> set G. g \<in> set (files s) \<and> \<not> f_isFolder g \<and> f_userId g = user)
   \<and> (\<forall>g \<in> set (files s). \<not> f_isFolder g \<and> f_parentId g \<in> Some ` set K \<longrightarrow> g \<in> set G)
   \<and> (\<forall>m. m \<in> set M \<longleftrightarrow> m \<in> set (files s) \<and> f_isFolder m \<and> f_folderId m \<in> Some ` set K)"

lemma deletable_files:
  assumes inv: "tree_inv s" and del: "deletable s user K G M"
    and s1: "files s1 = files s" "folders s1 = folders s"
  defines "s' \<equiv> delete_folders K (delete_files (map f_id (G @ M)) s1)"
  shows "files s' = filter (\<lambda>f. f \<notin> set G \<union> set M) (files s)"
    and "folders s' = filter (\<lambda>d. d_id d \<notin> set K) (folders s)"
proof -
  note D = tree_invD [OF inv]
  have GM: "set G \<union> set M \<subseteq> set (files s)" using del by (auto simp: deletable_def)
  have "f_id f \<in> f_id ` (set G \<union> set M) \<longleftrightarrow> f \<in> set G \<union> set M" if "f \<in> set (files s)" for f
    using that GM key_unique [OF D(7)] by (auto simp: image_iff)
  then have rows: "drop_rows f_id (map f_id (G @ M)) (files s) = filter (\<lambda>f. f \<notin> set G \<union> set M) (files s)"
    unfolding drop_rows_def by (intro filter_cong) (auto simp: image_Un)
  have keep: "clear_ref K (f_parentId f) = f_parentId f" "clear_ref K (f_folderId f) = f_folderId f"
    if f: "f \<in> set (files s)" "f \<notin> set G \<union> set M" for f
  proof -
    have "f_folderId f \<notin> Some ` set K"
      using D(2) del f by (cases "f_isFolder f") (auto simp: deletable_def mirrors_ok_def mirrors_on_def)
    moreover have "f_parentId f \<notin> Some ` set K"
    proof (cases "f_isFolder f")
      case True
      then obtain d where d: "d \<in> set (folders s)" "agree f d"
        using D(2) f(1) by (auto simp: mirrors_ok_def mirrors_on_def)
      then have "d_id d \<notin> set K" using \<open>f_folderId f \<notin> _\<close> by (auto simp: agree_def)
      then show ?thesis using del d by (auto simp: deletable_def agree_def)
    next
      case False
      then show ?thesis using del f by (auto simp: deletable_def)
    qed
    ultimately show "clear_ref K (f_parentId f) = f_parentId f" "clear_ref K (f_folderId f) = f_folderId f"
      using clear_ref_id by auto
  qed
  show "files s' = filter (\<lambda>f. f \<notin> set G \<union> set M) (files s)"
    unfolding s'_def delete_folders_def delete_files_def
    using keep by (simp add: s1 rows [simplified]) (intro map_idI, auto)
  have "clear_ref K (d_parentId d) = d_parentId d" if "d \<in> set (folders s)" "d_id d \<notin> set K" for d
    using del that by (intro clear_ref_id) (auto simp: deletable_def)
  then show "folders s' = filter (\<lambda>d. d_id d \<notin> set K) (folders s)"
    unfolding s'_def delete_folders_def delete_files_def
    by (simp add: s1 drop_rows_def) (intro map_idI; auto)
qed

lemma owned_delete:
  assumes inv: "tree_inv s" and del: "deletable s user K G M"
    and files': "files s' = filter (\<lambda>f. f \<notin> set G \<union> set M) (files s)"
  shows "owned s' k = owned s k - (if k = user then total f_size G else 0)"
proof -
  note D = tree_invD [OF inv]
  have "distinct (files s)" using D(7) by (simp add: distinct_map)
  then have sum': "owned t k = (\<Sum>f \<in> {f \<in> set (files t). f_userId f = k}. f_size f)"
    if "t = s \<or> t = s'" for t
    using that by (auto simp: owned_def total_def files' sum_list_distinct_conv_sum_set)
  let ?A = "{f \<in> set (files s). f_userId f = k}"
  let ?B = "{f \<in> set G \<union> set M. f_userId f = k}"
  have zero: "f_size f = 0" if "f \<in> set M" for f
    using that del D(2) by (auto simp: deletable_def mirrors_ok_def mirrors_on_def agree_def)
  have sub: "?B \<subseteq> ?A" using del by (auto simp: deletable_def)
  have "owned s' k = (\<Sum>f \<in> ?A - ?B. f_size f)"
    using sum' [of s'] by (simp add: files') (intro sum.cong; auto)
  also have "\<dots> = owned s k - (\<Sum>f \<in> ?B. f_size f)"
    using sub sum' [of s] by (simp add: sum_diff)
  also have "(\<Sum>f \<in> ?B. f_size f) = (\<Sum>f \<in> {f \<in> set G. f_userId f = k}. f_size f)"
    using zero by (intro sum.mono_neutral_right) auto
  also have "\<dots> = (if k = user then total f_size G else 0)"
  proof (cases "k = user")
    case True
    then have "{f \<in> set G. f_userId f = k} = set G" using del by (auto simp: deletable_def)
    then show ?thesis
      using True del by (simp add: total_def deletable_def sum_list_distinct_conv_sum_set)
  next
    case False
    then have none: "{f \<in> set G. f_userId f = k} = {}" using del by (auto simp: deletable_def)
    show ?thesis unfolding none using False by simp
  qed
  finally show ?thesis .
qed

theorem subtree_delete:
  assumes inv: "tree_inv s" and del: "deletable s user K G M"
    and refund: "decrementStorageUsed user (total f_size G) s = Inr s1"
  shows "tree_inv (delete_folders K (delete_files (map f_id (G @ M)) s1))"
proof -
  define t where "t = delete_folders K (delete_files (map f_id (G @ M)) s1)"
  note D = tree_invD [OF inv]
  have s1: "files s1 = files s" "folders s1 = folders s" "next_file s1 = next_file s"
    "next_folder s1 = next_folder s" "map u_id (users s1) = map u_id (users s)"
    using refund decrementStorageUsed_Inr [OF D(6)] by (auto split: if_splits)
  have ledger: "users_ok s1" "\<And>k. used_of s1 k = used_of s k - (if k = user then total f_size G else 0)"
    using users.refund_inv [OF D(6) refund] users.refund_used [OF D(6) refund] by auto
  have us: "users t = users s1" "next_file t = next_file s" "next_folder t = next_folder s"
    by (simp_all add: delete_folders_def delete_files_def s1 t_def)
  note fr = deletable_files [OF inv del s1(1,2), folded t_def]
  have F: "set (files t) \<subseteq> set (files s)" and E: "set (folders t) \<subseteq> set (folders s)"
    unfolding fr by auto
  have "keys_ok t"
    using D(1) unfolding keys_ok_def fr us by (auto simp: distinct_map_filter)
  moreover have "names_ok t"
    using D(4) F E unfolding names_ok_def names_on_def by blast
  moreover have "mirrors_ok t"
  proof -
    have M: "mirrors_on (set (files s)) (set (folders s))" using D(2) by (simp add: mirrors_ok_def)
    have 1: "\<exists>f \<in> set (files t). agree f d" if "d \<in> set (folders t)" for d
    proof -
      have d: "d \<in> set (folders s)" "d_id d \<notin> set K" using that by (auto simp: fr)
      then obtain f where f: "f \<in> set (files s)" "agree f d" using M by (auto simp: mirrors_on_def)
      have "f \<notin> set G" "f \<notin> set M" using f d del by (auto simp: deletable_def agree_def)
      then have "f \<in> set (files t)" using f(1) by (simp add: fr)
      then show ?thesis using f(2) by blast
    qed
    have 2: "\<exists>d \<in> set (folders t). agree f d" if h: "f \<in> set (files t)" "f_isFolder f" for f
    proof -
      have f: "f \<in> set (files s)" "f \<notin> set M" using h by (auto simp: fr)
      then obtain d where d: "d \<in> set (folders s)" "agree f d" using M h by (auto simp: mirrors_on_def)
      have "d_id d \<notin> set K" using d f del by (auto simp: deletable_def agree_def)
      then have "d \<in> set (folders t)" using d(1) by (simp add: fr)
      then show ?thesis using d(2) by blast
    qed
    show ?thesis using 1 2 M F unfolding mirrors_ok_def mirrors_on_def by blast
  qed
  moreover have "tree_ok t"
  proof -
    have hp: "has_parent t u p" if "has_parent s u p" "p \<notin> Some ` set K" for u p
      using that by (cases p) (auto simp: fr)
    have "f_parentId f \<notin> Some ` set K" if f: "f \<in> set (files s)" "f \<notin> set G \<union> set M" for f
    proof (cases "f_isFolder f")
      case True
      then obtain d where "d \<in> set (folders s)" "agree f d"
        using D(2) f(1) by (auto simp: mirrors_ok_def mirrors_on_def)
      then show ?thesis using True f del by (auto simp: deletable_def agree_def)
    qed (use f del in \<open>auto simp: deletable_def\<close>)
    moreover have "d_parentId d \<notin> Some ` set K" if "d \<in> set (folders s)" "d_id d \<notin> set K" for d
      using that del by (auto simp: deletable_def)
    moreover have "parent_rel t \<subseteq> parent_rel s" using E by (auto simp: parent_rel_def)
    then have "acyclic (parent_rel t)" using D(3) acyclic_subset by (auto simp: tree_ok_def)
    ultimately show ?thesis
      using D(3) hp unfolding tree_ok_def fr by auto
  qed
  moreover have "quota_ok t"
  proof -
    have "used_of t k = used_of s1 k" "user_exists t k = user_exists s k" for k
      using us(1) s1(5) by (simp_all add: used_of_def findById_def user_exists_keys del: set_map)
    moreover have "users_ok t" using ledger(1) by (simp add: users_ok_def us)
    ultimately show ?thesis
      using D(5) ledger(2) F owned_delete [OF inv del fr(1)] unfolding quota_ok_used by auto
  qed
  ultimately show ?thesis by (simp add: tree_inv_def t_def)
qed

end
