(* ===== verification/FileTreeOps.thy ===== *)
theory FileTreeOps
  imports FileTree
begin

text \<open>
  Every operation of \<open>FilesService\<close> keeps the invariant of the file tree, one lemma per operation,
  and then any history of operations does.  The permanent deletion of a mirror row is the one
  exception; what it leaves behind is shown in the last section.
\<close>

lemma file_ofD: "file_of s user k = Some f \<Longrightarrow> f \<in> set (files s) \<and> f_id f = k \<and> f_userId f = user"
  by (auto simp: file_of_def dest: find_SomeD)

lemma folder_ofD: "folder_of s user k = Some d \<Longrightarrow> d \<in> set (folders s) \<and> d_id d = k \<and> d_userId d = user"
  by (auto simp: folder_of_def dest: find_SomeD)

lemma folder_mirror:
  assumes "tree_inv s" "folder_of s user k = Some d" "mirror_of s user k = Some m"
  shows "d \<in> set (folders s)" "d_id d = k" "d_userId d = user" "m \<in> set (files s)" "agree m d"
proof -
  note D = tree_invD [OF assms(1)]
  show d: "d \<in> set (folders s)" "d_id d = k" "d_userId d = user" using folder_ofD [OF assms(2)] by auto
  show m: "m \<in> set (files s)" using assms(3) by (auto simp: mirror_of_def dest: find_SomeD)
  have "f_folderId m = Some k" "f_isFolder m" using assms(3) by (auto simp: mirror_of_def dest: find_SomeD)
  then obtain e where e: "e \<in> set (folders s)" "agree m e"
    using D(2) m by (auto simp: mirrors_ok_def mirrors_on_def)
  then have "d_id e = d_id d" using \<open>f_folderId m = _\<close> d(2) by (simp add: agree_def)
  then have "e = d" using key_unique [OF D(8) e(1) d(1)] by simp
  then show "agree m d" using e(2) by simp
qed

lemma has_parent_file: "tree_inv s \<Longrightarrow> f \<in> set (files s) \<Longrightarrow> has_parent s (f_userId f) (f_parentId f)"
  by (auto simp: tree_inv_def tree_ok_def)

lemma has_parent_folder: "tree_inv s \<Longrightarrow> d \<in> set (folders s) \<Longrightarrow> has_parent s (d_userId d) (d_parentId d)"
  by (auto simp: tree_inv_def tree_ok_def)

text \<open>The name of a live entry is free for itself.\<close>

lemma own_name_free:
  assumes "tree_inv s" "f \<in> set (files s)" "\<not> f_isFolder f" "\<not> f_isDeleted f"
  shows "name_free s (f_userId f) (f_parentId f) (Some (f_id f)) None (f_name f)"
  using tree_invD(4) [OF assms(1)] assms(2-4)
  by (auto simp: names_ok_def names_on_def name_free_def file_clash_def mixed_clash_def)

lemma own_folder_name_free:
  assumes "tree_inv s" "d \<in> set (folders s)" "agree m d" "m \<in> set (files s)" "\<not> d_isDeleted d"
  shows "name_free s (d_userId d) (d_parentId d) (Some (f_id m)) (Some (d_id d)) (d_name d)"
proof -
  have N: "names_on (set (files s)) (set (folders s))"
    using tree_invD(4) [OF assms(1)] by (simp add: names_ok_def)
  have "\<not> live_file_at (d_userId d) (d_parentId d) (d_name d) f" if "f \<in> set (files s)" for f
  proof -
    have "\<not> mixed_clash f d" using N that assms(2) by (simp add: names_on_def)
    then show ?thesis using assms(5) by (auto simp: mixed_clash_def live_file_at_def live_folder_at_def)
  qed
  moreover have "e = d" if "e \<in> set (folders s)" "live_folder_at (d_userId d) (d_parentId d) (d_name d) e" for e
    using N that assms(2,5) by (auto simp: names_on_def folder_clash_def)
  ultimately show ?thesis by (auto simp: name_free_def)
qed

lemma name_free_weaken:
  "name_free s user p xf xd n \<Longrightarrow> xf = None \<or> xf = xf' \<Longrightarrow> xd = None \<or> xd = xd' \<Longrightarrow> name_free s user p xf' xd' n"
  by (auto simp: name_free_def)


section \<open>Creation\<close>

lemma createFile_inv:
  assumes inv: "tree_inv s" and ok: "createFile s0 pl user name bytes mime parent s = Inr (s', fl)"
  shows "tree_inv s'"
proof -
  obtain chosen s1 f where
    al: "allocateNamespaceName s user parent (trim name) KFile None None = Inr chosen" and
    ins: "insert_file (new_file chosen pl bytes mime parent user) s = Inr (s1, f)" and
    ch: "updateStorageUsed user bytes s1 = Inr s'"
    using ok by (auto simp: createFile_def err_simps validateDisplayName_def Let_def split: if_splits prod.splits)
  have f: "f = (new_file chosen pl bytes mime parent user)\<lparr>f_id := next_file s\<rparr>" "user_exists s user"
      "s1 = s\<lparr>files := files s @ [f], next_file := Suc (next_file s)\<rparr>"
    using ins by (auto simp: insert_file_Inr new_file_def)
  show ?thesis
    using file_insert [OF inv, of f s'] f al ch allocate_name_free [OF al] allocate_parent [OF al]
    by (simp add: new_file_def)
qed

lemma createFolder_inv:
  assumes inv: "tree_inv s" and ok: "createFolder s0 user name parent s = Inr (s', fl)"
  shows "tree_inv s'"
proof -
  obtain chosen s1 d where
    al: "allocateNamespaceName s user parent name KFolder None None = Inr chosen" and
    ins: "insert_folder (new_folder chosen parent user) s = Inr (s1, d)" and
    m: "insert_file (new_mirror d) s1 = Inr (s', fl)"
    using ok by (auto simp: createFolder_def err_simps split: prod.splits)
  have d: "d = (new_folder chosen parent user)\<lparr>d_id := next_folder s\<rparr>" "user_exists s user"
      "s1 = s\<lparr>folders := folders s @ [d], next_folder := Suc (next_folder s)\<rparr>"
    using ins by (auto simp: insert_folder_Inr new_folder_def)
  have f: "fl = (new_mirror d)\<lparr>f_id := next_file s\<rparr>"
      "s' = s1\<lparr>files := files s @ [fl], next_file := Suc (next_file s)\<rparr>"
    using m d(3) by (auto simp: insert_file_Inr)
  show ?thesis
    using folder_insert [OF inv, of d fl s'] d f allocate_name_free [OF al] allocate_parent [OF al]
    by (simp add: new_folder_def new_mirror_def agree_def)
qed


section \<open>Renaming and moving\<close>

lemma placed_nameD:
  assumes inv: "tree_inv s" and f: "f \<in> set (files s)" "\<not> f_isFolder f" "f_userId f = user"
    and ok: "placed_name s user f name dest restore = Inr n"
  shows "has_parent s user dest"
    and "\<not> f_isDeleted f \<or> restore \<Longrightarrow> name_free s user dest (Some (f_id f)) None n"
proof -
  have "has_parent s user dest \<and>
      (\<not> f_isDeleted f \<or> restore \<longrightarrow> name_free s user dest (Some (f_id f)) None n)"
  proof (cases "(restore \<and> f_isDeleted f) \<or> (name \<noteq> None \<and> name \<noteq> Some (f_name f)) \<or> dest \<noteq> f_parentId f")
    case True
    then have al: "allocateNamespaceName s user dest (case name of None \<Rightarrow> f_name f | Some n \<Rightarrow> n) KFile
        (Some (f_id f)) None = Inr n" using ok by (simp add: placed_name_def)
    show ?thesis using allocate_parent [OF al] allocate_name_free [OF al] by simp
  next
    case False
    then have "n = f_name f" "dest = f_parentId f" "restore \<Longrightarrow> \<not> f_isDeleted f"
      using ok by (auto simp: placed_name_def)
    then show ?thesis using own_name_free [OF inv f(1,2)] has_parent_file [OF inv f(1)] f(3) by auto
  qed
  then show "has_parent s user dest"
    and "\<not> f_isDeleted f \<or> restore \<Longrightarrow> name_free s user dest (Some (f_id f)) None n" by auto
qed

lemma changeFilePlacement_inv:
  assumes inv: "tree_inv s" and ok: "changeFilePlacement user k name parent restore s = Inr (s', fl)"
  shows "tree_inv s'"
proof -
  obtain f dest chosen where f: "file_of s user k = Some f" "\<not> f_isFolder f" and
    pl: "placed_name s user f name dest restore = Inr chosen" and
    fl: "fl = (let f1 = f\<lparr>f_name := chosen, f_parentId := dest\<rparr>
       in if restore then f1\<lparr>f_isDeleted := False, f_deletedAt := None\<rparr> else f1)" and
    s': "s' = save_file fl s"
    using ok by (auto simp: changeFilePlacement_def err_simps Let_def split del: if_split)
  note mem = file_ofD [OF f(1)]
  have "f_id fl = f_id f" "f_userId fl = f_userId f" "f_size fl = f_size f"
      "f_folderId fl = f_folderId f" "f_isFolder fl = f_isFolder f" "f_parentId fl = dest"
      "f_name fl = chosen" "f_isDeleted fl = (\<not> restore \<and> f_isDeleted f)"
    by (auto simp: fl Let_def)
  then show ?thesis
    unfolding s' using mem f(2) placed_nameD [OF inv _ f(2) _ pl] by (intro file_change [OF inv]) auto
qed

lemma child_of_subfolders: "child_of (subfolders s) = parent_rel s"
  by (auto simp: child_of_def subfolders_def parent_rel_def)

lemma assertNoCycle_iff:
  assumes "tree_inv s"
  shows "assertNoCycle s k q = Inr () \<longleftrightarrow> \<not> ((\<exists>d \<in> set (folders s). d_id d = k) \<and> (q, k) \<in> (parent_rel s)\<^sup>*)"
    and "assertNoCycle s k q \<noteq> Inl Diverges"
proof -
  have "acyclic (child_of (subfolders s))"
    using assms by (simp add: child_of_subfolders tree_inv_def tree_ok_def)
  moreover have "set (subfolders s p) \<subseteq> d_id ` set (folders s)" for p
    by (auto simp: subfolders_def)
  moreover have "card (d_id ` set (folders s)) < Suc (length (folders s))"
    by (metis card_image_le card_length finite_set le_imp_less_Suc order_trans)
  ultimately have "\<exists>ids. closure_all (Suc (length (folders s))) (subfolders s) [] roots = Some ids \<and>
      set ids = {x. \<exists>r \<in> set roots. (x, r) \<in> (child_of (subfolders s))\<^sup>*}" for roots
    by (intro closure_all_terminates [where U = "d_id ` set (folders s)"]) auto
  then obtain ids where
    "closure_all (Suc (length (folders s))) (subfolders s) [] (map d_id (filter (\<lambda>d. d_id d = k) (folders s))) = Some ids"
    "set ids = {x. \<exists>r \<in> set (map d_id (filter (\<lambda>d. d_id d = k) (folders s))). (x, r) \<in> (parent_rel s)\<^sup>*}"
    unfolding child_of_subfolders by blast
  then show "assertNoCycle s k q = Inr () \<longleftrightarrow> \<not> ((\<exists>d \<in> set (folders s). d_id d = k) \<and> (q, k) \<in> (parent_rel s)\<^sup>*)"
    and "assertNoCycle s k q \<noteq> Inl Diverges"
    by (auto simp: assertNoCycle_def err_simps)
qed

lemma save_pair_Inr:
  "save_pair d m s = Inr s' \<longleftrightarrow>
     varchar_ok 255 (d_name d) \<and> varchar_ok 255 (f_name m) \<and> s' = save_file m (save_folder d s)"
  by (auto simp: save_pair_def err_simps)

lemma rename_pairD:
  assumes "rename_pair s user d m requested dest = Inr (d', m')"
  obtains n where "d' = d\<lparr>d_name := n, d_parentId := dest\<rparr>" "m' = m\<lparr>f_name := n, f_parentId := dest\<rparr>"
    "has_parent s user dest" "name_free s user dest (Some (f_id m)) (Some (d_id d)) n"
proof -
  obtain n where al: "allocateNamespaceName s user dest requested KFolder (Some (f_id m)) (Some (d_id d)) = Inr n"
    and "d' = d\<lparr>d_name := n, d_parentId := dest\<rparr>" "m' = m\<lparr>f_name := n, f_parentId := dest\<rparr>"
    using assms by (auto simp: rename_pair_def err_simps)
  then show thesis using that allocate_parent [OF al] allocate_name_free [OF al] by blast
qed

lemma updateFolder_inv:
  assumes inv: "tree_inv s" and ok: "updateFolder s0 user k name parent s = Inr (s', fl)"
  shows "tree_inv s'"
proof -
  obtain d m d' m' where dm: "folder_of s user k = Some d" "mirror_of s user k = Some m" and
    cyc: "(case wanted_parent parent None of Some q \<Rightarrow> assertNoCycle s k q | None \<Rightarrow> Inr ()) = Inr ()" and
    al: "(if requested_name name (d_name d) \<noteq> d_name d \<or> wanted_parent parent (d_parentId d) \<noteq> d_parentId d
          then rename_pair s user d m (requested_name name (d_name d)) (wanted_parent parent (d_parentId d))
          else Inr (d, m)) = Inr (d', m')" and
    s': "s' = save_file m' (save_folder d' s)"
    using ok by (auto simp: updateFolder_def err_simps Let_def save_pair_Inr split del: if_split)
  note fm = folder_mirror [OF inv dm]
  have down: "d_parentId d = Some p \<or> (p, d_id d) \<notin> (parent_rel s)\<^sup>*"
    if "wanted_parent parent (d_parentId d) = Some p" for p
    using that cyc fm(1,2)
    by (auto simp: wanted_parent_def assertNoCycle_iff [OF inv] split: option.splits)
  show ?thesis
  proof (cases "requested_name name (d_name d) \<noteq> d_name d \<or> wanted_parent parent (d_parentId d) \<noteq> d_parentId d")
    case True
    then have "rename_pair s user d m (requested_name name (d_name d)) (wanted_parent parent (d_parentId d))
        = Inr (d', m')" using al by simp
    then obtain n where n: "d' = d\<lparr>d_name := n, d_parentId := wanted_parent parent (d_parentId d)\<rparr>"
        "m' = m\<lparr>f_name := n, f_parentId := wanted_parent parent (d_parentId d)\<rparr>"
        "has_parent s user (wanted_parent parent (d_parentId d))"
        "name_free s user (wanted_parent parent (d_parentId d)) (Some (f_id m)) (Some (d_id d)) n"
      by (rule rename_pairD)
    have "agree m' d'" using fm(5) n by (simp add: agree_def)
    then show ?thesis
      unfolding s' using n fm down by (intro folder_change [OF inv fm(1,4,5)]) auto
  next
    case False
    then have "d' = d" "m' = m" using al by auto
    then show ?thesis
      unfolding s' using fm own_folder_name_free [OF inv] has_parent_folder [OF inv]
      by (intro folder_change [OF inv fm(1,4,5)]) auto
  qed
qed

lemma updateFile_inv:
  "tree_inv s \<Longrightarrow> updateFile s0 user k name parent s = Inr (s', fl) \<Longrightarrow> tree_inv s'"
  by (auto simp: updateFile_def err_simps intro: changeFilePlacement_inv)

lemma moveFile_inv:
  "tree_inv s \<Longrightarrow> moveFile s0 user k target s = Inr (s', fl) \<Longrightarrow> tree_inv s'"
  by (auto simp: moveFile_def err_simps split: if_splits option.splits
      intro: changeFilePlacement_inv updateFolder_inv)


section \<open>Trash\<close>

text \<open>
  \<open>removeFile\<close> may have read its row in an earlier state \<open>s0\<close>.  The save is harmless when the file is still
  there and the folder that the read saw it in has not been deleted since.
\<close>

definition still_there :: "db \<Rightarrow> db \<Rightarrow> nat \<Rightarrow> nat \<Rightarrow> bool" where
  "still_there s0 s user k \<longleftrightarrow>
     (case file_of s0 user k of
        None \<Rightarrow> True
      | Some f \<Rightarrow> f_isFolder f \<or> has_parent s user (f_parentId f)
          \<and> (case file_of s user k of None \<Rightarrow> False
             | Some g \<Rightarrow> \<not> f_isFolder g \<and> f_size g = f_size f \<and> f_folderId g = f_folderId f))"

lemma still_there_now: "tree_inv s \<Longrightarrow> still_there s s user k"
  using file_ofD has_parent_file by (fastforce simp: still_there_def split: option.split)

lemma removeFile_inv:
  assumes inv: "tree_inv s" and ok: "removeFile s0 now user k s = Inr s'" and still: "still_there s0 s user k"
  shows "tree_inv s'"
proof -
  obtain f where f: "file_of s0 user k = Some f" "\<not> f_isFolder f" and
    s': "s' = upsert_file (f\<lparr>f_isDeleted := True, f_deletedAt := Some now\<rparr>) s"
    using ok by (auto simp: removeFile_def findOne_def err_simps)
  obtain g where g: "file_of s user k = Some g" "\<not> f_isFolder g" "f_size g = f_size f" "f_folderId g = f_folderId f"
    "has_parent s user (f_parentId f)"
    using still f by (auto simp: still_there_def split: option.splits)
  note mem = file_ofD [OF f(1)] file_ofD [OF g(1)]
  then have "f_id f \<in> f_id ` set (files s)" by (metis imageI)
  then have "s' = save_file (f\<lparr>f_isDeleted := True, f_deletedAt := Some now\<rparr>) s"
    by (auto simp: s' upsert_file_def)
  then show ?thesis
    using mem f(2) g by (auto intro!: file_change [OF inv, of g])
qed

lemma removeFolder_inv:
  assumes inv: "tree_inv s" and ok: "removeFolder now user k s = Inr s'"
  shows "tree_inv s'"
proof -
  obtain d m where dm: "folder_of s user k = Some d" "mirror_of s user k = Some m" and
    s': "s' = save_file (m\<lparr>f_isDeleted := True, f_deletedAt := Some now\<rparr>)
      (save_folder (d\<lparr>d_isDeleted := True, d_deletedAt := Some now\<rparr>) s)"
    using ok by (auto simp: removeFolder_def err_simps save_pair_Inr)
  note fm = folder_mirror [OF inv dm]
  show ?thesis
    unfolding s' using fm has_parent_folder [OF inv fm(1)]
    by (intro folder_change [OF inv fm(1,4,5)]) (auto simp: agree_def)
qed

lemma restoreFile_inv: "tree_inv s \<Longrightarrow> restoreFile user k s = Inr s' \<Longrightarrow> tree_inv s'"
  by (auto simp: restoreFile_def err_simps intro: changeFilePlacement_inv)

text \<open>
  \<open>restoreFolder\<close> allocates a name only for a folder that is in the trash.  A live folder whose parent
  is in the trash is moved to the root under its old name, which is harmless when the name is free there.
\<close>

definition restorable :: "db \<Rightarrow> nat \<Rightarrow> nat \<Rightarrow> bool" where
  "restorable s user k \<longleftrightarrow>
     (case folder_of s user k of None \<Rightarrow> True
      | Some d \<Rightarrow> d_isDeleted d \<or> active_parent s user (d_parentId d) = d_parentId d
          \<or> name_free s user None (map_option f_id (mirror_of s user k)) (Some k) (d_name d))"

lemma active_parent_cases: "active_parent s user p = None \<or> active_parent s user p = p"
  by (auto simp: active_parent_def split: option.splits)

lemma restoreFolder_inv:
  assumes inv: "tree_inv s" and ok: "restoreFolder user k s = Inr s'" and safe: "restorable s user k"
  shows "tree_inv s'"
proof -
  define dest where "dest d = active_parent s user (d_parentId d)" for d :: folder_row
  obtain d0 m0 d' m' where dm: "folder_of s user k = Some d0" "mirror_of s user k = Some m0" and
    al: "(let orphaned = d_parentId d0 \<noteq> None \<and> dest d0 = None;
              d = (if orphaned then d0\<lparr>d_parentId := None\<rparr> else d0);
              m = (if orphaned then m0\<lparr>f_parentId := None\<rparr> else m0)
          in if d_isDeleted d then rename_pair s user d m (d_name d) (d_parentId d) else Inr (d, m)) = Inr (d', m')" and
    s': "s' = save_file (m'\<lparr>f_isDeleted := False, f_deletedAt := None\<rparr>)
      (save_folder (d'\<lparr>d_isDeleted := False, d_deletedAt := None\<rparr>) s)"
    using ok by (auto simp: restoreFolder_def err_simps Let_def save_pair_Inr dest_def split del: if_split)
  note fm = folder_mirror [OF inv dm]
  have m_parent: "f_parentId m0 = d_parentId d0" using fm(5) by (simp add: agree_def)
  have eq: "(if d_parentId d0 \<noteq> None \<and> dest d0 = None then d0\<lparr>d_parentId := None\<rparr> else d0) = d0\<lparr>d_parentId := dest d0\<rparr>"
      "(if d_parentId d0 \<noteq> None \<and> dest d0 = None then m0\<lparr>f_parentId := None\<rparr> else m0) = m0\<lparr>f_parentId := dest d0\<rparr>"
    using active_parent_cases [of s user "d_parentId d0"] m_parent by (auto simp: dest_def)
  have al': "(if d_isDeleted d0
      then rename_pair s user (d0\<lparr>d_parentId := dest d0\<rparr>) (m0\<lparr>f_parentId := dest d0\<rparr>) (d_name d0) (dest d0)
      else Inr (d0\<lparr>d_parentId := dest d0\<rparr>, m0\<lparr>f_parentId := dest d0\<rparr>)) = Inr (d', m')"
    using al unfolding Let_def eq by (cases "d_isDeleted d0") simp_all
  show ?thesis
  proof (cases "d_isDeleted d0")
    case True
    then have "rename_pair s user (d0\<lparr>d_parentId := dest d0\<rparr>) (m0\<lparr>f_parentId := dest d0\<rparr>) (d_name d0) (dest d0)
        = Inr (d', m')" using al' by simp
    then obtain n where n: "d' = d0\<lparr>d_name := n, d_parentId := dest d0\<rparr>"
        "m' = m0\<lparr>f_name := n, f_parentId := dest d0\<rparr>" "has_parent s user (dest d0)"
        "name_free s user (dest d0) (Some (f_id m0)) (Some (d_id d0)) n"
      by (rule rename_pairD) auto
    show ?thesis
      unfolding s' using n fm active_parent_cases [of s user "d_parentId d0"]
      by (intro folder_change [OF inv fm(1,4,5)]) (auto simp: agree_def dest_def)
  next
    case False
    then have d': "d' = d0\<lparr>d_parentId := dest d0\<rparr>" "m' = m0\<lparr>f_parentId := dest d0\<rparr>" using al' by simp_all
    have free: "name_free s user (dest d0) (Some (f_id m0)) (Some (d_id d0)) (d_name d0)"
    proof (cases "dest d0 = d_parentId d0")
      case True
      then show ?thesis using own_folder_name_free [OF inv fm(1,5,4) False] fm by simp
    next
      case moved: False
      then have "dest d0 = None" using active_parent_cases [of s user "d_parentId d0"] by (simp add: dest_def)
      then show ?thesis using moved safe dm fm False by (simp add: restorable_def dest_def)
    qed
    show ?thesis
      unfolding s' d' using free fm has_parent_folder [OF inv fm(1)] active_parent_cases [of s user "d_parentId d0"]
      by (intro folder_change [OF inv fm(1,4,5)]) (auto simp: agree_def dest_def)
  qed
qed


section \<open>Permanent deletion\<close>

lemma sumFileSizes_Inr: "sumFileSizes fs = Inr n \<Longrightarrow> n = total f_size fs"
proof -
  have *: "sum_sizes acc fs = Inr n \<Longrightarrow> n = acc + total f_size fs" for acc
    by (induction acc fs rule: sum_sizes.induct) (auto simp: err_simps add.assoc split: if_splits)
  show "sumFileSizes fs = Inr n \<Longrightarrow> n = total f_size fs" using * [of 0] by (simp add: sumFileSizes_def)
qed

lemma delete_folders_none: "delete_folders [] s = s"
proof -
  have "clear_ref [] p = p" for p by (simp add: clear_ref_id)
  then show ?thesis by (simp add: delete_folders_def drop_rows_def)
qed

lemma deleteFilePermanently_inv:
  assumes inv: "tree_inv s" and ok: "deleteFilePermanently user k s = Inr (s', gone)"
    and ordinary: "\<And>f. file_of s user k = Some f \<Longrightarrow> \<not> f_isFolder f"
  shows "tree_inv s'"
proof -
  obtain f s1 where f: "file_of s user k = Some f" and
    ref: "decrementStorageUsed user (f_size f) s = Inr s1" and s': "s' = delete_files [k] s1"
    using ok by (auto simp: deleteFilePermanently_def err_simps)
  note mem = file_ofD [OF f]
  have "deletable s user [] [f] []" using mem ordinary [OF f] by (simp add: deletable_def)
  then show ?thesis
    using subtree_delete [OF inv, of user "[]" "[f]" "[]" s1] ref mem by (simp add: s' delete_folders_none)
qed

text \<open>The closure of some folders of a user: it lies in the folders of the user and is closed.\<close>

lemma closure_user:
  assumes inv: "tree_inv s" and roots: "\<forall>r \<in> set roots. \<exists>d \<in> set (folders s). d_id d = r \<and> d_userId d = user"
  defines "K \<equiv> closure_union (length (folders s)) (subfolders_of s user) roots roots"
  shows "x \<in> set K \<Longrightarrow> \<exists>d \<in> set (folders s). d_id d = x \<and> d_userId d = user"
    and "d \<in> set (folders s) \<Longrightarrow> d_parentId d \<in> Some ` set K \<Longrightarrow> d_id d \<in> set K"
    and "set roots \<subseteq> set K"
    and "set K = {x. \<exists>r \<in> set roots. (x, r) \<in> (parent_rel s)\<^sup>*}"
proof -
  note D = tree_invD [OF inv]
  let ?ch = "child_of (subfolders_of s user)"
  have "set (subfolders_of s user p) \<subseteq> d_id ` set (folders s)" for p by (auto simp: subfolders_of_def)
  moreover have "card (d_id ` set (folders s)) \<le> length (folders s)"
    by (metis card_image_le card_length finite_set order_trans)
  ultimately have K: "set K = {x. \<exists>r \<in> set roots. (x, r) \<in> ?ch\<^sup>*}"
    unfolding K_def by (intro closure_union_correct [where U = "d_id ` set (folders s)"]) auto
  show mem: "\<exists>d \<in> set (folders s). d_id d = x \<and> d_userId d = user" if x: "x \<in> set K" for x
  proof -
    obtain r where r: "r \<in> set roots" "(x, r) \<in> ?ch\<^sup>*" using x K by auto
    from r(2) show ?thesis
      by (cases rule: converse_rtranclE) (use roots r(1) in \<open>auto simp: child_of_def subfolders_of_def\<close>)
  qed
  have one: "(d_id d, p) \<in> ?ch" if d: "d \<in> set (folders s)" "d_parentId d = Some p" "p \<in> set K" for d p
  proof -
    obtain e where e: "e \<in> set (folders s)" "d_id e = p" "d_userId e = d_userId d"
      using has_parent_folder [OF inv d(1)] d(2) by auto
    obtain e' where e': "e' \<in> set (folders s)" "d_id e' = p" "d_userId e' = user" using mem [OF d(3)] by auto
    have "e = e'" using key_unique [OF D(8) e(1) e'(1)] e e' by simp
    then show ?thesis using d e e' by (auto simp: child_of_def subfolders_of_def)
  qed
  show closed: "d_id d \<in> set K" if "d \<in> set (folders s)" "d_parentId d \<in> Some ` set K" for d
    using that one [OF that(1)] K by (auto intro: converse_rtrancl_into_rtrancl)
  show "set roots \<subseteq> set K" using K by auto
  show "set K = {x. \<exists>r \<in> set roots. (x, r) \<in> (parent_rel s)\<^sup>*}"
  proof (intro equalityI subsetI)
    fix x assume "x \<in> set K"
    moreover have "?ch \<subseteq> parent_rel s" by (auto simp: child_of_def subfolders_of_def parent_rel_def)
    ultimately show "x \<in> {x. \<exists>r \<in> set roots. (x, r) \<in> (parent_rel s)\<^sup>*}"
      using K rtrancl_mono by blast
  next
    fix x assume "x \<in> {x. \<exists>r \<in> set roots. (x, r) \<in> (parent_rel s)\<^sup>*}"
    then obtain r where r: "(x, r) \<in> (parent_rel s)\<^sup>*" "r \<in> set roots" by auto
    then show "x \<in> set K"
    proof (induction rule: converse_rtrancl_induct)
      case base then show ?case using K by auto
    next
      case (step y z) then show ?case using closed by (auto simp: parent_rel_def)
    qed
  qed
qed

lemma deletable_closure:
  assumes inv: "tree_inv s" and roots: "\<forall>r \<in> set roots. \<exists>d \<in> set (folders s). d_id d = r \<and> d_userId d = user"
    and K: "K = closure_union (length (folders s)) (subfolders_of s user) roots roots"
    and G: "distinct G" "\<And>g. g \<in> set G \<longleftrightarrow> g \<in> set (files s) \<and> \<not> f_isFolder g \<and> f_userId g = user
      \<and> (f_parentId g \<in> Some ` set K \<or> Q g)"
    and M: "M = filter (\<lambda>f. f_userId f = user \<and> f_folderId f \<in> Some ` set K \<and> f_isFolder f) (files s)"
  shows "deletable s user K G M"
proof -
  note D = tree_invD [OF inv]
  note clo = closure_user [where roots = roots and user = user, OF inv roots, folded K]
  have user: "d_userId e = user" if e: "e \<in> set (folders s)" "d_id e \<in> set K" for e
  proof -
    obtain e' where e': "e' \<in> set (folders s)" "d_id e' = d_id e" "d_userId e' = user"
      using clo(1) [OF e(2)] by blast
    then have "e' = e" using key_unique [OF D(8) e'(1) e(1)] by simp
    then show ?thesis using e' by simp
  qed
  have "f_userId g = user" if "g \<in> set (files s)" "f_parentId g \<in> Some ` set K" for g
    using has_parent_file [OF inv that(1)] that(2) user by auto
  moreover have "f_userId m = user" if m: "m \<in> set (files s)" "f_isFolder m" "f_folderId m \<in> Some ` set K" for m
  proof -
    obtain e where "e \<in> set (folders s)" "agree m e"
      using D(2) m(1,2) by (auto simp: mirrors_ok_def mirrors_on_def)
    then show ?thesis using user [of e] m(3) by (auto simp: agree_def)
  qed
  ultimately show ?thesis
    using clo(2) G M unfolding deletable_def by auto
qed

lemma deleteFolderPermanently_inv:
  assumes inv: "tree_inv s" and ok: "deleteFolderPermanently user k s = Inr (s', gone)"
  shows "tree_inv s'"
proof -
  define K where "K = closure_union (length (folders s)) (subfolders_of s user) [k] [k]"
  define G where "G = filter (\<lambda>f. f_userId f = user \<and> f_parentId f \<in> Some ` set K \<and> \<not> f_isFolder f) (files s)"
  define M where "M = filter (\<lambda>f. f_userId f = user \<and> f_folderId f \<in> Some ` set K \<and> f_isFolder f) (files s)"
  obtain d n s1 where d: "folder_of s user k = Some d" and n: "sumFileSizes G = Inr n" and
    ref: "decrementStorageUsed user n s = Inr s1" and
    s': "s' = delete_folders K (delete_files (map f_id (G @ M)) s1)"
    using ok unfolding deleteFolderPermanently_def Let_def K_def [symmetric]
    unfolding G_def [symmetric] M_def [symmetric] by (auto simp: err_simps)
  have "distinct G" using tree_invD(7) [OF inv] by (simp add: G_def distinct_map)
  then have "deletable s user K G M"
    using folder_ofD [OF d]
    by (intro deletable_closure [OF inv, of "[k]" user K G "\<lambda>_. False"]) (auto simp: K_def G_def M_def)
  then show ?thesis
    using subtree_delete [OF inv] ref sumFileSizes_Inr [OF n] s' by simp
qed

lemma by_id_set:
  "inj_on f_id (set fs) \<Longrightarrow> set (by_id seen fs) = {f \<in> set fs. f_id f \<notin> set seen}"
  by (induction seen fs rule: by_id.induct) (auto simp: inj_on_def)

lemma by_id_distinct: "distinct (map f_id (by_id seen fs)) \<and> f_id ` set (by_id seen fs) \<inter> set seen = {}"
  by (induction seen fs rule: by_id.induct) auto

lemma emptyTrash_inv:
  assumes inv: "tree_inv s" and ok: "emptyTrash user s = Inr (s', gone)"
  shows "tree_inv s'"
proof -
  define roots where "roots = map d_id (filter (\<lambda>d. d_userId d = user \<and> d_isDeleted d) (folders s))"
  define K where "K = closure_union (length (folders s)) (subfolders_of s user) roots roots"
  define G where "G = by_id [] (filter (\<lambda>f. f_userId f = user \<and> f_isDeleted f \<and> \<not> f_isFolder f) (files s)
    @ filter (\<lambda>f. f_userId f = user \<and> f_parentId f \<in> Some ` set K \<and> \<not> f_isFolder f) (files s))"
  define M where "M = filter (\<lambda>f. f_userId f = user \<and> f_folderId f \<in> Some ` set K \<and> f_isFolder f) (files s)"
  obtain n s1 where n: "sumFileSizes G = Inr n" and
    ref: "decrementStorageUsed user n s = Inr s1" and
    s': "s' = delete_folders K (delete_files (map f_id (G @ M)) s1)"
    using ok unfolding emptyTrash_def Let_def roots_def [symmetric] K_def [symmetric]
    unfolding G_def [symmetric] M_def [symmetric] by (auto simp: err_simps)
  have "inj_on f_id (set (files s))" using tree_invD(7) [OF inv] by (simp add: distinct_map)
  then have "set G = {f \<in> set (files s). f_userId f = user \<and> \<not> f_isFolder f
      \<and> (f_isDeleted f \<or> f_parentId f \<in> Some ` set K)}"
    unfolding G_def by (subst by_id_set) (auto elim: inj_on_subset)
  moreover have "distinct G" using by_id_distinct by (auto simp: G_def distinct_map)
  ultimately have "deletable s user K G M"
    by (intro deletable_closure [OF inv, of roots user K G f_isDeleted]) (auto simp: K_def roots_def M_def)
  then show ?thesis
    using subtree_delete [OF inv] ref sumFileSizes_Inr [OF n] s' by simp
qed


section \<open>Copying\<close>

lemma add_used_files: "add_used k n (s\<lparr>files := fs, next_file := j\<rparr>) = (add_used k n s)\<lparr>files := fs, next_file := j\<rparr>"
  by (simp add: add_used_def findById_def save_user_def split: option.splits)

lemma charge_frame:
  assumes "users_ok s" "updateStorageUsed k n s = Inr s1"
  shows "files s1 = files s" "folders s1 = folders s" "next_file s1 = next_file s"
    "next_folder s1 = next_folder s" "user_exists s1 j = user_exists s j"
    "updateStorageUsed k n (s\<lparr>files := fs, next_file := i\<rparr>) = Inr (s1\<lparr>files := fs, next_file := i\<rparr>)"
proof -
  have ok': "users_ok (s\<lparr>files := fs, next_file := i\<rparr>)" using assms(1) by (simp add: users_ok_def)
  have s1: "s1 = (if n = 0 then s else add_used k n s)"
    using assms by (auto simp: updateStorageUsed_Inr split: if_splits)
  show "files s1 = files s" "folders s1 = folders s" "next_file s1 = next_file s" "next_folder s1 = next_folder s"
    by (simp_all add: s1)
  show "user_exists s1 j = user_exists s j" by (simp add: s1 user_exists_keys del: set_map)
  show "updateStorageUsed k n (s\<lparr>files := fs, next_file := i\<rparr>) = Inr (s1\<lparr>files := fs, next_file := i\<rparr>)"
    using assms by (auto simp: updateStorageUsed_Inr [OF assms(1)] updateStorageUsed_Inr [OF ok'] add_used_files
        used_of_def quota_of_def findById_def split: if_splits)
qed

lemma allocate_cong:
  "files s1 = files s \<Longrightarrow> folders s1 = folders s \<Longrightarrow>
     allocateNamespaceName s1 user p r kd xf xd = allocateNamespaceName s user p r kd xf xd"
  by (simp add: allocateNamespaceName_def occupied_names_def live_folder_def cong: option.case_cong)

lemma copy_tx_inv:
  assumes inv: "tree_inv s" and ok: "copy_tx pl source bytes name user target s = Inr (s', copy)"
  shows "tree_inv s'" and "copy \<in> set (files s')" and "f_userId copy = user"
    and "f_storageLocationId copy = Some (pl_storageLocationId pl)"
    and "f_relativeObjectKey copy = Some (pl_relativeObjectKey pl)"
    and "f_storagePath copy = Some (pl_storagePath pl)" and "f_id copy = next_file s"
    and "set (files s') = insert copy (set (files s))"
proof -
  note D = tree_invD [OF inv]
  obtain s1 chosen where ch: "updateStorageUsed user bytes s = Inr s1" and
    al: "allocateNamespaceName s1 user target name KFile None None = Inr chosen" and
    ins: "insert_file (new_file chosen pl bytes (f_mimeType source) target user) s1 = Inr (s', copy)"
    using ok by (auto simp: copy_tx_def err_simps)
  note fr = charge_frame [OF D(6) ch]
  have al': "allocateNamespaceName s user target name KFile None None = Inr chosen"
    using al allocate_cong [OF fr(1,2)] by simp
  have c: "copy = (new_file chosen pl bytes (f_mimeType source) target user)\<lparr>f_id := next_file s\<rparr>"
      "user_exists s user" "s' = s1\<lparr>files := files s @ [copy], next_file := Suc (next_file s)\<rparr>"
    using ins fr by (auto simp: insert_file_Inr new_file_def)
  show "tree_inv s'"
    using file_insert [OF inv, of copy s'] c fr(6) allocate_name_free [OF al'] allocate_parent [OF al']
    by (simp add: new_file_def)
  show "copy \<in> set (files s')" "f_userId copy = user" "f_storageLocationId copy = Some (pl_storageLocationId pl)"
    "f_relativeObjectKey copy = Some (pl_relativeObjectKey pl)" "f_storagePath copy = Some (pl_storagePath pl)"
    "f_id copy = next_file s" "set (files s') = insert copy (set (files s))"
    using c by (simp_all add: new_file_def)
qed

lemma copyFile_inv: "tree_inv s \<Longrightarrow> copyFile env s0 user k target s disk = (s', disk', r) \<Longrightarrow> tree_inv s'"
  using copy_tx_inv(1)
  by (auto simp: copyFile_def Let_def split: sum.splits if_splits commit_outcome.splits prod.splits)


section \<open>Histories\<close>

text \<open>
  An operation with its arguments.  The leading database of some of them is the state that the checks
  before the transaction saw, which may be any.
\<close>

datatype fs_op =
    CreateFile db placement nat ustring int "ustring option" "nat option"
  | CreateFolder db nat ustring "nat option"
  | UpdateFile db nat nat "ustring option" "nat option option"
  | UpdateFolder db nat nat "ustring option" "nat option option"
  | MoveFile db nat nat "nat option"
  | RemoveFile db int nat nat
  | RemoveFolder int nat nat
  | RestoreFile nat nat
  | RestoreFolder nat nat
  | DeleteFile nat nat
  | DeleteFolder nat nat
  | EmptyTrash nat
  | CopyFile copy_env db nat nat "nat option"

definition commit :: "db \<Rightarrow> (db \<times> 'a) res \<Rightarrow> db" where
  "commit s r = (case r of Inl _ \<Rightarrow> s | Inr (s', _) \<Rightarrow> s')"

definition commit_unit :: "db \<Rightarrow> db res \<Rightarrow> db" where
  "commit_unit s r = (case r of Inl _ \<Rightarrow> s | Inr s' \<Rightarrow> s')"

fun exec :: "fs_op \<Rightarrow> db \<Rightarrow> db" where
  "exec (CreateFile s0 pl user name bytes mime parent) s = commit s (createFile s0 pl user name bytes mime parent s)"
| "exec (CreateFolder s0 user name parent) s = commit s (createFolder s0 user name parent s)"
| "exec (UpdateFile s0 user k name parent) s = commit s (updateFile s0 user k name parent s)"
| "exec (UpdateFolder s0 user k name parent) s = commit s (updateFolder s0 user k name parent s)"
| "exec (MoveFile s0 user k target) s = commit s (moveFile s0 user k target s)"
| "exec (RemoveFile s0 now user k) s = commit_unit s (removeFile s0 now user k s)"
| "exec (RemoveFolder now user k) s = commit_unit s (removeFolder now user k s)"
| "exec (RestoreFile user k) s = commit_unit s (restoreFile user k s)"
| "exec (RestoreFolder user k) s = commit_unit s (restoreFolder user k s)"
| "exec (DeleteFile user k) s = commit s (deleteFilePermanently user k s)"
| "exec (DeleteFolder user k) s = commit s (deleteFolderPermanently user k s)"
| "exec (EmptyTrash user) s = commit s (emptyTrash user s)"
| "exec (CopyFile env s0 user k target) s = fst (copyFile env s0 user k target s [])"

text \<open>
  The three exceptions: a permanent deletion of a mirror row, restoring a live folder out of the trash to a
  place where its name is taken, and moving a file to the trash that was deleted between the read and the save.
\<close>

fun safe_op :: "fs_op \<Rightarrow> db \<Rightarrow> bool" where
  "safe_op (DeleteFile user k) s = (case file_of s user k of None \<Rightarrow> True | Some f \<Rightarrow> \<not> f_isFolder f)"
| "safe_op (RestoreFolder user k) s = restorable s user k"
| "safe_op (RemoveFile s0 now user k) s = still_there s0 s user k"
| "safe_op _ s = True"

lemma commit_inv: "tree_inv s \<Longrightarrow> (\<And>s' x. r = Inr (s', x) \<Longrightarrow> tree_inv s') \<Longrightarrow> tree_inv (commit s r)"
  by (auto simp: commit_def split: sum.splits)

lemma commit_unit_inv: "tree_inv s \<Longrightarrow> (\<And>s'. r = Inr s' \<Longrightarrow> tree_inv s') \<Longrightarrow> tree_inv (commit_unit s r)"
  by (auto simp: commit_unit_def split: sum.splits)

lemmas op_invs = createFile_inv createFolder_inv updateFile_inv updateFolder_inv moveFile_inv
  removeFile_inv removeFolder_inv restoreFile_inv restoreFolder_inv
  deleteFolderPermanently_inv emptyTrash_inv

lemma exec_inv: "tree_inv s \<Longrightarrow> safe_op op s \<Longrightarrow> tree_inv (exec op s)"
proof (cases op)
  case (DeleteFile user k)
  assume *: "tree_inv s" "safe_op op s"
  have "\<And>f. file_of s user k = Some f \<Longrightarrow> \<not> f_isFolder f" using *(2) DeleteFile by simp
  then show ?thesis
    using *(1) deleteFilePermanently_inv [OF *(1)] DeleteFile by (auto intro!: commit_inv)
next
  case (CopyFile env s0 user k target)
  assume "tree_inv s"
  then show ?thesis
    using copyFile_inv [of s env s0 user k target "[]"] CopyFile
    by (cases "copyFile env s0 user k target s []") auto
qed (auto intro!: commit_inv commit_unit_inv intro: op_invs)

fun run :: "fs_op list \<Rightarrow> db \<Rightarrow> db" where
  "run [] s = s"
| "run (op # ops) s = run ops (exec op s)"

fun safe_run :: "fs_op list \<Rightarrow> db \<Rightarrow> bool" where
  "safe_run [] s = True"
| "safe_run (op # ops) s = (safe_op op s \<and> safe_run ops (exec op s))"

lemma run_inv: "tree_inv s \<Longrightarrow> safe_run ops s \<Longrightarrow> tree_inv (run ops s)"
  by (induction ops arbitrary: s) (auto intro: exec_inv)

end
