(* ===== verification/FileTreeProps.thy ===== *)
theory FileTreeProps
  imports FileTreeOps
begin

text \<open>
  What the operations do when the invariant holds: the recursive deletions succeed and remove exactly
  the subtree, the listings find their mirrors, a copy leaves no orphan; and the properties of the
  file services with their witnesses, among them what the two unguarded operations break.
\<close>

section \<open>Sizes\<close>

lemma sum_sizes_ok:
  "(\<And>f. f \<in> set fs \<Longrightarrow> 0 \<le> f_size f) \<Longrightarrow> 0 \<le> acc \<Longrightarrow> acc + total f_size fs \<le> max_safe \<Longrightarrow>
     sum_sizes acc fs = Inr (acc + total f_size fs)"
proof (induction fs arbitrary: acc)
  case (Cons f fs)
  have nn: "0 \<le> total f_size fs" "0 \<le> f_size f" using Cons.prems(1) by (auto intro: total_nonneg)
  then have "sum_sizes (acc + f_size f) fs = Inr (acc + f_size f + total f_size fs)"
    using Cons.prems by (intro Cons.IH) auto
  then show ?case
    using Cons.prems(2,3) nn by (simp add: safe_integer_def max_safe_def add.assoc)
qed simp

lemma sumFileSizes_ok:
  "(\<And>f. f \<in> set fs \<Longrightarrow> 0 \<le> f_size f) \<Longrightarrow> total f_size fs \<le> max_safe \<Longrightarrow>
     sumFileSizes fs = Inr (total f_size fs)"
  using sum_sizes_ok [of fs 0] by (simp add: sumFileSizes_def)

lemma total_owned:
  assumes inv: "tree_inv s" and G: "distinct G" "\<And>g. g \<in> set G \<Longrightarrow> g \<in> set (files s) \<and> f_userId g = user"
  shows "0 \<le> total f_size G" "total f_size G \<le> owned s user"
proof -
  have nn: "f \<in> set (files s) \<Longrightarrow> 0 \<le> f_size f" for f
    using quota_okD(1) [OF tree_invD(5) [OF inv]] .
  show "0 \<le> total f_size G" using G(2) nn by (intro total_nonneg) auto
  have "total f_size G = (\<Sum>f \<in> set G. f_size f)"
    using G(1) by (simp add: total_def sum_list_distinct_conv_sum_set)
  also have "\<dots> \<le> (\<Sum>f \<in> {f \<in> set (files s). f_userId f = user}. f_size f)"
    using G(2) nn by (intro sum_mono2) auto
  also have "\<dots> = owned s user" using owned_set [OF tree_invD(1) [OF inv]] by simp
  finally show "total f_size G \<le> owned s user" .
qed

lemma refund_owned:
  assumes inv: "tree_inv s" and user: "user_exists s user"
    and G: "distinct G" "\<And>g. g \<in> set G \<Longrightarrow> g \<in> set (files s) \<and> f_userId g = user"
  shows "\<exists>s1. sumFileSizes G = Inr (total f_size G) \<and> decrementStorageUsed user (total f_size G) s = Inr s1"
proof -
  note D = tree_invD [OF inv]
  have used: "used_of s user = owned s user" using D(5) user by (simp add: quota_ok_used)
  have "total f_size G \<le> used_of s user" "0 \<le> total f_size G"
    using total_owned [OF inv, of G user] G used by auto
  moreover have "used_of s user \<le> max_safe" using used_range [OF D(6), of user] by linarith
  moreover have "sumFileSizes G = Inr (total f_size G)"
    using G(2) quota_okD(1) [OF D(5)] calculation by (intro sumFileSizes_ok) auto
  moreover have "findById s user \<noteq> None" using user by (simp add: findById_None user_exists_keys)
  ultimately show ?thesis by (auto simp: decrementStorageUsed_Inr [OF D(6)])
qed


section \<open>Recursive deletion\<close>

lemma distinct_same_set_length:
  "distinct xs \<Longrightarrow> distinct ys \<Longrightarrow> set xs = set ys \<Longrightarrow> length xs = length ys"
  by (metis distinct_card)

lemma mirror_check:
  assumes inv: "tree_inv s" and K: "distinct K" "\<And>x. x \<in> set K \<Longrightarrow> \<exists>d \<in> set (folders s). d_id d = x \<and> d_userId d = user"
  defines "M \<equiv> filter (\<lambda>f. f_userId f = user \<and> f_folderId f \<in> Some ` set K \<and> f_isFolder f) (files s)"
  shows "length M = length K" and "\<forall>i \<in> set K. Some i \<in> set (map f_folderId M)"
proof -
  note D = tree_invD [OF inv]
  have M: "mirrors_on (set (files s)) (set (folders s))" using D(2) by (simp add: mirrors_ok_def)
  show all: "\<forall>i \<in> set K. Some i \<in> set (map f_folderId M)"
  proof
    fix i assume i: "i \<in> set K"
    then obtain d where d: "d \<in> set (folders s)" "d_id d = i" "d_userId d = user" using K(2) by blast
    then obtain f where f: "f \<in> set (files s)" "agree f d" using M by (auto simp: mirrors_on_def)
    then have "f \<in> set M" using d i by (auto simp: M_def agree_def)
    then show "Some i \<in> set (map f_folderId M)" using f d by (force simp: agree_def)
  qed
  have "inj_on f_folderId (set M)" using M by (auto simp: inj_on_def mirrors_on_def M_def)
  moreover have "distinct M" using D(7) by (simp add: M_def distinct_map)
  ultimately have "distinct (map f_folderId M)" by (simp add: distinct_map)
  moreover have "set (map f_folderId M) = set (map Some K)" using all by (auto simp: M_def)
  ultimately have "length (map f_folderId M) = length (map Some K)"
    using K(1) by (intro distinct_same_set_length) (auto simp: distinct_map)
  then show "length M = length K" by simp
qed

lemma folder_check:
  assumes inv: "tree_inv s" and K: "distinct K" "\<And>x. x \<in> set K \<Longrightarrow> \<exists>d \<in> set (folders s). d_id d = x \<and> d_userId d = user"
  shows "length (filter (\<lambda>d. d_id d \<in> set K \<and> d_userId d = user) (folders s)) = length K"
proof -
  let ?D = "filter (\<lambda>d. d_id d \<in> set K \<and> d_userId d = user) (folders s)"
  have "distinct (map d_id ?D)" using tree_invD(8) [OF inv] by (rule distinct_map_filter)
  moreover have "set (map d_id ?D) = set K" using K(2) by (auto simp: image_iff)
  ultimately have "length (map d_id ?D) = length K" using K(1) distinct_same_set_length by blast
  then show ?thesis by simp
qed

text \<open>The rows that lie in the subtree of a folder.\<close>

definition in_subtree :: "db \<Rightarrow> nat \<Rightarrow> nat \<Rightarrow> bool" where
  "in_subtree s k x \<longleftrightarrow> (x, k) \<in> (parent_rel s)\<^sup>*"

definition outside :: "db \<Rightarrow> nat set \<Rightarrow> file_row \<Rightarrow> bool" where
  "outside s K f \<longleftrightarrow> (if f_isFolder f then f_folderId f \<notin> Some ` K else f_parentId f \<notin> Some ` K)"

lemma deletableD:
  assumes "deletable s user K G M"
  shows "g \<in> set G \<Longrightarrow> g \<in> set (files s) \<and> \<not> f_isFolder g \<and> f_userId g = user"
    and "g \<in> set (files s) \<Longrightarrow> \<not> f_isFolder g \<Longrightarrow> f_parentId g \<in> Some ` set K \<Longrightarrow> g \<in> set G"
    and "m \<in> set M \<longleftrightarrow> m \<in> set (files s) \<and> f_isFolder m \<and> f_folderId m \<in> Some ` set K"
    and "d \<in> set (folders s) \<Longrightarrow> d_parentId d \<in> Some ` set K \<Longrightarrow> d_id d \<in> set K"
  using assms unfolding deletable_def by blast+

lemma delete_outcome:
  assumes inv: "tree_inv s" and del: "deletable s user K G M"
    and ref: "decrementStorageUsed user (total f_size G) s = Inr s1"
  defines "s' \<equiv> delete_folders K (delete_files (map f_id (G @ M)) s1)"
  shows "files s' = filter (\<lambda>f. f \<notin> set G \<union> set M) (files s)"
    and "folders s' = filter (\<lambda>d. d_id d \<notin> set K) (folders s)"
    and "used_of s' user = used_of s user - total f_size G"
proof -
  note D = tree_invD [OF inv]
  have fr: "files s1 = files s" "folders s1 = folders s"
    using ref decrementStorageUsed_Inr [OF D(6)] by (auto split: if_splits)
  show "files s' = filter (\<lambda>f. f \<notin> set G \<union> set M) (files s)"
    and "folders s' = filter (\<lambda>d. d_id d \<notin> set K) (folders s)"
    using deletable_files [OF inv del fr] by (simp_all only: s'_def)
  have "used_of s' user = used_of s1 user"
    by (simp add: s'_def delete_folders_def delete_files_def used_of_def findById_def)
  then show "used_of s' user = used_of s user - total f_size G"
    using users.refund_used [OF D(6) ref, of user] by simp
qed

lemma deleteFolderPermanently_works:
  assumes inv: "tree_inv s" and d: "folder_of s user k = Some d"
  defines "K \<equiv> {x. in_subtree s k x}"
  shows "\<exists>s' gone. deleteFolderPermanently user k s = Inr (s', gone)
    \<and> folders s' = filter (\<lambda>d. d_id d \<notin> K) (folders s)
    \<and> files s' = filter (outside s K) (files s)
    \<and> used_of s' user = used_of s user - total f_size (filter (\<lambda>f. \<not> f_isFolder f \<and> \<not> outside s K f) (files s))"
proof -
  note D = tree_invD [OF inv]
  define L where "L = closure_union (length (folders s)) (subfolders_of s user) [k] [k]"
  define G where "G = filter (\<lambda>f. f_userId f = user \<and> f_parentId f \<in> Some ` set L \<and> \<not> f_isFolder f) (files s)"
  define M where "M = filter (\<lambda>f. f_userId f = user \<and> f_folderId f \<in> Some ` set L \<and> f_isFolder f) (files s)"
  have roots: "\<forall>r \<in> set [k]. \<exists>d \<in> set (folders s). d_id d = r \<and> d_userId d = user"
    using folder_ofD [OF d] by auto
  note clo = closure_user [where roots = "[k]" and user = user, OF inv roots, folded L_def]
  have LK: "set L = K" using clo(4) by (simp add: K_def in_subtree_def)
  have dist: "distinct L" by (simp add: L_def closure_union_distinct)
  have G: "distinct G" "\<And>g. g \<in> set G \<Longrightarrow> g \<in> set (files s) \<and> f_userId g = user"
    using D(7) by (auto simp: G_def distinct_map)
  have del: "deletable s user L G M"
    by (rule deletable_closure [OF inv roots L_def G(1), of "\<lambda>_. False"]) (auto simp: G_def M_def)
  have "user_exists s user"
  proof -
    obtain f where "f \<in> set (files s)" "agree f d"
      using D(2) folder_ofD [OF d] by (auto simp: mirrors_ok_def mirrors_on_def)
    then show ?thesis using quota_okD(2) [OF D(5), of f] folder_ofD [OF d] by (simp add: agree_def)
  qed
  then obtain s1 where s1: "sumFileSizes G = Inr (total f_size G)"
      "decrementStorageUsed user (total f_size G) s = Inr s1"
    using refund_owned [OF inv _ G] by blast
  have ok: "deleteFolderPermanently user k s =
      Inr (delete_folders L (delete_files (map f_id (G @ M)) s1), filter has_object G)"
    using s1 folder_check [OF inv dist clo(1)] mirror_check [OF inv dist clo(1), folded M_def] d
    unfolding deleteFolderPermanently_def Let_def L_def [symmetric]
    unfolding G_def [symmetric] M_def [symmetric] by simp
  note out = delete_outcome [OF inv del s1(2)]
  have Mi: "f \<in> set M \<longleftrightarrow> f \<in> set (files s) \<and> f_isFolder f \<and> f_folderId f \<in> Some ` set L" for f
    by (rule deletableD(3) [OF del])
  have Gi: "f \<in> set G \<longleftrightarrow> \<not> f_isFolder f \<and> f_parentId f \<in> Some ` set L" if f: "f \<in> set (files s)" for f
    using deletableD(1) [OF del, of f] deletableD(2) [OF del f] f by (auto simp: G_def)
  have "f \<notin> set G \<union> set M \<longleftrightarrow> outside s K f" if f: "f \<in> set (files s)" for f
    using Gi [OF f] Mi [of f] f by (simp add: outside_def LK)
  then have files': "filter (\<lambda>f. f \<notin> set G \<union> set M) (files s) = filter (outside s K) (files s)"
    by (intro filter_cong) auto
  have "G = filter (\<lambda>g. g \<in> set G) (files s)" unfolding G_def by (intro filter_cong) auto
  also have "\<dots> = filter (\<lambda>f. \<not> f_isFolder f \<and> \<not> outside s K f) (files s)"
    using Gi by (intro filter_cong) (simp_all add: outside_def LK)
  finally have G': "G = filter (\<lambda>f. \<not> f_isFolder f \<and> \<not> outside s K f) (files s)" .
  have t: "total f_size G = total f_size (filter (\<lambda>f. \<not> f_isFolder f \<and> \<not> outside s K f) (files s))"
    by (rule arg_cong [OF G'])
  show ?thesis
    using ok out(2) [unfolded LK] out(1) [unfolded files'] out(3) [unfolded t] by blast
qed

lemma emptyTrash_works:
  assumes inv: "tree_inv s" and user: "user_exists s user"
  defines "K \<equiv> {x. \<exists>d \<in> set (folders s). d_userId d = user \<and> d_isDeleted d \<and> in_subtree s (d_id d) x}"
  defines "gone f \<equiv> f_userId f = user \<and> f_isDeleted f \<or> \<not> outside s K f"
  shows "\<exists>s' objs. emptyTrash user s = Inr (s', objs)
    \<and> folders s' = filter (\<lambda>d. d_id d \<notin> K) (folders s)
    \<and> files s' = filter (\<lambda>f. \<not> gone f) (files s)"
proof -
  note D = tree_invD [OF inv]
  define roots where "roots = map d_id (filter (\<lambda>d. d_userId d = user \<and> d_isDeleted d) (folders s))"
  define L where "L = closure_union (length (folders s)) (subfolders_of s user) roots roots"
  define G where "G = by_id [] (filter (\<lambda>f. f_userId f = user \<and> f_isDeleted f \<and> \<not> f_isFolder f) (files s)
    @ filter (\<lambda>f. f_userId f = user \<and> f_parentId f \<in> Some ` set L \<and> \<not> f_isFolder f) (files s))"
  define M where "M = filter (\<lambda>f. f_userId f = user \<and> f_folderId f \<in> Some ` set L \<and> f_isFolder f) (files s)"
  have roots: "\<forall>r \<in> set roots. \<exists>d \<in> set (folders s). d_id d = r \<and> d_userId d = user"
    by (auto simp: roots_def)
  note clo = closure_user [where roots = roots and user = user, OF inv roots, folded L_def]
  have LK: "set L = K" using clo(4) by (auto simp: K_def in_subtree_def roots_def)
  have "distinct roots" using D(8) by (simp add: roots_def distinct_map_filter)
  then have dist: "distinct L" by (simp add: L_def closure_union_distinct)
  have "inj_on f_id (set (files s))" using D(7) by (simp add: distinct_map)
  then have setG: "set G = {f \<in> set (files s). f_userId f = user \<and> \<not> f_isFolder f
      \<and> (f_isDeleted f \<or> f_parentId f \<in> Some ` set L)}"
    unfolding G_def by (subst by_id_set) (auto elim: inj_on_subset)
  have G: "distinct G" "\<And>g. g \<in> set G \<Longrightarrow> g \<in> set (files s) \<and> f_userId g = user"
    using by_id_distinct setG by (auto simp: G_def distinct_map)
  have del: "deletable s user L G M"
    by (rule deletable_closure [OF inv roots L_def G(1), of f_isDeleted]) (auto simp: setG M_def)
  obtain s1 where s1: "sumFileSizes G = Inr (total f_size G)"
      "decrementStorageUsed user (total f_size G) s = Inr s1"
    using refund_owned [OF inv user G] by blast
  have ok: "emptyTrash user s = Inr (delete_folders L (delete_files (map f_id (G @ M)) s1), filter has_object G)"
    using s1 folder_check [OF inv dist clo(1)] mirror_check [OF inv dist clo(1), folded M_def]
    unfolding emptyTrash_def Let_def roots_def [symmetric] L_def [symmetric]
    unfolding G_def [symmetric] M_def [symmetric] by simp
  note out = delete_outcome [OF inv del s1(2)]
  have "f \<in> set G \<union> set M \<longleftrightarrow> gone f" if f: "f \<in> set (files s)" for f
  proof (cases "f_isFolder f")
    case True
    then obtain d where d: "d \<in> set (folders s)" "agree f d"
      using D(2) f by (auto simp: mirrors_ok_def mirrors_on_def)
    have "f_folderId f = Some (d_id d)" using d(2) by (simp add: agree_def)
    moreover have "f_userId f = user \<and> f_isDeleted f \<Longrightarrow> d_id d \<in> K"
      using d by (auto simp: K_def in_subtree_def agree_def)
    moreover have "f \<notin> set G" using True setG by simp
    ultimately show ?thesis
      using True f deletableD(3) [OF del, of f] by (auto simp: gone_def outside_def LK)
  next
    case False
    then have "f \<in> set G \<longleftrightarrow> gone f"
      using f setG deletableD(2) [OF del f] by (auto simp: gone_def outside_def LK)
    then show ?thesis using False deletableD(3) [OF del, of f] by simp
  qed
  then have "filter (\<lambda>f. f \<notin> set G \<union> set M) (files s) = filter (\<lambda>f. \<not> gone f) (files s)"
    by (intro filter_cong) auto
  then show ?thesis using ok out LK by auto
qed

lemma emptyTrash_clears:
  assumes inv: "tree_inv s" and user: "user_exists s user"
  shows "\<exists>s' objs. emptyTrash user s = Inr (s', objs) \<and> tree_inv s' \<and> getTrash id id s' user = ([], [])"
proof -
  define K where "K = {x. \<exists>d \<in> set (folders s). d_userId d = user \<and> d_isDeleted d \<and> in_subtree s (d_id d) x}"
  obtain s' objs where e: "emptyTrash user s = Inr (s', objs)"
      "folders s' = filter (\<lambda>d. d_id d \<notin> K) (folders s)"
      "files s' = filter (\<lambda>f. \<not> (f_userId f = user \<and> f_isDeleted f \<or> \<not> outside s K f)) (files s)"
    using emptyTrash_works [OF inv user, folded K_def] by blast
  have "d_id d \<in> K" if "d \<in> set (folders s)" "d_userId d = user" "d_isDeleted d" for d
    using that by (auto simp: K_def in_subtree_def)
  then have "filter (\<lambda>d. d_userId d = user \<and> d_isDeleted d) (folders s') = []"
    unfolding e(2) by (auto simp: filter_empty_conv)
  moreover have "filter (\<lambda>f. f_userId f = user \<and> f_isDeleted f \<and> \<not> f_isFolder f) (files s') = []"
    unfolding e(3) by (simp add: filter_empty_conv)
  ultimately have "getTrash id id s' user = ([], [])" by (simp only: getTrash_def id_apply)
  then show ?thesis using e(1) emptyTrash_inv [OF inv e(1)] by blast
qed

end
