(* ===== verification/FileClaims.thy ===== *)
theory FileClaims
  imports FileTreeProps
begin

text \<open>
  The properties of the quota, the name allocation and the file services, each with a witness on the
  small database \<open>demo\<close>, which a history of operations builds from the single user of \<open>demo0\<close>.
\<close>

definition demo0 :: db where
  "demo0 = \<lparr>users = [\<lparr>u_id = 1, u_email = js ''a@b'', u_password = js ''h'', u_isActive = True,
      u_storageQuota = 100, u_storageUsed = 0\<rparr>], files = [], folders = [], next_file = 1, next_folder = 1\<rparr>"

definition demo_place :: "string \<Rightarrow> placement" where
  "demo_place k = \<lparr>pl_storagePath = js ''/s/'' @ js k, pl_storageLocationId = js ''L'', pl_relativeObjectKey = js k\<rparr>"

lemma demo0_inv: "tree_inv demo0"
  by (simp add: tree_inv_def demo0_def keys_ok_def mirrors_ok_def mirrors_on_def tree_ok_def parent_rel_def
      names_ok_def names_on_def quota_ok_def users_ok_def owned_def max_safe_def acyclic_def)

text \<open>Folders \<open>a\<close> and \<open>b\<close> in the root, a folder \<open>a\<close> and a file of 7 bytes in \<open>b\<close>; then \<open>b\<close> goes to the trash.\<close>

definition build :: "fs_op list" where
  "build = [CreateFolder demo0 1 (js ''a'') None, CreateFolder demo0 1 (js ''b'') None]"

definition demo1 :: db where "demo1 = run build demo0"

definition build2 :: "fs_op list" where
  "build2 = [CreateFolder demo1 1 (js ''a'') (Some 2),
     CreateFile demo1 (demo_place ''k'') 1 (js ''f.txt'') 7 None (Some 2)]"

definition demo2 :: db where "demo2 = run build2 demo1"

definition demo3 :: db where "demo3 = run [RemoveFolder 50 1 2] demo2"

lemma demo1_inv: "tree_inv demo1"
  unfolding demo1_def by (rule run_inv [OF demo0_inv]) code_simp

lemma demo2_inv: "tree_inv demo2"
  unfolding demo2_def by (rule run_inv [OF demo1_inv]) code_simp

lemma demo3_inv: "tree_inv demo3"
  unfolding demo3_def by (rule run_inv [OF demo2_inv]) code_simp


section \<open>Histories\<close>

text \<open>
  C1: every history of file operations that leaves out three of their uses keeps the whole invariant:
  unique keys, one mirror per folder, a forest of folders, unique live names in a folder, and quotas that
  count exactly the bytes of the owned rows and stay within their limit.  The users and their arguments
  are arbitrary, and what an operation reads before its transaction, or before the save of \<open>removeFile\<close>,
  may be arbitrarily stale.  The three uses, which \<open>safe_run\<close> excludes, are the permanent deletion of the
  mirror row of a folder, the restoration of a live folder of a trashed parent to a root where its name is
  taken, and the save of \<open>removeFile\<close> behind a permanent deletion of the file, or of the folder it was in.
\<close>

theorem file_histories_keep_tree_inv:
  assumes "tree_inv s" "safe_run ops s"
  shows "tree_inv (run ops s)"
  using assms by (rule run_inv)

theorem file_histories_keep_tree_inv_witness:
  "tree_inv (run [RemoveFile demo2 60 1 4, EmptyTrash 1, CreateFolder demo3 1 (js ''b'') None] demo3)"
  by (rule file_histories_keep_tree_inv [OF demo3_inv]) code_simp


section \<open>Quota\<close>

text \<open>
  What a charge does, on every branch.  The sum of bytes used and bytes requested is compared with
  the quota only when it is a safe integer; otherwise the request fails as malformed.
\<close>

theorem updateStorageUsed_branches:
  assumes "users_ok s"
  shows "updateStorageUsed k n s =
    (if n < 0 \<or> max_safe < n then Inl (BadRequest size_msg)
     else if n = 0 then Inr s
     else case findById s k of
       None \<Rightarrow> Inl (NotFound ''User not found'')
     | Some u \<Rightarrow>
         if u_storageUsed u + n \<le> u_storageQuota u then Inr (add_used k n s)
         else if max_safe < u_storageUsed u + n then Inl (BadRequest size_msg)
         else Inl (Forbidden ''Storage quota exceeded''))"
  using assms by (rule updateStorageUsed_eq)

theorem updateStorageUsed_branches_witness:
  "updateStorageUsed 1 101 demo0 = Inl (Forbidden ''Storage quota exceeded'') \<and>
   updateStorageUsed 1 max_safe (add_used 1 5 demo0) = Inl (BadRequest size_msg)"
proof -
  have ok: "users_ok demo0" "users_ok (add_used 1 5 demo0)" by code_simp+
  have "updateStorageUsed 1 101 demo0 = Inl (Forbidden ''Storage quota exceeded'')"
    by (subst updateStorageUsed_branches [OF ok(1)]) code_simp
  moreover have "updateStorageUsed 1 max_safe (add_used 1 5 demo0) = Inl (BadRequest size_msg)"
    by (subst updateStorageUsed_branches [OF ok(2)]) code_simp
  ultimately show ?thesis by blast
qed

text \<open>
  C26: over any sequence of charges and refunds by any users, of which each succeeds or changes
  nothing, the usage of a user is the initial one plus the amounts that went through, and never leaves
  the range from zero to the quota.
\<close>

theorem quota_moves_balance:
  assumes "users_ok s" "run_moves updateStorageUsed decrementStorageUsed ms s = (s', ds)"
  shows "used_of s' k = used_of s k + net k ds \<and> 0 \<le> used_of s' k \<and> used_of s' k \<le> quota_of s k"
  using users.run_moves_balance [OF assms, of k] users.run_moves_within [OF assms, of k] by auto

theorem quota_moves_balance_witness:
  "used_of (fst (run_moves updateStorageUsed decrementStorageUsed
      [Charge 1 60, Charge 1 50, Refund 1 10] demo0)) 1 = 0 + net 1 [(1, 60), (1, 0), (1, - 10)]"
proof -
  have *: "run_moves updateStorageUsed decrementStorageUsed [Charge 1 60, Charge 1 50, Refund 1 10] demo0 =
      (add_used 1 50 demo0, [(1, 60), (1, 0), (1, - 10)])" by code_simp
  have "users_ok demo0" "used_of demo0 1 = 0" by code_simp+
  then show ?thesis using quota_moves_balance [OF _ *, of 1] * by simp
qed


section \<open>Names\<close>

text \<open>
  C27: an allocated name is different from every live name in the destination except the excluded
  rows', the destination is live, the requested name is kept when it is free, and the allocated name is
  at most 255 units long when the requested one is.
\<close>

theorem allocated_name_is_fresh:
  assumes "allocateNamespaceName s user parent requested kind xf xd = Inr n"
  shows "name_free s user parent xf xd n
    \<and> (case parent of None \<Rightarrow> True | Some p \<Rightarrow> live_folder s user p)
    \<and> (length requested \<le> 255 \<longrightarrow> length n \<le> 255)
    \<and> (requested \<notin> set (occupied_names s user parent xf xd) \<longrightarrow> n = requested)"
proof -
  have "case parent of None \<Rightarrow> True | Some p \<Rightarrow> live_folder s user p"
    using assms ns.parent_live by (cases parent) simp_all
  moreover have "n = requested" if "requested \<notin> set (occupied_names s user parent xf xd)"
    using assms that by (simp add: allocateNamespaceName_def err_simps choose_name_def)
  ultimately show ?thesis using allocate_name_free [OF assms] ns.short [OF _ assms] by blast
qed

theorem allocated_name_is_fresh_witness:
  "allocateNamespaceName demo2 1 (Some 2) (js ''f.txt'') KFile None None = Inr (js ''f (1).txt'') \<and>
   name_free demo2 1 (Some 2) None None (js ''f (1).txt'')"
proof -
  have *: "allocateNamespaceName demo2 1 (Some 2) (js ''f.txt'') KFile None None = Inr (js ''f (1).txt'')"
    by code_simp
  then show ?thesis using allocated_name_is_fresh [OF *] by blast
qed

text \<open>
  With fewer than 10000 names in the destination and an extension of at most 246 units the
  allocation never runs out of candidates.
\<close>

theorem allocation_succeeds:
  assumes "case parent of None \<Rightarrow> True | Some p \<Rightarrow> live_folder s user p"
    and "card (set (occupied_names s user parent xf xd)) < 10000"
    and "length (snd (split_extension kind requested)) \<le> 246"
  shows "\<exists>n. allocateNamespaceName s user parent requested kind xf xd = Inr n"
  using choose_name_succeeds [OF assms(2,3)] assms(1)
  by (auto simp: allocateNamespaceName_def is_ok_def split: sum.splits)

theorem allocation_succeeds_witness:
  "\<exists>n. allocateNamespaceName demo2 1 (Some 2) (js ''f.txt'') KFile None None = Inr n"
  by (rule allocation_succeeds) code_simp+


section \<open>Moving folders\<close>

text \<open>
  C23: the check against moving a folder below itself always returns, and refuses exactly the targets
  that lie in the subtree of the folder.
\<close>

theorem assertNoCycle_exact:
  assumes "tree_inv s" "d \<in> set (folders s)"
  shows "assertNoCycle s (d_id d) q =
    (if in_subtree s (d_id d) q then Inl (BadRequest ''Cannot move folder into its own subtree'') else Inr ())"
  using assertNoCycle_iff [OF assms(1), of "d_id d" q] assms(2)
  by (auto simp: assertNoCycle_def in_subtree_def ensure_def split: option.splits if_splits)

theorem assertNoCycle_exact_witness:
  "in_subtree demo2 2 3 \<and> \<not> in_subtree demo2 2 1"
proof -
  have "folder_of demo2 1 2 \<noteq> None" by code_simp
  then obtain d where d: "d \<in> set (folders demo2)" "d_id d = 2" using folder_ofD by blast
  have "is_ok (assertNoCycle demo2 2 1)" "\<not> is_ok (assertNoCycle demo2 2 3)" by code_simp+
  then show ?thesis
    using assertNoCycle_exact [OF demo2_inv d(1), of 3] assertNoCycle_exact [OF demo2_inv d(1), of 1] d(2)
    by (auto split: if_splits)
qed


section \<open>Recursive deletion\<close>

text \<open>
  C22: deleting a folder permanently always succeeds, removes exactly the folders of its subtree, their
  mirrors and the files inside, and gives back exactly the bytes of those files.
\<close>

theorem deleteFolderPermanently_exact:
  assumes "tree_inv s" "folder_of s user k = Some d"
  shows "\<exists>s' gone. deleteFolderPermanently user k s = Inr (s', gone)
    \<and> folders s' = filter (\<lambda>e. d_id e \<notin> {x. in_subtree s k x}) (folders s)
    \<and> files s' = filter (outside s {x. in_subtree s k x}) (files s)
    \<and> used_of s' user = used_of s user
        - total f_size (filter (\<lambda>f. \<not> f_isFolder f \<and> \<not> outside s {x. in_subtree s k x} f) (files s))"
  using assms by (rule deleteFolderPermanently_works)

theorem deleteFolderPermanently_exact_witness:
  "\<exists>s' gone. deleteFolderPermanently 1 2 demo2 = Inr (s', gone)"
proof -
  have "folder_of demo2 1 2 \<noteq> None" by code_simp
  then obtain d where "folder_of demo2 1 2 = Some d" by blast
  then show ?thesis using deleteFolderPermanently_exact [OF demo2_inv] by blast
qed

text \<open>
  Emptying the trash always succeeds for an existing user, keeps the invariant and leaves nothing
  in the trash.
\<close>

theorem emptyTrash_leaves_nothing:
  assumes "tree_inv s" "user_exists s user"
  shows "\<exists>s' objs. emptyTrash user s = Inr (s', objs) \<and> tree_inv s' \<and> getTrash id id s' user = ([], [])"
  using assms by (rule emptyTrash_clears)

theorem emptyTrash_leaves_nothing_witness:
  "\<exists>s' objs. emptyTrash 1 demo3 = Inr (s', objs) \<and> getTrash id id s' 1 = ([], [])"
proof -
  have "user_exists demo3 1" by code_simp
  then show ?thesis using emptyTrash_leaves_nothing [OF demo3_inv] by blast
qed


section \<open>Copying\<close>

definition has_object_row :: "db \<Rightarrow> placement \<Rightarrow> bool" where
  "has_object_row s pl \<longleftrightarrow> (\<exists>f \<in> set (files s). f_storageLocationId f = Some (pl_storageLocationId pl)
     \<and> f_relativeObjectKey f = Some (pl_relativeObjectKey pl))"

text \<open>
  C28: however a copy ends, including a commit whose outcome is unknown, a reconciliation query that fails and
  an unlink that fails: a row refers to the new object only when it is on disk, a copy that succeeds has its
  row, and the object is on disk without a row only after that query or that unlink failed, which the code
  logs.  Other objects are untouched.
\<close>

theorem copyFile_leaves_no_orphan:
  assumes "tree_inv s" "\<not> has_object_row s (ce_target env)" "pl_storagePath (ce_target env) \<notin> set disk"
    and "copyFile env s0 user k target s disk = (s', disk', r)"
  shows "(has_object_row s' (ce_target env) \<longrightarrow> pl_storagePath (ce_target env) \<in> set disk')
    \<and> (is_ok r \<longrightarrow> has_object_row s' (ce_target env))
    \<and> (pl_storagePath (ce_target env) \<in> set disk' \<and> ce_query_ok env \<and> ce_unlink_ok env \<longrightarrow> has_object_row s' (ce_target env))
    \<and> set disk' - {pl_storagePath (ce_target env)} = set disk"
proof -
  let ?p = "pl_storagePath (ce_target env)"
  have new: "has_object_row t (ce_target env)" "persisted_copy t (f_id c) user (ce_target env)"
    if "copy_tx (ce_target env) src n nm user target s = Inr (t, c)" for src n nm t c
    using copy_tx_inv(2-5) [OF assms(1) that] by (auto simp: has_object_row_def persisted_copy_def)
  have old: "\<not> persisted_copy s c user (ce_target env)" for c
    using assms(2) by (auto simp: has_object_row_def persisted_copy_def)
  show ?thesis
    using assms(2-4) new old
    by (auto simp: copyFile_def Let_def unlink_def is_ok_def split: sum.splits if_splits commit_outcome.splits)
qed

definition demo_env :: copy_env where
  "demo_env = \<lparr>ce_target = demo_place ''k2'', ce_copy_ok = True, ce_commit = CommitFailed,
     ce_query_ok = True, ce_unlink_ok = True\<rparr>"

theorem copyFile_leaves_no_orphan_witness:
  "pl_storagePath (demo_place ''k2'') \<in> set (fst (snd (copyFile demo_env demo2 1 4 None demo2 [])))
     \<longleftrightarrow> has_object_row (fst (copyFile demo_env demo2 1 4 None demo2 [])) (demo_place ''k2'')"
proof -
  have "\<not> has_object_row demo2 (ce_target demo_env)" "ce_query_ok demo_env" "ce_unlink_ok demo_env"
    by code_simp+
  then show ?thesis
    using copyFile_leaves_no_orphan [OF demo2_inv, of demo_env "[]" demo2 1 4 None]
    by (cases "copyFile demo_env demo2 1 4 None demo2 []") (auto simp: demo_env_def)
qed


section \<open>The unguarded operations\<close>

lemma with_mirrors_missing:
  "d \<in> set ds \<Longrightarrow> map_of m (d_id d) = None \<Longrightarrow> with_mirrors m ds = Inl (NotFound ''Folder mirror not found'')"
  by (induction ds) (auto simp: bindE_def split: option.split)

text \<open>
  C29: the permanent deletion of a file has no guard against mirror rows.  Deleting the mirror of a
  folder succeeds, and from then on the folder can neither be renamed or moved, trashed, restored nor deleted,
  a live folder cannot be read, and no folder of the place it is in can be listed.
\<close>

theorem mirror_deletion_strands_folder:
  assumes "tree_inv s" "folder_of s user k = Some d" "mirror_of s user k = Some m" "\<And>ds. set (order ds) = set ds"
    "d_parentId d \<noteq> Some 0"
  shows "\<exists>s' gone. deleteFilePermanently user (f_id m) s = Inr (s', gone)
    \<and> folder_of s' user k = Some d
    \<and> updateFolder s0 user k name parent s' = bindE (updateFolder_checks s0 user k name parent) (\<lambda>_. Inl (NotFound ''Folder mirror not found''))
    \<and> removeFolder now user k s' = Inl (NotFound ''Folder mirror not found'')
    \<and> restoreFolder user k s' = Inl (NotFound ''Folder mirror not found'')
    \<and> deleteFolderPermanently user k s' = Inl (NotFound ''Folder mirror not found'')
    \<and> \<not> is_ok (findFolder s' user k)
    \<and> findFolders order s' user (d_parentId d) (d_isDeleted d) = Inl (NotFound ''Folder mirror not found'')"
proof -
  note D = tree_invD [OF assms(1)]
  note fm = folder_mirror [OF assms(1-3)]
  have m: "f_userId m = user" "f_isFolder m" "f_folderId m = Some k" "f_size m = 0"
    using fm by (auto simp: agree_def)
  have "file_of s user (f_id m) = Some m"
    unfolding file_of_def using find_key [OF D(7) fm(4), of "\<lambda>f. f_userId f = user"] m(1) by simp
  moreover have "decrementStorageUsed user 0 s = Inr s" by (simp add: decrementStorageUsed_def max_safe_def)
  ultimately have del: "deleteFilePermanently user (f_id m) s = Inr (delete_files [f_id m] s, filter has_object [m])"
    using m(4) by (simp add: deleteFilePermanently_def)
  let ?s = "delete_files [f_id m] s"
  have fs: "set (files ?s) = set (files s) - {m}" "folders ?s = folders s"
    using fm(4) key_unique [OF D(7)] by (auto simp: delete_files_def set_drop_rows)
  have folder: "folder_of ?s user k = Some d" using assms(2) by (simp add: folder_of_def fs(2))
  have gone: "f \<notin> set (files ?s)" if "f_isFolder f" "f_folderId f = Some k" for f
    using that D(2) fm(4) m by (auto simp: fs mirrors_ok_def mirrors_on_def)
  then have none: "mirror_of ?s user k = None" by (auto simp: mirror_of_def find_None_iff)
  have sub: "subfolders_of ?s user = subfolders_of s user" by (simp add: subfolders_of_def fs(2) fun_eq_iff)
  define L where "L = closure_union (length (folders s)) (subfolders_of s user) [k] [k]"
  have roots: "\<forall>r \<in> set [k]. \<exists>d \<in> set (folders s). d_id d = r \<and> d_userId d = user"
    using fm by auto
  note clo = closure_user [where roots = "[k]" and user = user, OF assms(1) roots, folded L_def]
  have "distinct L" by (simp add: L_def closure_union_distinct)
  then have purge: "deleteFolderPermanently user k ?s = Inl (NotFound ''Folder mirror not found'')"
    using folder folder_check [OF assms(1) _ clo(1)] clo(3) gone
    unfolding deleteFolderPermanently_def Let_def sub fs(2) L_def [symmetric]
    by (auto simp: ensure_def image_iff)
  have read: "\<not> is_ok (findFolder ?s user k)"
  proof -
    have "find (\<lambda>f. f_folderId f = Some k \<and> f_userId f = user \<and> f_isFolder f \<and> \<not> f_isDeleted f) (files ?s) = None"
      using gone by (auto simp: find_None_iff)
    then show ?thesis by (auto simp: findFolder_def is_ok_def bindE_def split: sum.splits)
  qed
  have listing: "findFolders order ?s user (d_parentId d) (d_isDeleted d) = Inl (NotFound ''Folder mirror not found'')"
  proof -
    define ds where "ds = order (filter (\<lambda>e. d_userId e = user \<and> d_isDeleted e = d_isDeleted d
        \<and> (if d_parentId d \<noteq> None \<and> d_parentId d \<noteq> Some 0 then d_parentId e = d_parentId d else d_parentId e = None)) (folders ?s))"
    define ms where "ms = filter (\<lambda>f. f_userId f = user \<and> f_folderId f \<in> Some ` set (map d_id ds)
        \<and> f_isFolder f \<and> f_isDeleted f = d_isDeleted d) (files ?s)"
    have d: "d \<in> set ds" using fm assms(4,5) by (simp add: ds_def fs(2))
    then have "ds \<noteq> []" by auto
    moreover have "d_id d \<notin> (\<lambda>f. the (f_folderId f)) ` set ms"
      using gone fm(2) by (auto simp: ms_def)
    then have "map_of (rev (map (\<lambda>f. (the (f_folderId f), f_id f)) ms)) (d_id d) = None"
      by (simp add: map_of_eq_None_iff image_image)
    ultimately show ?thesis
      using with_mirrors_missing [OF d] unfolding findFolders_def Let_def ds_def [symmetric] ms_def [symmetric] by simp
  qed
  have rename: "updateFolder s0 user k name parent ?s
      = bindE (updateFolder_checks s0 user k name parent) (\<lambda>_. Inl (NotFound ''Folder mirror not found''))"
    using folder none by (simp add: updateFolder_def)
  show ?thesis
    using del folder none purge read listing rename by (simp add: removeFolder_def restoreFolder_def)
qed

theorem mirror_deletion_strands_folder_witness:
  "\<exists>s' gone. deleteFilePermanently 1 2 demo2 = Inr (s', gone) \<and>
     deleteFolderPermanently 1 2 s' = Inl (NotFound ''Folder mirror not found'')"
proof -
  have "folder_of demo2 1 2 \<noteq> None" "mirror_of demo2 1 2 \<noteq> None" "map_option f_id (mirror_of demo2 1 2) = Some 2"
    by code_simp+
  then obtain d m where dm: "folder_of demo2 1 2 = Some d" "mirror_of demo2 1 2 = Some m" "f_id m = 2" by auto
  have "map_option d_parentId (folder_of demo2 1 2) = Some None" by code_simp
  then have "d_parentId d \<noteq> Some 0" using dm(1) by simp
  then show ?thesis
    using mirror_deletion_strands_folder [where order = "\<lambda>ds. ds" and ?s0.0 = demo2 and name = None and parent = None and now = 0,
        OF demo2_inv dm(1,2)] dm(3) by auto
qed

text \<open>
  C39: Restoring a live folder whose parent is in the trash moves it to the root under its old name without
  asking whether the name is free.  When a live folder of that name is there, the restoration succeeds and
  leaves two live folders of one name in one place.
\<close>

theorem restoreFolder_duplicates_a_name:
  assumes "tree_inv s" "folder_of s user k = Some d" "\<not> d_isDeleted d" "d_parentId d = Some p" "\<not> live_folder s user p"
    and "e \<in> set (folders s)" "live_folder_at user None (d_name d) e" "varchar_ok 255 (d_name d)"
  shows "\<exists>s'. restoreFolder user k s = Inr s' \<and> \<not> names_ok s'
    \<and> (\<exists>d' \<in> set (folders s'). d_id d' = k \<and> live_folder_at user None (d_name d) d') \<and> e \<in> set (folders s') \<and> d_id e \<noteq> k"
proof -
  note D = tree_invD [OF assms(1)]
  have d: "d \<in> set (folders s)" "d_id d = k" "d_userId d = user" using folder_ofD [OF assms(2)] by auto
  obtain m where m: "m \<in> set (files s)" "agree m d" using D(2) d(1) by (auto simp: mirrors_ok_def mirrors_on_def)
  have "mirror_of s user k \<noteq> None" using m d by (auto simp: mirror_of_def find_None_iff agree_def)
  then obtain m where mk: "mirror_of s user k = Some m" by blast
  note fm = folder_mirror [OF assms(1,2) mk]
  let ?d = "d\<lparr>d_parentId := None, d_isDeleted := False, d_deletedAt := None\<rparr>"
  let ?m = "m\<lparr>f_parentId := None, f_isDeleted := False, f_deletedAt := None\<rparr>"
  let ?s = "save_file ?m (save_folder ?d s)"
  have "active_parent s user (Some p) = None" using assms(5) by (simp add: active_parent_def)
  moreover have "varchar_ok 255 (f_name m)" using fm(5) assms(8) by (simp add: agree_def)
  ultimately have r: "restoreFolder user k s = Inr ?s"
    using assms(2-4,8) mk by (simp add: restoreFolder_def save_pair_Inr Let_def)
  have fs: "set (folders ?s) = insert ?d (set (folders s) - {d})"
    using folders_save_folder [OF D(8) d(1), of ?d] by simp
  have ne: "e \<noteq> d" using assms(4,7) by (auto simp: live_folder_at_def)
  then have ide: "d_id e \<noteq> k" using key_unique [OF D(8) assms(6) d(1)] d(2) by auto
  have two: "?d \<in> set (folders ?s)" "e \<in> set (folders ?s)" "?d \<noteq> e" using fs ne assms(6) ide d(2) by auto
  moreover have "folder_clash ?d e" using assms(7) d(3) by (simp add: folder_clash_def live_folder_at_def)
  ultimately have "\<not> names_ok ?s" by (auto simp: names_ok_def names_on_def)
  then show ?thesis using r two ide d assms(3) by (auto simp: live_folder_at_def intro!: bexI [of _ ?d])
qed

theorem restoreFolder_duplicates_a_name_witness:
  "tree_inv demo3 \<and> (\<exists>s'. restoreFolder 1 3 demo3 = Inr s' \<and> \<not> names_ok s')"
proof -
  have c: "map_option (\<lambda>d. (d_isDeleted d, d_parentId d, d_name d)) (folder_of demo3 1 3) = Some (False, Some 2, js ''a'')"
    "\<not> live_folder demo3 1 2" "list_ex (live_folder_at 1 None (js ''a'')) (folders demo3)" "varchar_ok 255 (js ''a'')"
    by code_simp+
  obtain d where d: "folder_of demo3 1 3 = Some d" "\<not> d_isDeleted d" "d_parentId d = Some 2" "d_name d = js ''a''" using c(1) by auto
  obtain e where e: "e \<in> set (folders demo3)" "live_folder_at 1 None (d_name d) e" using c(3) d(4) by (auto simp: list_ex_iff)
  show ?thesis
    using restoreFolder_duplicates_a_name [OF demo3_inv d(1-3) c(2) e] c(4) d(4) demo3_inv by auto
qed

text \<open>
  C30: moving a file to the trash is a read followed by a save, outside any transaction.  When a
  permanent deletion of the file commits in between, the save inserts the row again and its bytes are
  no longer counted.
\<close>

theorem removeFile_resurrects:
  assumes "tree_inv s" "file_of s user k = Some f" "\<not> f_isFolder f"
    and "deleteFilePermanently user k s = Inr (s1, gone)"
  shows "\<exists>s2. removeFile s now user k s1 = Inr s2 \<and> owned s2 user = used_of s2 user + f_size f"
proof -
  note mem = file_ofD [OF assms(2)]
  have inv1: "tree_inv s1"
    using deleteFilePermanently_inv [OF assms(1,4)] assms(2,3) by simp
  have "k \<notin> f_id ` set (files s1)"
    using assms(4) by (auto simp: deleteFilePermanently_def err_simps delete_files_def set_drop_rows)
  then have rem: "removeFile s now user k s1 =
      Inr (s1\<lparr>files := files s1 @ [f\<lparr>f_isDeleted := True, f_deletedAt := Some now\<rparr>]\<rparr>)"
    using assms(2,3) mem by (simp add: removeFile_def findOne_def upsert_file_def)
  obtain t where t: "decrementStorageUsed user (f_size f) s = Inr t" "s1 = delete_files [k] t"
    using assms(2,4) by (auto simp: deleteFilePermanently_def err_simps)
  have "map u_id (users t) = map u_id (users s)"
    using t(1) decrementStorageUsed_Inr [OF tree_invD(6) [OF assms(1)]] by (auto split: if_splits)
  then have us: "map u_id (users s1) = map u_id (users s)" by (simp add: t(2) delete_files_def)
  have "user_exists s user" using quota_okD(2) [OF tree_invD(5) [OF assms(1)]] mem by blast
  then have "user_exists s1 user" using us by (simp only: user_exists_keys)
  then have "used_of s1 user = owned s1 user"
    using tree_invD(5) [OF inv1] by (simp add: quota_ok_used)
  then show ?thesis using rem mem by (simp add: owned_def used_of_def findById_def)
qed

theorem removeFile_resurrects_witness:
  "\<exists>s1 s2. deleteFilePermanently 1 4 demo2 = Inr (s1, s2) \<and>
     (\<exists>s3. removeFile demo2 50 1 4 s1 = Inr s3 \<and> owned s3 1 = used_of s3 1 + 7)"
proof -
  have c: "is_ok (deleteFilePermanently 1 4 demo2)"
    "map_option (\<lambda>f. (f_isFolder f, f_size f)) (file_of demo2 1 4) = Some (False, 7)" by code_simp+
  then obtain s1 g where del: "deleteFilePermanently 1 4 demo2 = Inr (s1, g)"
    by (cases "deleteFilePermanently 1 4 demo2") auto
  obtain f where f: "file_of demo2 1 4 = Some f" "\<not> f_isFolder f" "f_size f = 7" using c(2) by auto
  then obtain s3 where "removeFile demo2 50 1 4 s1 = Inr s3" "owned s3 1 = used_of s3 1 + 7"
    using removeFile_resurrects [OF demo2_inv f(1,2) del, of 50] by auto
  then show ?thesis using del by blast
qed

end
