(* ===== verification/ShareLinks.thy ===== *)
theory ShareLinks
  imports FileOps
begin

text \<open>
  Public share links (backend/src/sharing/sharing.service.ts): creation, lookup, the password with its
  lockout, and the download counter.  Time is in milliseconds; \<open>now\<close> is the clock of the process and
  \<open>dbnow\<close> the one of the database.  The password hash of the bcrypt package is a parameter.
\<close>

record share_row =
  s_id :: nat
  s_token :: ustring
  s_password :: "ustring option"
  s_expiresAt :: "int option"
  s_lockedUntil :: "int option"
  s_isActive :: bool
  s_failedAttempts :: int
  s_downloadCount :: int
  s_maxDownloads :: "int option"
  s_isFolder :: bool
  s_allowUpload :: bool
  s_userId :: nat
  s_fileId :: nat

text \<open>\<open>CHK_share_links_allowUpload_folder\<close>\<close>

definition chk_allowUpload :: "share_row \<Rightarrow> bool" where
  "chk_allowUpload h \<longleftrightarrow> \<not> s_allowUpload h \<or> s_isFolder h"


section \<open>Creation and lookup\<close>

record share_options =
  so_password :: "ustring option"
  so_expiresInDays :: "int option"
  so_maxDownloads :: "int option"
  so_isFolder :: "bool option"
  so_allowUpload :: "bool option"

definition day_ms :: int where
  "day_ms = 86400000"

text \<open>
  The generated token, the identifier of the row and the hashed password are parameters; both keys are
  unique in the table.  Adding days
  to a date is adding multiples of a day, as in a process that runs in UTC.
\<close>

definition new_share :: "(ustring \<Rightarrow> ustring) \<Rightarrow> ustring \<Rightarrow> nat \<Rightarrow> int \<Rightarrow> nat \<Rightarrow> file_row \<Rightarrow> share_options \<Rightarrow> share_row" where
  "new_share hash token k now user f opts =
     \<lparr>s_id = k, s_token = token,
      s_password = (case so_password opts of None \<Rightarrow> None | Some p \<Rightarrow> if p = [] then None else Some (hash p)),
      s_expiresAt = Some (now + (case so_expiresInDays opts of None \<Rightarrow> 7 | Some d \<Rightarrow> d) * day_ms),
      s_lockedUntil = None, s_isActive = True, s_failedAttempts = 0, s_downloadCount = 0,
      s_maxDownloads = so_maxDownloads opts,
      s_isFolder = (case so_isFolder opts of None \<Rightarrow> f_isFolder f | Some b \<Rightarrow> b),
      s_allowUpload = (case so_allowUpload opts of None \<Rightarrow> False | Some b \<Rightarrow> b),
      s_userId = user, s_fileId = f_id f\<rparr>"

definition createShareLink :: "int \<Rightarrow> ustring list \<Rightarrow> (ustring \<Rightarrow> ustring) \<Rightarrow> ustring \<Rightarrow> nat \<Rightarrow> int \<Rightarrow> db
    \<Rightarrow> nat \<Rightarrow> nat \<Rightarrow> share_options \<Rightarrow> share_row list \<Rightarrow> (share_row list \<times> share_row) res" where
  "createShareLink max_size types hash token k now s user fileId opts shares =
     bindE (require (file_of s user fileId) (NotFound ''File not found'')) (\<lambda>f.
     bindE (ensure (\<not> f_isDeleted f \<and> f_userId f = user) (NotFound ''File not found'')) (\<lambda>_.
     bindE (ensure (\<not> (f_isFolder f \<and> so_isFolder opts = Some False))
        (BadRequest ''Cannot share folder as file'')) (\<lambda>_.
     bindE (ensure (\<not> (\<not> f_isFolder f \<and> so_isFolder opts = Some True))
        (BadRequest ''Cannot share file as folder'')) (\<lambda>_.
     bindE (ensure (\<not> (so_allowUpload opts = Some True \<and> \<not> f_isFolder f))
        (BadRequest ''Only folders can allow public uploads'')) (\<lambda>_.
     bindE (ensure (f_isFolder f \<or> f_size f \<le> max_size)
        (BadRequest ''File exceeds maximum shareable size'')) (\<lambda>_.
     bindE (ensure (f_isFolder f \<or> (case f_mimeType f of None \<Rightarrow> False | Some m \<Rightarrow> m \<in> set types))
        (BadRequest ''File type is not allowed for sharing'')) (\<lambda>_.
     bindE (require (findById s user) (NotFound ''User not found'')) (\<lambda>u.
     bindE (ensure (u_isActive u) (NotFound ''User not found'')) (\<lambda>_.
     let row = new_share hash token k now user f opts
     in if \<not> chk_allowUpload row then Inl (DbError ''CHK_share_links_allowUpload_folder'')
        else if token \<in> s_token ` set shares \<or> k \<in> s_id ` set shares then Inl (DbError ''duplicate key'')
        else Inr (shares @ [row], row))))))))))"

definition expired :: "int option \<Rightarrow> int \<Rightarrow> bool" where
  "expired e now \<longleftrightarrow> (case e of None \<Rightarrow> False | Some t \<Rightarrow> t \<le> now)"

text \<open>The share with its file and owner, all of them live.\<close>

definition share_live :: "db \<Rightarrow> int \<Rightarrow> share_row \<Rightarrow> bool" where
  "share_live s now h \<longleftrightarrow> s_isActive h \<and> \<not> expired (s_expiresAt h) now
     \<and> (case find (\<lambda>f. f_id f = s_fileId h) (files s) of
          None \<Rightarrow> False | Some f \<Rightarrow> \<not> f_isDeleted f \<and> f_userId f = s_userId h)
     \<and> (case findById s (s_userId h) of None \<Rightarrow> False | Some u \<Rightarrow> u_isActive u)"

definition findShareByToken :: "db \<Rightarrow> int \<Rightarrow> ustring \<Rightarrow> share_row list \<Rightarrow> share_row res" where
  "findShareByToken s now token shares =
     bindE (require (find (\<lambda>h. s_token h = token \<and> s_isActive h) shares)
        (NotFound ''Share link not found or expired'')) (\<lambda>h.
     bindE (ensure (share_live s now h) (NotFound ''Share link not found or expired'')) (\<lambda>_. Inr h))"

text \<open>
  A revocation is a read and a \<open>save\<close> of the entity, outside any transaction.  The object-relational mapper
  loads the row again by its key and updates the columns in which the entity differs from what it loaded, or
  inserts the entity when it found no row.  So there are three moments: the read \<open>read\<close>, the load \<open>loaded\<close>
  and the update.  The columns that no operation changes after the creation do not differ.
\<close>

definition revoked_entity :: "nat \<Rightarrow> nat \<Rightarrow> share_row list \<Rightarrow> share_row res" where
  "revoked_entity user k read =
     bindE (require (find (\<lambda>h. s_id h = k \<and> s_userId h = user) read) (NotFound ''Share link not found''))
       (\<lambda>h. Inr (h\<lparr>s_isActive := False\<rparr>))"

definition changed_columns :: "share_row \<Rightarrow> share_row \<Rightarrow> share_row \<Rightarrow> share_row" where
  "changed_columns entity loaded h =
     h\<lparr>s_isActive := (if s_isActive entity \<noteq> s_isActive loaded then s_isActive entity else s_isActive h),
       s_lockedUntil := (if s_lockedUntil entity \<noteq> s_lockedUntil loaded then s_lockedUntil entity else s_lockedUntil h),
       s_failedAttempts := (if s_failedAttempts entity \<noteq> s_failedAttempts loaded then s_failedAttempts entity else s_failedAttempts h),
       s_downloadCount := (if s_downloadCount entity \<noteq> s_downloadCount loaded then s_downloadCount entity else s_downloadCount h)\<rparr>"

definition save_share :: "share_row \<Rightarrow> share_row list \<Rightarrow> share_row list \<Rightarrow> share_row list res" where
  "save_share entity loaded shares =
     (case find (\<lambda>h. s_id h = s_id entity) loaded of
        None \<Rightarrow> if s_token entity \<in> s_token ` set shares \<or> s_id entity \<in> s_id ` set shares
                then Inl (DbError ''duplicate key'') else Inr (shares @ [entity])
      | Some l \<Rightarrow> Inr (map (\<lambda>h. if s_id h = s_id entity then changed_columns entity l h else h) shares))"

definition revokeShare :: "nat \<Rightarrow> nat \<Rightarrow> share_row list \<Rightarrow> share_row list \<Rightarrow> share_row list \<Rightarrow> share_row list res" where
  "revokeShare user k read loaded shares =
     bindE (revoked_entity user k read) (\<lambda>entity. save_share entity loaded shares)"

definition listUserShares :: "nat \<Rightarrow> share_row list \<Rightarrow> share_row list" where
  "listUserShares user shares = filter (\<lambda>h. s_userId h = user \<and> s_isActive h) shares"

definition getShareById :: "nat \<Rightarrow> nat \<Rightarrow> share_row list \<Rightarrow> share_row res" where
  "getShareById user k shares =
     require (find (\<lambda>h. s_id h = k \<and> s_userId h = user) shares) (NotFound ''Share link not found'')"


section \<open>The password\<close>

definition LOCK_THRESHOLD :: int where
  "LOCK_THRESHOLD = 5"

definition lock_ms :: int where
  "lock_ms = 900000"

text \<open>The \<open>SET\<close> clause of the update: both expressions read the row as it was.\<close>

definition bump_attempts :: "int \<Rightarrow> share_row \<Rightarrow> share_row" where
  "bump_attempts dbnow h = h\<lparr>
     s_failedAttempts := (if expired (s_lockedUntil h) dbnow then 1 else s_failedAttempts h + 1),
     s_lockedUntil := (if expired (s_lockedUntil h) dbnow then None
        else if LOCK_THRESHOLD \<le> s_failedAttempts h + 1 then Some (dbnow + lock_ms)
        else s_lockedUntil h)\<rparr>"

text \<open>
  The \<open>WHERE\<close> clause is assembled by the query builder from two strings, \<open>"id" = :id\<close> and
  \<open>"lockedUntil" IS NULL OR "lockedUntil" <= NOW()\<close>.  Whether it puts the second one in parentheses
  is a property of that package, the parameter \<open>wrap\<close>; without parentheses \<open>AND\<close> binds tighter.
\<close>

definition attempt_row :: "bool \<Rightarrow> int \<Rightarrow> nat \<Rightarrow> share_row \<Rightarrow> bool" where
  "attempt_row wrap dbnow k h \<longleftrightarrow>
     (if wrap then s_id h = k \<and> (s_lockedUntil h = None \<or> expired (s_lockedUntil h) dbnow)
      else s_id h = k \<and> s_lockedUntil h = None \<or> expired (s_lockedUntil h) dbnow)"

definition verifySharePassword :: "(ustring \<Rightarrow> ustring \<Rightarrow> bool) \<Rightarrow> bool \<Rightarrow> db \<Rightarrow> int \<Rightarrow> int \<Rightarrow> ustring \<Rightarrow> ustring
    \<Rightarrow> share_row list \<Rightarrow> share_row list \<times> unit res" where
  "verifySharePassword compare wrap s now dbnow token password shares =
     (case findShareByToken s now token shares of
        Inl e \<Rightarrow> (shares, Inl e)
      | Inr h \<Rightarrow>
          (case s_password h of
             None \<Rightarrow> (shares, Inl (Forbidden ''Password not required for this share link''))
           | Some hash \<Rightarrow>
               if hash = [] then (shares, Inl (Forbidden ''Password not required for this share link''))
               else if s_lockedUntil h \<noteq> None \<and> now < the (s_lockedUntil h)
               then (shares, Inl (Forbidden ''Too many password attempts''))
               else
                 let hit = attempt_row wrap dbnow (s_id h);
                     shares1 = map (\<lambda>x. if hit x then bump_attempts dbnow x else x) shares;
                     returned = map (bump_attempts dbnow) (filter hit shares)
                 in (case returned of
                       [] \<Rightarrow> (shares1, Inl (Forbidden ''Too many password attempts''))
                     | r # _ \<Rightarrow>
                         if LOCK_THRESHOLD \<le> s_failedAttempts r
                         then (shares1, Inl (Forbidden ''Too many password attempts''))
                         else if compare password hash
                         then (if 0 < s_failedAttempts h \<or> s_lockedUntil h \<noteq> None
                               then map (\<lambda>x. if s_id x = s_id h
                                      then x\<lparr>s_failedAttempts := 0, s_lockedUntil := None\<rparr> else x) shares1
                               else shares1, Inr ())
                         else (shares1, Inl (Forbidden ''Invalid password'')))))"

definition verifyPublicPassword :: "(ustring \<Rightarrow> ustring \<Rightarrow> bool) \<Rightarrow> bool \<Rightarrow> db \<Rightarrow> int \<Rightarrow> int \<Rightarrow> share_row \<Rightarrow> ustring
    \<Rightarrow> ustring option \<Rightarrow> share_row list \<Rightarrow> share_row list \<times> unit res" where
  "verifyPublicPassword compare wrap s now dbnow h token password shares =
     (case s_password h of
        None \<Rightarrow> (shares, Inr ())
      | Some hash \<Rightarrow> if hash = [] then (shares, Inr ()) else
          (case password of
             None \<Rightarrow> (shares, Inl (BadRequest ''Password is required or invalid''))
           | Some p \<Rightarrow>
               if p = [] \<or> 1024 < length p
               then (shares, Inl (BadRequest ''Password is required or invalid''))
               else verifySharePassword compare wrap s now dbnow token p shares))"


section \<open>The download counter\<close>

definition countable_share :: "int \<Rightarrow> ustring \<Rightarrow> share_row \<Rightarrow> bool" where
  "countable_share dbnow token h \<longleftrightarrow> s_token h = token \<and> s_isActive h
     \<and> (case s_expiresAt h of None \<Rightarrow> True | Some t \<Rightarrow> dbnow < t)
     \<and> (case s_maxDownloads h of None \<Rightarrow> True | Some m \<Rightarrow> s_downloadCount h < m)"

definition count_one :: "(share_row \<Rightarrow> bool) \<Rightarrow> share_row list \<Rightarrow> share_row list" where
  "count_one P shares = map (\<lambda>h. if P h then h\<lparr>s_downloadCount := s_downloadCount h + 1\<rparr> else h) shares"

definition counted :: "(share_row \<Rightarrow> bool) \<Rightarrow> share_row list \<Rightarrow> (share_row list \<times> int) res" where
  "counted P shares =
     (case filter P shares of
        [] \<Rightarrow> Inl (NotFound ''Share link not found or expired'')
      | h # _ \<Rightarrow> Inr (count_one P shares, s_downloadCount h + 1))"

definition incrementDownloadCount :: "int \<Rightarrow> ustring \<Rightarrow> share_row list \<Rightarrow> (share_row list \<times> int) res" where
  "incrementDownloadCount dbnow token shares = counted (countable_share dbnow token) shares"

end
