(* ===== verification/ShareScope.thy ===== *)
theory ShareScope
  imports ShareLinks FileTreeOps
begin

text \<open>
  What a folder share gives access to: the recursive queries of backend/src/sharing/sharing.service.ts
  over ancestors and subtree, the lookups and counters that use them, and the paths of an archive.
\<close>

text \<open>A live mirror of the folder \<open>k\<close>.\<close>

definition live_mirror :: "db \<Rightarrow> nat \<Rightarrow> nat \<Rightarrow> bool" where
  "live_mirror s user k \<longleftrightarrow>
     (\<exists>f \<in> set (files s). f_folderId f = Some k \<and> f_userId f = user \<and> f_isFolder f \<and> \<not> f_isDeleted f)"

definition parent_ids :: "db \<Rightarrow> nat \<Rightarrow> nat list" where
  "parent_ids s k =
     map d_id (filter (\<lambda>p. \<exists>d \<in> set (folders s). d_id d = k \<and> d_parentId d = Some (d_id p)) (folders s))"

definition ancestors :: "db \<Rightarrow> nat \<Rightarrow> folder_row list" where
  "ancestors s root =
     (let ids = closure_union (length (folders s)) (parent_ids s) [root] [root]
      in filter (\<lambda>d. d_id d \<in> set ids) (folders s))"

definition valid_root :: "db \<Rightarrow> nat \<Rightarrow> nat \<Rightarrow> bool" where
  "valid_root s user root \<longleftrightarrow>
     (\<exists>d \<in> set (ancestors s root). d_id d = root)
     \<and> (\<exists>d \<in> set (ancestors s root). d_parentId d = None)
     \<and> \<not> (\<exists>d \<in> set (ancestors s root).
            d_userId d \<noteq> user \<or> d_isDeleted d \<or> \<not> live_mirror s user (d_id d))"

definition live_children :: "db \<Rightarrow> nat \<Rightarrow> nat \<Rightarrow> nat list" where
  "live_children s user p =
     map d_id (filter (\<lambda>d. d_parentId d = Some p \<and> d_userId d = user \<and> \<not> d_isDeleted d
       \<and> live_mirror s user (d_id d)) (folders s))"

definition subtree :: "db \<Rightarrow> nat \<Rightarrow> nat \<Rightarrow> nat list" where
  "subtree s user root =
     (if valid_root s user root \<and> live_folder s user root \<and> live_mirror s user root
      then closure_union (length (folders s)) (live_children s user) [root] [root] else [])"

definition share_root :: "db \<Rightarrow> share_row \<Rightarrow> nat option" where
  "share_root s h =
     (case find (\<lambda>f. f_id f = s_fileId h) (files s) of
        None \<Rightarrow> None
      | Some f \<Rightarrow> if f_isFolder f \<and> f_folderId f \<noteq> Some 0 then f_folderId f else None)"

definition shared_file :: "db \<Rightarrow> nat \<Rightarrow> nat \<Rightarrow> file_row option" where
  "shared_file s user k =
     find (\<lambda>f. f_id f = k \<and> f_userId f = user \<and> \<not> f_isDeleted f \<and> \<not> f_isFolder f) (files s)"

definition resolveSharedFolderFile :: "db \<Rightarrow> share_row \<Rightarrow> nat \<Rightarrow> file_row res" where
  "resolveSharedFolderFile s h k =
     bindE (require (share_root s h) (NotFound ''Shared file not found'')) (\<lambda>root.
     bindE (require (shared_file s (s_userId h) k) (NotFound ''Shared file not found'')) (\<lambda>f.
     bindE (ensure (f_parentId f \<in> Some ` set (subtree s (s_userId h) root)) (NotFound ''Shared file not found''))
       (\<lambda>_. Inr f)))"


section \<open>Listing a shared folder\<close>

datatype child = ChildFolder folder_row | ChildFile file_row

definition live_share :: "db \<Rightarrow> int \<Rightarrow> ustring \<Rightarrow> nat \<Rightarrow> nat \<Rightarrow> share_row list \<Rightarrow> bool" where
  "live_share s dbnow token root user shares \<longleftrightarrow>
     (\<exists>h \<in> set shares. s_token h = token \<and> s_userId h = user \<and> s_isActive h
        \<and> (case s_expiresAt h of None \<Rightarrow> True | Some t \<Rightarrow> dbnow < t)
        \<and> (\<exists>u \<in> set (users s). u_id u = s_userId h \<and> u_isActive u)
        \<and> (\<exists>f \<in> set (files s). f_id f = s_fileId h \<and> f_folderId f = Some root \<and> f_userId f = user
             \<and> f_isFolder f \<and> \<not> f_isDeleted f))"

definition shared_children :: "db \<Rightarrow> nat \<Rightarrow> nat \<Rightarrow> child list" where
  "shared_children s user p =
     map ChildFolder (filter (\<lambda>d. d_parentId d = Some p \<and> live_mirror s user (d_id d) \<and> d_userId d = user
        \<and> \<not> d_isDeleted d) (folders s))
   @ map ChildFile (filter (\<lambda>f. f_parentId f = Some p \<and> f_userId f = user \<and> \<not> f_isDeleted f
        \<and> \<not> f_isFolder f) (files s))"

record child_page =
  cp_parentId :: nat
  cp_items :: "child list"
  cp_limit :: nat
  cp_offset :: nat
  cp_hasMore :: bool

text \<open>
  The order of the rows, \<open>kind DESC, name ASC, id ASC\<close> under the collation of the database, is the
  parameter \<open>order\<close>.
\<close>

definition listSharedChildren :: "(child list \<Rightarrow> child list) \<Rightarrow> (ustring \<Rightarrow> ustring \<Rightarrow> bool) \<Rightarrow> bool \<Rightarrow> db
    \<Rightarrow> int \<Rightarrow> int \<Rightarrow> ustring \<Rightarrow> nat option \<Rightarrow> nat option \<Rightarrow> nat option \<Rightarrow> ustring option \<Rightarrow> share_row list
    \<Rightarrow> share_row list \<times> child_page res" where
  "listSharedChildren order compare wrap s now dbnow token parent limit offset password shares =
     (case findShareByToken s now token shares of
        Inl e \<Rightarrow> (shares, Inl e)
      | Inr h \<Rightarrow>
          (case verifyPublicPassword compare wrap s now dbnow h token password shares of
             (shares1, Inl e) \<Rightarrow> (shares1, Inl e)
           | (shares1, Inr _) \<Rightarrow>
               (shares1,
                bindE (require (share_root s h) (BadRequest ''Share link does not reference a folder'')) (\<lambda>root.
                let p = (case parent of None \<Rightarrow> root | Some q \<Rightarrow> q);
                    n = (case limit of None \<Rightarrow> 50 | Some l \<Rightarrow> l);
                    off = (case offset of None \<Rightarrow> 0 | Some j \<Rightarrow> j)
                in bindE (ensure (p \<in> set (subtree s (s_userId h) root)
                        \<and> live_share s dbnow token root (s_userId h) shares1)
                     (NotFound ''Shared folder not found'')) (\<lambda>_.
                let rows = take (n + 1) (drop off (order (shared_children s (s_userId h) p)))
                in Inr \<lparr>cp_parentId = p, cp_items = take n rows, cp_limit = n, cp_offset = off,
                        cp_hasMore = n < length rows\<rparr>)))))"


section \<open>Counting downloads from a folder\<close>

text \<open>\<open>share_context\<close>: the owner and the root of the live share with this token.\<close>

definition share_context :: "db \<Rightarrow> int \<Rightarrow> ustring \<Rightarrow> share_row list \<Rightarrow> (nat \<times> nat) list" where
  "share_context s dbnow token shares =
     concat (map (\<lambda>h. map (\<lambda>f. (s_userId h, the (f_folderId f)))
         (filter (\<lambda>f. f_id f = s_fileId h \<and> f_folderId f \<noteq> None \<and> f_userId f = s_userId h
            \<and> f_isFolder f \<and> \<not> f_isDeleted f) (files s)))
       (filter (\<lambda>h. s_token h = token \<and> s_isActive h
          \<and> (case s_expiresAt h of None \<Rightarrow> True | Some t \<Rightarrow> dbnow < t)
          \<and> (\<exists>u \<in> set (users s). u_id u = s_userId h \<and> u_isActive u)) shares))"

text \<open>The subtree of the counting query starts from a valid root without checking it again.\<close>

definition counting_subtree :: "db \<Rightarrow> nat \<Rightarrow> nat \<Rightarrow> nat list" where
  "counting_subtree s user root =
     (if valid_root s user root
      then closure_union (length (folders s)) (live_children s user) [root] [root] else [])"

definition allowed_file :: "db \<Rightarrow> int \<Rightarrow> ustring \<Rightarrow> nat \<Rightarrow> share_row list \<Rightarrow> bool" where
  "allowed_file s dbnow token k shares \<longleftrightarrow>
     (\<exists>(user, root) \<in> set (share_context s dbnow token shares). \<exists>f \<in> set (files s). \<exists>h \<in> set shares.
        s_token h = token \<and> f_parentId f \<in> Some ` set (counting_subtree s user root) \<and> f_id f = k
        \<and> f_userId f = s_userId h \<and> \<not> f_isDeleted f \<and> \<not> f_isFolder f)"

definition incrementFolderDownloadCount :: "db \<Rightarrow> int \<Rightarrow> ustring \<Rightarrow> nat \<Rightarrow> share_row list
    \<Rightarrow> (share_row list \<times> int) res" where
  "incrementFolderDownloadCount s dbnow token k shares =
     counted (\<lambda>h. countable_share dbnow token h \<and> allowed_file s dbnow token k shares) shares"

definition incrementFolderArchiveDownloadCount :: "db \<Rightarrow> int \<Rightarrow> ustring \<Rightarrow> share_row list
    \<Rightarrow> (share_row list \<times> int) res" where
  "incrementFolderArchiveDownloadCount s dbnow token shares =
     counted (\<lambda>h. countable_share dbnow token h
       \<and> (\<exists>(user, root) \<in> set (share_context s dbnow token shares). valid_root s user root)) shares"


section \<open>Archive members\<close>

record member =
  m_folderId :: nat
  m_name :: ustring
  m_parentId :: "nat option"
  m_isFolder :: bool
  m_storagePath :: "ustring option"
  m_storageLocationId :: "ustring option"
  m_relativeObjectKey :: "ustring option"
  m_size :: int

text \<open>The rows of the query, in one of the orders the database may return them.\<close>

definition archive_rows :: "db \<Rightarrow> nat \<Rightarrow> nat \<Rightarrow> member list" where
  "archive_rows s user root =
     (let sub = subtree s user root;
          folder_member = (\<lambda>d. \<lparr>m_folderId = d_id d, m_name = d_name d, m_parentId = d_parentId d,
                               m_isFolder = True,
                               m_storagePath = None, m_storageLocationId = None, m_relativeObjectKey = None, m_size = 0\<rparr>)
      in map folder_member (filter (\<lambda>d. d_parentId d \<in> Some ` set sub \<and> live_mirror s user (d_id d)
              \<and> d_userId d = user \<and> \<not> d_isDeleted d) (folders s))
       @ map folder_member (filter (\<lambda>d. root \<in> set sub \<and> live_mirror s user (d_id d) \<and> d_id d = root
              \<and> d_userId d = user \<and> \<not> d_isDeleted d) (folders s))
       @ map (\<lambda>f. \<lparr>m_folderId = f_id f, m_name = f_name f, m_parentId = f_parentId f,
                  m_isFolder = False, m_storagePath = f_storagePath f, m_storageLocationId = f_storageLocationId f,
                  m_relativeObjectKey = f_relativeObjectKey f, m_size = f_size f\<rparr>)
           (filter (\<lambda>f. f_parentId f \<in> Some ` set sub \<and> f_userId f = user \<and> \<not> f_isDeleted f
              \<and> \<not> f_isFolder f) (files s)))"

definition parent_path :: "(nat \<rightharpoonup> ustring) \<Rightarrow> nat option \<Rightarrow> ustring" where
  "parent_path m p = (case p of None \<Rightarrow> [] | Some k \<Rightarrow> if k = 0 then [] else (case m k of None \<Rightarrow> [] | Some x \<Rightarrow> x))"

definition join_path :: "ustring \<Rightarrow> ustring \<Rightarrow> ustring" where
  "join_path p name = (if p \<noteq> [] then p @ [47] @ name else name)"

text \<open>
  The sort compares the lengths of the parent paths in a map that holds only the root at that time, so
  it compares zero with zero and keeps the order of the rows.
\<close>

definition ordered_folders :: "nat \<Rightarrow> member list \<Rightarrow> member list" where
  "ordered_folders root rows =
     sort_key (\<lambda>r. length (parent_path [root \<mapsto> []] (m_parentId r))) (filter m_isFolder rows)"

fun fill_paths :: "nat \<Rightarrow> member list \<Rightarrow> (nat \<rightharpoonup> ustring) \<Rightarrow> (nat \<rightharpoonup> ustring)" where
  "fill_paths root [] m = m"
| "fill_paths root (r # rs) m =
     fill_paths root rs
       (if m_folderId r = root then m
        else m(m_folderId r \<mapsto> join_path (parent_path m (m_parentId r)) (m_name r)))"

definition member_paths :: "nat \<Rightarrow> member list \<Rightarrow> (member \<times> ustring) list" where
  "member_paths root rows =
     (let m = fill_paths root (ordered_folders root rows) [root \<mapsto> []]
      in map (\<lambda>r. (r, if m_isFolder r
                      then (case m (m_folderId r) of None \<Rightarrow> m_name r | Some x \<Rightarrow> x)
                      else join_path (parent_path m (m_parentId r)) (m_name r))) rows)"

definition listArchiveMembers :: "(member list \<Rightarrow> member list) \<Rightarrow> db \<Rightarrow> share_row
    \<Rightarrow> (member \<times> ustring) list res" where
  "listArchiveMembers order s h =
     bindE (require (share_root s h) (BadRequest ''Share link does not reference a folder'')) (\<lambda>root.
     Inr (member_paths root (order (archive_rows s (s_userId h) root))))"


section \<open>Archive paths\<close>

fun safe_parts :: "ustring list \<Rightarrow> ustring list res" where
  "safe_parts [] = Inr []"
| "safe_parts (p # ps) =
     (if p = [] \<or> p = [46] then safe_parts ps
      else if p = [46, 46] then Inl (BadRequest ''Invalid archive path'')
      else bindE (safe_parts ps) (\<lambda>rest. Inr (p # rest)))"

definition safeArchivePath :: "ustring \<Rightarrow> ustring res" where
  "safeArchivePath p =
     (if p = [] then Inr []
      else if hd p = 47 then Inl (BadRequest ''Invalid archive path'')
      else bindE (safe_parts (split_on 47 (map (\<lambda>c. if c = 92 then 47 else c) p))) (\<lambda>parts.
        if parts = [] then Inl (BadRequest ''Invalid archive path'') else Inr (join_with 47 parts)))"

text \<open>\<open>streamFolderArchive\<close> names an entry after its safe path; the shared folder itself is \<open>./\<close>.\<close>

definition entry_path :: "ustring \<Rightarrow> ustring res" where
  "entry_path logical =
     bindE (safeArchivePath logical) (\<lambda>p. Inr (if p \<noteq> [] then p else if logical \<noteq> [] then logical else [46, 47]))"

end
