(* ===== verification/ShareLinkClaims.thy ===== *)
theory ShareLinkClaims
  imports ShareScope
begin

text \<open>
  The download limit over histories of a share, through the locale \<open>admission_gate\<close>, and the lockout
  of the password.
\<close>

section \<open>The gate contract\<close>

text \<open>
  A counter \<open>used\<close> with an optional \<open>cap\<close>: a step that admits one more finds the counter below the
  cap and raises it by one, any other step leaves it alone, and no step moves the cap.
\<close>

locale admission_gate =
  fixes inv :: "'s \<Rightarrow> bool"
    and used :: "'s \<Rightarrow> int"
    and cap :: "'s \<Rightarrow> int option"
    and step :: "'op \<Rightarrow> 's \<Rightarrow> 's \<times> bool"
  assumes step_inv: "inv s \<Longrightarrow> step op s = (s', b) \<Longrightarrow> inv s'"
    and step_used: "inv s \<Longrightarrow> step op s = (s', b) \<Longrightarrow> used s' = used s + (if b then 1 else 0)"
    and step_cap: "inv s \<Longrightarrow> step op s = (s', b) \<Longrightarrow> cap s' = cap s"
    and step_below: "inv s \<Longrightarrow> step op s = (s', True) \<Longrightarrow> cap s = Some m \<Longrightarrow> used s < m"

fun gate_run :: "('op \<Rightarrow> 's \<Rightarrow> 's \<times> bool) \<Rightarrow> 'op list \<Rightarrow> 's \<Rightarrow> 's \<times> nat" where
  "gate_run step [] s = (s, 0)"
| "gate_run step (op # ops) s =
     (case step op s of (s1, b) \<Rightarrow>
      case gate_run step ops s1 of (s2, n) \<Rightarrow> (s2, if b then Suc n else n))"

context admission_gate
begin

lemma run_balance:
  "inv s \<Longrightarrow> gate_run step ops s = (s', n) \<Longrightarrow> inv s' \<and> used s' = used s + int n \<and> cap s' = cap s"
proof (induction ops arbitrary: s n)
  case (Cons op ops)
  obtain s1 b where 1: "step op s = (s1, b)" by (cases "step op s")
  obtain k where 2: "gate_run step ops s1 = (s', k)" "n = (if b then Suc k else k)"
    using Cons.prems(2) 1 by (auto split: prod.splits)
  have i: "inv s1" by (rule step_inv [OF Cons.prems(1) 1])
  then show ?case
    using Cons.IH [OF i 2(1)] 2(2) step_used [OF Cons.prems(1) 1] step_cap [OF Cons.prems(1) 1]
    by auto
qed simp

lemma run_within:
  "inv s \<Longrightarrow> gate_run step ops s = (s', n) \<Longrightarrow> cap s = Some m \<Longrightarrow> used s \<le> m \<Longrightarrow> used s + int n \<le> m"
proof (induction ops arbitrary: s n)
  case (Cons op ops)
  obtain s1 b where 1: "step op s = (s1, b)" by (cases "step op s")
  obtain k where 2: "gate_run step ops s1 = (s', k)" "n = (if b then Suc k else k)"
    using Cons.prems(2) 1 by (auto split: prod.splits)
  have i: "inv s1" by (rule step_inv [OF Cons.prems(1) 1])
  have "used s1 \<le> m"
    using step_used [OF Cons.prems(1) 1] step_below [OF Cons.prems(1), of op s1] 1 Cons.prems(3,4)
    by (cases b) fastforce+
  then have "used s1 + int k \<le> m"
    using Cons.IH [OF i 2(1)] step_cap [OF Cons.prems(1) 1] Cons.prems(3) by simp
  then show ?case using 2(2) step_used [OF Cons.prems(1) 1] by (auto split: if_splits)
qed simp

end


section \<open>Histories of share links\<close>

text \<open>
  Any interleaving of the operations that touch the table, each with its own database and clocks.  A history
  holds every state of the table, the last one first, and the number of admitted downloads; a revocation
  reads and loads its row from any two states of the history.
\<close>

datatype share_op =
    CountFile int ustring
  | CountMember db int ustring nat
  | CountArchive db int ustring
  | Attempt "ustring \<Rightarrow> ustring \<Rightarrow> bool" bool db int int ustring ustring
  | Revoke nat nat nat nat
  | Create int "ustring list" "ustring \<Rightarrow> ustring" ustring nat int db nat nat share_options

definition count_result :: "share_row list \<Rightarrow> (share_row list \<times> int) res \<Rightarrow> share_row list \<times> bool" where
  "count_result shares r = (case r of Inl _ \<Rightarrow> (shares, False) | Inr (shares', _) \<Rightarrow> (shares', True))"

text \<open>One operation on the last table of a history, and whether it admitted a download of the share with the token.\<close>

fun table_step :: "ustring \<Rightarrow> share_op \<Rightarrow> share_row list list \<Rightarrow> share_row list \<Rightarrow> share_row list \<times> bool" where
  "table_step token (CountFile t tok) past shares =
     (let (sh, b) = count_result shares (incrementDownloadCount t tok shares) in (sh, b \<and> tok = token))"
| "table_step token (CountMember s t tok k) past shares =
     (let (sh, b) = count_result shares (incrementFolderDownloadCount s t tok k shares) in (sh, b \<and> tok = token))"
| "table_step token (CountArchive s t tok) past shares =
     (let (sh, b) = count_result shares (incrementFolderArchiveDownloadCount s t tok shares) in (sh, b \<and> tok = token))"
| "table_step token (Attempt cmp wrap s now t tok pw) past shares =
     (fst (verifySharePassword cmp wrap s now t tok pw shares), False)"
| "table_step token (Revoke user k i j) past shares =
     (if i < length past \<and> j < length past
      then (case revokeShare user k (past ! i) (past ! j) shares of Inl _ \<Rightarrow> shares | Inr sh \<Rightarrow> sh) else shares, False)"
| "table_step token (Create mx types hash tok k now s user fileId opts) past shares =
     (case createShareLink mx types hash tok k now s user fileId opts shares of
        Inl _ \<Rightarrow> shares | Inr (sh, _) \<Rightarrow> sh, False)"

type_synonym share_history = "share_row list list \<times> int"

definition share_step :: "ustring \<Rightarrow> share_op \<Rightarrow> share_history \<Rightarrow> share_history \<times> bool" where
  "share_step token op s =
     (case s of (past, n) \<Rightarrow> (case table_step token op past (hd past) of
        (sh, b) \<Rightarrow> ((sh # past, if b then n + 1 else n), b)))"

definition share_of :: "ustring \<Rightarrow> share_row list \<Rightarrow> share_row option" where
  "share_of token shares = find (\<lambda>h. s_token h = token) shares"

definition share_used :: "ustring \<Rightarrow> share_row list \<Rightarrow> int" where
  "share_used token shares = (case share_of token shares of None \<Rightarrow> 0 | Some h \<Rightarrow> s_downloadCount h)"

definition share_cap :: "ustring \<Rightarrow> share_row list \<Rightarrow> int option" where
  "share_cap token shares = (case share_of token shares of None \<Rightarrow> None | Some h \<Rightarrow> s_maxDownloads h)"

definition share_active :: "ustring \<Rightarrow> share_row list \<Rightarrow> bool" where
  "share_active token shares \<longleftrightarrow> (case share_of token shares of None \<Rightarrow> False | Some h \<Rightarrow> s_isActive h)"

definition shares_ok :: "ustring \<Rightarrow> share_row list \<Rightarrow> bool" where
  "shares_ok token shares \<longleftrightarrow> distinct (map s_token shares) \<and> distinct (map s_id shares)
     \<and> share_of token shares \<noteq> None"

text \<open>An update that keeps keys, tokens and limits and changes counters by \<open>d\<close>.\<close>

lemma share_map:
  assumes ok: "shares_ok token shares"
    and keep: "\<And>h. s_token (g h) = s_token h" "\<And>h. s_id (g h) = s_id h" "\<And>h. s_maxDownloads (g h) = s_maxDownloads h"
  shows "shares_ok token (map g shares)"
    and "share_cap token (map g shares) = share_cap token shares"
    and "share_of token (map g shares) = map_option g (share_of token shares)"
proof -
  show of: "share_of token (map g shares) = map_option g (share_of token shares)"
    unfolding share_of_def by (induction shares) (auto simp: keep)
  have "map s_token (map g shares) = map s_token shares" "map s_id (map g shares) = map s_id shares"
    by (simp_all add: keep)
  then show "shares_ok token (map g shares)" using ok of by (auto simp: shares_ok_def simp del: map_map)
  show "share_cap token (map g shares) = share_cap token shares"
    by (simp add: share_cap_def of keep split: option.splits)
qed

lemma share_of_member: "share_of token shares = Some h \<Longrightarrow> h \<in> set shares \<and> s_token h = token"
  by (auto simp: share_of_def dest: find_SomeD)

lemma count_step:
  assumes ok: "shares_ok token shares"
    and P: "\<And>h. P h \<Longrightarrow> countable_share t tok h"
    and r: "count_result shares (counted P shares) = (shares', b)"
  shows "shares_ok token shares'"
    and "share_used token shares' = share_used token shares + (if b \<and> tok = token then 1 else 0)"
    and "share_cap token shares' = share_cap token shares"
    and "b \<Longrightarrow> tok = token \<Longrightarrow> share_cap token shares = Some m \<Longrightarrow> share_used token shares < m"
proof -
  let ?g = "\<lambda>h. if P h then h\<lparr>s_downloadCount := s_downloadCount h + 1\<rparr> else h"
  note keep = share_map [OF ok, of ?g]
  obtain h where h: "share_of token shares = Some h" using ok by (auto simp: shares_ok_def)
  note hm = share_of_member [OF h]
  have uniq: "h' = h" if "h' \<in> set shares" "s_token h' = token" for h'
    using ok that hm by (auto simp: shares_ok_def dest: key_unique [of s_token])
  have b: "b \<longleftrightarrow> filter P shares \<noteq> []" and s': "shares' = (if b then map ?g shares else shares)"
    using r by (auto simp: counted_def count_result_def count_one_def split: list.splits)
  show "shares_ok token shares'" "share_cap token shares' = share_cap token shares"
    using keep(1,2) ok s' by auto
  have Ph: "P h \<longleftrightarrow> b \<and> tok = token"
  proof
    assume "P h"
    then have "h \<in> set (filter P shares)" using hm by simp
    then have "filter P shares \<noteq> []" by (cases "filter P shares") auto
    moreover have "tok = token" using P [OF \<open>P h\<close>] hm by (simp add: countable_share_def)
    ultimately show "b \<and> tok = token" using b by blast
  next
    assume "b \<and> tok = token"
    then obtain h' where "h' \<in> set shares" "P h'" using b by (auto simp: filter_empty_conv)
    moreover have "s_token h' = token" using P [OF \<open>P h'\<close>] \<open>b \<and> _\<close> by (simp add: countable_share_def)
    ultimately show "P h" using uniq by blast
  qed
  then show "share_used token shares' = share_used token shares + (if b \<and> tok = token then 1 else 0)"
    using s' keep(3) h by (auto simp: share_used_def)
  show "share_used token shares < m" if "b" "tok = token" "share_cap token shares = Some m"
    using P [of h] Ph that h by (simp add: share_used_def share_cap_def countable_share_def)
qed

lemma attempt_shape:
  "\<exists>g. fst (verifySharePassword cmp wrap s now t tok pw shares) = map g shares
     \<and> (\<forall>h. s_token (g h) = s_token h \<and> s_id (g h) = s_id h \<and> s_maxDownloads (g h) = s_maxDownloads h
          \<and> s_downloadCount (g h) = s_downloadCount h \<and> s_isActive (g h) = s_isActive h)"
proof -
  have id: "\<exists>g. shares = map g shares
     \<and> (\<forall>h. s_token (g h) = s_token h \<and> s_id (g h) = s_id h \<and> s_maxDownloads (g h) = s_maxDownloads h
          \<and> s_downloadCount (g h) = s_downloadCount h \<and> s_isActive (g h) = s_isActive h)" by (rule exI [of _ id]) simp
  have two: "\<exists>g. map (\<lambda>x. if Q x then x\<lparr>s_failedAttempts := 0, s_lockedUntil := None\<rparr> else x)
        (map (\<lambda>x. if P x then bump_attempts t x else x) shares) = map g shares
     \<and> (\<forall>h. s_token (g h) = s_token h \<and> s_id (g h) = s_id h \<and> s_maxDownloads (g h) = s_maxDownloads h
          \<and> s_downloadCount (g h) = s_downloadCount h \<and> s_isActive (g h) = s_isActive h)" for P Q
    by (rule exI [of _ "(\<lambda>x. if Q x then x\<lparr>s_failedAttempts := 0, s_lockedUntil := None\<rparr> else x)
        \<circ> (\<lambda>x. if P x then bump_attempts t x else x)"]) (auto simp: bump_attempts_def)
  have one: "\<exists>g. map (\<lambda>x. if P x then bump_attempts t x else x) shares = map g shares
     \<and> (\<forall>h. s_token (g h) = s_token h \<and> s_id (g h) = s_id h \<and> s_maxDownloads (g h) = s_maxDownloads h
          \<and> s_downloadCount (g h) = s_downloadCount h \<and> s_isActive (g h) = s_isActive h)" for P
    using two [of "\<lambda>_. False"] by simp
  show ?thesis
    unfolding verifySharePassword_def Let_def
    by (auto simp only: fst_conv id one two split: sum.split option.split list.split if_split)
qed

lemma createShareLink_row:
  assumes "createShareLink mx types hash tok k now s user fileId opts shares = Inr x"
  obtains row where "x = (shares @ [row], row)" "s_token row \<notin> s_token ` set shares"
    "s_id row \<notin> s_id ` set shares"
proof -
  obtain f where "tok \<notin> s_token ` set shares" "k \<notin> s_id ` set shares"
    "x = (shares @ [new_share hash tok k now user f opts], new_share hash tok k now user f opts)"
    using assms unfolding createShareLink_def Let_def by (simp only: err_simps) (metis Inl_Inr_False Inr_inject)
  then show thesis using that [of "new_share hash tok k now user f opts"] by (simp add: new_share_def)
qed

definition share_key :: "ustring \<Rightarrow> share_row list \<Rightarrow> nat option" where
  "share_key token shares = map_option s_id (share_of token shares)"

text \<open>
  What one operation does to the share: an admission finds it active and below its limit and counts one; any
  other operation leaves the counter of a share that stays active alone; a revoked share stays revoked.
\<close>

definition good_step :: "ustring \<Rightarrow> share_row list \<Rightarrow> share_row list \<times> bool \<Rightarrow> bool" where
  "good_step token shares r \<longleftrightarrow>
     (case r of (shares', b) \<Rightarrow> shares_ok token shares' \<and> share_cap token shares' = share_cap token shares
        \<and> share_key token shares' = share_key token shares
        \<and> (share_active token shares' \<longrightarrow> share_active token shares
             \<and> share_used token shares' = share_used token shares + (if b then 1 else 0))
        \<and> (b \<longrightarrow> share_active token shares \<and> (\<forall>m. share_cap token shares = Some m \<longrightarrow> share_used token shares < m)))"

lemma good_same: "shares_ok token shares \<Longrightarrow> good_step token shares (shares, False)"
  by (simp add: good_step_def)

lemma good_count:
  assumes ok: "shares_ok token shares" and P: "\<And>h. P h \<Longrightarrow> countable_share t tok h"
    and r: "count_result shares (counted P shares) = (sh, c)"
  shows "good_step token shares (sh, c \<and> tok = token)"
proof -
  note C = count_step [OF ok P r]
  let ?g = "\<lambda>h. if P h then h\<lparr>s_downloadCount := s_downloadCount h + 1\<rparr> else h"
  have s': "sh = (if c then map ?g shares else shares)" "c \<longleftrightarrow> filter P shares \<noteq> []"
    using r by (auto simp: counted_def count_result_def count_one_def split: list.splits)
  obtain h where h: "share_of token shares = Some h" using ok by (auto simp: shares_ok_def)
  have of: "share_of token (map ?g shares) = Some (?g h)" using share_map(3) [OF ok, of ?g] h by simp
  then have keep: "share_key token sh = share_key token shares" "share_active token sh = share_active token shares"
    using s'(1) h by (auto simp: share_key_def share_active_def)
  have "share_active token shares" if b: "c \<and> tok = token"
  proof -
    obtain x where x: "x \<in> set shares" "P x" using b s'(2) by (auto simp: filter_empty_conv)
    have "s_token x = token" "s_isActive x" using P [OF x(2)] b by (simp_all add: countable_share_def)
    moreover have "x = h" if "s_token x = token"
      using ok x(1) that share_of_member [OF h] by (auto simp: shares_ok_def dest: key_unique [of s_token])
    ultimately show ?thesis using h by (simp add: share_active_def)
  qed
  then show ?thesis using C keep by (auto simp: good_step_def)
qed

lemma good_map:
  assumes ok: "shares_ok token shares"
    and g: "\<And>h. s_token (g h) = s_token h \<and> s_id (g h) = s_id h \<and> s_maxDownloads (g h) = s_maxDownloads h"
      "\<And>h. share_of token shares = Some h \<Longrightarrow> s_isActive (g h) \<Longrightarrow> s_isActive h \<and> s_downloadCount (g h) = s_downloadCount h"
  shows "good_step token shares (map g shares, False)"
proof -
  obtain h where h: "share_of token shares = Some h" using ok by (auto simp: shares_ok_def)
  note m = share_map [OF ok, of g]
  show ?thesis using m g h by (auto simp: good_step_def share_active_def share_used_def share_key_def)
qed

lemma good_append:
  assumes ok: "shares_ok token shares" and new: "s_token row \<notin> s_token ` set shares" "s_id row \<notin> s_id ` set shares"
  shows "good_step token shares (shares @ [row], False)"
proof -
  have "share_of token (shares @ [row]) = share_of token shares"
    using ok new by (auto simp: shares_ok_def share_of_def find_append split: option.splits)
  then show ?thesis
    using ok new by (auto simp: good_step_def shares_ok_def share_used_def share_cap_def share_active_def share_key_def)
qed

text \<open>The tables of a history: the share has one row, and once it is revoked it stays so.\<close>

definition past_ok :: "ustring \<Rightarrow> share_row list list \<Rightarrow> bool" where
  "past_ok token past \<longleftrightarrow> past \<noteq> []
     \<and> (\<forall>p \<in> set past. shares_ok token p \<and> share_key token p = share_key token (hd past)
          \<and> (share_active token (hd past) \<longrightarrow> share_active token p))"

lemma good_revoke:
  assumes past: "past_ok token past" and ij: "i < length past" "j < length past"
    and r: "revokeShare user k (past ! i) (past ! j) (hd past) = Inr sh"
  shows "good_step token (hd past) (sh, False)"
proof -
  have ok: "shares_ok token (hd past)" "shares_ok token (past ! j)" using past ij by (auto simp: past_ok_def)
  obtain e where e: "revoked_entity user k (past ! i) = Inr e" "save_share e (past ! j) (hd past) = Inr sh"
    using r by (auto simp: revokeShare_def err_simps)
  have inactive: "\<not> s_isActive e" using e(1) by (auto simp: revoked_entity_def err_simps)
  show ?thesis
  proof (cases "find (\<lambda>h. s_id h = s_id e) (past ! j)")
    case None
    then have "sh = hd past @ [e]" "s_token e \<notin> s_token ` set (hd past)" "s_id e \<notin> s_id ` set (hd past)"
      using e(2) by (simp_all add: save_share_def split: if_splits)
    then show ?thesis using good_append [OF ok(1)] by simp
  next
    case (Some l)
    let ?g = "\<lambda>h. if s_id h = s_id e then changed_columns e l h else h"
    have sh: "sh = map ?g (hd past)" using e(2) Some by (simp add: save_share_def)
    have l: "l \<in> set (past ! j)" "s_id l = s_id e" using Some by (auto dest: find_SomeD)
    have "s_isActive h \<and> s_downloadCount (?g h) = s_downloadCount h"
      if h: "share_of token (hd past) = Some h" and act: "s_isActive (?g h)" for h
    proof (cases "s_id h = s_id e")
      case False
      then show ?thesis using act by simp
    next
      case True
      have "share_key token (past ! j) = Some (s_id h)" "share_active token (hd past) \<longrightarrow> share_active token (past ! j)"
        using past ij h by (auto simp: past_ok_def share_key_def)
      then obtain l' where l': "share_of token (past ! j) = Some l'" "s_id l' = s_id h"
        by (auto simp: share_key_def)
      have "l' = l" using ok(2) l l' True share_of_member [OF l'(1)]
        by (auto simp: shares_ok_def dest: key_unique [of s_id])
      moreover have "\<not> s_isActive l \<and> s_isActive h" using act True inactive by (auto simp: changed_columns_def split: if_splits)
      ultimately show ?thesis
        using \<open>share_active token (hd past) \<longrightarrow> _\<close> h l'(1) by (simp add: share_active_def)
    qed
    then show ?thesis unfolding sh by (intro good_map [OF ok(1)]) (auto simp: changed_columns_def)
  qed
qed

lemma table_step_good:
  assumes past: "past_ok token past"
  shows "good_step token (hd past) (table_step token op past (hd past))"
proof -
  have ok: "shares_ok token (hd past)" using past by (simp add: past_ok_def)
  show ?thesis
  proof (cases op)
    case (CountFile t tok)
    then show ?thesis using good_count [OF ok, of "countable_share t tok" t tok]
      by (auto simp: incrementDownloadCount_def split: prod.split)
  next
    case (CountMember s t tok k)
    then show ?thesis using good_count [OF ok, of "\<lambda>h. countable_share t tok h \<and> allowed_file s t tok k (hd past)" t tok]
      by (auto simp: incrementFolderDownloadCount_def split: prod.split)
  next
    case (CountArchive s t tok)
    then show ?thesis
      using good_count [OF ok, of "\<lambda>h. countable_share t tok h
          \<and> (\<exists>(user, root) \<in> set (share_context s t tok (hd past)). valid_root s user root)" t tok]
      by (auto simp: incrementFolderArchiveDownloadCount_def split: prod.split)
  next
    case (Attempt cmp wrap s now t tok pw)
    then obtain g where g: "fst (verifySharePassword cmp wrap s now t tok pw (hd past)) = map g (hd past)"
      "\<And>h. s_token (g h) = s_token h \<and> s_id (g h) = s_id h \<and> s_maxDownloads (g h) = s_maxDownloads h
          \<and> s_downloadCount (g h) = s_downloadCount h \<and> s_isActive (g h) = s_isActive h"
      using attempt_shape [of cmp wrap s now t tok pw "hd past"] by blast
    show ?thesis unfolding Attempt table_step.simps g(1) by (rule good_map [OF ok]) (use g(2) in simp_all)
  next
    case (Revoke user k i j)
    then show ?thesis
      using good_same [OF ok] good_revoke [OF past, of i j user k] by (auto split: sum.split)
  next
    case (Create mx types hash tok k now s user fileId opts)
    show ?thesis
    proof (cases "createShareLink mx types hash tok k now s user fileId opts (hd past)")
      case (Inl e)
      then show ?thesis using Create good_same [OF ok] by simp
    next
      case (Inr x)
      then obtain row where "x = (hd past @ [row], row)" "s_token row \<notin> s_token ` set (hd past)"
          "s_id row \<notin> s_id ` set (hd past)" by (rule createShareLink_row)
      then show ?thesis using Create Inr good_append [OF ok] by simp
    qed
  qed
qed

text \<open>While the share is active its counter is the number of admitted downloads.\<close>

definition history_ok :: "ustring \<Rightarrow> share_history \<Rightarrow> bool" where
  "history_ok token s \<longleftrightarrow>
     (case s of (past, n) \<Rightarrow> past_ok token past \<and> (share_active token (hd past) \<longrightarrow> share_used token (hd past) = n))"

lemma share_step_ok:
  assumes inv: "history_ok token s" and r: "share_step token op s = (s', b)"
  shows "history_ok token s' \<and> snd s' = snd s + (if b then 1 else 0)
    \<and> share_cap token (hd (fst s')) = share_cap token (hd (fst s))
    \<and> (b \<longrightarrow> (\<forall>m. share_cap token (hd (fst s)) = Some m \<longrightarrow> snd s < m))"
proof -
  obtain past n where s: "s = (past, n)" by (cases s)
  obtain sh c where c: "table_step token op past (hd past) = (sh, c)" by (cases "table_step token op past (hd past)")
  have past: "past_ok token past" and act: "share_active token (hd past) \<longrightarrow> share_used token (hd past) = n"
    using inv by (simp_all add: history_ok_def s)
  have good: "good_step token (hd past) (sh, c)" using table_step_good [OF past, of op] c by simp
  have s': "s' = (sh # past, if c then n + 1 else n)" "b = c" using r by (auto simp: share_step_def s c)
  have "shares_ok token p \<and> share_key token p = share_key token sh \<and> (share_active token sh \<longrightarrow> share_active token p)"
    if "p \<in> set (sh # past)" for p
  proof (cases "p = sh")
    case True
    then show ?thesis using good by (simp add: good_step_def)
  next
    case False
    then have "p \<in> set past" using that by simp
    then have "shares_ok token p" "share_key token p = share_key token (hd past)" "share_active token (hd past) \<longrightarrow> share_active token p"
      using past unfolding past_ok_def by blast+
    moreover have "share_key token sh = share_key token (hd past)" "share_active token sh \<longrightarrow> share_active token (hd past)"
      using good by (simp_all add: good_step_def)
    ultimately show ?thesis by simp
  qed
  then have "past_ok token (sh # past)" unfolding past_ok_def list.sel by blast
  moreover have "share_active token sh \<longrightarrow> share_used token sh = (if c then n + 1 else n)"
    using good act by (auto simp: good_step_def)
  moreover have "share_cap token sh = share_cap token (hd past)" using good by (simp add: good_step_def)
  moreover have "n < m" if "c" "share_cap token (hd past) = Some m" for m
    using good act that by (auto simp: good_step_def)
  ultimately show ?thesis by (simp add: s'(1) s'(2) s history_ok_def)
qed

interpretation downloads: admission_gate "history_ok token" "\<lambda>s. snd s" "\<lambda>s. share_cap token (hd (fst s))" "share_step token"
  for token
  by unfold_locales (use share_step_ok in \<open>fastforce+\<close>)


section \<open>The limit\<close>

definition demo_share :: share_row where
  "demo_share = \<lparr>s_id = 1, s_token = js ''t'', s_password = Some (js ''pw''), s_expiresAt = None, s_lockedUntil = None,
     s_isActive = True, s_failedAttempts = 0, s_downloadCount = 0, s_maxDownloads = Some 2, s_isFolder = False,
     s_allowUpload = False, s_userId = 1, s_fileId = 1\<rparr>"

text \<open>
  C10: in any interleaving of downloads through the three counting queries, password attempts, creations
  and revocations, whose reads and saves may be any number of steps apart, a share never admits more
  downloads than its limit leaves, and as long as it is not revoked its counter counts them exactly.
\<close>

theorem share_downloads_within_limit:
  assumes "shares_ok token shares" "gate_run (share_step token) ops ([shares], share_used token shares) = ((past, u), n)"
    and "share_cap token shares = Some m" "share_used token shares \<le> m"
  shows "share_used token shares + int n \<le> m
    \<and> (share_active token (hd past) \<longrightarrow> share_used token (hd past) = share_used token shares + int n)"
proof -
  have start: "history_ok token ([shares], share_used token shares)"
    using assms(1) by (simp add: history_ok_def past_ok_def)
  have "share_used token shares + int n \<le> m" using downloads.run_within [OF start assms(2), of m] assms(3,4) by simp
  moreover note B = downloads.run_balance [OF start assms(2)]
  have "history_ok token (past, u)" using B by blast
  moreover have "u = share_used token shares + int n" using B by simp
  ultimately show ?thesis by (simp add: history_ok_def)
qed

theorem share_downloads_within_limit_witness:
  "snd (gate_run (share_step (js ''t'')) [CountFile 5 (js ''t''), CountFile 6 (js ''u''), CountFile 7 (js ''t''),
      Revoke 1 1 3 2, CountFile 8 (js ''t'')] ([[demo_share]], 0)) = 2 \<and> (0::int) + int 2 \<le> 2"
proof -
  have c: "snd (gate_run (share_step (js ''t'')) [CountFile 5 (js ''t''), CountFile 6 (js ''u''), CountFile 7 (js ''t''),
      Revoke 1 1 3 2, CountFile 8 (js ''t'')] ([[demo_share]], 0)) = 2" by code_simp
  have "shares_ok (js ''t'') [demo_share]" "share_cap (js ''t'') [demo_share] = Some 2"
    "share_used (js ''t'') [demo_share] = 0" by code_simp+
  then show ?thesis
    using share_downloads_within_limit [of "js ''t''" "[demo_share]"] c by (metis prod.collapse order.refl zero_le_numeral)
qed


section \<open>The lockout\<close>




definition active_share :: "ustring \<Rightarrow> share_row list \<Rightarrow> share_row option" where
  "active_share token shares = find (\<lambda>h. s_token h = token \<and> s_isActive h) shares"

lemma findShareByToken_eq:
  "findShareByToken s now token shares =
     (case active_share token shares of None \<Rightarrow> Inl (NotFound ''Share link not found or expired'')
      | Some h \<Rightarrow> if share_live s now h then Inr h else Inl (NotFound ''Share link not found or expired''))"
  by (auto simp: findShareByToken_def active_share_def ensure_def split: option.splits)







definition demo_db :: db where
  "demo_db = \<lparr>users = [\<lparr>u_id = 1, u_email = [], u_password = [], u_isActive = True, u_storageQuota = 9, u_storageUsed = 0\<rparr>],
     files = [(new_file (js ''n'') \<lparr>pl_storagePath = [], pl_storageLocationId = [], pl_relativeObjectKey = []\<rparr> 0 None None 1)\<lparr>f_id := 1\<rparr>],
     folders = [], next_file = 2, next_folder = 1\<rparr>"



text \<open>
  C33: when the query builder puts the second condition of the update without parentheses, as its text
  is in the code, an attempt on one share also rewrites every other share whose lock has run out: one
  failed attempt is booked there and its lock is cleared.
\<close>

theorem attempt_spills_over:
  assumes "active_share token shares = Some h" "share_live s now h" "s_password h = Some hash" "hash \<noteq> []"
    and "\<not> (s_lockedUntil h \<noteq> None \<and> now < the (s_lockedUntil h))"
    and "g \<in> set shares" "s_id g \<noteq> s_id h" "expired (s_lockedUntil g) dbnow"
  shows "g\<lparr>s_failedAttempts := 1, s_lockedUntil := None\<rparr>
    \<in> set (fst (verifySharePassword cmp False s now dbnow token p shares))"
proof -
  let ?hit = "attempt_row False dbnow (s_id h)"
  let ?m = "map (\<lambda>x. if ?hit x then bump_attempts dbnow x else x) shares"
  have g: "?hit g" "bump_attempts dbnow g = g\<lparr>s_failedAttempts := 1, s_lockedUntil := None\<rparr>"
    using assms(8) by (simp_all add: attempt_row_def bump_attempts_def)
  then have m: "g\<lparr>s_failedAttempts := 1, s_lockedUntil := None\<rparr> \<in> set ?m" using assms(6) by force
  let ?r = "\<lambda>x. if s_id x = s_id h then x\<lparr>s_failedAttempts := 0, s_lockedUntil := None\<rparr> else x"
  have reset: "g\<lparr>s_failedAttempts := 1, s_lockedUntil := None\<rparr> \<in> set (map ?r ?m)"
    using assms(7) m by (force simp del: map_map)
  have "findShareByToken s now token shares = Inr h" using assms(1,2) by (simp add: findShareByToken_eq)
  then have "fst (verifySharePassword cmp False s now dbnow token p shares) \<in> {?m, map ?r ?m}"
    unfolding verifySharePassword_def Let_def
    by (simp only: sum.case assms(3) option.case assms(4,5) if_False split: list.split if_split) simp
  then show ?thesis using m reset by (elim insertE) (simp_all only: empty_iff)
qed

theorem attempt_spills_over_witness:
  "demo_share\<lparr>s_id := 2, s_token := js ''u'', s_failedAttempts := 1, s_lockedUntil := None\<rparr>
     \<in> set (fst (verifySharePassword (\<lambda>p h. p = h) False demo_db 9 9 (js ''t'') (js ''a'')
         [demo_share, demo_share\<lparr>s_id := 2, s_token := js ''u'', s_failedAttempts := 5, s_lockedUntil := Some 8\<rparr>]))"
  using attempt_spills_over [of "js ''t''" "[demo_share, demo_share\<lparr>s_id := 2, s_token := js ''u'',
      s_failedAttempts := 5, s_lockedUntil := Some 8\<rparr>]" demo_share demo_db 9 "js ''pw''"
      "demo_share\<lparr>s_id := 2, s_token := js ''u'', s_failedAttempts := 5, s_lockedUntil := Some 8\<rparr>" 9
      "\<lambda>p h. p = h" "js ''a''"]
  by (simp add: demo_share_def active_share_def expired_def share_live_def demo_db_def findById_def new_file_def)

end
