(* ===== verification/ShareScopeClaims.thy ===== *)
theory ShareScopeClaims
  imports ShareScope FileClaims
begin

text \<open>
  The reach of a folder share: the recursive queries give exactly the files whose whole chain of
  folders, up to the root of the drive, is live and belongs to the owner; the paths of an archive.
\<close>

section \<open>The queries\<close>

lemma live_mirror_iff:
  assumes "tree_inv s"
  shows "live_mirror s user k \<longleftrightarrow> live_folder s user k"
proof
  assume "live_mirror s user k"
  then obtain f where f: "f \<in> set (files s)" "f_folderId f = Some k" "f_userId f = user" "f_isFolder f"
      "\<not> f_isDeleted f" by (auto simp: live_mirror_def)
  then obtain d where "d \<in> set (folders s)" "agree f d"
    using tree_invD(2) [OF assms] by (auto simp: mirrors_ok_def mirrors_on_def)
  then show "live_folder s user k" using f by (auto simp: live_folder_def agree_def)
next
  assume "live_folder s user k"
  then obtain d where d: "d \<in> set (folders s)" "d_id d = k" "d_userId d = user" "\<not> d_isDeleted d"
    by (auto simp: live_folder_def)
  then obtain f where "f \<in> set (files s)" "agree f d"
    using tree_invD(2) [OF assms] by (auto simp: mirrors_ok_def mirrors_on_def)
  then show "live_mirror s user k" using d by (auto simp: live_mirror_def agree_def)
qed

lemma folder_ids_fuel: "card (d_id ` set (folders s)) \<le> length (folders s)"
  by (metis card_image_le card_length finite_set order_trans)

lemma parent_ids_rel: "tree_inv s \<Longrightarrow> child_of (parent_ids s) = (parent_rel s)\<inverse>"
  using has_parent_folder by (fastforce simp: child_of_def parent_ids_def parent_rel_def)

lemma ancestors_iff:
  assumes "tree_inv s"
  shows "d \<in> set (ancestors s root) \<longleftrightarrow> d \<in> set (folders s) \<and> (root, d_id d) \<in> (parent_rel s)\<^sup>*"
proof -
  have "set (closure_union (length (folders s)) (parent_ids s) [root] [root])
      = {x. \<exists>r \<in> set [root]. (x, r) \<in> (child_of (parent_ids s))\<^sup>*}"
    by (rule closure_union_correct [where U = "d_id ` set (folders s)"])
       (auto simp: parent_ids_def folder_ids_fuel)
  then show ?thesis
    by (auto simp: ancestors_def parent_ids_rel [OF assms] rtrancl_converse)
qed

lemma parent_rel_unique:
  assumes "tree_inv s" "(x, y) \<in> parent_rel s" "(x, z) \<in> parent_rel s"
  shows "y = z"
proof -
  obtain d e where d: "d \<in> set (folders s)" "d_id d = x" "d_parentId d = Some y"
    and e: "e \<in> set (folders s)" "d_id e = x" "d_parentId e = Some z"
    using assms(2,3) by (auto simp: parent_rel_def)
  have "d = e" using key_unique [OF tree_invD(8) [OF assms(1)] d(1) e(1)] d(2) e(2) by simp
  then show ?thesis using d(3) e(3) by simp
qed

lemma parent_rel_folder:
  "tree_inv s \<Longrightarrow> (x, y) \<in> parent_rel s \<Longrightarrow> x \<in> d_id ` set (folders s) \<and> y \<in> d_id ` set (folders s)"
  using has_parent_folder by (fastforce simp: parent_rel_def)

text \<open>Every folder has an ancestor in the root of the drive, because the folders form a forest.\<close>

lemma top_ancestor:
  assumes inv: "tree_inv s" and d: "d \<in> set (folders s)"
  shows "\<exists>e \<in> set (folders s). (d_id d, d_id e) \<in> (parent_rel s)\<^sup>* \<and> d_parentId e = None"
proof -
  have "parent_rel s \<subseteq> d_id ` set (folders s) \<times> d_id ` set (folders s)"
    using parent_rel_folder [OF inv] by auto
  then have "finite (parent_rel s)" by (rule finite_subset) simp
  then have "wf ((parent_rel s)\<inverse>)"
    using inv by (intro finite_acyclic_wf_converse) (auto simp: tree_inv_def tree_ok_def)
  then have "\<forall>d \<in> set (folders s). d_id d = x \<longrightarrow>
      (\<exists>e \<in> set (folders s). (x, d_id e) \<in> (parent_rel s)\<^sup>* \<and> d_parentId e = None)" for x
  proof (induction x rule: wf_induct_rule)
    case (less x)
    show ?case
    proof (intro ballI impI)
      fix d assume d: "d \<in> set (folders s)" "d_id d = x"
      show "\<exists>e \<in> set (folders s). (x, d_id e) \<in> (parent_rel s)\<^sup>* \<and> d_parentId e = None"
      proof (cases "d_parentId d")
        case (Some p)
        then have xp: "(x, p) \<in> parent_rel s" using d by (auto simp: parent_rel_def)
        obtain q where "q \<in> set (folders s)" "d_id q = p" using has_parent_folder [OF inv d(1)] Some by auto
        then obtain e where "e \<in> set (folders s)" "(p, d_id e) \<in> (parent_rel s)\<^sup>*" "d_parentId e = None"
          using less [of p] xp by blast
        then show ?thesis using xp by (meson converse_rtrancl_into_rtrancl)
      qed (use d in auto)
    qed
  qed
  then show ?thesis using d by blast
qed

text \<open>All folders above \<open>p\<close>, \<open>p\<close> included, are live folders of the user.\<close>

definition live_upwards :: "db \<Rightarrow> nat \<Rightarrow> nat \<Rightarrow> bool" where
  "live_upwards s user p \<longleftrightarrow> (\<forall>q. (p, q) \<in> (parent_rel s)\<^sup>* \<longrightarrow> live_folder s user q)"

lemma live_folder_unique:
  assumes "tree_inv s" "d \<in> set (folders s)"
  shows "live_folder s user (d_id d) \<longleftrightarrow> d_userId d = user \<and> \<not> d_isDeleted d"
proof
  assume "live_folder s user (d_id d)"
  then obtain e where e: "e \<in> set (folders s)" "d_id e = d_id d" "d_userId e = user" "\<not> d_isDeleted e"
    by (auto simp: live_folder_def)
  have "e = d" using key_unique [OF tree_invD(8) [OF assms(1)] e(1) assms(2) e(2)] .
  then show "d_userId d = user \<and> \<not> d_isDeleted d" using e by simp
qed (use assms(2) in \<open>auto simp: live_folder_def\<close>)

lemma valid_root_iff:
  assumes inv: "tree_inv s"
  shows "valid_root s user root \<longleftrightarrow> live_upwards s user root"
proof
  assume v: "valid_root s user root"
  show "live_upwards s user root"
    unfolding live_upwards_def
  proof (intro allI impI)
    fix q assume q: "(root, q) \<in> (parent_rel s)\<^sup>*"
    have "\<exists>d \<in> set (folders s). d_id d = q"
      using q v parent_rel_folder [OF inv] by (cases rule: rtranclE) (auto simp: valid_root_def ancestors_iff [OF inv])
    then obtain d where d: "d \<in> set (folders s)" "d_id d = q" by blast
    then have "d \<in> set (ancestors s root)" using q by (simp add: ancestors_iff [OF inv])
    then have "d_userId d = user" "\<not> d_isDeleted d" using v by (auto simp: valid_root_def)
    then show "live_folder s user q" using d by (auto simp: live_folder_def)
  qed
next
  assume l: "live_upwards s user root"
  then have "live_folder s user root" by (auto simp: live_upwards_def)
  then obtain d where d: "d \<in> set (folders s)" "d_id d = root" by (auto simp: live_folder_def)
  then obtain e where e: "e \<in> set (folders s)" "(root, d_id e) \<in> (parent_rel s)\<^sup>*" "d_parentId e = None"
    using top_ancestor [OF inv d(1)] by auto
  have "d_userId a = user \<and> \<not> d_isDeleted a \<and> live_mirror s user (d_id a)"
    if "a \<in> set (ancestors s root)" for a
    using that l live_folder_unique [OF inv] by (auto simp: ancestors_iff [OF inv] live_upwards_def live_mirror_iff [OF inv])
  then show "valid_root s user root"
    using d e by (auto simp: valid_root_def ancestors_iff [OF inv])
qed

lemma live_children_rel:
  assumes inv: "tree_inv s"
  shows "(c, p) \<in> child_of (live_children s user) \<longleftrightarrow> (c, p) \<in> parent_rel s \<and> live_folder s user c"
  using live_folder_unique [OF inv]
  by (fastforce simp: child_of_def live_children_def parent_rel_def live_mirror_iff [OF inv])

lemma live_path:
  assumes inv: "tree_inv s" and root: "live_upwards s user root"
  shows "(p, root) \<in> (child_of (live_children s user))\<^sup>* \<longleftrightarrow> (p, root) \<in> (parent_rel s)\<^sup>* \<and> live_upwards s user p"
proof
  assume "(p, root) \<in> (child_of (live_children s user))\<^sup>*"
  then show "(p, root) \<in> (parent_rel s)\<^sup>* \<and> live_upwards s user p"
  proof (induction rule: converse_rtrancl_induct)
    case (step y z)
    then have yz: "(y, z) \<in> parent_rel s" "live_folder s user y" by (simp_all add: live_children_rel [OF inv])
    have "live_folder s user q" if "(y, q) \<in> (parent_rel s)\<^sup>*" for q
      using that
    proof (cases rule: converse_rtranclE)
      case (step y')
      then have "y' = z" using parent_rel_unique [OF inv yz(1)] by blast
      then show ?thesis using step \<open>(z, root) \<in> _ \<and> _\<close> by (auto simp: live_upwards_def)
    qed (use yz in auto)
    then show ?case using step.IH yz(1) by (auto simp: live_upwards_def intro: converse_rtrancl_into_rtrancl)
  qed (use root in auto)
next
  assume "(p, root) \<in> (parent_rel s)\<^sup>* \<and> live_upwards s user p"
  then have "(p, root) \<in> (parent_rel s)\<^sup>*" "live_upwards s user p" by auto
  then show "(p, root) \<in> (child_of (live_children s user))\<^sup>*"
  proof (induction rule: converse_rtrancl_induct)
    case (step y z)
    have "live_folder s user y" using step.prems by (auto simp: live_upwards_def)
    then have "(y, z) \<in> child_of (live_children s user)" using step by (simp add: live_children_rel [OF inv])
    moreover have "live_upwards s user z"
      using step by (auto simp: live_upwards_def intro: converse_rtrancl_into_rtrancl)
    ultimately show ?case using step.IH by (meson converse_rtrancl_into_rtrancl)
  qed simp
qed

lemma subtree_iff:
  assumes inv: "tree_inv s"
  shows "p \<in> set (subtree s user root) \<longleftrightarrow> (p, root) \<in> (parent_rel s)\<^sup>* \<and> live_upwards s user p"
proof (cases "live_upwards s user root")
  case True
  then have ok: "valid_root s user root" "live_folder s user root" "live_mirror s user root"
    by (auto simp: valid_root_iff [OF inv] live_mirror_iff [OF inv]) (auto simp: live_upwards_def)
  have "set (closure_union (length (folders s)) (live_children s user) [root] [root])
      = {x. \<exists>r \<in> set [root]. (x, r) \<in> (child_of (live_children s user))\<^sup>*}"
    by (rule closure_union_correct [where U = "d_id ` set (folders s)"])
       (auto simp: live_children_def folder_ids_fuel)
  then show ?thesis using ok live_path [OF inv True] by (auto simp: subtree_def)
next
  case False
  then have "\<not> ((p, root) \<in> (parent_rel s)\<^sup>* \<and> live_upwards s user p)"
    by (auto simp: live_upwards_def intro: rtrancl_trans)
  then show ?thesis using False by (auto simp: subtree_def valid_root_iff [OF inv])
qed

text \<open>
  C31: a file is reachable through a folder share exactly when it is a live file of the owner whose
  folder lies below the shared one and every folder from there up to the root of the drive is a live
  folder of the owner; in particular nothing inside a trashed folder is reachable.
\<close>

theorem shared_file_scope:
  assumes "tree_inv s"
  shows "resolveSharedFolderFile s h k = Inr f \<longleftrightarrow>
    shared_file s (s_userId h) k = Some f \<and>
    (\<exists>root p. share_root s h = Some root \<and> f_parentId f = Some p
       \<and> (p, root) \<in> (parent_rel s)\<^sup>* \<and> live_upwards s (s_userId h) p)"
  using subtree_iff [OF assms, of _ "s_userId h"]
  by (auto simp: resolveSharedFolderFile_def err_simps)

definition demo_folder_share :: share_row where
  "demo_folder_share = \<lparr>s_id = 1, s_token = js ''t'', s_password = None, s_expiresAt = None, s_lockedUntil = None,
     s_isActive = True, s_failedAttempts = 0, s_downloadCount = 0, s_maxDownloads = None, s_isFolder = True,
     s_allowUpload = False, s_userId = 1, s_fileId = 2\<rparr>"

theorem shared_file_scope_witness:
  "\<exists>f. shared_file demo2 1 4 = Some f \<and> live_upwards demo2 1 2"
proof -
  have c: "is_ok (resolveSharedFolderFile demo2 demo_folder_share 4)"
    "map_option f_parentId (shared_file demo2 1 4) = Some (Some 2)" by code_simp+
  then obtain f where f: "resolveSharedFolderFile demo2 demo_folder_share 4 = Inr f"
    by (cases "resolveSharedFolderFile demo2 demo_folder_share 4") auto
  then have "shared_file demo2 1 4 = Some f \<and> (\<exists>p. f_parentId f = Some p \<and> live_upwards demo2 1 p)"
    using shared_file_scope [OF demo2_inv, of demo_folder_share 4 f] by (auto simp: demo_folder_share_def)
  then show ?thesis using c(2) by auto
qed


section \<open>Archive paths\<close>

lemma safe_parts_Inr:
  "safe_parts ps = Inr qs \<Longrightarrow> qs = filter (\<lambda>p. p \<noteq> [] \<and> p \<noteq> [46]) ps \<and> [46, 46] \<notin> set ps"
  by (induction ps arbitrary: qs) (auto simp: err_simps split: if_splits)

lemma safe_parts_ok:
  "\<forall>p \<in> set ps. p \<noteq> [] \<and> p \<noteq> [46] \<and> p \<noteq> [46, 46] \<Longrightarrow> safe_parts ps = Inr ps"
  by (induction ps) auto

text \<open>
  C32: an accepted archive path is relative, has no backslash, no empty, dot or dot-dot segment, and is
  accepted again unchanged.
\<close>

theorem safeArchivePath_confined:
  assumes "safeArchivePath p = Inr q" "p \<noteq> []"
  shows "q \<noteq> [] \<and> hd q \<noteq> 47 \<and> 92 \<notin> set q
    \<and> (\<forall>seg \<in> set (split_on 47 q). seg \<noteq> [] \<and> seg \<noteq> [46] \<and> seg \<noteq> [46, 46])
    \<and> safeArchivePath q = Inr q"
proof -
  let ?n = "map (\<lambda>c. if c = 92 then 47 else c) p"
  obtain parts where parts: "safe_parts (split_on 47 ?n) = Inr parts" "parts \<noteq> []" "q = join_with 47 parts"
    using assms by (auto simp: safeArchivePath_def err_simps split: if_splits)
  have seg: "seg \<noteq> [] \<and> seg \<noteq> [46] \<and> seg \<noteq> [46, 46] \<and> 47 \<notin> set seg \<and> 92 \<notin> set seg" if "seg \<in> set parts" for seg
  proof -
    have "seg \<in> set (split_on 47 ?n)" "seg \<noteq> []" "seg \<noteq> [46]" "[46, 46] \<notin> set (split_on 47 ?n)"
      using safe_parts_Inr [OF parts(1)] that by auto
    then show ?thesis using split_on_sep [of seg 47 ?n] by auto
  qed
  have split: "split_on 47 q = parts" using join_with_no_sep [of parts 47] seg parts(2,3) by blast
  have q92: "92 \<notin> set q" using set_join_with [of 47 parts] seg parts(3) by fastforce
  obtain x xs where x: "parts = x # xs" "x \<noteq> []" "47 \<notin> set x" using parts(2) seg by (cases parts) auto
  then have q: "q \<noteq> [] \<and> hd q \<noteq> 47"
    using parts(3) by (cases xs; cases x) auto
  have "map (\<lambda>c. if c = 92 then 47 else c) q = q" using q92 by (intro map_idI) auto
  then have "safeArchivePath q = Inr q"
    using q split seg parts(2,3) by (simp add: safeArchivePath_def safe_parts_ok)
  then show ?thesis using q q92 split seg by auto
qed

theorem safeArchivePath_confined_witness:
  "safeArchivePath (js ''a//./b'') = Inr (js ''a/b'') \<and> safeArchivePath (js ''a/b'') = Inr (js ''a/b'')"
proof -
  have "safeArchivePath (js ''a//./b'') = Inr (js ''a/b'')" by code_simp
  then show ?thesis using safeArchivePath_confined [of "js ''a//./b''"] by simp
qed

section \<open>The order of the rows\<close>

text \<open>The sort compares nothing: it leaves the folders in the order of the rows.\<close>

lemma ordered_folders_id: "ordered_folders root rows = filter m_isFolder rows"
proof -
  have "parent_path [root \<mapsto> []] p = []" for p by (simp add: parent_path_def split: option.split)
  then show ?thesis by (simp add: ordered_folders_def sort_key_const)
qed

lemma fill_paths_append: "fill_paths root (rs @ rs') m = fill_paths root rs' (fill_paths root rs m)"
  by (induction rs arbitrary: m) auto

lemma fill_paths_other: "k \<notin> m_folderId ` set rs \<Longrightarrow> fill_paths root rs m k = m k"
  by (induction rs arbitrary: m) auto

lemma fill_paths_known: "k \<in> m_folderId ` set rs \<Longrightarrow> k \<noteq> root \<Longrightarrow> fill_paths root rs m k \<noteq> None"
proof (induction rs arbitrary: m)
  case (Cons r rs)
  then show ?case using fill_paths_other [of k rs root] by (cases "k \<in> m_folderId ` set rs") auto
qed simp

text \<open>
  C40: The path of a folder in an archive of a share depends on the order in which the database returns the
  rows: it continues the path of its parent folder when the row of the parent comes first, and otherwise it is
  the bare name of the folder, without the folders above it.  The sort that should put parents first compares
  lengths in a map that is still empty.
\<close>

theorem archive_paths_depend_on_row_order:
  assumes "distinct (map m_folderId (filter m_isFolder (xs @ r # ys)))" "m_isFolder r" "m_folderId r \<noteq> root"
    and "m_parentId r = Some q" "q \<noteq> root" "q \<noteq> 0"
  shows "(\<forall>p \<in> set xs. m_isFolder p \<and> m_folderId p = q \<longrightarrow>
        (\<exists>path. (p, path) \<in> set (member_paths root (xs @ r # ys))
           \<and> (r, join_path path (m_name r)) \<in> set (member_paths root (xs @ r # ys))))
    \<and> ((\<forall>p \<in> set xs. m_isFolder p \<longrightarrow> m_folderId p \<noteq> q) \<longrightarrow> (r, m_name r) \<in> set (member_paths root (xs @ r # ys)))"
proof -
  let ?rows = "xs @ r # ys"
  let ?xs = "filter m_isFolder xs" and ?ys = "filter m_isFolder ys"
  define m1 where "m1 = fill_paths root ?xs [root \<mapsto> []]"
  define m where "m = fill_paths root (ordered_folders root ?rows) [root \<mapsto> []]"
  have fresh: "m_folderId r \<notin> m_folderId ` set ?xs" "m_folderId r \<notin> m_folderId ` set ?ys"
    using assms(1,2) by auto
  have m: "m = fill_paths root ?ys (m1(m_folderId r \<mapsto> join_path (parent_path m1 (Some q)) (m_name r)))"
    using assms(2-4) by (simp add: m_def m1_def ordered_folders_id fill_paths_append)
  have mr: "m (m_folderId r) = Some (join_path (parent_path m1 (Some q)) (m_name r))"
    using fill_paths_other [OF fresh(2)] by (simp add: m)
  have mem: "(x, if m_isFolder x then (case m (m_folderId x) of None \<Rightarrow> m_name x | Some y \<Rightarrow> y)
        else join_path (parent_path m (m_parentId x)) (m_name x)) \<in> set (member_paths root ?rows)" if "x \<in> set ?rows" for x
    using that unfolding member_paths_def Let_def m_def [symmetric] by auto
  have r: "(r, join_path (parent_path m1 (Some q)) (m_name r)) \<in> set (member_paths root ?rows)"
    using mem [of r] mr assms(2) by simp
  have "\<exists>path. (p, path) \<in> set (member_paths root ?rows) \<and> (r, join_path path (m_name r)) \<in> set (member_paths root ?rows)"
    if p: "p \<in> set xs" "m_isFolder p" "m_folderId p = q" for p
  proof -
    have q: "q \<in> m_folderId ` set ?xs" using p by auto
    have "m_folderId ` set ?xs \<inter> m_folderId ` set ?ys = {}" using assms(1,2) by auto
    then have "q \<notin> m_folderId ` set ?ys" "q \<noteq> m_folderId r" using q fresh(1) by blast+
    then have "m q = m1 q" using fill_paths_other [of q ?ys] by (simp add: m)
    moreover obtain path where "m1 q = Some path"
      using fill_paths_known [OF q assms(5), of "[root \<mapsto> []]"] by (auto simp: m1_def)
    ultimately show ?thesis using mem [of p] r p assms(6) by (auto simp: parent_path_def)
  qed
  moreover have "(r, m_name r) \<in> set (member_paths root ?rows)" if "\<forall>p \<in> set xs. m_isFolder p \<longrightarrow> m_folderId p \<noteq> q"
  proof -
    have "q \<notin> m_folderId ` set ?xs" using that by auto
    then have "m1 q = None" using fill_paths_other [of q ?xs root "[root \<mapsto> []]"] assms(5) by (simp add: m1_def)
    then show ?thesis using r assms(6) by (simp add: parent_path_def join_path_def)
  qed
  ultimately show ?thesis by blast
qed

definition demo_member :: "nat \<Rightarrow> string \<Rightarrow> nat \<Rightarrow> bool \<Rightarrow> member" where
  "demo_member k n p d = \<lparr>m_folderId = k, m_name = js n, m_parentId = Some p, m_isFolder = d, m_storagePath = None, m_storageLocationId = None,
     m_relativeObjectKey = None, m_size = 0\<rparr>"

theorem archive_paths_depend_on_row_order_witness:
  "(demo_member 3 ''x'' 2 True, js ''x'')
     \<in> set (member_paths 1 [demo_member 3 ''x'' 2 True, demo_member 2 ''b'' 1 True, demo_member 9 ''f'' 3 False])"
  using archive_paths_depend_on_row_order [of "[]" "demo_member 3 ''x'' 2 True"
      "[demo_member 2 ''b'' 1 True, demo_member 9 ''f'' 3 False]" 1 2]
  by (simp add: demo_member_def)

end
