(* ===== verification/RateLimit.thy ===== *)
theory RateLimit
  imports Complex_Main Prelude "HOL-Library.AList"
begin

text \<open>
  The limiter of upload requests (backend/src/uploads/upload-rate-limit.ts): token buckets per user
  and per address, the bound on concurrent transfers, and the lease of a request.  A \<open>Map\<close> is an
  association list with its entries in insertion order.  Tokens are rationals; \<open>fl\<close> is the rounding
  of one floating-point operation, so that \<open>fl = id\<close> is the limiter in exact arithmetic.
\<close>

record bucket =
  b_tokens :: rat
  b_refillAt :: int
  b_seenAt :: int
  b_active :: nat

record policy =
  p_rate :: rat
  p_burst :: rat

definition policy_chunk :: policy where "policy_chunk = \<lparr>p_rate = 25, p_burst = 50\<rparr>"
definition policy_abort :: policy where "policy_abort = \<lparr>p_rate = 1 / 2, p_burst = 10\<rparr>"
definition policy_admission :: policy where "policy_admission = \<lparr>p_rate = 100, p_burst = 100\<rparr>"
definition policy_admissionAbort :: policy where "policy_admissionAbort = \<lparr>p_rate = 10, p_burst = 20\<rparr>"
definition maxPerUserConcurrent :: nat where "maxPerUserConcurrent = 4"
definition maxConcurrent :: nat where "maxConcurrent = 32"
definition maxKeys :: nat where "maxKeys = 10000"
definition idleMs :: int where "idleMs = 300000"

type_synonym buckets = "(ustring \<times> bucket) list"

record limiter =
  l_chunk :: buckets
  l_abort :: buckets
  l_admission :: buckets
  l_admissionAbort :: buckets
  l_lastSweep :: int
  l_active :: nat
  l_leases :: "(ustring \<times> bool) list"

text \<open>
  \<open>l_leases\<close> lists the release functions handed out so far: the key of the bucket each closes over,
  and whether it was called.  A bucket with active work is never evicted, so the object a closure
  holds is the one under its key.
\<close>

datatype kind = Chunk | Abort
datatype store = SChunk | SAbort | SAdmission | SAdmissionAbort

fun get_store :: "store \<Rightarrow> limiter \<Rightarrow> buckets" where
  "get_store SChunk l = l_chunk l"
| "get_store SAbort l = l_abort l"
| "get_store SAdmission l = l_admission l"
| "get_store SAdmissionAbort l = l_admissionAbort l"

fun put_store :: "store \<Rightarrow> buckets \<Rightarrow> limiter \<Rightarrow> limiter" where
  "put_store SChunk b l = l\<lparr>l_chunk := b\<rparr>"
| "put_store SAbort b l = l\<lparr>l_abort := b\<rparr>"
| "put_store SAdmission b l = l\<lparr>l_admission := b\<rparr>"
| "put_store SAdmissionAbort b l = l\<lparr>l_admissionAbort := b\<rparr>"

fun policy_of :: "store \<Rightarrow> policy" where
  "policy_of SChunk = policy_chunk"
| "policy_of SAbort = policy_abort"
| "policy_of SAdmission = policy_admission"
| "policy_of SAdmissionAbort = policy_admissionAbort"

definition sweep_store :: "int \<Rightarrow> buckets \<Rightarrow> buckets" where
  "sweep_store now bs = filter (\<lambda>(k, b). \<not> (b_active b = 0 \<and> idleMs \<le> now - b_seenAt b)) bs"

definition sweep :: "int \<Rightarrow> limiter \<Rightarrow> limiter" where
  "sweep now l =
     (if 1000 \<le> now - l_lastSweep l
      then l\<lparr>l_chunk := sweep_store now (l_chunk l), l_abort := sweep_store now (l_abort l),
             l_admission := sweep_store now (l_admission l),
             l_admissionAbort := sweep_store now (l_admissionAbort l), l_lastSweep := now\<rparr>
      else l)"

definition refill :: "(rat \<Rightarrow> rat) \<Rightarrow> policy \<Rightarrow> int \<Rightarrow> bucket \<Rightarrow> bucket" where
  "refill fl p now b =
     (let elapsed = max 0 (now - b_refillAt b)
      in b\<lparr>b_tokens := min (p_burst p)
             (fl (b_tokens b + fl (fl (of_int elapsed * p_rate p) / 1000))),
           b_refillAt := max now (b_refillAt b), b_seenAt := max now (b_seenAt b)\<rparr>)"

text \<open>
  \<open>take\<close> changes the state even when it refuses: the result is the new limiter and either the seconds
  to retry after, or the bucket as it is now.
\<close>

definition new_bucket :: "policy \<Rightarrow> int \<Rightarrow> bucket" where
  "new_bucket p now = \<lparr>b_tokens = p_burst p, b_refillAt = now, b_seenAt = now, b_active = 0\<rparr>"

definition take_token :: "(rat \<Rightarrow> rat) \<Rightarrow> store \<Rightarrow> ustring \<Rightarrow> int \<Rightarrow> limiter \<Rightarrow> limiter \<times> (int + bucket)" where
  "take_token fl st key now l0 =
     (let l = sweep now l0; p = policy_of st; bs = get_store st l
      in case map_of bs key of
           None \<Rightarrow>
             if maxKeys \<le> length bs then (l, Inl 60)
             else let b = refill fl p now (new_bucket p now)
                  in if b_tokens b < 1
                     then (put_store st (bs @ [(key, b)]) l, Inl (max 1 \<lceil>fl (fl (1 - b_tokens b) / p_rate p)\<rceil>))
                     else let b' = b\<lparr>b_tokens := fl (b_tokens b - 1)\<rparr>
                          in (put_store st (bs @ [(key, b')]) l, Inr b')
         | Some b0 \<Rightarrow>
             let b = refill fl p now b0
             in if b_tokens b < 1
                then (put_store st (AList.update key b bs) l, Inl (max 1 \<lceil>fl (fl (1 - b_tokens b) / p_rate p)\<rceil>))
                else let b' = b\<lparr>b_tokens := fl (b_tokens b - 1)\<rparr>
                     in (put_store st (AList.update key b' bs) l, Inr b'))"

datatype throttle = RetryAfter int | UnauthorizedUser

definition admitIp :: "(rat \<Rightarrow> rat) \<Rightarrow> ustring \<Rightarrow> kind \<Rightarrow> int \<Rightarrow> limiter \<Rightarrow> limiter \<times> (throttle + unit)" where
  "admitIp fl ip k now l =
     (case take_token fl (case k of Chunk \<Rightarrow> SAdmission | Abort \<Rightarrow> SAdmissionAbort) ip now l of
        (l', Inl n) \<Rightarrow> (l', Inl (RetryAfter n)) | (l', Inr _) \<Rightarrow> (l', Inr ()))"

definition admitShare :: "(rat \<Rightarrow> rat) \<Rightarrow> ustring \<Rightarrow> kind \<Rightarrow> int \<Rightarrow> limiter \<Rightarrow> limiter \<times> (throttle + unit)" where
  "admitShare fl digest k now l = admitIp fl (js ''share:'' @ digest) k now l"

text \<open>
  \<open>enter\<close> returns the index of the release function for a chunk, and \<open>None\<close> for an abort, whose
  release does nothing.
\<close>

definition enter :: "(rat \<Rightarrow> rat) \<Rightarrow> int \<Rightarrow> kind \<Rightarrow> int \<Rightarrow> limiter \<Rightarrow> limiter \<times> (throttle + nat option)" where
  "enter fl user k now l0 =
     (if \<not> (safe_integer user \<and> 0 < user) then (l0, Inl UnauthorizedUser)
      else let key = dec (nat user)
           in case take_token fl (case k of Chunk \<Rightarrow> SChunk | Abort \<Rightarrow> SAbort) key now l0 of
                (l, Inl n) \<Rightarrow> (l, Inl (RetryAfter n))
              | (l, Inr b) \<Rightarrow>
                  if k = Abort then (l, Inr None)
                  else if maxPerUserConcurrent \<le> b_active b \<or> maxConcurrent \<le> l_active l
                  then (l, Inl (RetryAfter 1))
                  else (l\<lparr>l_chunk := AList.update key (b\<lparr>b_active := b_active b + 1\<rparr>) (l_chunk l),
                          l_active := l_active l + 1, l_leases := l_leases l @ [(key, False)]\<rparr>,
                        Inr (Some (length (l_leases l)))))"

definition release :: "nat \<Rightarrow> int \<Rightarrow> limiter \<Rightarrow> limiter" where
  "release i now l =
     (if length (l_leases l) \<le> i then l
      else case l_leases l ! i of (key, released) \<Rightarrow>
        if released then l
        else case map_of (l_chunk l) key of
               None \<Rightarrow> l
             | Some b \<Rightarrow> l\<lparr>l_chunk := AList.update key
                   (b\<lparr>b_active := b_active b - 1, b_seenAt := max (b_seenAt b) now\<rparr>) (l_chunk l),
                 l_active := l_active l - 1, l_leases := (l_leases l)[i := (key, True)]\<rparr>)"

definition counts :: "limiter \<Rightarrow> nat \<times> nat \<times> nat \<times> nat \<times> nat" where
  "counts l = (l_active l, length (l_chunk l), length (l_abort l), length (l_admission l),
     length (l_admissionAbort l))"

definition limiter0 :: limiter where
  "limiter0 = \<lparr>l_chunk = [], l_abort = [], l_admission = [], l_admissionAbort = [], l_lastSweep = 0,
     l_active = 0, l_leases = []\<rparr>"


section \<open>The lease of a request\<close>

datatype phase = Ingress | Processing

record lease =
  le_phase :: phase
  le_released :: bool
  le_aborted :: bool

datatype lease_event = MarkProcessing | Disconnected bool | Cleanup

text \<open>
  One event: the new lease, whether the release function of the limiter is called, and whether
  \<open>markUploadProcessing\<close> throws.  \<open>Disconnected True\<close> is the request being aborted, \<open>Disconnected False\<close>
  the response being closed.
\<close>

definition lease_release :: "lease \<Rightarrow> lease \<times> bool" where
  "lease_release le = (if le_released le then (le, False) else (le\<lparr>le_released := True\<rparr>, True))"

fun lease_step :: "lease_event \<Rightarrow> lease \<Rightarrow> lease \<times> bool \<times> bool" where
  "lease_step MarkProcessing le =
     (if le_aborted le \<or> le_released le then (le, False, True) else (le\<lparr>le_phase := Processing\<rparr>, False, False))"
| "lease_step (Disconnected ab) le =
     (let le1 = (if ab then le\<lparr>le_aborted := True\<rparr> else le)
      in if le_phase le1 = Ingress then (case lease_release le1 of (le2, c) \<Rightarrow> (le2, c, False))
         else (le1, False, False))"
| "lease_step Cleanup le = (case lease_release le of (le2, c) \<Rightarrow> (le2, c, False))"

definition lease0 :: lease where
  "lease0 = \<lparr>le_phase = Ingress, le_released = False, le_aborted = False\<rparr>"

fun lease_run :: "lease_event list \<Rightarrow> lease \<Rightarrow> lease \<times> nat" where
  "lease_run [] le = (le, 0)"
| "lease_run (e # es) le =
     (case lease_step e le of (le1, c, _) \<Rightarrow>
      case lease_run es le1 of (le2, n) \<Rightarrow> (le2, if c then Suc n else n))"


section \<open>Routes\<close>

text \<open>The paths that may bypass the ordinary limit: exactly one upload session, by its UUID.\<close>

definition hex_ci :: "nat \<Rightarrow> bool" where
  "hex_ci c \<longleftrightarrow> digit c \<or> 97 \<le> c \<and> c \<le> 102 \<or> 65 \<le> c \<and> c \<le> 70"

definition lower :: "nat \<Rightarrow> nat" where
  "lower c = (if 65 \<le> c \<and> c \<le> 90 then c + 32 else c)"

fun match_uuid :: "nat list \<Rightarrow> ustring \<Rightarrow> ustring option" where
  "match_uuid [] s = Some s"
| "match_uuid (n # ns) s =
     (if n \<le> length s \<and> list_all hex_ci (take n s)
      then (if ns = [] then Some (drop n s)
            else case drop n s of c # r \<Rightarrow> if c = 45 then match_uuid ns r else None | [] \<Rightarrow> None)
      else None)"

definition after_prefix :: "ustring \<Rightarrow> ustring \<Rightarrow> ustring option" where
  "after_prefix p s = (if map lower (take (length p) s) = p then Some (drop (length p) s) else None)"

definition session_tail :: "ustring \<Rightarrow> ustring option" where
  "session_tail s = Option.bind (after_prefix (js ''/api/v1/uploads/session/'') s) (match_uuid [8, 4, 4, 4, 12])"

definition uploadRequestKind :: "ustring \<Rightarrow> ustring \<Rightarrow> kind option" where
  "uploadRequestKind method path =
     (case session_tail path of
        None \<Rightarrow> None
      | Some rest \<Rightarrow>
          if method = js ''POST'' \<and> map lower rest \<in> {js ''/chunk'', js ''/chunk/''} then Some Chunk
          else if method = js ''DELETE'' \<and> rest \<in> {[], js ''/''} then Some Abort
          else None)"

end
