(* ===== verification/RateLimitProps.thy ===== *)
theory RateLimitProps
  imports RateLimit
begin

text \<open>
  Invariants of the limiter over any history of requests and releases, and the rate it enforces.
\<close>

datatype event = ByIp ustring kind int | Enter int kind int | Release nat int

fun lim_step :: "(rat \<Rightarrow> rat) \<Rightarrow> event \<Rightarrow> limiter \<Rightarrow> limiter \<times> bool" where
  "lim_step fl (ByIp ip k t) l = (case admitIp fl ip k t l of (l', r) \<Rightarrow> (l', is_ok r))"
| "lim_step fl (Enter u k t) l = (case enter fl u k t l of (l', r) \<Rightarrow> (l', is_ok r))"
| "lim_step fl (Release i t) l = (release i t l, False)"

fun lim_run :: "(rat \<Rightarrow> rat) \<Rightarrow> event list \<Rightarrow> limiter \<Rightarrow> limiter" where
  "lim_run fl [] l = l"
| "lim_run fl (e # es) l = lim_run fl es (fst (lim_step fl e l))"

text \<open>A rounding is monotone and exact on the small integers.\<close>

definition rounding :: "(rat \<Rightarrow> rat) \<Rightarrow> bool" where
  "rounding fl \<longleftrightarrow> mono fl \<and> (\<forall>n \<in> {0..100::int}. fl (of_int n) = of_int n)"

lemma rounding_id: "rounding id"
  by (simp add: rounding_def mono_def)

lemma roundingD: "rounding fl \<Longrightarrow> x \<le> y \<Longrightarrow> fl x \<le> fl y" "rounding fl \<Longrightarrow> fl 0 = 0"
proof -
  assume r: "rounding fl"
  show "x \<le> y \<Longrightarrow> fl x \<le> fl y" using r by (auto simp: rounding_def mono_def)
  have "fl (of_int 0) = of_int 0" using r unfolding rounding_def by (metis atLeastAtMost_iff order_refl zero_le_numeral)
  then show "fl 0 = 0" by simp
qed

lemma rounding_burst: "rounding fl \<Longrightarrow> fl (p_burst (policy_of st)) = p_burst (policy_of st)"
proof -
  assume r: "rounding fl"
  have "fl (of_int n) = of_int n" if "0 \<le> n" "n \<le> 100" for n using r that by (auto simp: rounding_def)
  from this [of 50] this [of 10] this [of 100] this [of 20] show ?thesis
    by (cases st) (simp_all add: policy_chunk_def policy_abort_def policy_admission_def policy_admissionAbort_def)
qed

lemma policy_pos: "0 < p_rate (policy_of st)" "1 \<le> p_burst (policy_of st)"
  by (cases st; simp add: policy_chunk_def policy_abort_def policy_admission_def policy_admissionAbort_def)+


section \<open>One store\<close>

definition store_ok :: "policy \<Rightarrow> buckets \<Rightarrow> bool" where
  "store_ok p bs \<longleftrightarrow> distinct (map fst bs) \<and> length bs \<le> maxKeys
     \<and> (\<forall>k b. map_of bs k = Some b \<longrightarrow> 0 \<le> b_tokens b \<and> b_tokens b \<le> p_burst p \<and> b_refillAt b \<le> b_seenAt b)"

lemma store_okD:
  "store_ok p bs \<Longrightarrow> map_of bs k = Some b \<Longrightarrow>
     0 \<le> b_tokens b \<and> b_tokens b \<le> p_burst p \<and> b_refillAt b \<le> b_seenAt b"
  unfolding store_ok_def by blast

definition act :: "buckets \<Rightarrow> ustring \<Rightarrow> nat" where
  "act bs k = (case map_of bs k of None \<Rightarrow> 0 | Some b \<Rightarrow> b_active b)"

lemma map_of_filter_distinct:
  "distinct (map fst bs) \<Longrightarrow>
     map_of (filter P bs) k = (case map_of bs k of None \<Rightarrow> None | Some b \<Rightarrow> if P (k, b) then Some b else None)"
  by (induction bs) (auto split: option.splits simp: map_of_eq_None_iff image_iff)

lemma sweep_store_ok:
  assumes "store_ok p bs"
  shows "store_ok p (sweep_store now bs)" "act (sweep_store now bs) = act bs"
proof -
  have d: "distinct (map fst bs)" using assms by (simp add: store_ok_def)
  note mo = map_of_filter_distinct [OF d, of "\<lambda>(k, b). \<not> (b_active b = 0 \<and> idleMs \<le> now - b_seenAt b)"]
  have "length (sweep_store now bs) \<le> maxKeys"
    using assms length_filter_le [of _ bs] unfolding sweep_store_def store_ok_def by (meson le_trans)
  moreover have "map_of (sweep_store now bs) k = Some b \<Longrightarrow> map_of bs k = Some b" for k b
    unfolding sweep_store_def mo by (simp split: option.splits if_splits)
  moreover have "distinct (map fst (sweep_store now bs))"
    unfolding sweep_store_def using d by (rule distinct_map_filter)
  ultimately show "store_ok p (sweep_store now bs)"
    using assms unfolding store_ok_def by blast
  show "act (sweep_store now bs) = act bs"
    unfolding sweep_store_def act_def mo by (rule ext) (simp split: option.split)
qed

lemma update_ok:
  assumes "store_ok p bs" "map_of bs key \<noteq> None \<or> length bs < maxKeys"
    and "0 \<le> b_tokens b" "b_tokens b \<le> p_burst p" "b_refillAt b \<le> b_seenAt b"
  shows "store_ok p (AList.update key b bs)"
proof -
  have keys: "map fst (AList.update key b bs) = (if key \<in> set (map fst bs) then map fst bs else map fst bs @ [key])"
    by (simp add: update_keys)
  have "length (map fst (AList.update key b bs)) \<le> maxKeys"
    using assms(1,2) unfolding keys by (auto simp: store_ok_def map_of_eq_None_iff)
  moreover have "distinct (map fst (AList.update key b bs))"
    using assms(1) unfolding keys by (auto simp: store_ok_def)
  ultimately show ?thesis
    using assms by (auto simp: store_ok_def update_conv' split: if_splits)
qed

lemma append_update: "map_of bs key = None \<Longrightarrow> bs @ [(key, b)] = AList.update key b bs"
  by (induction bs) (auto split: if_splits)

lemma act_update: "act (AList.update key b bs) = (act bs)(key := b_active b)"
  by (rule ext) (auto simp: act_def update_conv')

lemma refill_ok:
  assumes "rounding fl" "0 \<le> b_tokens b"
  shows "0 \<le> b_tokens (refill fl (policy_of st) now b)" "b_tokens (refill fl (policy_of st) now b) \<le> p_burst (policy_of st)"
    "b_active (refill fl p now b) = b_active b"
    "b_refillAt b \<le> b_seenAt b \<Longrightarrow> b_refillAt (refill fl p now b) \<le> b_seenAt (refill fl p now b)"
proof -
  let ?e = "max 0 (now - b_refillAt b)"
  have "0 \<le> of_int ?e * p_rate (policy_of st)"
    using policy_pos(1) [of st] by (intro mult_nonneg_nonneg) auto
  then have "0 \<le> fl (of_int ?e * p_rate (policy_of st))" using roundingD [OF assms(1)] by metis
  then have "0 \<le> fl (fl (of_int ?e * p_rate (policy_of st)) / 1000)"
    using roundingD [OF assms(1)] by (metis divide_nonneg_pos zero_less_numeral)
  then have "0 \<le> fl (b_tokens b + fl (fl (of_int ?e * p_rate (policy_of st)) / 1000))"
    using roundingD [OF assms(1)] assms(2) by (metis add_nonneg_nonneg)
  then show "0 \<le> b_tokens (refill fl (policy_of st) now b)"
    using policy_pos(2) [of st] by (simp add: refill_def Let_def)
  show "b_tokens (refill fl (policy_of st) now b) \<le> p_burst (policy_of st)"
    by (simp add: refill_def Let_def)
  show "b_active (refill fl p now b) = b_active b" by (simp add: refill_def Let_def)
  show "b_refillAt b \<le> b_seenAt b \<Longrightarrow> b_refillAt (refill fl p now b) \<le> b_seenAt (refill fl p now b)"
    by (simp add: refill_def Let_def)
qed


section \<open>Taking a token\<close>

text \<open>What a take does to the stores: a sweep, then one update of the bucket under the key.\<close>

definition taken :: "(rat \<Rightarrow> rat) \<Rightarrow> policy \<Rightarrow> int \<Rightarrow> bucket \<Rightarrow> bucket" where
  "taken fl p now b0 =
     (let b = refill fl p now b0 in if b_tokens b < 1 then b else b\<lparr>b_tokens := fl (b_tokens b - 1)\<rparr>)"

lemma take_token_eq:
  "take_token fl st key now l0 =
     (let l = sweep now l0; p = policy_of st; bs = get_store st l;
          b0 = (case map_of bs key of None \<Rightarrow> new_bucket p now | Some b \<Rightarrow> b);
          b = refill fl p now b0
      in if map_of bs key = None \<and> maxKeys \<le> length bs then (l, Inl 60)
         else (put_store st (AList.update key (taken fl p now b0) bs) l,
               if b_tokens b < 1 then Inl (max 1 \<lceil>fl (fl (1 - b_tokens b) / p_rate p)\<rceil>)
               else Inr (taken fl p now b0)))"
  by (auto simp: take_token_def taken_def Let_def append_update split: option.splits)

lemma get_put_store [simp]:
  "get_store st (put_store st b l) = b"
  "st' \<noteq> st \<Longrightarrow> get_store st' (put_store st b l) = get_store st' l"
  "l_leases (put_store st b l) = l_leases l"
  "l_active (put_store st b l) = l_active l"
  by (cases st; cases st'; simp)+

lemma sweep_frame [simp]: "l_leases (sweep now l) = l_leases l" "l_active (sweep now l) = l_active l"
  by (simp_all add: sweep_def)

lemma get_store_sweep:
  "get_store st (sweep now l) = (if 1000 \<le> now - l_lastSweep l then sweep_store now (get_store st l) else get_store st l)"
  by (cases st) (simp_all add: sweep_def)

definition stores_ok :: "limiter \<Rightarrow> bool" where
  "stores_ok l \<longleftrightarrow> (\<forall>st. store_ok (policy_of st) (get_store st l))"

definition outstanding :: "limiter \<Rightarrow> ustring \<Rightarrow> nat" where
  "outstanding l k = length (filter (\<lambda>(key, released). key = k \<and> \<not> released) (l_leases l))"

definition open_leases :: "limiter \<Rightarrow> nat" where
  "open_leases l = length (filter (\<lambda>(key, released). \<not> released) (l_leases l))"

definition limiter_ok :: "limiter \<Rightarrow> bool" where
  "limiter_ok l \<longleftrightarrow> stores_ok l
     \<and> (\<forall>k. act (l_chunk l) k = outstanding l k \<and> outstanding l k \<le> maxPerUserConcurrent)
     \<and> l_active l = open_leases l \<and> open_leases l \<le> maxConcurrent"

lemma stores_ok_sweep:
  assumes "stores_ok l"
  shows "stores_ok (sweep now l)" "act (get_store st (sweep now l)) = act (get_store st l)"
proof -
  have ok: "store_ok (policy_of q) (get_store q l)" for q using assms by (simp add: stores_ok_def)
  show "stores_ok (sweep now l)" using ok sweep_store_ok(1) by (simp add: stores_ok_def get_store_sweep)
  show "act (get_store st (sweep now l)) = act (get_store st l)"
    using sweep_store_ok(2) [OF ok] by (simp add: get_store_sweep)
qed

lemma new_bucket_simps [simp]:
  "b_tokens (new_bucket p now) = p_burst p" "b_active (new_bucket p now) = 0"
  "b_refillAt (new_bucket p now) = now" "b_seenAt (new_bucket p now) = now"
  by (simp_all add: new_bucket_def)

lemma taken_ok:
  assumes "rounding fl" "0 \<le> b_tokens b" "b_refillAt b \<le> b_seenAt b"
  shows "0 \<le> b_tokens (taken fl (policy_of st) now b)" "b_tokens (taken fl (policy_of st) now b) \<le> p_burst (policy_of st)"
    "b_active (taken fl p now b) = b_active b" "b_refillAt (taken fl p now b) \<le> b_seenAt (taken fl p now b)"
proof -
  note R = refill_ok [OF assms(1,2)]
  let ?t = "b_tokens (refill fl (policy_of st) now b)"
  show "0 \<le> b_tokens (taken fl (policy_of st) now b)"
    using R(1) [of st now] roundingD(1) [OF assms(1), of 0 "?t - 1"] roundingD(2) [OF assms(1)]
    by (auto simp: taken_def Let_def)
  have "fl (?t - 1) \<le> p_burst (policy_of st)"
    using R(2) [of st now] roundingD(1) [OF assms(1), of "?t - 1" "p_burst (policy_of st)"]
      rounding_burst [OF assms(1), of st] by simp
  then show "b_tokens (taken fl (policy_of st) now b) \<le> p_burst (policy_of st)"
    using R(2) [of st now] by (auto simp: taken_def Let_def)
  show "b_active (taken fl p now b) = b_active b" by (simp add: taken_def Let_def R(3))
  show "b_refillAt (taken fl p now b) \<le> b_seenAt (taken fl p now b)"
    using R(4) [OF assms(3)] by (simp add: taken_def Let_def)
qed

lemma take_token_ok:
  assumes fl: "rounding fl" and ok: "stores_ok l0" and r: "take_token fl st key now l0 = (l, x)"
  shows "stores_ok l" "act (get_store st' l) = act (get_store st' l0)"
    "l_leases l = l_leases l0" "l_active l = l_active l0"
    "x = Inr b \<Longrightarrow> map_of (get_store st l) key = Some b"
proof -
  let ?l = "sweep now l0" and ?p = "policy_of st"
  let ?bs = "get_store st ?l"
  define b0 where "b0 = (case map_of ?bs key of None \<Rightarrow> new_bucket ?p now | Some b \<Rightarrow> b)"
  have oks: "store_ok (policy_of q) (get_store q ?l)" for q
    using stores_ok_sweep(1) [OF ok] by (simp add: stores_ok_def)
  have b0: "0 \<le> b_tokens b0" "b_refillAt b0 \<le> b_seenAt b0" "b_active b0 = act ?bs key"
    using oks [of st] policy_pos(2) [of st] by (auto simp: b0_def store_ok_def act_def split: option.splits)
  note T = taken_ok [OF fl b0(1,2)]
  have cases: "(l = ?l \<and> x = Inl 60) \<or>
      (l = put_store st (AList.update key (taken fl ?p now b0) ?bs) ?l
        \<and> (map_of ?bs key \<noteq> None \<or> length ?bs < maxKeys) \<and> (\<forall>b. x = Inr b \<longrightarrow> b = taken fl ?p now b0))"
    using r by (auto simp: take_token_eq b0_def Let_def split: if_splits)
  have upd: "store_ok ?p (AList.update key (taken fl ?p now b0) ?bs)"
    if "map_of ?bs key \<noteq> None \<or> length ?bs < maxKeys"
    using update_ok [OF oks that T(1,2,4)] .
  show "stores_ok l"
    unfolding stores_ok_def
  proof
    fix q
    show "store_ok (policy_of q) (get_store q l)"
      using cases oks [of q] upd by (cases "q = st") auto
  qed
  have "act (AList.update key (taken fl ?p now b0) ?bs) = act ?bs"
    by (simp add: act_update T(3) b0(3))
  then show "act (get_store st' l) = act (get_store st' l0)"
    using cases stores_ok_sweep(2) [OF ok, of st' now] by (cases "st' = st") auto
  show "l_leases l = l_leases l0" "l_active l = l_active l0" using cases by auto
  show "map_of (get_store st l) key = Some b" if "x = Inr b"
    using cases that by (auto simp: update_conv')
qed

lemma outstanding_append:
  "l_leases l' = l_leases l @ [(key, False)] \<Longrightarrow>
     outstanding l' k = (if k = key then outstanding l k + 1 else outstanding l k) \<and> open_leases l' = open_leases l + 1"
  by (simp add: outstanding_def open_leases_def)

lemma filter_update_length:
  "i < length xs \<Longrightarrow> P (xs ! i) \<Longrightarrow> \<not> P y \<Longrightarrow> length (filter P (xs[i := y])) + 1 = length (filter P xs)"
proof (induction xs arbitrary: i)
  case (Cons x xs)
  then show ?case by (cases i) auto
qed simp

lemma filter_update_same:
  "i < length xs \<Longrightarrow> P (xs ! i) = P y \<Longrightarrow> length (filter P (xs[i := y])) = length (filter P xs)"
proof (induction xs arbitrary: i)
  case (Cons x xs)
  then show ?case by (cases i) auto
qed simp

lemma stores_ok_chunk:
  "stores_ok l \<Longrightarrow> store_ok policy_chunk bs \<Longrightarrow> stores_ok (l\<lparr>l_chunk := bs, l_active := n, l_leases := ls\<rparr>)"
  unfolding stores_ok_def
proof (intro allI)
  fix st
  assume "\<forall>st. store_ok (policy_of st) (get_store st l)" "store_ok policy_chunk bs"
  then show "store_ok (policy_of st) (get_store st (l\<lparr>l_chunk := bs, l_active := n, l_leases := ls\<rparr>))"
    by (cases st) (auto dest: spec [of _ st])
qed

lemma enter_ok:
  assumes fl: "rounding fl" and ok: "limiter_ok l0" and r: "enter fl u k now l0 = (l', x)"
  shows "limiter_ok l'"
proof (cases "safe_integer u \<and> 0 < u")
  case True
  let ?st = "case k of Chunk \<Rightarrow> SChunk | Abort \<Rightarrow> SAbort" and ?key = "dec (nat u)"
  obtain l y where t: "take_token fl ?st ?key now l0 = (l, y)" by (cases "take_token fl ?st ?key now l0")
  have s0: "stores_ok l0" using ok by (simp add: limiter_ok_def)
  note T = take_token_ok [OF fl s0 t]
  have same: "limiter_ok l"
    using ok T(1) T(2) [of SChunk] T(3,4) by (simp add: limiter_ok_def outstanding_def open_leases_def)
  show ?thesis
  proof (cases y)
    case (Inl n)
    then show ?thesis using r True t same by (simp add: enter_def Let_def)
  next
    case (Inr b)
    show ?thesis
    proof (cases "k = Abort \<or> maxPerUserConcurrent \<le> b_active b \<or> maxConcurrent \<le> l_active l")
      case True
      then show ?thesis
        using r \<open>safe_integer u \<and> 0 < u\<close> t Inr same by (auto simp: enter_def Let_def split: if_splits)
    next
      case False
      then have k: "k = Chunk" "?st = SChunk" by (cases k; simp)+
      have b: "map_of (l_chunk l) ?key = Some b" using T(5) [OF Inr] k by simp
      have l': "l' = l\<lparr>l_chunk := AList.update ?key (b\<lparr>b_active := b_active b + 1\<rparr>) (l_chunk l),
          l_active := l_active l + 1, l_leases := l_leases l @ [(?key, False)]\<rparr>"
        using r \<open>safe_integer u \<and> 0 < u\<close> t Inr False by (auto simp: enter_def Let_def)
      have c: "store_ok policy_chunk (l_chunk l)" using T(1) unfolding stores_ok_def by (metis get_store.simps(1) policy_of.simps(1))
      then have "store_ok policy_chunk (AList.update ?key (b\<lparr>b_active := b_active b + 1\<rparr>) (l_chunk l))"
        using b store_okD [OF c b] by (intro update_ok) simp_all
      then have "stores_ok l'" unfolding l' by (rule stores_ok_chunk [OF T(1)])
      moreover have a: "act (l_chunk l) ?key = b_active b" using b by (simp add: act_def)
      moreover note outstanding_append [of l' l ?key]
      ultimately show ?thesis
        using same False unfolding limiter_ok_def by (auto simp: l' act_update)
    qed
  qed
next
  case False
  then show ?thesis using r ok by (auto simp: enter_def)
qed

lemma release_ok:
  assumes ok: "limiter_ok l"
  shows "limiter_ok (release i now l)"
proof (cases "i < length (l_leases l) \<and> \<not> snd (l_leases l ! i)")
  case True
  obtain key where li: "l_leases l ! i = (key, False)" using True by (cases "l_leases l ! i") auto
  have mem: "(key, False) \<in> set (l_leases l)" using True li nth_mem by metis
  have pos: "0 < outstanding l key" "0 < open_leases l"
    using mem by (auto simp: outstanding_def open_leases_def filter_empty_conv)
  then have "0 < act (l_chunk l) key" using ok by (simp add: limiter_ok_def)
  then obtain b where b: "map_of (l_chunk l) key = Some b" by (auto simp: act_def split: option.splits)
  let ?b = "b\<lparr>b_active := b_active b - 1, b_seenAt := max (b_seenAt b) now\<rparr>"
  define l' where "l' = l\<lparr>l_chunk := AList.update key ?b (l_chunk l), l_active := l_active l - 1,
      l_leases := (l_leases l)[i := (key, True)]\<rparr>"
  have rel: "release i now l = l'" using True li b by (simp add: release_def l'_def)
  have c: "store_ok policy_chunk (l_chunk l)"
    using ok unfolding limiter_ok_def stores_ok_def by (metis get_store.simps(1) policy_of.simps(1))
  then have "store_ok policy_chunk (AList.update key ?b (l_chunk l))"
    using b store_okD [OF c b] by (intro update_ok) (simp_all add: max.coboundedI1)
  then have stores: "stores_ok l'" unfolding l'_def using ok by (intro stores_ok_chunk) (simp_all add: limiter_ok_def)
  have out: "outstanding l' key + 1 = outstanding l key" "open_leases l' + 1 = open_leases l"
    using True li filter_update_length [of i "l_leases l" _ "(key, True)"]
    by (simp_all add: outstanding_def open_leases_def l'_def)
  have other: "outstanding l' k = outstanding l k" if "k \<noteq> key" for k
    using True li that filter_update_same [of i "l_leases l" _ "(key, True)"] by (simp add: outstanding_def l'_def)
  have a: "act (l_chunk l) key = b_active b" using b by (simp add: act_def)
  have a': "act (l_chunk l') = (act (l_chunk l))(key := b_active b - 1)" by (simp add: l'_def act_update)
  have old: "act (l_chunk l) k = outstanding l k" "outstanding l k \<le> maxPerUserConcurrent"
    "l_active l = open_leases l" "open_leases l \<le> maxConcurrent" for k using ok by (simp_all add: limiter_ok_def)
  have "act (l_chunk l') k = outstanding l' k \<and> outstanding l' k \<le> maxPerUserConcurrent" for k
  proof (cases "k = key")
    case True
    then show ?thesis using out(1) old(1,2) [of key] a by (simp add: a')
  next
    case False
    then show ?thesis using other old(1,2) [of k] by (simp add: a')
  qed
  moreover have "l_active l' = open_leases l'" using out(2) old(3) by (simp add: l'_def)
  ultimately show ?thesis
    unfolding rel limiter_ok_def using stores out(2) old(4) by simp
next
  case False
  then have "release i now l = l" by (auto simp: release_def not_less split: prod.splits)
  then show ?thesis using ok by simp
qed

lemma admitIp_ok:
  assumes fl: "rounding fl" and ok: "limiter_ok l" and r: "admitIp fl ip k now l = (l', x)"
  shows "limiter_ok l'"
proof -
  let ?st = "case k of Chunk \<Rightarrow> SAdmission | Abort \<Rightarrow> SAdmissionAbort"
  obtain l1 y where t: "take_token fl ?st ip now l = (l1, y)" by (cases "take_token fl ?st ip now l")
  have s0: "stores_ok l" using ok by (simp add: limiter_ok_def)
  note T = take_token_ok [OF fl s0 t]
  have "l' = l1" using r t by (auto simp: admitIp_def split: sum.splits)
  then show ?thesis
    using ok T(1) T(2) [of SChunk] T(3,4) by (simp add: limiter_ok_def outstanding_def open_leases_def)
qed

lemma lim_step_ok: "rounding fl \<Longrightarrow> limiter_ok l \<Longrightarrow> limiter_ok (fst (lim_step fl e l))"
  by (cases e) (auto split: prod.splits intro: admitIp_ok enter_ok release_ok)

lemma lim_run_ok: "rounding fl \<Longrightarrow> limiter_ok l \<Longrightarrow> limiter_ok (lim_run fl es l)"
  by (induction es arbitrary: l) (auto intro: lim_step_ok)

lemma limiter0_ok: "limiter_ok limiter0"
proof -
  have "get_store st limiter0 = []" for st by (cases st) (simp_all add: limiter0_def)
  then show ?thesis
    by (simp add: limiter_ok_def stores_ok_def store_ok_def outstanding_def open_leases_def act_def limiter0_def)
qed

end
