(* ===== verification/RateLimitClaims.thy ===== *)
theory RateLimitClaims
  imports RateLimitProps
begin

text \<open>
  The rate the limiter enforces, by a potential that bounds the tokens a key can still spend, and the
  properties of the limiter.
\<close>

section \<open>The potential of a key\<close>

text \<open>The tokens a key would have at time \<open>now\<close>; a key without a bucket has a full one.\<close>

definition level :: "store \<Rightarrow> ustring \<Rightarrow> int \<Rightarrow> limiter \<Rightarrow> rat" where
  "level st key now l =
     (case map_of (get_store st l) key of
        None \<Rightarrow> p_burst (policy_of st)
      | Some b \<Rightarrow> b_tokens (refill id (policy_of st) now b))"

lemma refill_tokens:
  "b_tokens (refill id p now b) = min (p_burst p) (b_tokens b + of_int (max 0 (now - b_refillAt b)) * p_rate p / 1000)"
  by (simp add: refill_def Let_def)

lemma refill_mono:
  assumes "now \<le> now'"
  shows "b_tokens (refill id (policy_of st) now' b)
    \<le> b_tokens (refill id (policy_of st) now b) + of_int (now' - now) * p_rate (policy_of st) / 1000"
proof -
  let ?r = "p_rate (policy_of st)"
  have "max 0 (now' - b_refillAt b) \<le> max 0 (now - b_refillAt b) + (now' - now)" using assms by auto
  then have "of_int (max 0 (now' - b_refillAt b)) * ?r
      \<le> of_int (max 0 (now - b_refillAt b) + (now' - now)) * ?r"
    using policy_pos(1) [of st] by (intro mult_right_mono) (simp_all only: of_int_le_iff less_imp_le)
  moreover have "0 \<le> of_int (now' - now) * ?r" using assms policy_pos(1) [of st] by simp
  ultimately show ?thesis
    by (simp add: refill_tokens min_def field_simps)
qed

lemma level_mono:
  assumes "now \<le> now'"
  shows "level st key now' l \<le> level st key now l + of_int (now' - now) * p_rate (policy_of st) / 1000"
  using refill_mono [OF assms] policy_pos(1) [of st] assms by (auto simp: level_def split: option.splits)

lemma level_burst: "level st key now l \<le> p_burst (policy_of st)"
  by (auto simp: level_def refill_tokens split: option.splits)

text \<open>An evicted bucket was full again.\<close>

lemma idle_full:
  assumes "0 \<le> b_tokens b" "b_refillAt b \<le> b_seenAt b" "idleMs \<le> now - b_seenAt b"
  shows "b_tokens (refill id (policy_of st) now b) = p_burst (policy_of st)"
proof -
  let ?r = "p_rate (policy_of st)"
  have "idleMs \<le> max 0 (now - b_refillAt b)" using assms(2,3) by auto
  then have "of_int idleMs * ?r \<le> of_int (max 0 (now - b_refillAt b)) * ?r"
    using policy_pos(1) [of st] by (intro mult_right_mono) (simp_all only: of_int_le_iff less_imp_le)
  moreover have "p_burst (policy_of st) \<le> of_int idleMs * ?r / 1000"
    by (cases st) (simp_all add: policy_chunk_def policy_abort_def policy_admission_def policy_admissionAbort_def idleMs_def)
  ultimately have "p_burst (policy_of st) \<le> of_int (max 0 (now - b_refillAt b)) * ?r / 1000"
    by (meson divide_right_mono order_trans zero_le_numeral)
  then show ?thesis using assms(1) by (simp add: refill_tokens min_def)
qed

lemma level_sweep:
  assumes "stores_ok l"
  shows "level st key now (sweep now l) = level st key now l"
proof -
  have ok: "store_ok (policy_of st) (get_store st l)" using assms by (simp add: stores_ok_def)
  then have d: "distinct (map fst (get_store st l))" by (simp add: store_ok_def)
  have "level st key now (sweep now l) = level st key now l" if "1000 \<le> now - l_lastSweep l"
  proof (cases "map_of (get_store st l) key")
    case (Some b)
    have "idleMs \<le> now - b_seenAt b \<Longrightarrow> b_tokens (refill id (policy_of st) now b) = p_burst (policy_of st)"
      using store_okD [OF ok Some] by (intro idle_full) auto
    then show ?thesis
      using that Some by (auto simp: level_def get_store_sweep sweep_store_def map_of_filter_distinct [OF d] simp del: id_apply)
  qed (use that in \<open>simp add: level_def get_store_sweep sweep_store_def map_of_filter_distinct [OF d]\<close>)
  then show ?thesis by (cases "1000 \<le> now - l_lastSweep l") (simp_all add: sweep_def)
qed

lemma refill_new: "b_tokens (refill id (policy_of st) now (new_bucket (policy_of st) now)) = p_burst (policy_of st)"
  by (simp add: refill_tokens)

lemma refill_taken:
  "b_tokens (refill id (policy_of st) now (taken id (policy_of st) now b)) =
     (let t = b_tokens (refill id (policy_of st) now b) in if t < 1 then t else t - 1)"
  using policy_pos(2) [of st] by (auto simp: taken_def Let_def refill_def)

lemma level_take:
  assumes ok: "stores_ok l0" and r: "take_token id st key now l0 = (l, x)"
  shows "level st' k now l \<le> level st' k now l0 - (if is_ok x \<and> st' = st \<and> k = key then 1 else 0)"
proof -
  let ?l = "sweep now l0" and ?p = "policy_of st"
  let ?bs = "get_store st ?l"
  define b0 where "b0 = (case map_of ?bs key of None \<Rightarrow> new_bucket ?p now | Some b \<Rightarrow> b)"
  have lev: "level st key now ?l = b_tokens (refill id ?p now b0)"
    by (simp add: level_def b0_def refill_new split: option.split)
  have cases: "(l = ?l \<and> \<not> is_ok x) \<or>
      (l = put_store st (AList.update key (taken id ?p now b0) ?bs) ?l
        \<and> (is_ok x \<longleftrightarrow> \<not> b_tokens (refill id ?p now b0) < 1))"
    using r by (auto simp: take_token_eq b0_def Let_def split: if_splits)
  have upd: "level st' k now (put_store st (AList.update key (taken id ?p now b0) ?bs) ?l) =
      (if st' = st \<and> k = key then (let t = b_tokens (refill id ?p now b0) in if t < 1 then t else t - 1)
       else level st' k now ?l)"
    by (cases "st' = st") (auto simp: level_def update_conv' refill_taken split: option.split)
  show ?thesis
    using cases level_sweep [OF ok, of st' k now] level_sweep [OF ok, of st key now] upd lev
    by (auto simp: Let_def)
qed


section \<open>A window of requests\<close>

fun event_time :: "event \<Rightarrow> int" where
  "event_time (ByIp ip k t) = t"
| "event_time (Enter u k t) = t"
| "event_time (Release i t) = t"

fun targets :: "store \<Rightarrow> ustring \<Rightarrow> event \<Rightarrow> bool" where
  "targets st key (ByIp ip k t) = (st = (case k of Chunk \<Rightarrow> SAdmission | Abort \<Rightarrow> SAdmissionAbort) \<and> key = ip)"
| "targets st key (Enter u k t) = (st = (case k of Chunk \<Rightarrow> SChunk | Abort \<Rightarrow> SAbort) \<and> key = dec (nat u))"
| "targets st key (Release i t) = False"

fun admitted :: "store \<Rightarrow> ustring \<Rightarrow> event list \<Rightarrow> limiter \<Rightarrow> nat" where
  "admitted st key [] l = 0"
| "admitted st key (e # es) l =
     (case lim_step id e l of (l', b) \<Rightarrow> (if b \<and> targets st key e then 1 else 0) + admitted st key es l')"

text \<open>Updates of the other fields of a bucket do not move the level.\<close>

lemma level_chunk_update:
  assumes "map_of (l_chunk l) key = Some b" "b_tokens b' = b_tokens b" "b_refillAt b' = b_refillAt b"
  shows "level st k now (l\<lparr>l_chunk := AList.update key b' (l_chunk l), l_active := n, l_leases := ls\<rparr>) = level st k now l"
  using assms by (cases st) (auto simp: level_def update_conv' refill_tokens simp del: id_apply)

lemma level_step:
  assumes ok: "limiter_ok l" and r: "lim_step id e l = (l', b)"
  shows "level st key (event_time e) l' \<le> level st key (event_time e) l - (if b \<and> targets st key e then 1 else 0)"
proof (cases e)
  case (ByIp ip k t)
  let ?st = "case k of Chunk \<Rightarrow> SAdmission | Abort \<Rightarrow> SAdmissionAbort"
  obtain l1 y where t: "take_token id ?st ip t l = (l1, y)" by (cases "take_token id ?st ip t l")
  have "stores_ok l" using ok by (simp add: limiter_ok_def)
  then have "level st key t l1 \<le> level st key t l - (if is_ok y \<and> st = ?st \<and> key = ip then 1 else 0)"
    using level_take t by blast
  moreover have "l' = l1" "b = is_ok y" using r ByIp t by (auto simp: admitIp_def split: sum.splits)
  ultimately show ?thesis using ByIp by simp
next
  case (Enter u k t)
  let ?st = "case k of Chunk \<Rightarrow> SChunk | Abort \<Rightarrow> SAbort" and ?key = "dec (nat u)"
  have s0: "stores_ok l" using ok by (simp add: limiter_ok_def)
  show ?thesis
  proof (cases "safe_integer u \<and> 0 < u")
    case False
    then show ?thesis using r Enter by (auto simp: enter_def)
  next
    case True
    obtain l1 y where t: "take_token id ?st ?key t l = (l1, y)" by (cases "take_token id ?st ?key t l")
    have lev: "level st key t l1 \<le> level st key t l - (if is_ok y \<and> st = ?st \<and> key = ?key then 1 else 0)"
      using level_take [OF s0] t by blast
    have "b \<Longrightarrow> is_ok y" and "level st key t l' = level st key t l1"
    proof -
      have s1: "map_of (get_store ?st l1) ?key = Some c" if "y = Inr c" for c
        using take_token_ok(5) [OF rounding_id s0 t that] .
      have "(l' = l1 \<and> (b \<longrightarrow> is_ok y)) \<or> (\<exists>c. y = Inr c \<and> k = Chunk \<and>
          l' = l1\<lparr>l_chunk := AList.update ?key (c\<lparr>b_active := b_active c + 1\<rparr>) (l_chunk l1),
            l_active := l_active l1 + 1, l_leases := l_leases l1 @ [(?key, False)]\<rparr>)"
        using r Enter True t by (cases k) (auto simp: enter_def Let_def split: sum.splits if_splits)
      then show "b \<Longrightarrow> is_ok y" "level st key t l' = level st key t l1"
        using s1 level_chunk_update by auto
    qed
    have le: "level st key t l1 \<le> level st key t l" using lev by (auto split: if_splits)
    show ?thesis
    proof (cases "b \<and> targets st key e")
      case True
      then have "is_ok y \<and> st = ?st \<and> key = ?key" using Enter \<open>b \<Longrightarrow> is_ok y\<close> by simp
      then have "level st key t l1 \<le> level st key t l - 1" using lev by simp
      then show ?thesis using True Enter \<open>level st key t l' = level st key t l1\<close> by simp
    next
      case False
      then show ?thesis using le Enter \<open>level st key t l' = level st key t l1\<close> by (simp only: if_False event_time.simps diff_zero)
    qed
  qed
next
  case (Release i t)
  show ?thesis
  proof (cases "i < length (l_leases l) \<and> \<not> snd (l_leases l ! i)")
    case True
    obtain k0 where li: "l_leases l ! i = (k0, False)" using True by (cases "l_leases l ! i") auto
    show ?thesis
    proof (cases "map_of (l_chunk l) k0")
      case None
      then show ?thesis using r Release True li by (simp add: release_def)
    next
      case (Some c)
      then have "l' = l\<lparr>l_chunk := AList.update k0 (c\<lparr>b_active := b_active c - 1, b_seenAt := max (b_seenAt c) t\<rparr>) (l_chunk l),
          l_active := l_active l - 1, l_leases := (l_leases l)[i := (k0, True)]\<rparr>" and "\<not> b"
        using r Release True li by (simp_all add: release_def)
      then show ?thesis using Release level_chunk_update [OF Some] by simp
    qed
  next
    case False
    then have "release i t l = l" by (auto simp: release_def not_less split: prod.splits)
    then show ?thesis using r Release by simp
  qed
qed

lemma admitted_bound:
  "limiter_ok l \<Longrightarrow> sorted (t0 # map event_time es) \<Longrightarrow> \<forall>e \<in> set es. event_time e \<le> t1 \<Longrightarrow> t0 \<le> t1 \<Longrightarrow>
     of_nat (admitted st key es l) + min 0 (level st key t1 (lim_run id es l))
       \<le> level st key t0 l + of_int (t1 - t0) * p_rate (policy_of st) / 1000"
proof (induction es arbitrary: l t0)
  case Nil
  then show ?case using level_mono [of t0 t1 st key l] by simp
next
  case (Cons e es)
  obtain l' b where r: "lim_step id e l = (l', b)" by (cases "lim_step id e l")
  let ?t = "event_time e"
  have ok': "limiter_ok l'" using lim_step_ok [OF rounding_id Cons.prems(1), of e] r by simp
  have t: "t0 \<le> ?t" "?t \<le> t1" using Cons.prems by auto
  have "of_nat (admitted st key es l') + min 0 (level st key t1 (lim_run id es l'))
      \<le> level st key ?t l' + of_int (t1 - ?t) * p_rate (policy_of st) / 1000"
    using Cons.prems t by (intro Cons.IH [OF ok']) auto
  moreover have "level st key ?t l' \<le> level st key ?t l - (if b \<and> targets st key e then 1 else 0)"
    using level_step [OF Cons.prems(1) r] .
  moreover have "level st key ?t l \<le> level st key t0 l + of_int (?t - t0) * p_rate (policy_of st) / 1000"
    using level_mono [OF t(1)] .
  moreover have "of_int (t1 - ?t) * p_rate (policy_of st) / 1000 + of_int (?t - t0) * p_rate (policy_of st) / 1000
      = of_int (t1 - t0) * p_rate (policy_of st) / 1000"
    by (simp add: field_simps)
  moreover have run: "lim_run id (e # es) l = lim_run id es l'" by (simp only: lim_run.simps r fst_conv)
  moreover have "rat_of_nat (admitted st key (e # es) l)
      = (if b \<and> targets st key e then 1 else 0) + of_nat (admitted st key es l')"
    unfolding admitted.simps r split_conv by simp
  ultimately show ?case unfolding run by linarith
qed

lemma level_nonneg:
  assumes "stores_ok l"
  shows "0 \<le> level st key now l"
proof (cases "map_of (get_store st l) key")
  case None
  then show ?thesis using policy_pos(2) [of st] by (simp add: level_def)
next
  case (Some b)
  have "store_ok (policy_of st) (get_store st l)" using assms by (simp add: stores_ok_def)
  then have "0 \<le> b_tokens b" using store_okD Some by blast
  then show ?thesis using refill_ok(1) [OF rounding_id] Some by (simp add: level_def)
qed


section \<open>Properties\<close>

text \<open>
  C17: after any history of requests, refusals and releases, with any rounding that is monotone and
  exact on small integers, every bucket holds between zero and its burst, no store exceeds 10000 keys,
  a user has at most four and the process at most 32 transfers open, and the counters equal the number
  of leases that were not released; releasing twice changes nothing.
\<close>

theorem limiter_invariant:
  assumes "rounding fl"
  shows "limiter_ok (lim_run fl es limiter0)
    \<and> release i t' (release i t (lim_run fl es limiter0)) = release i t (lim_run fl es limiter0)"
proof -
  let ?l = "lim_run fl es limiter0"
  have ok: "limiter_ok ?l" by (rule lim_run_ok [OF assms limiter0_ok])
  have "release i t' (release i t l) = release i t l" if h: "\<And>k. map_of (l_chunk l) k = None \<Longrightarrow> outstanding l k = 0" for l
  proof (cases "i < length (l_leases l) \<and> \<not> snd (l_leases l ! i)")
    case True
    obtain k where li: "l_leases l ! i = (k, False)" using True by (cases "l_leases l ! i") auto
    then have "(k, False) \<in> set (l_leases l)" using True nth_mem by metis
    then have "0 < outstanding l k" by (auto simp: outstanding_def filter_empty_conv)
    then obtain b where "map_of (l_chunk l) k = Some b" using h [of k] by fastforce
    then show ?thesis using True li by (simp add: release_def)
  next
    case False
    then have "release i t l = l" "release i t' l = l" by (auto simp: release_def not_less split: prod.splits)
    then show ?thesis by simp
  qed
  moreover have "outstanding ?l k = 0" if "map_of (l_chunk ?l) k = None" for k
    using ok that by (auto simp: limiter_ok_def act_def dest: spec [of _ k])
  ultimately show ?thesis using ok by blast
qed

theorem limiter_invariant_witness:
  "limiter_ok (lim_run id [Enter 7 Chunk 0, Enter 7 Chunk 0, Release 0 5, Release 0 6] limiter0)"
  using limiter_invariant [OF rounding_id] by blast

text \<open>
  C16: in exact arithmetic, between two times a key is admitted at most its burst plus its rate times
  the time between them, whatever happens in between, evictions of idle buckets included.
\<close>

theorem limiter_rate:
  assumes "limiter_ok l" "sorted (t0 # map event_time es)" "\<forall>e \<in> set es. event_time e \<le> t1" "t0 \<le> t1"
  shows "of_nat (admitted st key es l)
    \<le> p_burst (policy_of st) + of_int (t1 - t0) * p_rate (policy_of st) / 1000"
proof -
  have "stores_ok (lim_run id es l)" using lim_run_ok [OF rounding_id assms(1)] by (simp add: limiter_ok_def)
  then have "min 0 (level st key t1 (lim_run id es l)) = 0" using level_nonneg by (simp add: min_def)
  then show ?thesis using admitted_bound [OF assms, of st key] level_burst [of st key t0 l] by simp
qed

theorem limiter_rate_witness:
  "of_nat (admitted SAbort (js ''7'') [Enter 7 Abort 0, Enter 7 Abort 100] limiter0)
     \<le> p_burst (policy_of SAbort) + of_int (100 - 0) * p_rate (policy_of SAbort) / 1000"
  by (rule limiter_rate [OF limiter0_ok]) simp_all

lemma lease_run_count:
  "lease_run es le = (le', n) \<Longrightarrow>
     n + (if le_released le then 1 else 0) = (if le_released le' then 1 else 0)"
proof (induction es arbitrary: le n)
  case (Cons e es)
  obtain le1 c x where 1: "lease_step e le = (le1, c, x)" by (cases "lease_step e le")
  obtain m where 2: "lease_run es le1 = (le', m)" "n = (if c then Suc m else m)"
    using Cons.prems 1 by (auto split: prod.splits)
  have "(if c then 1 else 0) + (if le_released le then 1 else 0) = (if le_released le1 then 1 else (0::nat))"
    using 1 by (cases e) (auto simp: lease_release_def Let_def split: if_splits prod.splits)
  moreover have "n = m + (if c then 1 else 0)" using 2(2) by simp
  ultimately show ?case using Cons.IH [OF 2(1)] by linarith
qed simp

text \<open>
  Over any sequence of disconnections, phase changes and clean-ups that ends with the clean-up,
  the release function of the limiter is called exactly once; while a request is being processed a
  disconnection does not call it.
\<close>

theorem lease_released_once:
  "snd (lease_run (es @ [Cleanup]) lease0) = 1
   \<and> fst (snd (lease_step (Disconnected ab) (le\<lparr>le_phase := Processing\<rparr>))) = False"
proof -
  have app: "lease_run (es @ [Cleanup]) le =
      (let (le1, n) = lease_run es le in
       let (le2, c) = lease_release le1 in (le2, if c then Suc n else n))" for le
    by (induction es arbitrary: le) (auto simp: Let_def split: prod.splits)
  obtain le1 n where r: "lease_run es lease0 = (le1, n)" by (cases "lease_run es lease0")
  show ?thesis
    using lease_run_count [OF r] r by (auto simp: app lease0_def lease_release_def Let_def)
qed

end
