(* ===== verification/StoragePath.thy ===== *)
theory StoragePath
  imports FileOps
begin

text \<open>
  Names of physical objects (backend/src/storage/storage-placement.ts and
  backend/src/storage/storage.service.ts): the grammar of object keys, the placement of an absolute
  path below the storage root and back, and the path of a finished upload.

  The checks of the live file system (mount identity, symbolic links, owners, devices) are the
  parameter \<open>trusted\<close>: \<open>checkComponents\<close> accepts the key.  \<open>lower\<close> is the case mapping of
  \<open>String.prototype.toLowerCase\<close>.
\<close>

definition hasMalformedUnicode :: "ustring \<Rightarrow> bool" where
  "hasMalformedUnicode s \<longleftrightarrow> \<not> well_formed s"

definition starts_with :: "ustring \<Rightarrow> ustring \<Rightarrow> bool" where
  "starts_with p s \<longleftrightarrow> take (length p) s = p"

definition letter :: "nat \<Rightarrow> bool" where
  "letter c \<longleftrightarrow> 65 \<le> c \<and> c \<le> 90 \<or> 97 \<le> c \<and> c \<le> 122"

definition IDENTITY_MARKER :: ustring where
  "IDENTITY_MARKER = js ''.homecloud-storage-identity''"

definition LEGACY_STORAGE_ID :: ustring where
  "LEGACY_STORAGE_ID = js ''f2f5c4b0-8d57-4c49-9f8c-0d095b344601''"

definition dot_segment :: "ustring \<Rightarrow> bool" where
  "dot_segment p \<longleftrightarrow> p = [] \<or> p = [46] \<or> p = [46, 46]"

definition drive_prefix :: "ustring \<Rightarrow> bool" where
  "drive_prefix key \<longleftrightarrow> 2 \<le> length key \<and> letter (key ! 0) \<and> key ! 1 = 58"

definition reserved_segment :: "ustring \<Rightarrow> bool" where
  "reserved_segment p \<longleftrightarrow> p = js ''.tmp'' \<or> p = IDENTITY_MARKER \<or> starts_with (js ''.hc-probe-'') p
     \<or> starts_with (js ''.restore-'') p"

text \<open>An absolute path of the other platform begins with a slash, a backslash or a drive.\<close>

definition key_ok :: "ustring \<Rightarrow> bool" where
  "key_ok key \<longleftrightarrow> \<not> hasMalformedUnicode key \<and> key \<noteq> [] \<and> 92 \<notin> set key \<and> 0 \<notin> set key
     \<and> hd key \<noteq> 47 \<and> \<not> drive_prefix key
     \<and> (\<forall>p \<in> set (split_on 47 key). \<not> dot_segment p)
     \<and> \<not> reserved_segment (hd (split_on 47 key))"

definition validateObjectKey :: "ustring \<Rightarrow> ustring res" where
  "validateObjectKey key = (if key_ok key then Inr key else Inl (PlainError ''Invalid storage object key''))"

text \<open>
  \<open>p === path.resolve(p)\<close> for a POSIX path: absolute and without empty or dot segments, or the root.
\<close>

definition is_resolved :: "ustring \<Rightarrow> bool" where
  "is_resolved p \<longleftrightarrow> p = [47] \<or>
     (p \<noteq> [] \<and> hd p = 47 \<and> (\<forall>seg \<in> set (split_on 47 (tl p)). \<not> dot_segment seg))"

definition validateRoot :: "ustring \<Rightarrow> bool" where
  "validateRoot root \<longleftrightarrow> is_resolved root \<and> root \<noteq> [47] \<and> 92 \<notin> set root \<and> 0 \<notin> set root
     \<and> \<not> hasMalformedUnicode root"

definition below :: "ustring \<Rightarrow> ustring \<Rightarrow> bool" where
  "below root p \<longleftrightarrow> starts_with (root @ [47]) p"

text \<open>\<open>path.relative(root, p)\<close> for a resolved path below the root.\<close>

definition relative :: "ustring \<Rightarrow> ustring \<Rightarrow> ustring" where
  "relative root p = drop (length root + 1) p"

definition confined :: "(ustring \<Rightarrow> bool) \<Rightarrow> ustring \<Rightarrow> ustring \<Rightarrow> ustring res" where
  "confined trusted root key =
     bindE (validateObjectKey key) (\<lambda>k.
     bindE (ensure (trusted k) (PlainError ''Unsafe storage object'')) (\<lambda>_. Inr (root @ [47] @ k)))"

definition keyFromAbsolute :: "(ustring \<Rightarrow> bool) \<Rightarrow> ustring \<Rightarrow> ustring \<Rightarrow> ustring res" where
  "keyFromAbsolute trusted root p =
     bindE (ensure (\<not> hasMalformedUnicode p \<and> is_resolved p \<and> below root p)
        (PlainError ''Unmappable legacy storage path'')) (\<lambda>_.
     bindE (validateObjectKey (relative root p)) (\<lambda>key.
     bindE (confined trusted root key) (\<lambda>q.
     bindE (ensure (q = p) (PlainError ''Ambiguous storage path'')) (\<lambda>_. Inr key))))"

definition placementForPath :: "(ustring \<Rightarrow> bool) \<Rightarrow> ustring \<Rightarrow> ustring \<Rightarrow> placement res" where
  "placementForPath trusted root p =
     bindE (keyFromAbsolute trusted root p) (\<lambda>key.
     Inr \<lparr>pl_storagePath = p, pl_storageLocationId = LEGACY_STORAGE_ID, pl_relativeObjectKey = key\<rparr>)"

definition resolve_placement :: "(ustring \<Rightarrow> bool) \<Rightarrow> ustring \<Rightarrow> file_row \<Rightarrow> ustring res" where
  "resolve_placement trusted root f =
     bindE (ensure (f_storageLocationId f = Some LEGACY_STORAGE_ID \<and> f_relativeObjectKey f \<noteq> None
              \<and> f_relativeObjectKey f \<noteq> Some [])
        (PlainError ''Unknown or incomplete storage placement'')) (\<lambda>_.
     bindE (confined trusted root (the (f_relativeObjectKey f))) (\<lambda>absolute.
     bindE (ensure (f_storagePath f = Some absolute) (PlainError ''Inconsistent legacy storage bridge''))
       (\<lambda>_. Inr absolute)))"

definition ensureWithinStorageRoot :: "(ustring \<Rightarrow> bool) \<Rightarrow> ustring \<Rightarrow> ustring \<Rightarrow> ustring res" where
  "ensureWithinStorageRoot trusted root p =
     bindE (ensure (is_resolved p \<and> below root p) (PlainError ''Path traversal detected'')) (\<lambda>_.
     bindE (keyFromAbsolute trusted root p) (\<lambda>_. Inr p))"


section \<open>The path of a finished upload\<close>

text \<open>\<open>path.extname\<close> and \<open>path.basename(name, ext)\<close> of a name without slashes.\<close>

definition extname :: "ustring \<Rightarrow> ustring" where
  "extname s = (case last_index 46 s of None \<Rightarrow> [] | Some i \<Rightarrow> if i = 0 \<or> s = [46, 46] then [] else drop i s)"

definition basename :: "ustring \<Rightarrow> ustring" where
  "basename s = take (length s - length (extname s)) s"

definition safe_char :: "nat \<Rightarrow> bool" where
  "safe_char c \<longleftrightarrow> letter c \<or> digit c \<or> c = 46 \<or> c = 95 \<or> c = 45"

definition safe_base :: "ustring \<Rightarrow> ustring" where
  "safe_base s = map (\<lambda>c. if safe_char c then c else 95) s"

text \<open>\<open>Buffer.byteLength(s, "utf8")\<close>: a surrogate pair takes four bytes, a lone surrogate three.\<close>

fun utf8_length :: "ustring \<Rightarrow> nat" where
  "utf8_length (a # b # s) =
     (if high_surrogate a \<and> low_surrogate b then 4 + utf8_length s
      else (if a < 128 then 1 else if a < 2048 then 2 else 3) + utf8_length (b # s))"
| "utf8_length [a] = (if a < 128 then 1 else if a < 2048 then 2 else 3)"
| "utf8_length [] = 0"

definition disk_name :: "(ustring \<Rightarrow> ustring) \<Rightarrow> ustring \<Rightarrow> ustring \<Rightarrow> ustring" where
  "disk_name lower uploadId filename =
     (let name = safe_base (basename filename) @ [95] @ uploadId @ lower (extname filename)
      in if 255 < utf8_length name then uploadId @ js ''.upload'' else name)"

definition generateFinalPath :: "(ustring \<Rightarrow> ustring) \<Rightarrow> (ustring \<Rightarrow> bool) \<Rightarrow> ustring \<Rightarrow> nat \<Rightarrow> ustring
    \<Rightarrow> ustring \<Rightarrow> ustring res" where
  "generateFinalPath lower trusted root user uploadId filename =
     ensureWithinStorageRoot trusted root
       (root @ [47] @ dec user @ [47] @ disk_name lower uploadId filename)"

definition generateSafeFilename :: "(ustring \<Rightarrow> ustring) \<Rightarrow> ustring \<Rightarrow> ustring \<Rightarrow> ustring" where
  "generateSafeFilename lower unique original =
     safe_base (basename original) @ [95] @ unique @ lower (extname original)"

definition generatePath :: "(ustring \<Rightarrow> bool) \<Rightarrow> ustring \<Rightarrow> nat \<Rightarrow> ustring \<Rightarrow> ustring res" where
  "generatePath trusted root user filename =
     ensureWithinStorageRoot trusted root (root @ [47] @ dec user @ [47] @ filename)"


section \<open>Paths below a directory\<close>

lemma starts_with_iff: "starts_with p s \<longleftrightarrow> (\<exists>r. s = p @ r)"
  unfolding starts_with_def by (metis append_eq_conv_conj append_take_drop_id)

lemma below_iff: "below root p \<longleftrightarrow> (\<exists>key. p = root @ 47 # key)"
  by (simp add: below_def starts_with_iff)

lemma relative_append [simp]: "relative root (root @ 47 # key) = key"
  by (simp add: relative_def)

end
