(* ===== verification/StoragePathClaims.thy ===== *)
theory StoragePathClaims
  imports StoragePath
begin

text \<open>
  Placements correspond one to one to accepted keys, and a finished upload lands in the directory of its
  user under a name the file system can hold.
\<close>

lemma well_formed_split: "well_formed (a @ 47 # b) \<longleftrightarrow> well_formed a \<and> well_formed b"
proof (induction a rule: well_formed.induct)
  case 1
  show ?case by (cases b) (simp_all add: high_surrogate_def low_surrogate_def)
next
  case (2 a)
  then show ?case by (cases b) (auto simp: high_surrogate_def low_surrogate_def)
next
  case (3 a c s)
  then show ?case by auto
qed

lemma split_on_append_sep: "split_on c (a @ c # b) = split_on c a @ split_on c b"
proof (induction a)
  case (Cons x xs)
  then show ?case by (cases "split_on c xs") auto
qed simp

lemma resolved_append:
  assumes "validateRoot root"
  shows "is_resolved (root @ 47 # key) \<longleftrightarrow> (\<forall>seg \<in> set (split_on 47 key). \<not> dot_segment seg)"
proof -
  obtain r where r: "root = 47 # r" "\<forall>seg \<in> set (split_on 47 r). \<not> dot_segment seg"
    using assms by (cases root) (auto simp: validateRoot_def is_resolved_def)
  then show ?thesis by (auto simp: is_resolved_def split_on_append_sep)
qed

lemma keyFromAbsolute_Inr:
  assumes "validateRoot root"
  shows "keyFromAbsolute trusted root p = Inr key \<longleftrightarrow> key_ok key \<and> trusted key \<and> p = root @ 47 # key"
  using assms resolved_append [OF assms]
  by (auto simp: keyFromAbsolute_def confined_def validateObjectKey_def err_simps below_iff
      hasMalformedUnicode_def validateRoot_def well_formed_split key_ok_def split: if_splits)

lemma ensureWithinStorageRoot_Inr:
  assumes "validateRoot root"
  shows "ensureWithinStorageRoot trusted root p = Inr q \<longleftrightarrow>
    (\<exists>key. key_ok key \<and> trusted key \<and> p = root @ 47 # key \<and> q = p)"
  using resolved_append [OF assms]
  by (auto simp: ensureWithinStorageRoot_def err_simps keyFromAbsolute_Inr [OF assms] below_iff key_ok_def)




section \<open>Finished uploads\<close>

lemma utf8_length_ascii: "\<forall>c \<in> set s. c < 128 \<Longrightarrow> utf8_length s = length s"
  by (induction s rule: utf8_length.induct) (auto simp: high_surrogate_def)

lemma extname_suffix: "\<exists>stem. s = stem @ extname s"
  by (auto simp: extname_def split: option.splits intro: exI [of _ "take i s" for i])
    (metis append_take_drop_id)

lemma basename_extname [simp]: "basename s @ extname s = s"
  using extname_suffix [of s] by (metis append_eq_conv_conj basename_def length_append diff_add_inverse2)

lemma safe_base_chars: "c \<in> set (safe_base s) \<Longrightarrow> safe_char c"
  by (auto simp: safe_base_def safe_char_def)

text \<open>A name of at most \<open>n\<close> bytes without separators: what a directory entry can be.\<close>

definition entry_name :: "nat \<Rightarrow> ustring \<Rightarrow> bool" where
  "entry_name n s \<longleftrightarrow> 47 \<notin> set s \<and> 0 \<notin> set s \<and> \<not> dot_segment s \<and> utf8_length s \<le> n"

lemma disk_name_entry:
  assumes "\<forall>c \<in> set uploadId. safe_char c" "length uploadId \<le> 248"
    and "set (lower (extname filename)) \<inter> {0, 47} = {}"
  shows "entry_name 255 (disk_name lower uploadId filename)"
proof -
  have safe: "c < 128 \<and> c \<noteq> 47 \<and> c \<noteq> 0" if "safe_char c" for c
    using that by (auto simp: safe_char_def letter_def digit_def)
  let ?up = "uploadId @ js ''.upload''"
  have asc: "utf8_length ?up = length ?up"
    using assms(1) safe by (intro utf8_length_ascii) auto
  have "entry_name 255 ?up"
    using assms(1,2) safe unfolding entry_name_def asc by (auto simp: dot_segment_def append_eq_Cons_conv)
  moreover have "entry_name 255 (safe_base (basename filename) @ [95] @ uploadId @ lower (extname filename))"
    if "utf8_length (safe_base (basename filename) @ [95] @ uploadId @ lower (extname filename)) \<le> 255"
    using that assms(1,3) safe safe_base_chars by (fastforce simp: entry_name_def dot_segment_def append_eq_Cons_conv)
  ultimately show ?thesis by (auto simp: disk_name_def Let_def)
qed

definition final_key :: "(ustring \<Rightarrow> ustring) \<Rightarrow> nat \<Rightarrow> ustring \<Rightarrow> ustring \<Rightarrow> ustring" where
  "final_key lower user uploadId filename = dec user @ 47 # disk_name lower uploadId filename"

text \<open>
  C34: the path of a finished upload is one entry in the directory of its user, at most 255 bytes long,
  whatever the name of the file is; it is refused only when the live checks fail or the mapped
  extension is malformed Unicode or contains a backslash.
\<close>

theorem final_path_entry:
  assumes "validateRoot root" "\<forall>c \<in> set uploadId. safe_char c" "length uploadId \<le> 248"
    and "set (lower (extname filename)) \<inter> {0, 47} = {}"
  shows "(generateFinalPath lower trusted root user uploadId filename = Inr p \<longleftrightarrow>
        p = root @ 47 # final_key lower user uploadId filename \<and> trusted (final_key lower user uploadId filename)
        \<and> well_formed (final_key lower user uploadId filename) \<and> 92 \<notin> set (final_key lower user uploadId filename))
    \<and> entry_name 255 (disk_name lower uploadId filename)"
proof -
  let ?name = "disk_name lower uploadId filename"
  define key where "key = final_key lower user uploadId filename"
  note key_def = key_def [unfolded final_key_def]
  have name: "entry_name 255 ?name" using disk_name_entry assms(2-4) by blast
  have d: "\<forall>c \<in> set (dec user). digit c" by (rule dec_digits)
  then have d47: "47 \<notin> set (dec user)" "92 \<notin> set (dec user)" "0 \<notin> set (dec user)" by (auto simp: digit_def)
  have n47: "47 \<notin> set ?name" using name by (simp add: entry_name_def)
  have one: "47 \<notin> set x \<Longrightarrow> split_on 47 x = [x]" for x by (induction x) auto
  have sp: "split_on 47 key = [dec user, ?name]"
    unfolding key_def split_on_append_sep using one d47(1) n47 by simp
  obtain c cs where c: "dec user = c # cs" "digit c" using d by (cases "dec user") auto
  have "\<not> dot_segment (dec user)" "\<not> reserved_segment (dec user)"
    using c by (auto simp: dot_segment_def reserved_segment_def starts_with_def IDENTITY_MARKER_def digit_def)
  moreover have "\<not> drive_prefix key" "hd key \<noteq> 47" "key \<noteq> []"
    using c by (auto simp: drive_prefix_def key_def letter_def digit_def)
  moreover have "0 \<notin> set key" using d47 name by (auto simp: key_def entry_name_def)
  ultimately have "key_ok key \<longleftrightarrow> well_formed key \<and> 92 \<notin> set key"
    using name by (auto simp: key_ok_def sp hasMalformedUnicode_def entry_name_def)
  moreover have gen: "generateFinalPath lower trusted root user uploadId filename
      = ensureWithinStorageRoot trusted root (root @ 47 # key)"
    by (simp add: generateFinalPath_def key_def)
  moreover have "ensureWithinStorageRoot trusted root (root @ 47 # key) = Inr q
      \<longleftrightarrow> key_ok key \<and> trusted key \<and> q = root @ 47 # key" for q
    using ensureWithinStorageRoot_Inr [OF assms(1)] by auto
  ultimately show ?thesis
    using name unfolding final_key_def key_def [symmetric] by auto
qed

theorem final_path_entry_witness:
  "generateFinalPath id (\<lambda>_. True) (js ''/storage'') 7 (js ''0f-1'') (js ''my file.txt'')
     = Inr (js ''/storage/7/my_file_0f-1.txt'')"
proof -
  have "final_key id 7 (js ''0f-1'') (js ''my file.txt'') = js ''7/my_file_0f-1.txt''" by code_simp
  moreover have "validateRoot (js ''/storage'')" "\<forall>c \<in> set (js ''0f-1''). safe_char c"
    "set (id (extname (js ''my file.txt''))) \<inter> {0, 47} = {}" "well_formed (js ''7/my_file_0f-1.txt'')"
    "92 \<notin> set (js ''7/my_file_0f-1.txt'')" "js ''/storage/7/my_file_0f-1.txt'' = js ''/storage'' @ 47 # js ''7/my_file_0f-1.txt''"
    by code_simp+
  ultimately show ?thesis using final_path_entry [of "js ''/storage''" "js ''0f-1''" id "js ''my file.txt''"] by simp
qed

end
