(* ===== verification/UploadState.thy ===== *)
theory UploadState
  imports StoragePath ShareScope "HOL-Library.AList"
begin

text \<open>
  The state of resumable uploads: sessions and chunks (backend/src/entities/upload-session.entity.ts
  and upload-chunk.entity.ts) beside the database of the files, the disk, and the computations over
  it.  A step of a handler takes the state and returns the new one with a value or an exception; a
  transaction undoes the database on an exception and keeps the disk.
\<close>

datatype upload_status = Pending | Uploading | Completed | Aborted
datatype upload_origin = OwnerOrigin | PublicOrigin

record upload_row =
  up_id :: nat
  up_uploadId :: ustring
  up_filename :: ustring
  up_expectedSha256 :: "ustring option"
  up_totalSize :: int
  up_uploadedSize :: int
  up_chunkSize :: int
  up_totalChunks :: nat
  up_uploadedCount :: nat
  up_accountingInitialized :: bool
  up_tempPath :: ustring
  up_parentId :: "nat option"
  up_origin :: upload_origin
  up_shareLinkId :: "nat option"
  up_shareRootFolderId :: "nat option"
  up_status :: upload_status
  up_expiresAt :: "int option"
  up_userId :: nat
  up_workspaceId :: ustring

definition LEGACY_UPLOAD_WORKSPACE_ID :: ustring where
  "LEGACY_UPLOAD_WORKSPACE_ID = js ''87798389-88af-4ea5-a3e7-8e69a3c7bb01''"

text \<open>\<open>CHK_upload_sessions_public_origin\<close>\<close>

definition chk_public_origin :: "upload_row \<Rightarrow> bool" where
  "chk_public_origin u \<longleftrightarrow>
     up_origin u = OwnerOrigin \<longrightarrow> up_shareLinkId u = None \<and> up_shareRootFolderId u = None"

record chunk_row =
  ch_session :: nat
  ch_index :: nat
  ch_byteSize :: int
  ch_sha256 :: ustring

text \<open>
  The disk maps the paths of regular files to their bytes; \<open>us_dirs\<close> are the session directories.
  A hard link is an entry with the same bytes: no modelled operation writes to a finished file.
  \<open>us_reserved\<close> lists the sessions with a finalization whose clean-up is pending, \<open>us_fences\<close> the
  uploads whose assembly holds the exclusive advisory lock.
\<close>

type_synonym bytes = "nat list"
type_synonym disk = "(ustring \<times> bytes) list"

record ustate =
  us_db :: db
  us_sessions :: "upload_row list"
  us_chunks :: "chunk_row list"
  us_next :: nat
  us_disk :: disk
  us_dirs :: "ustring list"
  us_reserved :: "nat list"
  us_fences :: "ustring list"


section \<open>Computations\<close>

type_synonym 'a ucomp = "ustate \<Rightarrow> ustate \<times> 'a res"

definition ret :: "'a \<Rightarrow> 'a ucomp" where
  "ret x s = (s, Inr x)"

definition bindU :: "'a ucomp \<Rightarrow> ('a \<Rightarrow> 'b ucomp) \<Rightarrow> 'b ucomp" where
  "bindU m f s = (case m s of (s1, r) \<Rightarrow> (case r of Inl e \<Rightarrow> (s1, Inl e) | Inr x \<Rightarrow> f x s1))"

definition liftU :: "'a res \<Rightarrow> 'a ucomp" where
  "liftU r s = (s, r)"

definition getU :: "(ustate \<Rightarrow> 'a) \<Rightarrow> 'a ucomp" where
  "getU f s = (s, Inr (f s))"

definition modU :: "(ustate \<Rightarrow> ustate) \<Rightarrow> unit ucomp" where
  "modU f s = (f s, Inr ())"

definition ensureU :: "bool \<Rightarrow> http_error \<Rightarrow> unit ucomp" where
  "ensureU b e = liftU (ensure b e)"

named_theorems comp_simps \<open>running a computation\<close>

lemma comp_run [comp_simps]:
  "ret x s = (s, Inr x)"
  "liftU (Inr x) s = (s, Inr x)"
  "liftU (Inl e) s = (s, Inl e)"
  "getU f s = (s, Inr (f s))"
  "modU g s = (g s, Inr ())"
  "ensureU b e s = (s, if b then Inr () else Inl e)"
  by (simp_all add: ret_def liftU_def getU_def modU_def ensureU_def ensure_def)

lemma bindU_run [comp_simps]:
  "m s = (s1, Inr x) \<Longrightarrow> bindU m f s = f x s1"
  "m s = (s1, Inl e) \<Longrightarrow> bindU m f s = (s1, Inl e)"
  by (simp_all add: bindU_def)

lemma bindU_step [comp_simps]:
  "bindU (ret x) f s = f x s"
  "bindU (liftU r) g s = (case r of Inl e \<Rightarrow> (s, Inl e) | Inr y \<Rightarrow> g y s)"
  "bindU (getU h) f s = f (h s) s"
  "bindU (modU k) f' s = f' () (k s)"
  "bindU (ensureU b e) f' s = (if b then f' () s else (s, Inl e))"
  by (simp_all add: bindU_def ret_def liftU_def getU_def modU_def ensureU_def ensure_def split: sum.split)

lemma bindU_Inr: "bindU m f s = (s', Inr y) \<longleftrightarrow> (\<exists>s1 x. m s = (s1, Inr x) \<and> f x s1 = (s', Inr y))"
  by (auto simp: bindU_def split: prod.splits sum.splits)

lemma bindU_Inl:
  "bindU m f s = (s', Inl e) \<longleftrightarrow> m s = (s', Inl e) \<or> (\<exists>s1 x. m s = (s1, Inr x) \<and> f x s1 = (s', Inl e))"
  by (auto simp: bindU_def split: prod.splits sum.splits)

lemma comp_Inr:
  "ret x s = (s', Inr y) \<longleftrightarrow> s' = s \<and> x = y"
  "liftU r s = (s', Inr y) \<longleftrightarrow> s' = s \<and> r = Inr y"
  "getU f s = (s', Inr y) \<longleftrightarrow> s' = s \<and> f s = y"
  "modU g s = (s', Inr u) \<longleftrightarrow> s' = g s"
  "ensureU b e s = (s', Inr u) \<longleftrightarrow> s' = s \<and> b"
  by (auto simp: ret_def liftU_def getU_def modU_def ensureU_def ensure_def)

lemma comp_Inl:
  "ret x s \<noteq> (s', Inl e)"
  "liftU r s = (s', Inl e) \<longleftrightarrow> s' = s \<and> r = Inl e"
  "getU f s \<noteq> (s', Inl e)"
  "modU g s \<noteq> (s', Inl e)"
  "ensureU b e' s = (s', Inl e) \<longleftrightarrow> s' = s \<and> \<not> b \<and> e' = e"
  by (auto simp: ret_def liftU_def getU_def modU_def ensureU_def ensure_def)

text \<open>
  A computation preserves \<open>P\<close> when every outcome does; the rule for sequences carries the invariant
  proofs.
\<close>

definition keeps :: "(ustate \<Rightarrow> bool) \<Rightarrow> 'a ucomp \<Rightarrow> bool" where
  "keeps P m \<longleftrightarrow> (\<forall>s. P s \<longrightarrow> P (fst (m s)))"

lemma keeps_bindU: "keeps P m \<Longrightarrow> (\<And>x. keeps P (f x)) \<Longrightarrow> keeps P (bindU m f)"
  unfolding keeps_def bindU_def by (metis (mono_tags, lifting) fst_conv old.sum.simps(5) old.sum.simps(6) prod.case_eq_if sum.exhaust)

lemma keeps_pure [intro, simp]: "keeps P (ret x)" "keeps P (liftU r)" "keeps P (getU f)" "keeps P (ensureU b e)"
  by (simp_all add: keeps_def ret_def liftU_def getU_def ensureU_def)


section \<open>Transactions and fences\<close>

definition rollback :: "ustate \<Rightarrow> ustate \<Rightarrow> ustate" where
  "rollback s s1 = s1\<lparr>us_db := us_db s, us_sessions := us_sessions s, us_chunks := us_chunks s,
     us_next := us_next s\<rparr>"

text \<open>
  \<open>runnerTransaction\<close>: the exception of the body, or the end of the commit.  An ambiguous commit is
  one whose acknowledgement is lost: the database kept it and the caller sees an error.
\<close>

definition runnerTransaction :: "commit_outcome \<Rightarrow> 'a ucomp \<Rightarrow> 'a ucomp" where
  "runnerTransaction c body s =
     (case body s of
        (s1, Inl e) \<Rightarrow> (rollback s s1, Inl e)
      | (s1, Inr x) \<Rightarrow>
          (case c of
             Committed \<Rightarrow> (s1, Inr x)
           | CommitFailed \<Rightarrow> (rollback s s1, Inl (PlainError ''commit failed''))
           | CommitAmbiguous \<Rightarrow> (s1, Inl (PlainError ''commit failed''))))"

definition withTransaction :: "commit_outcome \<Rightarrow> ustring option \<Rightarrow> 'a ucomp \<Rightarrow> 'a ucomp" where
  "withTransaction c fence body =
     runnerTransaction c
       (bindU (getU us_fences) (\<lambda>held.
        bindU (ensureU (case fence of None \<Rightarrow> True | Some k \<Rightarrow> k \<notin> set held)
                 (Conflict ''Upload is being finalized; retry later'')) (\<lambda>_. body)))"

text \<open>
  \<open>withAssemblyFence\<close>: \<open>limit\<close> assemblies at a time in this process, then the exclusive lock of the
  upload, which is given back at the end.
\<close>

definition assembly_limit :: "int \<Rightarrow> nat" where
  "assembly_limit pool = nat (max 1 (min 2 (pool - 2)))"

definition withAssemblyFence :: "int \<Rightarrow> ustring \<Rightarrow> bool \<Rightarrow> 'a ucomp \<Rightarrow> 'a ucomp" where
  "withAssemblyFence pool k public body s =
     (if public \<and> pool < 3 \<or> assembly_limit pool \<le> length (us_fences s)
      then (s, Inl (TooManyRequests ''Too many upload requests; retry later''))
      else if k \<in> set (us_fences s) then (s, Inl (Conflict ''Upload is being finalized; retry later''))
      else (case body (s\<lparr>us_fences := k # us_fences s\<rparr>) of
              (s1, r) \<Rightarrow> (s1\<lparr>us_fences := remove1 k (us_fences s1)\<rparr>, r)))"


section \<open>Disk\<close>

definition read_file :: "ustring \<Rightarrow> ustate \<Rightarrow> bytes option" where
  "read_file p s = map_of (us_disk s) p"

definition write_file :: "ustring \<Rightarrow> bytes \<Rightarrow> ustate \<Rightarrow> ustate" where
  "write_file p b s = s\<lparr>us_disk := AList.update p b (us_disk s)\<rparr>"

definition remove_file :: "ustring \<Rightarrow> ustate \<Rightarrow> ustate" where
  "remove_file p s = s\<lparr>us_disk := AList.delete p (us_disk s)\<rparr>"

text \<open>Removing a directory with everything below it.\<close>

definition remove_tree :: "ustring \<Rightarrow> ustate \<Rightarrow> ustate" where
  "remove_tree p s = s\<lparr>us_disk := filter (\<lambda>(q, _). \<not> below p q) (us_disk s),
     us_dirs := filter (\<lambda>q. q \<noteq> p) (us_dirs s)\<rparr>"

text \<open>The names directly inside a directory.\<close>

definition entries :: "ustring \<Rightarrow> ustate \<Rightarrow> ustring list" where
  "entries p s = filter (\<lambda>n. 47 \<notin> set n) (map (relative p) (filter (below p) (map fst (us_disk s))))"

lemma read_write [simp]: "read_file p (write_file q b s) = (if p = q then Some b else read_file p s)"
  by (simp add: read_file_def write_file_def update_conv')

lemma read_remove [simp]: "read_file p (remove_file q s) = (if p = q then None else read_file p s)"
  by (simp add: read_file_def remove_file_def delete_conv')

lemma read_remove_tree [simp]: "read_file p (remove_tree q s) = (if below q p then None else read_file p s)"
proof -
  have "map_of (filter (\<lambda>(k, _). \<not> below q k) xs) p = (if below q p then None else map_of xs p)"
    for xs :: disk by (induction xs) auto
  then show ?thesis by (simp add: read_file_def remove_tree_def)
qed

lemma disk_frame [simp]:
  "us_db (write_file p b s) = us_db s" "us_sessions (write_file p b s) = us_sessions s"
  "us_chunks (write_file p b s) = us_chunks s" "us_fences (write_file p b s) = us_fences s"
  "us_reserved (write_file p b s) = us_reserved s" "us_next (write_file p b s) = us_next s"
  "us_dirs (write_file p b s) = us_dirs s"
  "us_db (remove_file p s) = us_db s" "us_sessions (remove_file p s) = us_sessions s"
  "us_chunks (remove_file p s) = us_chunks s" "us_fences (remove_file p s) = us_fences s"
  "us_reserved (remove_file p s) = us_reserved s" "us_next (remove_file p s) = us_next s"
  "us_dirs (remove_file p s) = us_dirs s"
  "us_db (remove_tree p s) = us_db s" "us_sessions (remove_tree p s) = us_sessions s"
  "us_chunks (remove_tree p s) = us_chunks s" "us_fences (remove_tree p s) = us_fences s"
  "us_reserved (remove_tree p s) = us_reserved s" "us_next (remove_tree p s) = us_next s"
  by (simp_all add: write_file_def remove_file_def remove_tree_def)

lemma rollback_simps [simp]:
  "us_db (rollback s s1) = us_db s" "us_sessions (rollback s s1) = us_sessions s"
  "us_chunks (rollback s s1) = us_chunks s" "us_disk (rollback s s1) = us_disk s1"
  "us_dirs (rollback s s1) = us_dirs s1" "us_fences (rollback s s1) = us_fences s1"
  "us_reserved (rollback s s1) = us_reserved s1" "us_next (rollback s s1) = us_next s"
  "read_file p (rollback s s1) = read_file p s1"
  by (simp_all add: rollback_def read_file_def)

text \<open>The path of a chunk.\<close>

definition chunk_path :: "upload_row \<Rightarrow> nat \<Rightarrow> ustring" where
  "chunk_path u i = up_tempPath u @ [47] @ dec i"

lemma chunk_path_inject [simp]: "chunk_path u i = chunk_path u j \<longleftrightarrow> i = j"
  by (simp add: chunk_path_def)

lemma below_chunk_path [simp]: "below (up_tempPath u) (chunk_path u i)"
  by (simp add: below_def starts_with_def chunk_path_def)

end
