(* ===== verification/Uploads.thy ===== *)
theory Uploads
  imports UploadState
begin

text \<open>
  Resumable uploads on the legacy storage (backend/src/uploads/uploads.service.ts), with the SSD mode
  switched off: limits, session creation, chunks, completion, abort, reconciliation and clean-up.

  \<open>upload_env\<close> holds what a call finds outside the modelled state: the clock, the digest and the MIME
  detection of the runtime, the approval of the workspace, the live checks of the storage, how disk
  writes and the commit end.
\<close>

record upload_config =
  uc_maxFileSize :: int
  uc_maxTotalSize :: int
  uc_maxChunkSize :: int
  uc_maxUploadChunks :: int
  uc_sessionTtlMs :: int

record upload_env =
  ue_config :: upload_config
  ue_now :: int
  ue_sha :: "bytes \<Rightarrow> ustring"
  ue_mime :: "bytes \<Rightarrow> ustring"
  ue_workspace :: "upload_row \<Rightarrow> bool"
  ue_root :: ustring
  ue_lower :: "ustring \<Rightarrow> ustring"
  ue_trusted :: "ustring \<Rightarrow> bool"
  ue_io_ok :: bool
  ue_commit :: commit_outcome

text \<open>
  \<open>PublicUploadAccess\<close>: \<open>a_authorize n\<close> is the \<open>n\<close>-th authorization of the call, as other requests may
  revoke the share in between.
\<close>

record upload_access =
  a_userId :: nat
  a_shareLinkId :: nat
  a_shareRootFolderId :: nat
  a_authorize :: "nat \<Rightarrow> nat \<Rightarrow> bool \<Rightarrow> unit res"
  a_replay :: "upload_row option"
  a_receipt :: "upload_row \<Rightarrow> unit res"

definition final_path :: "upload_env \<Rightarrow> nat \<Rightarrow> ustring \<Rightarrow> ustring \<Rightarrow> ustring res" where
  "final_path env user key name = generateFinalPath (ue_lower env) (ue_trusted env) (ue_root env) user key name"


section \<open>Validation\<close>

definition validateSafePositiveInteger :: "js_value \<Rightarrow> string \<Rightarrow> int res" where
  "validateSafePositiveInteger v label =
     (case v of
        JInt n \<Rightarrow> if \<not> safe_integer n then Inl (BadRequest (label @ '' must be a safe integer''))
                  else if n \<le> 0 then Inl (BadRequest (label @ '' must be > 0'')) else Inr n
      | JNonInt \<Rightarrow> Inl (BadRequest (label @ '' must be a safe integer''))
      | _ \<Rightarrow> Inl (BadRequest (label @ '' must be a finite number'')))"

definition control_char :: "nat \<Rightarrow> bool" where
  "control_char c \<longleftrightarrow> c < 32 \<or> 127 \<le> c \<and> c \<le> 159"

definition validateFilename :: "ustring \<Rightarrow> unit res" where
  "validateFilename f =
     ensure (\<not> (trim f = [] \<or> f = [46] \<or> f = [46, 46] \<or> 255 < length f \<or> 47 \<in> set f \<or> 92 \<in> set f
              \<or> (\<exists>c \<in> set f. control_char c)))
       (BadRequest ''Invalid filename'')"

definition lower_hex :: "nat \<Rightarrow> bool" where
  "lower_hex c \<longleftrightarrow> digit c \<or> 97 \<le> c \<and> c \<le> 102"

definition sha_text :: "ustring \<Rightarrow> bool" where
  "sha_text s \<longleftrightarrow> length s = 64 \<and> (\<forall>c \<in> set s. lower_hex c)"

definition ceil_div :: "int \<Rightarrow> int \<Rightarrow> int" where
  "ceil_div a b = - ((- a) div b)"

definition size_checks :: "upload_config \<Rightarrow> js_value \<Rightarrow> js_value \<Rightarrow> (int \<times> int \<times> nat) res" where
  "size_checks c total0 chunk0 =
     bindE (validateSafePositiveInteger total0 ''totalSize'') (\<lambda>totalSize.
     bindE (validateSafePositiveInteger chunk0 ''chunkSize'') (\<lambda>chunkSize.
     bindE (ensure (chunkSize \<le> uc_maxChunkSize c) (BadRequest ''Chunk size exceeds allowed maximum'')) (\<lambda>_.
     bindE (ensure (\<not> (0 < uc_maxFileSize c \<and> uc_maxFileSize c < totalSize))
        (BadRequest ''File size exceeds allowed maximum'')) (\<lambda>_.
     bindE (ensure (\<not> (0 < uc_maxTotalSize c \<and> uc_maxTotalSize c < totalSize))
        (BadRequest ''Total upload size exceeds allowed maximum'')) (\<lambda>_.
     let totalChunks = ceil_div totalSize chunkSize
     in bindE (ensure (\<not> (totalChunks \<le> 0 \<or> uc_maxUploadChunks c < totalChunks))
          (BadRequest ''Invalid chunk count'')) (\<lambda>_.
     Inr (totalSize, chunkSize, nat totalChunks)))))))"


section \<open>Sessions\<close>

definition session_where :: "nat \<Rightarrow> ustring \<Rightarrow> upload_access option \<Rightarrow> upload_row \<Rightarrow> bool" where
  "session_where user k access u \<longleftrightarrow> up_userId u = user \<and> up_uploadId u = k
     \<and> (case access of
          None \<Rightarrow> up_origin u = OwnerOrigin
        | Some a \<Rightarrow> up_origin u = PublicOrigin \<and> up_shareLinkId u = Some (a_shareLinkId a)
             \<and> up_shareRootFolderId u = Some (a_shareRootFolderId a))"

definition authorizeSession :: "upload_access option \<Rightarrow> upload_row \<Rightarrow> nat \<Rightarrow> bool \<Rightarrow> unit res" where
  "authorizeSession access u n lock =
     (case access of
        None \<Rightarrow> Inr ()
      | Some a \<Rightarrow>
          bindE (ensure (up_origin u = PublicOrigin \<and> up_userId u = a_userId a
                   \<and> up_shareLinkId u = Some (a_shareLinkId a)
                   \<and> up_shareRootFolderId u = Some (a_shareRootFolderId a)
                   \<and> up_parentId u \<noteq> None \<and> up_parentId u \<noteq> Some 0)
             (NotFound ''Upload session unavailable'')) (\<lambda>_.
          a_authorize a n (the (up_parentId u)) lock))"

definition find_session :: "nat \<Rightarrow> ustring \<Rightarrow> upload_access option \<Rightarrow> ustate \<Rightarrow> upload_row option" where
  "find_session user k access s = find (session_where user k access) (us_sessions s)"

definition put_session :: "upload_row \<Rightarrow> ustate \<Rightarrow> ustate" where
  "put_session u s = s\<lparr>us_sessions := put_row up_id u (us_sessions s)\<rparr>"

definition assertLegacyUnreserved :: "upload_row \<Rightarrow> unit ucomp" where
  "assertLegacyUnreserved u =
     bindU (getU us_reserved) (\<lambda>r.
     ensureU (up_id u \<notin> set r) (ServiceUnavailable ''Upload recovery requires operator inspection''))"

definition resolveSessionWorkspace :: "upload_env \<Rightarrow> upload_row \<Rightarrow> unit ucomp" where
  "resolveSessionWorkspace env u =
     ensureU (ue_workspace env u) (ServiceUnavailable ''Upload workspace unavailable'')"

definition require_session :: "nat \<Rightarrow> ustring \<Rightarrow> upload_access option \<Rightarrow> upload_row ucomp" where
  "require_session user k access =
     bindU (getU (find_session user k access)) (\<lambda>m.
     liftU (require m (NotFound ''Upload session not found'')))"

definition active_status :: "upload_status \<Rightarrow> bool" where
  "active_status st \<longleftrightarrow> st = Pending \<or> st = Uploading"

definition active_total :: "nat \<Rightarrow> ustate \<Rightarrow> int" where
  "active_total user s =
     total up_totalSize (filter (\<lambda>u. up_userId u = user \<and> active_status (up_status u)) (us_sessions s))"

definition db_size :: "int \<Rightarrow> int res" where
  "db_size n = parseDatabaseSize (JInt n) size_msg"

definition insert_session :: "upload_row \<Rightarrow> upload_row ucomp" where
  "insert_session u0 =
     bindU (getU us_next) (\<lambda>k.
     let u = u0\<lparr>up_id := k\<rparr>
     in bindU (ensureU (chk_public_origin u) (DbError ''CHK_upload_sessions_public_origin'')) (\<lambda>_.
        bindU (modU (\<lambda>s. s\<lparr>us_sessions := us_sessions s @ [u], us_next := Suc k\<rparr>)) (\<lambda>_. ret u)))"

text \<open>The bound on what a user may have reserved, under the lock of the row of the user.\<close>

definition reserve_checks :: "upload_config \<Rightarrow> user_row \<Rightarrow> int \<Rightarrow> int \<Rightarrow> unit res" where
  "reserve_checks c u active0 totalSize =
     bindE (parseDatabaseSize (bigint_text active0) size_msg) (\<lambda>active.
     bindE (if 0 < uc_maxTotalSize c
            then bindE (db_size (active + totalSize)) (\<lambda>t.
                 ensure (t \<le> uc_maxTotalSize c) (BadRequest ''Total upload size exceeds allowed maximum''))
            else Inr ()) (\<lambda>_.
     bindE (parseDatabaseSize (bigint_text (u_storageQuota u)) size_msg) (\<lambda>quota.
     bindE (parseDatabaseSize (bigint_text (u_storageUsed u)) size_msg) (\<lambda>used.
     bindE (db_size (used + active)) (\<lambda>reserved.
     bindE (db_size (reserved + totalSize)) (\<lambda>nextUsed.
     ensure (nextUsed \<le> quota) (Forbidden ''Storage quota exceeded'')))))))"

definition new_session :: "upload_env \<Rightarrow> ustring \<Rightarrow> nat \<Rightarrow> ustring \<Rightarrow> int \<Rightarrow> int \<Rightarrow> nat \<Rightarrow> nat option
    \<Rightarrow> ustring option \<Rightarrow> upload_access option \<Rightarrow> upload_row" where
  "new_session env k user filename totalSize chunkSize totalChunks parent sha access =
     \<lparr>up_id = 0, up_uploadId = k, up_filename = filename, up_expectedSha256 = sha, up_totalSize = totalSize,
      up_uploadedSize = 0, up_chunkSize = chunkSize, up_totalChunks = totalChunks, up_uploadedCount = 0,
      up_accountingInitialized = True, up_tempPath = ue_root env @ js ''/.tmp/'' @ k, up_parentId = parent,
      up_origin = (if access = None then OwnerOrigin else PublicOrigin),
      up_shareLinkId = map_option a_shareLinkId access,
      up_shareRootFolderId = map_option a_shareRootFolderId access, up_status = Pending,
      up_expiresAt = Some (ue_now env + uc_sessionTtlMs (ue_config env)), up_userId = user,
      up_workspaceId = LEGACY_UPLOAD_WORKSPACE_ID\<rparr>"

definition create_checks :: "upload_config \<Rightarrow> db \<Rightarrow> nat \<Rightarrow> ustring \<Rightarrow> js_value \<Rightarrow> js_value \<Rightarrow> int option
    \<Rightarrow> ustring option \<Rightarrow> (int \<times> int \<times> nat) res" where
  "create_checks c s user filename total0 chunk0 parent sha =
     bindE (ensure (case sha of None \<Rightarrow> True | Some h \<Rightarrow> sha_text h) (BadRequest ''Invalid whole SHA256'')) (\<lambda>_.
     bindE (validateFilename filename) (\<lambda>_.
     bindE (ensure (case parent of None \<Rightarrow> True | Some p \<Rightarrow> safe_integer p \<and> 0 < p)
        (BadRequest ''Invalid target folder'')) (\<lambda>_.
     bindE (ensure (case parent of None \<Rightarrow> True
              | Some p \<Rightarrow> \<exists>d \<in> set (folders s). d_id d = nat p \<and> d_userId d = user)
        (Forbidden ''Target folder not found or access denied'')) (\<lambda>_.
     size_checks c total0 chunk0))))"

definition create_tx :: "upload_env \<Rightarrow> upload_row \<Rightarrow> upload_access option \<Rightarrow> upload_row ucomp" where
  "create_tx env row access =
     bindU (resolveSessionWorkspace env row) (\<lambda>_.
     bindU (getU (\<lambda>s. findById (us_db s) (up_userId row))) (\<lambda>m.
     bindU (liftU (require m (Forbidden ''User not found''))) (\<lambda>owner.
     bindU (liftU (case access of None \<Rightarrow> Inr () | Some a \<Rightarrow> a_authorize a 0 (the (up_parentId row)) True)) (\<lambda>_.
     case Option.bind access a_replay of
       Some prior \<Rightarrow> bindU (liftU (authorizeSession access prior 1 False)) (\<lambda>_. ret prior)
     | None \<Rightarrow>
         bindU (getU (active_total (up_userId row))) (\<lambda>active.
         bindU (liftU (reserve_checks (ue_config env) owner active (up_totalSize row))) (\<lambda>_.
         bindU (insert_session row) (\<lambda>saved.
         bindU (liftU (case access of None \<Rightarrow> Inr () | Some a \<Rightarrow> a_receipt a saved)) (\<lambda>_.
         ret saved))))))))"

definition createUploadSession :: "upload_env \<Rightarrow> ustring \<Rightarrow> nat \<Rightarrow> ustring \<Rightarrow> js_value \<Rightarrow> js_value \<Rightarrow> int option
    \<Rightarrow> ustring option \<Rightarrow> upload_access option \<Rightarrow> upload_row ucomp" where
  "createUploadSession env k user filename total0 chunk0 parent sha access =
     bindU (getU us_db) (\<lambda>d.
     bindU (liftU (create_checks (ue_config env) d user filename total0 chunk0 parent sha))
       (\<lambda>(totalSize, chunkSize, totalChunks).
     bindU (withTransaction (ue_commit env) None
        (create_tx env (new_session env k user filename totalSize chunkSize totalChunks
           (map_option nat parent) sha access) access)) (\<lambda>saved.
     if up_status saved = Completed \<or> up_status saved = Aborted then ret saved
     else if ue_workspace env saved \<and> ue_io_ok env
     then bindU (modU (\<lambda>s. s\<lparr>us_dirs := List.insert (up_tempPath saved) (us_dirs s)\<rparr>)) (\<lambda>_. ret saved)
     else bindU (modU (\<lambda>s. if access = None
                  then s\<lparr>us_sessions := drop_rows up_id [up_id saved] (us_sessions s)\<rparr> else s)) (\<lambda>_.
          liftU (Inl (BadRequest ''Failed to prepare upload session''))))))"

definition after_expiry :: "upload_env \<Rightarrow> upload_row \<Rightarrow> bool" where
  "after_expiry env u \<longleftrightarrow> (case up_expiresAt u of None \<Rightarrow> False | Some e \<Rightarrow> e < ue_now env)"

definition at_expiry :: "upload_env \<Rightarrow> upload_row \<Rightarrow> bool" where
  "at_expiry env u \<longleftrightarrow> (case up_expiresAt u of None \<Rightarrow> False | Some e \<Rightarrow> e \<le> ue_now env)"

definition getUploadSession :: "upload_env \<Rightarrow> nat \<Rightarrow> ustring \<Rightarrow> upload_access option \<Rightarrow> upload_row ucomp" where
  "getUploadSession env user k access =
     bindU (require_session user k access) (\<lambda>u.
     bindU (ensureU (\<not> after_expiry env u) (BadRequest ''Upload session expired'')) (\<lambda>_.
     bindU (liftU (authorizeSession access u 0 False)) (\<lambda>_.
     bindU (assertLegacyUnreserved u) (\<lambda>_.
     bindU (resolveSessionWorkspace env u) (\<lambda>_. ret u)))))"


section \<open>Chunks\<close>

definition expected_size :: "upload_row \<Rightarrow> nat \<Rightarrow> int" where
  "expected_size u i =
     (if i = up_totalChunks u - 1 then up_totalSize u - int i * up_chunkSize u else up_chunkSize u)"

definition find_chunk :: "nat \<Rightarrow> nat \<Rightarrow> ustate \<Rightarrow> chunk_row option" where
  "find_chunk k i s = find (\<lambda>r. ch_session r = k \<and> ch_index r = i) (us_chunks s)"

definition delete_chunks :: "nat \<Rightarrow> ustate \<Rightarrow> ustate" where
  "delete_chunks k s = s\<lparr>us_chunks := filter (\<lambda>r. ch_session r \<noteq> k) (us_chunks s)\<rparr>"

definition upsert_chunk :: "chunk_row \<Rightarrow> chunk_row list \<Rightarrow> chunk_row list" where
  "upsert_chunk r cs =
     (if \<exists>x \<in> set cs. ch_session x = ch_session r \<and> ch_index x = ch_index r
      then map (\<lambda>x. if ch_session x = ch_session r \<and> ch_index x = ch_index r then r else x) cs
      else cs @ [r])"

text \<open>The loop over the indices that adopts the chunk files of a session from before the accounting.\<close>

fun hydrate_loop :: "upload_env \<Rightarrow> upload_row \<Rightarrow> nat list \<Rightarrow> nat \<Rightarrow> int \<Rightarrow> (nat \<times> int) ucomp" where
  "hydrate_loop env u [] count bytes = ret (count, bytes)"
| "hydrate_loop env u (i # is) count bytes =
     bindU (getU (read_file (chunk_path u i))) (\<lambda>m.
     case m of
       None \<Rightarrow> hydrate_loop env u is count bytes
     | Some b \<Rightarrow>
         bindU (modU (\<lambda>s. s\<lparr>us_chunks := upsert_chunk \<lparr>ch_session = up_id u, ch_index = i,
            ch_byteSize = int (length b), ch_sha256 = ue_sha env b\<rparr> (us_chunks s)\<rparr>)) (\<lambda>_.
         bindU (liftU (db_size (bytes + int (length b)))) (\<lambda>bytes'.
         hydrate_loop env u is (count + 1) bytes')))"

definition hydrateLegacyAccounting :: "upload_env \<Rightarrow> upload_row \<Rightarrow> upload_row ucomp" where
  "hydrateLegacyAccounting env u =
     bindU (resolveSessionWorkspace env u) (\<lambda>_.
     bindU (hydrate_loop env u [0..<up_totalChunks u] 0 0) (\<lambda>(count, bytes).
     let u' = u\<lparr>up_uploadedCount := count, up_uploadedSize := bytes, up_accountingInitialized := True\<rparr>
     in bindU (modU (put_session u')) (\<lambda>_. ret u')))"

datatype chunk_data = Buf bytes | IngressFile ustring int

definition dirname :: "ustring \<Rightarrow> ustring" where
  "dirname p = (case last_index 47 p of None \<Rightarrow> [46] | Some i \<Rightarrow> if i = 0 then [47] else take i p)"

definition validateIngressChunk :: "upload_env \<Rightarrow> ustring \<Rightarrow> int \<Rightarrow> bytes ucomp" where
  "validateIngressChunk env p n =
     bindU (ensureU (dirname p = ue_root env @ js ''/.tmp/multipart-ingress'')
        (BadRequest ''Invalid ingress chunk path'')) (\<lambda>_.
     bindU (getU (read_file p)) (\<lambda>m.
     bindU (liftU (require m (BadRequest ''Ingress chunk file is missing''))) (\<lambda>b.
     bindU (ensureU (int (length b) = n \<and> n \<le> uc_maxChunkSize (ue_config env))
        (BadRequest ''Invalid ingress chunk size'')) (\<lambda>_. ret b))))"

definition chunk_bytes :: "upload_env \<Rightarrow> chunk_data \<Rightarrow> bytes ucomp" where
  "chunk_bytes env d = (case d of Buf b \<Rightarrow> ret b | IngressFile p n \<Rightarrow> validateIngressChunk env p n)"

definition remove_ingress :: "chunk_data \<Rightarrow> ustate \<Rightarrow> ustate" where
  "remove_ingress d s = (case d of Buf b \<Rightarrow> s | IngressFile p n \<Rightarrow> remove_file p s)"

definition open_session :: "upload_env \<Rightarrow> nat \<Rightarrow> ustring \<Rightarrow> upload_access option \<Rightarrow> upload_row ucomp" where
  "open_session env user k access =
     bindU (require_session user k access) (\<lambda>u.
     bindU (liftU (authorizeSession access u 0 False)) (\<lambda>_.
     bindU (assertLegacyUnreserved u) (\<lambda>_.
     bindU (resolveSessionWorkspace env u) (\<lambda>_. ret u))))"

definition chunk_checks :: "upload_env \<Rightarrow> upload_row \<Rightarrow> nat \<Rightarrow> int \<Rightarrow> unit res" where
  "chunk_checks env u i n =
     bindE (ensure (\<not> after_expiry env u) (BadRequest ''Upload session expired'')) (\<lambda>_.
     bindE (ensure (up_status u \<noteq> Completed \<and> up_status u \<noteq> Aborted) (BadRequest ''Upload session is closed'')) (\<lambda>_.
     bindE (ensure (i < up_totalChunks u) (BadRequest ''Invalid chunk index'')) (\<lambda>_.
     let remaining = up_totalSize u - int i * up_chunkSize u
     in bindE (ensure (0 < remaining) (BadRequest ''Invalid chunk position'')) (\<lambda>_.
        ensure (n = (if i = up_totalChunks u - 1 then remaining else up_chunkSize u))
          (BadRequest ''Chunk size does not match expected size'')))))"

definition different_content :: http_error where
  "different_content = BadRequest ''Chunk already uploaded with different content''"

text \<open>
  The chunk file is compared when it exists and published by renames otherwise; a failed write leaves
  no staging file behind, and an ingress file that was moved is gone.
\<close>

definition publish_chunk :: "upload_env \<Rightarrow> upload_row \<Rightarrow> nat \<Rightarrow> chunk_data \<Rightarrow> bytes \<Rightarrow> unit ucomp" where
  "publish_chunk env u i d b =
     bindU (getU (read_file (chunk_path u i))) (\<lambda>m.
     case m of
       Some old \<Rightarrow> ensureU (length old = length b \<and> ue_sha env old = ue_sha env b) different_content
     | None \<Rightarrow>
         bindU (getU us_dirs) (\<lambda>dirs.
         bindU (modU (remove_ingress d)) (\<lambda>_.
         bindU (ensureU (ue_io_ok env \<and> up_tempPath u \<in> set dirs) (PlainError ''I/O error'')) (\<lambda>_.
         modU (write_file (chunk_path u i) b)))))"

definition record_chunk :: "upload_env \<Rightarrow> upload_row \<Rightarrow> nat \<Rightarrow> bytes \<Rightarrow> upload_row ucomp" where
  "record_chunk env u i b =
     bindU (modU (\<lambda>s. s\<lparr>us_chunks := us_chunks s @ [\<lparr>ch_session = up_id u, ch_index = i,
        ch_byteSize = int (length b), ch_sha256 = ue_sha env b\<rparr>]\<rparr>)) (\<lambda>_.
     bindU (liftU (db_size (up_uploadedSize u + int (length b)))) (\<lambda>n.
     ret (u\<lparr>up_uploadedCount := up_uploadedCount u + 1, up_uploadedSize := n\<rparr>)))"

definition chunk_store :: "upload_env \<Rightarrow> upload_row \<Rightarrow> nat \<Rightarrow> chunk_data \<Rightarrow> bytes \<Rightarrow> upload_access option
    \<Rightarrow> upload_row ucomp" where
  "chunk_store env u i d b access =
     bindU (getU (find_chunk (up_id u) i)) (\<lambda>rec.
     bindU (ensureU (case rec of None \<Rightarrow> True
              | Some r \<Rightarrow> ch_byteSize r = int (length b) \<and> ch_sha256 r = ue_sha env b) different_content) (\<lambda>_.
     bindU (publish_chunk env u i d b) (\<lambda>_.
     bindU (if rec = None then record_chunk env u i b else ret u) (\<lambda>u1.
     bindU (liftU (authorizeSession access u1 1 False)) (\<lambda>_.
     bindU (modU (put_session (u1\<lparr>up_status := Uploading\<rparr>))) (\<lambda>_.
     ret (u1\<lparr>up_status := Uploading\<rparr>)))))))"

definition chunk_tx :: "upload_env \<Rightarrow> nat \<Rightarrow> ustring \<Rightarrow> nat \<Rightarrow> chunk_data \<Rightarrow> bytes \<Rightarrow> upload_access option
    \<Rightarrow> upload_row ucomp" where
  "chunk_tx env user k i d b access =
     bindU (open_session env user k access) (\<lambda>u0.
     bindU (liftU (chunk_checks env u0 i (int (length b)))) (\<lambda>_.
     bindU (if up_accountingInitialized u0 then ret u0 else hydrateLegacyAccounting env u0) (\<lambda>u.
     chunk_store env u i d b access)))"

definition uploadChunk :: "upload_env \<Rightarrow> nat \<Rightarrow> ustring \<Rightarrow> js_value \<Rightarrow> chunk_data \<Rightarrow> upload_access option
    \<Rightarrow> upload_row ucomp" where
  "uploadChunk env user k index d access s =
     (case index of
        JInt n \<Rightarrow>
          if \<not> (safe_integer n \<and> 0 \<le> n)
          then (s, Inl (BadRequest ''chunkIndex must be a non-negative safe integer''))
          else (case chunk_bytes env d s of
                  (s0, Inl e) \<Rightarrow> (s0, Inl e)
                | (s0, Inr b) \<Rightarrow>
                    (case withTransaction (ue_commit env) (Some k) (chunk_tx env user k (nat n) d b access) s0 of
                       (s1, r) \<Rightarrow>
                         (if k \<notin> set (us_fences s0) \<and> is_ok (snd (open_session env user k access s0))
                          then remove_ingress d s1 else s1, r)))
      | _ \<Rightarrow> (s, Inl (BadRequest ''chunkIndex must be a non-negative safe integer'')))"

end
