(* ===== verification/UploadFinish.thy ===== *)
theory UploadFinish
  imports Uploads
begin

text \<open>
  The end of an upload (backend/src/uploads/uploads.service.ts): assembly of the chunks under the
  fence of the upload, publication of the file in one transaction, abort, reconciliation with a
  client, and the clean-up jobs.
\<close>

section \<open>Left-overs of earlier attempts\<close>

text \<open>The regular expression \<open>/^\.assembly-([0-9a-f-]{36})$/\<close>.\<close>

definition assembly_prefix :: ustring where
  "assembly_prefix = js ''.assembly-''"

definition assembly_id :: "ustring \<Rightarrow> ustring option" where
  "assembly_id entry =
     (let r = drop (length assembly_prefix) entry
      in if starts_with assembly_prefix entry \<and> length r = 36 \<and> (\<forall>c \<in> set r. lower_hex c \<or> c = 45)
         then Some r else None)"

definition attempt_key :: "upload_row \<Rightarrow> ustring \<Rightarrow> ustring" where
  "attempt_key u m = up_uploadId u @ [46] @ m"

definition attempt_path :: "upload_row \<Rightarrow> ustring \<Rightarrow> ustring" where
  "attempt_path u m = up_tempPath u @ [47] @ assembly_prefix @ m"

fun remove_attempts :: "upload_env \<Rightarrow> upload_row \<Rightarrow> ustring option \<Rightarrow> ustring list \<Rightarrow> unit ucomp" where
  "remove_attempts env u committed [] = ret ()"
| "remove_attempts env u committed (e # es) =
     (case assembly_id e of
        None \<Rightarrow> remove_attempts env u committed es
      | Some m \<Rightarrow>
          bindU (liftU (final_path env (up_userId u) (attempt_key u m) (up_filename u))) (\<lambda>p.
          bindU (modU (\<lambda>s. if Some p = committed then s else remove_file p s)) (\<lambda>_.
          bindU (modU (remove_file (up_tempPath u @ [47] @ e))) (\<lambda>_.
          remove_attempts env u committed es))))"

definition committed_file :: "upload_row \<Rightarrow> ustate \<Rightarrow> file_row option" where
  "committed_file u s =
     find (\<lambda>f. f_uploadId f = Some (up_uploadId u) \<and> f_userId f = up_userId u) (files (us_db s))"

definition cleanupUnpublishedAssembly :: "upload_env \<Rightarrow> upload_row \<Rightarrow> file_row option ucomp" where
  "cleanupUnpublishedAssembly env u =
     bindU (assertLegacyUnreserved u) (\<lambda>_.
     if up_filename u = [] then ret None
     else
       bindU (getU (\<lambda>s. if up_tempPath u \<in> set (us_dirs s) then entries (up_tempPath u) s else [])) (\<lambda>attempts.
       bindU (getU (committed_file u)) (\<lambda>committed.
       bindU (remove_attempts env u (Option.bind committed f_storagePath) attempts) (\<lambda>_.
       case committed of
         Some f \<Rightarrow> ret (Some f)
       | None \<Rightarrow>
           bindU (liftU (final_path env (up_userId u) (up_uploadId u) (up_filename u))) (\<lambda>p.
           bindU (modU (remove_file p)) (\<lambda>_. ret None))))))"

definition temp_root :: "upload_env \<Rightarrow> ustring" where
  "temp_root env = ue_root env @ js ''/.tmp''"

definition deleteTempFiles :: "upload_env \<Rightarrow> ustring \<Rightarrow> unit ucomp" where
  "deleteTempFiles env p =
     bindU (ensureU (p \<noteq> temp_root env) (PlainError ''Temporary root deletion refused'')) (\<lambda>_.
     modU (remove_tree p))"

text \<open>\<open>try { m } catch {}\<close>\<close>

definition quietly :: "'a ucomp \<Rightarrow> unit ucomp" where
  "quietly m s = (fst (m s), Inr ())"


section \<open>Assembly\<close>

record attempt =
  at_path :: ustring
  at_final :: ustring
  at_data :: bytes
  at_digest :: ustring

text \<open>\<open>chunkSequence\<close>: the chunks in order, each of its expected size and, if it has a record, as recorded.\<close>

fun read_chunks :: "upload_env \<Rightarrow> upload_row \<Rightarrow> nat list \<Rightarrow> ustate \<Rightarrow> bytes res" where
  "read_chunks env u [] s = Inr []"
| "read_chunks env u (i # is) s =
     bindE (require (read_file (chunk_path u i) s) (PlainError ''ENOENT'')) (\<lambda>b.
     bindE (ensure (int (length b) = expected_size u i) (BadRequest ''Chunk size does not match'')) (\<lambda>_.
     bindE (ensure (case find_chunk (up_id u) i s of None \<Rightarrow> True
              | Some r \<Rightarrow> ch_byteSize r = expected_size u i \<and> ch_sha256 r = ue_sha env b)
        (BadRequest ''Chunk integrity mismatch'')) (\<lambda>_.
     bindE (read_chunks env u is s) (\<lambda>rest. Inr (b @ rest)))))"

definition assemble :: "upload_env \<Rightarrow> ustring \<Rightarrow> upload_row \<Rightarrow> attempt ucomp" where
  "assemble env m u =
     bindU (liftU (final_path env (up_userId u) (attempt_key u m) (up_filename u))) (\<lambda>final.
     let p = attempt_path u m
     in bindU (getU (\<lambda>s. read_file p s = None \<and> up_tempPath u \<in> set (us_dirs s))) (\<lambda>free.
     bindU (ensureU (ue_io_ok env \<and> free) (PlainError ''I/O error'')) (\<lambda>_.
     bindU (getU (read_chunks env u [0..<up_totalChunks u])) (\<lambda>r.
     bindU (liftU r) (\<lambda>data.
     bindU (ensureU (int (length data) = up_totalSize u)
        (BadRequest ''Actual file size does not match declared totalSize'')) (\<lambda>_.
     let digest = ue_sha env data
     in bindU (ensureU (case up_expectedSha256 u of None \<Rightarrow> True | Some h \<Rightarrow> h = [] \<or> h = digest)
          (BadRequest ''Whole-file integrity mismatch'')) (\<lambda>_.
        bindU (modU (write_file p data)) (\<lambda>_.
        ret \<lparr>at_path = p, at_final = final, at_data = data, at_digest = digest\<rparr>))))))))"


section \<open>Publication\<close>

text \<open>
  The folders above the destination, the cardinality of the path bounded by 128 and a folder met twice
  ending the recursion.
\<close>

fun dest_chain :: "db \<Rightarrow> nat \<Rightarrow> nat \<Rightarrow> nat list \<Rightarrow> nat \<Rightarrow> folder_row list" where
  "dest_chain s user 0 path k = []"
| "dest_chain s user (Suc n) path k =
     (if k \<in> set path then []
      else case find (\<lambda>d. d_id d = k \<and> d_userId d = user \<and> \<not> d_isDeleted d \<and> live_mirror s user k) (folders s) of
             None \<Rightarrow> []
           | Some d \<Rightarrow> d # (case d_parentId d of None \<Rightarrow> [] | Some p \<Rightarrow> dest_chain s user n (path @ [k]) p))"

definition lockPublicationDestination :: "db \<Rightarrow> nat \<Rightarrow> nat option \<Rightarrow> unit res" where
  "lockPublicationDestination s user parent =
     (case parent of
        None \<Rightarrow> Inr ()
      | Some p \<Rightarrow>
          ensure (\<exists>d \<in> set (dest_chain s user 128 [] p). d_parentId d = None)
            (NotFound ''Destination folder unavailable''))"

definition active_user :: "nat \<Rightarrow> user_row ucomp" where
  "active_user user =
     bindU (getU (\<lambda>s. findById (us_db s) user)) (\<lambda>m.
     bindU (liftU (require m (Forbidden ''User unavailable''))) (\<lambda>u.
     bindU (ensureU (u_isActive u) (Forbidden ''User unavailable'')) (\<lambda>_. ret u)))"

definition same_session :: "upload_row \<Rightarrow> upload_row \<Rightarrow> bool" where
  "same_session u c \<longleftrightarrow> up_parentId c = up_parentId u \<and> up_workspaceId c = up_workspaceId u \<and> up_filename c = up_filename u
     \<and> up_totalSize c = up_totalSize u \<and> up_chunkSize c = up_chunkSize u
     \<and> up_expectedSha256 c = up_expectedSha256 u \<and> active_status (up_status c)"

definition still_current :: "upload_env \<Rightarrow> nat \<Rightarrow> upload_row \<Rightarrow> upload_access option \<Rightarrow> upload_row ucomp" where
  "still_current env user u access =
     bindU (getU (find_session user (up_uploadId u) access)) (\<lambda>m.
     bindU (ensureU (case m of None \<Rightarrow> False | Some c \<Rightarrow> same_session u c)
        (Conflict ''Upload session changed during assembly'')) (\<lambda>_.
     let c = the m
     in bindU (ensureU (\<not> at_expiry env c) (BadRequest ''Upload session expired'')) (\<lambda>_.
        bindU (assertLegacyUnreserved c) (\<lambda>_.
        bindU (resolveSessionWorkspace env c) (\<lambda>_. ret c)))))"

definition quota_admits :: "user_row \<Rightarrow> int \<Rightarrow> unit res" where
  "quota_admits u active0 =
     bindE (parseDatabaseSize (bigint_text (u_storageUsed u)) size_msg) (\<lambda>used.
     bindE (parseDatabaseSize (bigint_text active0) size_msg) (\<lambda>active.
     bindE (db_size (used + active)) (\<lambda>sum.
     bindE (parseDatabaseSize (bigint_text (u_storageQuota u)) size_msg) (\<lambda>quota.
     ensure (sum \<le> quota) (Forbidden ''Storage quota exceeded'')))))"

definition link_attempt :: "upload_env \<Rightarrow> attempt \<Rightarrow> placement ucomp" where
  "link_attempt env a =
     bindU (getU (\<lambda>s. (read_file (at_path a) s, read_file (at_final a) s))) (\<lambda>(src, dst).
     bindU (ensureU (src \<noteq> None \<and> dst = None \<and> ue_io_ok env) (PlainError ''I/O error'')) (\<lambda>_.
     bindU (modU (write_file (at_final a) (the src))) (\<lambda>_.
     liftU (placementForPath (ue_trusted env) (ue_root env) (at_final a)))))"

definition liftDb :: "(db \<Rightarrow> (db \<times> 'a) res) \<Rightarrow> 'a ucomp" where
  "liftDb f =
     bindU (getU (\<lambda>s. f (us_db s))) (\<lambda>r.
     bindU (liftU r) (\<lambda>(d, x).
     bindU (modU (\<lambda>s. s\<lparr>us_db := d\<rparr>)) (\<lambda>_. ret x)))"

definition uploaded_file :: "upload_env \<Rightarrow> attempt \<Rightarrow> upload_row \<Rightarrow> ustring \<Rightarrow> placement \<Rightarrow> file_row" where
  "uploaded_file env a c name pl =
     (new_file name pl (int (length (at_data a))) (Some (ue_mime env (at_data a))) (up_parentId c) (up_userId c))
       \<lparr>f_uploadId := Some (up_uploadId c)\<rparr>"

definition completed_session :: "attempt \<Rightarrow> upload_row \<Rightarrow> upload_row" where
  "completed_session a c = c\<lparr>up_status := Completed, up_uploadedSize := int (length (at_data a)),
     up_uploadedCount := up_totalChunks c, up_accountingInitialized := True\<rparr>"

definition publish :: "upload_env \<Rightarrow> attempt \<Rightarrow> upload_row \<Rightarrow> upload_access option \<Rightarrow> file_row ucomp" where
  "publish env a u access =
     (let user = up_userId u
      in bindU (active_user user) (\<lambda>owner.
         bindU (liftU (authorizeSession access u 1 True)) (\<lambda>_.
         bindU (getU (\<lambda>s. lockPublicationDestination (us_db s) user (up_parentId u))) (\<lambda>r.
         bindU (liftU r) (\<lambda>_.
         bindU (still_current env user u access) (\<lambda>c.
         bindU (getU (active_total user)) (\<lambda>active.
         bindU (liftU (quota_admits owner active)) (\<lambda>_.
         bindU (getU (\<lambda>s. allocateNamespaceName (us_db s) user (up_parentId c) (up_filename c) KFile None None)) (\<lambda>n.
         bindU (liftU n) (\<lambda>name.
         bindU (link_attempt env a) (\<lambda>pl.
         bindU (liftU (authorizeSession access c 2 False)) (\<lambda>_.
         bindU (liftDb (insert_file (uploaded_file env a c name pl))) (\<lambda>file.
         bindU (liftDb (\<lambda>d. bindE (updateStorageUsed user (int (length (at_data a))) d) (\<lambda>d'. Inr (d', ())))) (\<lambda>_.
         bindU (modU (delete_chunks (up_id c))) (\<lambda>_.
         bindU (liftU (authorizeSession access c 3 False)) (\<lambda>_.
         bindU (modU (put_session (completed_session a c))) (\<lambda>_. ret file)))))))))))))))))"

text \<open>
  The outer \<open>catch\<close> removes the objects of this attempt while no commit was attempted; after an
  uncertain commit they stay.
\<close>

definition discard :: "attempt \<Rightarrow> ustate \<Rightarrow> ustate" where
  "discard a s = remove_file (at_path a) (remove_file (at_final a) s)"

definition publication :: "upload_env \<Rightarrow> attempt \<Rightarrow> upload_row \<Rightarrow> upload_access option \<Rightarrow> file_row ucomp" where
  "publication env a u access s =
     (case publish env a u access s of
        (s1, Inl e) \<Rightarrow> (discard a (rollback s s1), Inl e)
      | (s1, Inr f) \<Rightarrow> runnerTransaction (ue_commit env) (publish env a u access) s)"

definition repair :: "upload_env \<Rightarrow> file_row \<Rightarrow> upload_row \<Rightarrow> upload_access option \<Rightarrow> file_row ucomp" where
  "repair env recovered u access =
     (let user = up_userId u
      in bindU (active_user user) (\<lambda>_.
         bindU (liftU (authorizeSession access u 1 True)) (\<lambda>_.
         bindU (getU (\<lambda>s. lockPublicationDestination (us_db s) user (up_parentId u))) (\<lambda>r.
         bindU (liftU r) (\<lambda>_.
         bindU (getU (find_session user (up_uploadId u) access)) (\<lambda>m.
         bindU (getU (\<lambda>s. find (\<lambda>f. f_id f = f_id recovered \<and> f_userId f = user
            \<and> f_uploadId f = Some (up_uploadId u) \<and> \<not> f_isDeleted f) (files (us_db s)))) (\<lambda>file.
         bindU (ensureU (case (m, file) of
              (Some c, Some f) \<Rightarrow> active_status (up_status c) \<and> up_parentId c = up_parentId u \<and> f_parentId f = up_parentId c
            | _ \<Rightarrow> False) (Conflict ''Upload recovery state changed'')) (\<lambda>_.
         let c = the m
         in bindU (ensureU (\<not> at_expiry env c) (BadRequest ''Upload session expired'')) (\<lambda>_.
            bindU (assertLegacyUnreserved c) (\<lambda>_.
            bindU (liftU (authorizeSession access c 2 False)) (\<lambda>_.
            bindU (modU (delete_chunks (up_id c))) (\<lambda>_.
            bindU (modU (put_session (c\<lparr>up_status := Completed\<rparr>))) (\<lambda>_. ret (the file))))))))))))))"

definition completed_before :: "upload_env \<Rightarrow> upload_row \<Rightarrow> upload_access option \<Rightarrow> file_row ucomp" where
  "completed_before env u access =
     bindU (getU (\<lambda>s. find (\<lambda>f. f_uploadId f = Some (up_uploadId u) \<and> f_userId f = up_userId u
        \<and> \<not> f_isDeleted f) (files (us_db s)))) (\<lambda>m.
     bindU (liftU (require m (BadRequest ''Upload already completed but file record missing''))) (\<lambda>f.
     bindU (liftU (case access of
          None \<Rightarrow> Inr ()
        | Some a \<Rightarrow> bindE (a_authorize a 1 (the (f_parentId f)) False) (\<lambda>_.
            ensure (f_parentId f = up_parentId u) (Conflict ''Uploaded file moved; tree resume requires review'')))) (\<lambda>_.
     bindU (quietly (bindU (cleanupUnpublishedAssembly env u) (\<lambda>_. deleteTempFiles env (up_tempPath u)))) (\<lambda>_.
     ret f))))"

text \<open>
  \<open>interfere\<close> is what other requests commit while the file is assembled; \<open>m\<close> is the generated
  identifier of the attempt.
\<close>

definition complete_body :: "upload_env \<Rightarrow> ustring \<Rightarrow> (ustate \<Rightarrow> ustate) \<Rightarrow> nat \<Rightarrow> ustring
    \<Rightarrow> upload_access option \<Rightarrow> file_row ucomp" where
  "complete_body env m interfere user k access =
     bindU (open_session env user k access) (\<lambda>u.
     bindU (ensureU (\<not> after_expiry env u) (BadRequest ''Upload session expired'')) (\<lambda>_.
     if up_status u = Completed then completed_before env u access
     else if up_status u = Aborted then liftU (Inl (BadRequest ''Upload was aborted''))
     else
       bindU (cleanupUnpublishedAssembly env u) (\<lambda>recovered.
       case recovered of
         Some f \<Rightarrow>
           bindU (runnerTransaction (ue_commit env) (repair env f u access)) (\<lambda>file.
           bindU (quietly (deleteTempFiles env (up_tempPath u))) (\<lambda>_. ret file))
       | None \<Rightarrow>
           bindU (assemble env m u) (\<lambda>a.
           bindU (modU interfere) (\<lambda>_.
           bindU (publication env a u access) (\<lambda>file.
           bindU (quietly (deleteTempFiles env (up_tempPath u))) (\<lambda>_. ret file)))))))"

definition completeUpload :: "upload_env \<Rightarrow> int \<Rightarrow> ustring \<Rightarrow> (ustate \<Rightarrow> ustate) \<Rightarrow> nat \<Rightarrow> ustring
    \<Rightarrow> upload_access option \<Rightarrow> file_row ucomp" where
  "completeUpload env pool m interfere user k access =
     withAssemblyFence pool k (access \<noteq> None) (complete_body env m interfere user k access)"


section \<open>Abort, reconciliation, listing\<close>

definition abort_tx :: "upload_env \<Rightarrow> nat \<Rightarrow> ustring \<Rightarrow> upload_access option \<Rightarrow> unit ucomp" where
  "abort_tx env user k access =
     bindU (require_session user k access) (\<lambda>u.
     bindU (liftU (authorizeSession access u 0 False)) (\<lambda>_.
     bindU (resolveSessionWorkspace env u) (\<lambda>_.
     bindU (ensureU (up_status u \<noteq> Completed) (BadRequest ''Cannot abort a completed upload'')) (\<lambda>_.
     bindU (cleanupUnpublishedAssembly env u) (\<lambda>_.
     bindU (deleteTempFiles env (up_tempPath u)) (\<lambda>_.
     bindU (modU (delete_chunks (up_id u))) (\<lambda>_.
     modU (put_session (u\<lparr>up_status := Aborted\<rparr>)))))))))"

definition abortUpload :: "upload_env \<Rightarrow> nat \<Rightarrow> ustring \<Rightarrow> upload_access option \<Rightarrow> unit ucomp" where
  "abortUpload env user k access = withTransaction (ue_commit env) (Some k) (abort_tx env user k access)"

record session_metadata =
  sm_uploadId :: ustring
  sm_filename :: ustring
  sm_totalSize :: int
  sm_chunkSize :: int
  sm_totalChunks :: nat
  sm_uploadedSize :: int
  sm_status :: upload_status
  sm_expiresAt :: "int option"
  sm_parentId :: "nat option"

definition toSessionMetadata :: "upload_row \<Rightarrow> session_metadata" where
  "toSessionMetadata u = \<lparr>sm_uploadId = up_uploadId u, sm_filename = up_filename u,
     sm_totalSize = up_totalSize u, sm_chunkSize = up_chunkSize u, sm_totalChunks = up_totalChunks u,
     sm_uploadedSize = up_uploadedSize u, sm_status = up_status u, sm_expiresAt = up_expiresAt u,
     sm_parentId = up_parentId u\<rparr>"

record reconciliation =
  rc_session :: session_metadata
  rc_chunks :: "(nat \<times> int \<times> ustring) list"
  rc_file :: "file_row option"

fun sum_sizes_of :: "int \<Rightarrow> chunk_row list \<Rightarrow> int res" where
  "sum_sizes_of n [] = Inr n"
| "sum_sizes_of n (r # rs) = bindE (db_size (n + ch_byteSize r)) (\<lambda>n'. sum_sizes_of n' rs)"

definition session_chunks :: "upload_config \<Rightarrow> nat \<Rightarrow> ustate \<Rightarrow> chunk_row list" where
  "session_chunks c k s =
     take (nat (uc_maxUploadChunks c)) (sort_key ch_index (filter (\<lambda>r. ch_session r = k) (us_chunks s)))"

definition reconcile_completed :: "upload_row \<Rightarrow> upload_access option \<Rightarrow> reconciliation ucomp" where
  "reconcile_completed u access =
     bindU (getU (committed_file u)) (\<lambda>m.
     bindU (liftU (case (access, m) of
          (Some a, Some f) \<Rightarrow> bindE (a_authorize a 1 (the (f_parentId f)) False) (\<lambda>_.
            ensure (f_parentId f = up_parentId u) (Conflict ''Uploaded file moved; tree resume requires review''))
        | _ \<Rightarrow> Inr ())) (\<lambda>_.
     bindU (ensureU (case m of None \<Rightarrow> False | Some f \<Rightarrow> \<not> f_isDeleted f)
        (NotFound ''Completed upload file not found'')) (\<lambda>_.
     ret \<lparr>rc_session = toSessionMetadata u, rc_chunks = [], rc_file = m\<rparr>)))"

definition reconcile_tx :: "upload_env \<Rightarrow> nat \<Rightarrow> ustring \<Rightarrow> upload_access option \<Rightarrow> reconciliation ucomp" where
  "reconcile_tx env user k access =
     bindU (require_session user k access) (\<lambda>u0.
     bindU (liftU (authorizeSession access u0 0 False)) (\<lambda>_.
     bindU (resolveSessionWorkspace env u0) (\<lambda>_.
     bindU (ensureU (up_status u0 = Completed \<or> \<not> at_expiry env u0) (BadRequest ''Upload session expired'')) (\<lambda>_.
     if up_status u0 = Completed then reconcile_completed u0 access
     else if up_status u0 = Aborted
     then ret \<lparr>rc_session = (toSessionMetadata u0)\<lparr>sm_uploadedSize := 0\<rparr>, rc_chunks = [], rc_file = None\<rparr>
     else
       bindU (if up_accountingInitialized u0 then ret u0 else hydrateLegacyAccounting env u0) (\<lambda>u.
       bindU (getU (session_chunks (ue_config env) (up_id u))) (\<lambda>rs.
       bindU (liftU (sum_sizes_of 0 rs)) (\<lambda>n.
       ret \<lparr>rc_session = (toSessionMetadata u)\<lparr>sm_uploadedSize := n\<rparr>,
            rc_chunks = map (\<lambda>r. (ch_index r, ch_byteSize r, ch_sha256 r)) rs, rc_file = None\<rparr>)))))))"

definition reconcileUploadSession :: "upload_env \<Rightarrow> nat \<Rightarrow> ustring \<Rightarrow> upload_access option \<Rightarrow> reconciliation ucomp" where
  "reconcileUploadSession env user k access =
     withTransaction (ue_commit env) (Some k) (reconcile_tx env user k access)"

text \<open>Rows are stored in the order of their creation.\<close>

definition listUploadSessions :: "upload_env \<Rightarrow> nat \<Rightarrow> session_metadata list ucomp" where
  "listUploadSessions env user =
     bindU (getU (\<lambda>s. take 200 (rev (filter (\<lambda>u. up_userId u = user \<and> active_status (up_status u)
        \<and> up_origin u = OwnerOrigin \<and> (case up_expiresAt u of None \<Rightarrow> False | Some e \<Rightarrow> ue_now env < e))
        (us_sessions s))))) (\<lambda>us.
     bindU (ensureU (\<forall>u \<in> set us. ue_workspace env u) (ServiceUnavailable ''Upload workspace unavailable'')) (\<lambda>_.
     ret (map toSessionMetadata us)))"

record upload_limits =
  ul_maxFileBytes :: "int option"
  ul_maxActiveBytes :: "int option"
  ul_maxChunkBytes :: int
  ul_maxChunks :: int
  ul_remainingActiveBytes :: "int option"
  ul_quotaRemainingBytes :: int
  ul_effectiveMaxFileBytes :: int

definition limits_of :: "upload_config \<Rightarrow> int \<Rightarrow> int \<Rightarrow> int \<Rightarrow> int \<Rightarrow> upload_limits" where
  "limits_of c active quota used_active maxProduct =
     (let quotaRemaining = max 0 (quota - used_active);
          remainingActive = (if 0 < uc_maxTotalSize c then Some (max 0 (uc_maxTotalSize c - active)) else None);
          maxFile = (if 0 < uc_maxFileSize c then Some (uc_maxFileSize c) else None);
          or_max = (\<lambda>m. case m of None \<Rightarrow> max_safe | Some n \<Rightarrow> n)
      in \<lparr>ul_maxFileBytes = maxFile,
          ul_maxActiveBytes = (if uc_maxTotalSize c = 0 then None else Some (uc_maxTotalSize c)),
          ul_maxChunkBytes = uc_maxChunkSize c, ul_maxChunks = uc_maxUploadChunks c,
          ul_remainingActiveBytes = remainingActive, ul_quotaRemainingBytes = quotaRemaining,
          ul_effectiveMaxFileBytes =
            min (or_max maxFile) (min (or_max remainingActive) (min quotaRemaining (min maxProduct max_safe)))\<rparr>)"

definition getUploadLimits :: "upload_config \<Rightarrow> nat \<Rightarrow> upload_limits ucomp" where
  "getUploadLimits c user =
     bindU (getU (\<lambda>s. findById (us_db s) user)) (\<lambda>m.
     bindU (liftU (require m (Forbidden ''User not found''))) (\<lambda>u.
     bindU (getU (active_total user)) (\<lambda>active0.
     bindU (liftU (parseDatabaseSize (bigint_text active0) size_msg)) (\<lambda>active.
     bindU (liftU (parseDatabaseSize (bigint_text (u_storageQuota u)) size_msg)) (\<lambda>quota.
     bindU (liftU (parseDatabaseSize (bigint_text (u_storageUsed u)) size_msg)) (\<lambda>used.
     bindU (liftU (db_size (used + active))) (\<lambda>ua.
     ret (limits_of c active quota ua (uc_maxUploadChunks c * uc_maxChunkSize c)))))))))"


section \<open>Clean-up jobs\<close>

definition closed :: "upload_row \<Rightarrow> bool" where
  "closed u \<longleftrightarrow> up_status u = Completed \<or> up_status u = Aborted"

definition remove_session :: "upload_row \<Rightarrow> ustate \<Rightarrow> ustate" where
  "remove_session u s = s\<lparr>us_sessions := drop_rows up_id [up_id u] (us_sessions s)\<rparr>"

definition expire_session :: "upload_env \<Rightarrow> upload_row \<Rightarrow> nat ucomp" where
  "expire_session env u =
     bindU (cleanupUnpublishedAssembly env u) (\<lambda>_.
     bindU (deleteTempFiles env (up_tempPath u)) (\<lambda>_.
     bindU (modU (delete_chunks (up_id u))) (\<lambda>_.
     bindU (modU (\<lambda>s. if closed u then s else remove_session u s)) (\<lambda>_.
     ret (if closed u then 0 else 1)))))"

definition expire_tx :: "upload_env \<Rightarrow> upload_row \<Rightarrow> nat ucomp" where
  "expire_tx env cand =
     bindU (getU us_fences) (\<lambda>held.
     if up_uploadId cand \<in> set held then ret 0
     else
       bindU (getU (\<lambda>s. find (\<lambda>u. up_id u = up_id cand) (us_sessions s))) (\<lambda>m.
       case m of
         None \<Rightarrow> ret 0
       | Some u \<Rightarrow>
           bindU (resolveSessionWorkspace env u) (\<lambda>_.
           if \<not> closed u \<and> \<not> after_expiry env u then ret 0 else expire_session env u)))"

fun expire_all :: "upload_env \<Rightarrow> upload_row list \<Rightarrow> nat \<Rightarrow> nat ucomp" where
  "expire_all env [] n = ret n"
| "expire_all env (u # us) n =
     bindU (withTransaction (ue_commit env) None (expire_tx env u)) (\<lambda>k. expire_all env us (n + k))"

definition cleanupExpiredSessions :: "upload_env \<Rightarrow> nat ucomp" where
  "cleanupExpiredSessions env =
     bindU (getU (\<lambda>s. filter (\<lambda>u. active_status (up_status u)) (us_sessions s))) (\<lambda>us.
     expire_all env us 0)"

text \<open>An exception ends the loop, and the job still reports what it removed.\<close>

fun remove_dirs :: "upload_env \<Rightarrow> ustring list \<Rightarrow> ustring list \<Rightarrow> nat \<Rightarrow> nat ucomp" where
  "remove_dirs env referenced [] n s = (s, Inr n)"
| "remove_dirs env referenced (p # ps) n s =
     (if p = temp_root env @ js ''/multipart-ingress'' \<or> p \<in> set referenced then remove_dirs env referenced ps n s
      else (case deleteTempFiles env p s of
              (s1, Inl e) \<Rightarrow> (s1, Inr n)
            | (s1, Inr _) \<Rightarrow> remove_dirs env referenced ps (n + 1) s1))"

definition cleanupOrphanedTempDirs :: "upload_env \<Rightarrow> nat ucomp" where
  "cleanupOrphanedTempDirs env =
     bindU (getU (\<lambda>s. map up_tempPath (filter (\<lambda>u. active_status (up_status u) \<or> up_id u \<in> set (us_reserved s))
        (us_sessions s)))) (\<lambda>referenced.
     bindU (getU us_dirs) (\<lambda>dirs.
     remove_dirs env referenced dirs 0))"

end
