(* ===== verification/UploadProps.thy ===== *)
theory UploadProps
  imports UploadFinish
begin

text \<open>
  The accounts of uploads as an invariant of the database: every open session counts exactly its
  chunk records, records belong to open sessions, and what a user has stored and reserved together
  stays within the quota.
\<close>

section \<open>The invariant\<close>

definition rows_of :: "nat \<Rightarrow> ustate \<Rightarrow> chunk_row list" where
  "rows_of k s = filter (\<lambda>r. ch_session r = k) (us_chunks s)"

definition session_ok :: "ustate \<Rightarrow> upload_row \<Rightarrow> bool" where
  "session_ok s u \<longleftrightarrow> up_id u < us_next s \<and> up_accountingInitialized u \<and> 0 < up_chunkSize u
     \<and> 0 < up_totalSize u \<and> up_totalSize u \<le> max_safe
     \<and> up_totalChunks u = nat (ceil_div (up_totalSize u) (up_chunkSize u))
     \<and> (active_status (up_status u) \<longrightarrow> up_uploadedCount u = length (rows_of (up_id u) s)
          \<and> up_uploadedSize u = total ch_byteSize (rows_of (up_id u) s))"

definition chunk_ok :: "ustate \<Rightarrow> chunk_row \<Rightarrow> bool" where
  "chunk_ok s r \<longleftrightarrow> (\<exists>u \<in> set (us_sessions s). up_id u = ch_session r \<and> active_status (up_status u)
     \<and> ch_index r < up_totalChunks u \<and> ch_byteSize r = expected_size u (ch_index r))"

definition reserve_ok :: "ustate \<Rightarrow> bool" where
  "reserve_ok s \<longleftrightarrow> (\<forall>k. used_of (us_db s) k + active_total k s \<le> quota_of (us_db s) k)"

definition accounts_ok :: "ustate \<Rightarrow> bool" where
  "accounts_ok s \<longleftrightarrow> users_ok (us_db s) \<and> distinct (map up_id (us_sessions s))
     \<and> (\<forall>u \<in> set (us_sessions s). session_ok s u) \<and> (\<forall>r \<in> set (us_chunks s). chunk_ok s r)
     \<and> distinct (map (\<lambda>r. (ch_session r, ch_index r)) (us_chunks s)) \<and> reserve_ok s"

text \<open>The invariant reads the database only.\<close>

definition same_db :: "ustate \<Rightarrow> ustate \<Rightarrow> bool" where
  "same_db s s1 \<longleftrightarrow> us_db s1 = us_db s \<and> us_sessions s1 = us_sessions s \<and> us_chunks s1 = us_chunks s
     \<and> us_next s1 = us_next s"

lemma accounts_ok_cong: "same_db s s1 \<Longrightarrow> accounts_ok s1 = accounts_ok s"
  by (simp add: same_db_def accounts_ok_def session_ok_def chunk_ok_def reserve_ok_def rows_of_def active_total_def)

lemma same_db_refl [simp]: "same_db s s"
  by (simp add: same_db_def)

lemma same_db_trans: "same_db s s1 \<Longrightarrow> same_db s1 s2 \<Longrightarrow> same_db s s2"
  by (simp add: same_db_def)

lemma same_db_disk [simp]:
  "same_db s (rollback s s1)" "same_db s (write_file p b s)" "same_db s (remove_file p s)"
  "same_db s (remove_tree p s)" "same_db s (s\<lparr>us_fences := f\<rparr>)" "same_db s (s\<lparr>us_dirs := d\<rparr>)"
  by (simp_all add: same_db_def)

text \<open>Computations that leave the database alone.\<close>

definition quiet :: "'a ucomp \<Rightarrow> bool" where
  "quiet m \<longleftrightarrow> (\<forall>s. same_db s (fst (m s)))"

lemma quiet_bindU: "quiet m \<Longrightarrow> (\<And>x. quiet (f x)) \<Longrightarrow> quiet (bindU m f)"
  unfolding quiet_def bindU_def
  by (auto split: prod.splits sum.splits) (metis fst_conv same_db_trans)+

lemma quiet_pure [intro, simp]: "quiet (ret x)" "quiet (liftU r)" "quiet (getU f)" "quiet (ensureU b e)"
  by (simp_all add: quiet_def ret_def liftU_def getU_def ensureU_def)

lemma quiet_mod: "(\<And>s. same_db s (g s)) \<Longrightarrow> quiet (modU g)"
  by (simp add: quiet_def modU_def)

lemma quiet_disk [intro, simp]:
  "quiet (modU (write_file p b))" "quiet (modU (remove_file p))" "quiet (modU (remove_tree p))"
  by (simp_all add: quiet_mod)

lemma quietD: "quiet m \<Longrightarrow> m s = (s1, r) \<Longrightarrow> same_db s s1"
  unfolding quiet_def by (metis fst_conv)

lemma quiet_quietly [simp]: "quiet m \<Longrightarrow> quiet (quietly m)"
  by (simp add: quiet_def quietly_def)

lemma quiet_checks [simp]:
  "quiet (assertLegacyUnreserved u)" "quiet (resolveSessionWorkspace env u)" "quiet (require_session user k access)"
  "quiet (active_user user)"
  by (auto simp: assertLegacyUnreserved_def resolveSessionWorkspace_def require_session_def active_user_def
      intro!: quiet_bindU)

lemma quiet_open [simp]: "quiet (open_session env user k access)"
  by (auto simp: open_session_def intro!: quiet_bindU)

lemma quiet_remove_attempts [simp]: "quiet (remove_attempts env u c es)"
proof (induction es)
  case (Cons e es)
  have "quiet (modU (\<lambda>s. if b then s else remove_file p s))" for b p by (rule quiet_mod) auto
  then show ?case using Cons by (auto intro!: quiet_bindU split: option.split)
qed simp

lemma quiet_cleanup [simp]: "quiet (cleanupUnpublishedAssembly env u)"
  by (auto simp: cleanupUnpublishedAssembly_def intro!: quiet_bindU split: option.split)

lemma quiet_delete [simp]: "quiet (deleteTempFiles env p)"
  by (auto simp: deleteTempFiles_def intro!: quiet_bindU)

lemma quiet_publish_chunk [simp]: "quiet (publish_chunk env u i d b)"
proof -
  have "same_db s (remove_ingress d s)" for s by (cases d) (simp_all add: remove_ingress_def)
  then have "quiet (modU (remove_ingress d))" by (rule quiet_mod)
  then show ?thesis by (auto simp: publish_chunk_def intro!: quiet_bindU split: option.split)
qed

lemma quiet_link [simp]: "quiet (link_attempt env a)"
  by (auto simp: link_attempt_def intro!: quiet_bindU split: prod.splits)

lemma quiet_assemble [simp]: "quiet (assemble env m u)"
  by (auto simp: assemble_def Let_def intro!: quiet_bindU)


section \<open>Elementary changes\<close>

lemma active_total_put:
  assumes "distinct (map up_id (us_sessions s))" "u \<in> set (us_sessions s)" "up_id u' = up_id u"
    and "up_userId u' = up_userId u" "up_totalSize u' = up_totalSize u"
  shows "active_total k (put_session u' s) = active_total k s
    + (if up_userId u = k then (if active_status (up_status u') then up_totalSize u else 0)
         - (if active_status (up_status u) then up_totalSize u else 0) else 0)"
proof -
  have eq: "active_total k s = total (\<lambda>v. if up_userId v = k \<and> active_status (up_status v) then up_totalSize v else 0) (us_sessions s)" for s
    unfolding active_total_def by (induction "us_sessions s" arbitrary: s rule: list.induct)
      (simp_all add: total_def sum_list_map_filter')
  show ?thesis unfolding eq using assms by (simp add: put_session_def total_put_row)
qed

lemma set_put_session:
  assumes "distinct (map up_id (us_sessions s))" "u \<in> set (us_sessions s)" "up_id u' = up_id u"
  shows "set (us_sessions (put_session u' s)) = insert u' (set (us_sessions s) - {u})"
  using assms by (simp add: put_session_def set_put_row)

lemma put_session_frame [simp]:
  "us_db (put_session u s) = us_db s" "us_chunks (put_session u s) = us_chunks s"
  "us_next (put_session u s) = us_next s" "map up_id (us_sessions (put_session u s)) = map up_id (us_sessions s)"
  "us_disk (put_session u s) = us_disk s" "us_dirs (put_session u s) = us_dirs s"
  "us_fences (put_session u s) = us_fences s" "us_reserved (put_session u s) = us_reserved s"
  by (simp_all add: put_session_def map_key_put_row)

lemma delete_chunks_frame [simp]:
  "us_db (delete_chunks k s) = us_db s" "us_sessions (delete_chunks k s) = us_sessions s"
  "us_next (delete_chunks k s) = us_next s" "us_disk (delete_chunks k s) = us_disk s"
  "us_dirs (delete_chunks k s) = us_dirs s" "us_fences (delete_chunks k s) = us_fences s"
  by (simp_all add: delete_chunks_def)

lemma rows_of_delete: "rows_of j (delete_chunks k s) = (if j = k then [] else rows_of j s)"
  by (auto simp: rows_of_def delete_chunks_def filter_empty_conv intro: filter_cong)

lemma active_total_cong: "us_sessions s1 = us_sessions s \<Longrightarrow> active_total k s1 = active_total k s"
  by (simp add: active_total_def)

lemma accounts_okD:
  assumes "accounts_ok s"
  shows "users_ok (us_db s)" "distinct (map up_id (us_sessions s))" "u \<in> set (us_sessions s) \<Longrightarrow> session_ok s u"
    "r \<in> set (us_chunks s) \<Longrightarrow> chunk_ok s r" "distinct (map (\<lambda>r. (ch_session r, ch_index r)) (us_chunks s))"
    "used_of (us_db s) k + active_total k s \<le> quota_of (us_db s) k"
  using assms by (auto simp: accounts_ok_def reserve_ok_def)

text \<open>Two rows that agree on everything the invariant fixes.\<close>

definition same_terms :: "upload_row \<Rightarrow> upload_row \<Rightarrow> bool" where
  "same_terms u v \<longleftrightarrow> up_id v = up_id u \<and> up_userId v = up_userId u \<and> up_totalSize v = up_totalSize u
     \<and> up_chunkSize v = up_chunkSize u \<and> up_totalChunks v = up_totalChunks u \<and> up_accountingInitialized v"

lemma expected_size_cong: "same_terms u v \<Longrightarrow> expected_size v i = expected_size u i"
  by (simp add: same_terms_def expected_size_def)

lemma same_id: "accounts_ok s \<Longrightarrow> u \<in> set (us_sessions s) \<Longrightarrow> v \<in> set (us_sessions s) \<Longrightarrow> up_id u = up_id v \<Longrightarrow> u = v"
  using key_unique accounts_okD(2) by metis

text \<open>A session is closed and its records go, while its bytes may move to what the user has stored.\<close>

lemma close_session:
  assumes ok: "accounts_ok s" and u: "u \<in> set (us_sessions s)" and v: "same_terms u v" "\<not> active_status (up_status v)"
    and d: "users_ok d" "\<And>k. quota_of d k = quota_of (us_db s) k"
      "\<And>k. used_of d k \<le> used_of (us_db s) k
         + (if k = up_userId u \<and> active_status (up_status u) then up_totalSize u else 0)"
  shows "accounts_ok (put_session v (delete_chunks (up_id u) (s\<lparr>us_db := d\<rparr>)))"
proof -
  let ?s = "put_session v (delete_chunks (up_id u) (s\<lparr>us_db := d\<rparr>))"
  have ids: "distinct (map up_id (us_sessions s))" using accounts_okD(2) [OF ok] .
  have vid: "up_id v = up_id u" using v(1) by (simp add: same_terms_def)
  have sess: "set (us_sessions ?s) = insert v (set (us_sessions s) - {u})"
    using set_put_session [of "delete_chunks (up_id u) (s\<lparr>us_db := d\<rparr>)" u v] ids u vid by simp
  have rows: "rows_of k ?s = (if k = up_id u then [] else rows_of k s)" for k
    using rows_of_delete [of k "up_id u" "s\<lparr>us_db := d\<rparr>"] by (simp add: rows_of_def)
  have other: "up_id w \<noteq> up_id u" if "w \<in> set (us_sessions s) - {u}" for w
    using same_id [OF ok _ u] that by auto
  have "session_ok ?s w" if "w \<in> set (us_sessions ?s)" for w
  proof (cases "w = v")
    case True
    then show ?thesis using accounts_okD(3) [OF ok u] v by (simp add: session_ok_def same_terms_def)
  next
    case False
    then show ?thesis using accounts_okD(3) [OF ok, of w] that other [of w] unfolding sess by (simp add: session_ok_def rows)
  qed
  moreover have "chunk_ok ?s r" if "r \<in> set (us_chunks ?s)" for r
  proof -
    have r: "r \<in> set (us_chunks s)" "ch_session r \<noteq> up_id u" using that by (auto simp: delete_chunks_def)
    then obtain w where "w \<in> set (us_sessions s)" "up_id w = ch_session r" "active_status (up_status w)"
      "ch_index r < up_totalChunks w" "ch_byteSize r = expected_size w (ch_index r)"
      using accounts_okD(4) [OF ok] unfolding chunk_ok_def by blast
    then show ?thesis using r(2) unfolding chunk_ok_def sess by (metis DiffI insertCI singletonD)
  qed
  moreover have "distinct (map (\<lambda>r. (ch_session r, ch_index r)) (us_chunks ?s))"
    using accounts_okD(5) [OF ok] by (simp add: delete_chunks_def distinct_map_filter)
  moreover have "reserve_ok ?s"
    unfolding reserve_ok_def
  proof
    fix k
    have "active_total k ?s = active_total k s
        + (if up_userId u = k then 0 - (if active_status (up_status u) then up_totalSize u else 0) else 0)"
      using active_total_put [of "delete_chunks (up_id u) (s\<lparr>us_db := d\<rparr>)" u v k] ids u v
      by (simp add: same_terms_def active_total_def)
    then show "used_of (us_db ?s) k + active_total k ?s \<le> quota_of (us_db ?s) k"
      using accounts_okD(6) [OF ok, of k] d(2,3) [of k] by (simp split: if_splits)
  qed
  ultimately show ?thesis using d(1) ids by (simp add: accounts_ok_def)
qed

lemma close_plain:
  assumes "accounts_ok s" "u \<in> set (us_sessions s)" "same_terms u v" "\<not> active_status (up_status v)"
  shows "accounts_ok (put_session v (delete_chunks (up_id u) s))"
proof -
  have "0 \<le> up_totalSize u" using accounts_okD(3) [OF assms(1,2)] by (simp add: session_ok_def)
  then show ?thesis using close_session [OF assms accounts_okD(1) [OF assms(1)]] by simp
qed

lemma rows_append: "rows_of k (s\<lparr>us_chunks := us_chunks s @ [r]\<rparr>) = rows_of k s @ (if ch_session r = k then [r] else [])"
  by (simp add: rows_of_def)

text \<open>A record is added to an open session, and counted.\<close>

lemma count_chunk:
  assumes ok: "accounts_ok s" and u: "u \<in> set (us_sessions s)" and act: "active_status (up_status u)"
    and r: "ch_session r = up_id u" "ch_index r < up_totalChunks u" "ch_byteSize r = expected_size u (ch_index r)"
    and new: "find_chunk (up_id u) (ch_index r) s = None"
    and v: "v = u\<lparr>up_uploadedCount := up_uploadedCount u + 1, up_uploadedSize := up_uploadedSize u + ch_byteSize r,
      up_status := Uploading\<rparr>"
  shows "accounts_ok (put_session v (s\<lparr>us_chunks := us_chunks s @ [r]\<rparr>))"
proof -
  let ?s = "put_session v (s\<lparr>us_chunks := us_chunks s @ [r]\<rparr>)"
  have vf: "up_id v = up_id u" "up_userId v = up_userId u" "up_totalSize v = up_totalSize u"
    "up_chunkSize v = up_chunkSize u" "up_totalChunks v = up_totalChunks u"
    "up_accountingInitialized v = up_accountingInitialized u" "active_status (up_status v)"
    "up_uploadedCount v = up_uploadedCount u + 1" "up_uploadedSize v = up_uploadedSize u + ch_byteSize r"
    "expected_size v = expected_size u"
    by (simp_all add: v active_status_def expected_size_def fun_eq_iff)
  have ids: "distinct (map up_id (us_sessions s))" using accounts_okD(2) [OF ok] .
  have sess: "set (us_sessions ?s) = insert v (set (us_sessions s) - {u})"
    using set_put_session [of "s\<lparr>us_chunks := us_chunks s @ [r]\<rparr>" u v] ids u vf(1) by simp
  have rows: "rows_of k ?s = rows_of k s @ (if up_id u = k then [r] else [])" for k
    using rows_append [of k s r] r(1) by (simp add: rows_of_def)
  have other: "up_id w \<noteq> up_id u" if "w \<in> set (us_sessions s) - {u}" for w
    using same_id [OF ok _ u] that by auto
  have "session_ok ?s w" if "w \<in> set (us_sessions ?s)" for w
  proof (cases "w = v")
    case True
    then show ?thesis using accounts_okD(3) [OF ok u] act True by (simp add: session_ok_def vf rows)
  next
    case False
    then show ?thesis using accounts_okD(3) [OF ok, of w] that other [of w] unfolding sess by (simp add: session_ok_def rows)
  qed
  moreover have "chunk_ok ?s q" if "q \<in> set (us_chunks ?s)" for q
  proof (cases "q = r")
    case True
    then show ?thesis using r vf unfolding chunk_ok_def sess by auto
  next
    case False
    then have "q \<in> set (us_chunks s)" using that by simp
    then obtain w where w: "w \<in> set (us_sessions s)" "up_id w = ch_session q" "active_status (up_status w)"
      "ch_index q < up_totalChunks w" "ch_byteSize q = expected_size w (ch_index q)"
      using accounts_okD(4) [OF ok] unfolding chunk_ok_def by blast
    show ?thesis
    proof (cases "w = u")
      case True
      then show ?thesis using w vf unfolding chunk_ok_def sess by auto
    qed (use w in \<open>auto simp: chunk_ok_def sess\<close>)
  qed
  moreover have "distinct (map (\<lambda>r. (ch_session r, ch_index r)) (us_chunks ?s))"
    using accounts_okD(5) [OF ok] new r(1) by (auto simp: find_chunk_def find_None_iff)
  moreover have "reserve_ok ?s"
    using accounts_okD(6) [OF ok] active_total_put [of "s\<lparr>us_chunks := us_chunks s @ [r]\<rparr>" u v] ids u act
    by (simp add: reserve_ok_def vf active_total_def)
  ultimately show ?thesis using accounts_okD(1) [OF ok] ids by (simp add: accounts_ok_def)
qed


lemma touch_session:
  assumes ok: "accounts_ok s" and u: "u \<in> set (us_sessions s)" and act: "active_status (up_status u)"
  shows "accounts_ok (put_session (u\<lparr>up_status := Uploading\<rparr>) s)"
proof -
  let ?v = "u\<lparr>up_status := Uploading\<rparr>"
  let ?s = "put_session ?v s"
  have ids: "distinct (map up_id (us_sessions s))" using accounts_okD(2) [OF ok] .
  have sess: "set (us_sessions ?s) = insert ?v (set (us_sessions s) - {u})"
    using set_put_session [of s u ?v] ids u by simp
  have rows: "rows_of k ?s = rows_of k s" for k by (simp add: rows_of_def)
  have av: "active_status Uploading" by (simp add: active_status_def)
  have "session_ok ?s w" if "w \<in> set (us_sessions ?s)" for w
    using that accounts_okD(3) [OF ok, of w] accounts_okD(3) [OF ok u] act
    unfolding sess by (auto simp: session_ok_def rows)
  moreover have "chunk_ok ?s q" if q: "q \<in> set (us_chunks ?s)" for q
  proof -
    obtain w where w: "w \<in> set (us_sessions s)" "up_id w = ch_session q" "active_status (up_status w)"
      "ch_index q < up_totalChunks w" "ch_byteSize q = expected_size w (ch_index q)"
      using accounts_okD(4) [OF ok] q unfolding chunk_ok_def by auto
    have "expected_size ?v = expected_size u" by (simp add: expected_size_def fun_eq_iff)
    then show ?thesis
    proof (cases "w = u")
      case True
      have "?v \<in> set (us_sessions ?s)" unfolding sess by simp
      then show ?thesis
        unfolding chunk_ok_def using w av True \<open>expected_size ?v = expected_size u\<close> by (intro bexI [of _ ?v]) simp_all
    next
      case False
      then show ?thesis unfolding chunk_ok_def sess using w by (intro bexI [of _ w]) simp_all
    qed
  qed
  moreover have "reserve_ok ?s"
    using accounts_okD(6) [OF ok] active_total_put [of s u ?v] ids u act av by (simp add: reserve_ok_def)
  ultimately show ?thesis using accounts_okD(1,5) [OF ok] ids by (simp add: accounts_ok_def)
qed

lemma drop_session:
  assumes ok: "accounts_ok s" and u: "u \<in> set (us_sessions s)"
  shows "accounts_ok (delete_chunks (up_id u) s\<lparr>us_sessions := drop_rows up_id [up_id u] (us_sessions s)\<rparr>)"
proof -
  let ?s = "delete_chunks (up_id u) s\<lparr>us_sessions := drop_rows up_id [up_id u] (us_sessions s)\<rparr>"
  have sess: "set (us_sessions ?s) = {w \<in> set (us_sessions s). up_id w \<noteq> up_id u}"
    by (simp add: set_drop_rows)
  have rows: "rows_of k ?s = (if k = up_id u then [] else rows_of k s)" for k
    using rows_of_delete [of k "up_id u" s] by (simp add: rows_of_def)
  have "session_ok ?s w" if "w \<in> set (us_sessions ?s)" for w
    using accounts_okD(3) [OF ok, of w] that unfolding sess by (simp add: session_ok_def rows)
  moreover have "chunk_ok ?s q" if q: "q \<in> set (us_chunks ?s)" for q
    using accounts_okD(4) [OF ok, of q] q unfolding chunk_ok_def sess by (auto simp: delete_chunks_def)
  moreover have "distinct (map (\<lambda>r. (ch_session r, ch_index r)) (us_chunks ?s))"
    using accounts_okD(5) [OF ok] by (simp add: delete_chunks_def distinct_map_filter)
  moreover have "distinct (map up_id (us_sessions ?s))"
    using accounts_okD(2) [OF ok] by (simp add: distinct_key_drop_rows)
  moreover have "reserve_ok ?s"
    unfolding reserve_ok_def
  proof
    fix k
    have "0 \<le> up_totalSize w" if "w \<in> set (us_sessions s)" for w
      using accounts_okD(3) [OF ok that] by (simp add: session_ok_def)
    then have "active_total k ?s \<le> active_total k s"
      using total_filter_le [of "filter (\<lambda>u. up_userId u = k \<and> active_status (up_status u)) (us_sessions s)" up_totalSize
          "\<lambda>w. up_id w \<noteq> up_id u"]
      by (simp add: active_total_def drop_rows_def conj_ac)
    then show "used_of (us_db ?s) k + active_total k ?s \<le> quota_of (us_db ?s) k"
      using accounts_okD(6) [OF ok, of k] by simp
  qed
  ultimately show ?thesis using accounts_okD(1) [OF ok] by (simp add: accounts_ok_def)
qed

lemma closed_has_no_rows:
  "accounts_ok s \<Longrightarrow> u \<in> set (us_sessions s) \<Longrightarrow> \<not> active_status (up_status u) \<Longrightarrow> delete_chunks (up_id u) s = s"
proof -
  assume a: "accounts_ok s" "u \<in> set (us_sessions s)" "\<not> active_status (up_status u)"
  have "ch_session r \<noteq> up_id u" if "r \<in> set (us_chunks s)" for r
    using accounts_okD(4) [OF a(1) that] a same_id [OF a(1)] unfolding chunk_ok_def by metis
  then show ?thesis by (simp add: delete_chunks_def)
qed

lemma add_session:
  assumes ok: "accounts_ok s" and u: "up_id u = us_next s" "session_ok (s\<lparr>us_next := Suc (us_next s)\<rparr>) u"
    and res: "used_of (us_db s) (up_userId u) + active_total (up_userId u) s + up_totalSize u \<le> quota_of (us_db s) (up_userId u)"
  shows "accounts_ok (s\<lparr>us_sessions := us_sessions s @ [u], us_next := Suc (us_next s)\<rparr>)"
proof -
  let ?s = "s\<lparr>us_sessions := us_sessions s @ [u], us_next := Suc (us_next s)\<rparr>"
  have rows: "rows_of k ?s = rows_of k s" "rows_of k (s\<lparr>us_next := Suc (us_next s)\<rparr>) = rows_of k s" for k
    by (simp_all add: rows_of_def)
  have less: "up_id w < us_next s" if "w \<in> set (us_sessions s)" for w
    using accounts_okD(3) [OF ok that] by (simp add: session_ok_def)
  have "session_ok ?s w" if "w \<in> set (us_sessions ?s)" for w
    using that u(2) accounts_okD(3) [OF ok, of w] by (auto simp: session_ok_def rows)
  moreover have "chunk_ok ?s q" if "q \<in> set (us_chunks ?s)" for q
    using accounts_okD(4) [OF ok, of q] that by (auto simp: chunk_ok_def)
  moreover have "distinct (map up_id (us_sessions ?s))"
    using accounts_okD(2) [OF ok] u(1) less by (fastforce simp: image_iff)
  moreover have "0 \<le> up_totalSize u" using u(2) by (simp add: session_ok_def)
  then have "reserve_ok ?s"
    using accounts_okD(6) [OF ok] res by (auto simp: reserve_ok_def active_total_def)
  ultimately show ?thesis using accounts_okD(1,5) [OF ok] by (simp add: accounts_ok_def)
qed


section \<open>Every operation\<close>

lemma runner_ok:
  assumes "accounts_ok s" "\<And>s1 x. body s = (s1, Inr x) \<Longrightarrow> accounts_ok s1"
  shows "accounts_ok (fst (runnerTransaction c body s))"
proof (cases "body s")
  case (Pair s1 r)
  have "accounts_ok (rollback s s1)" using accounts_ok_cong [of s "rollback s s1"] assms(1) by simp
  then show ?thesis
    using Pair assms by (cases r; cases c) (simp_all add: runnerTransaction_def)
qed

lemma transaction_ok:
  assumes "accounts_ok s" "\<And>s1 x. body s = (s1, Inr x) \<Longrightarrow> accounts_ok s1"
  shows "accounts_ok (fst (withTransaction c fence body s))"
  unfolding withTransaction_def
  by (rule runner_ok [OF assms(1)]) (auto simp: bindU_Inr comp_Inr intro: assms(2))

lemma quiet_ok: "quiet m \<Longrightarrow> accounts_ok s \<Longrightarrow> accounts_ok (fst (m s))"
  using accounts_ok_cong quiet_def by blast

lemma quiet_step_ok: "quiet m \<Longrightarrow> m s = (s1, r) \<Longrightarrow> accounts_ok s \<Longrightarrow> accounts_ok s1"
  using quiet_ok by (metis fst_conv)

lemma find_sessionD: "find_session user k access s = Some u \<Longrightarrow> u \<in> set (us_sessions s) \<and> session_where user k access u"
  unfolding find_session_def by (rule find_SomeD)

lemma require_session_Inr:
  "require_session user k access s = (s1, Inr u) \<longleftrightarrow> s1 = s \<and> find_session user k access s = Some u"
  by (auto simp: require_session_def bindU_Inr comp_Inr require_eq_Inr)

lemma open_session_Inr:
  "open_session env user k access s = (s1, Inr u) \<longleftrightarrow>
     s1 = s \<and> find_session user k access s = Some u \<and> authorizeSession access u 0 False = Inr ()
     \<and> up_id u \<notin> set (us_reserved s) \<and> ue_workspace env u"
  by (auto simp: open_session_def bindU_Inr comp_Inr require_session_Inr assertLegacyUnreserved_def
      resolveSessionWorkspace_def)

lemma chunk_checks_Inr:
  "chunk_checks env u i n = Inr () \<longleftrightarrow> \<not> after_expiry env u \<and> active_status (up_status u)
     \<and> i < up_totalChunks u \<and> 0 < up_totalSize u - int i * up_chunkSize u \<and> n = expected_size u i"
  by (cases "up_status u") (auto simp: chunk_checks_def err_simps Let_def active_status_def expected_size_def)

lemma db_size_Inr: "db_size n = Inr m \<longleftrightarrow> m = n \<and> 0 \<le> n \<and> n \<le> max_safe"
  by (auto simp: db_size_def)

lemma chunk_tx_ok:
  assumes ok: "accounts_ok s" and r: "chunk_tx env user k i d b access s = (s1, Inr x)"
  shows "accounts_ok s1"
proof -
  obtain u where u: "find_session user k access s = Some u" "chunk_checks env u i (int (length b)) = Inr ()"
    and rest: "bindU (if up_accountingInitialized u then ret u else hydrateLegacyAccounting env u)
      (\<lambda>u. chunk_store env u i d b access) s = (s1, Inr x)"
    using r unfolding chunk_tx_def bindU_Inr open_session_Inr comp_Inr by auto
  have us: "u \<in> set (us_sessions s)" using find_sessionD [OF u(1)] by simp
  have init: "up_accountingInitialized u" using accounts_okD(3) [OF ok us] by (simp add: session_ok_def)
  have c: "active_status (up_status u)" "i < up_totalChunks u" "int (length b) = expected_size u i"
    using u(2) by (simp_all add: chunk_checks_Inr)
  have "chunk_store env u i d b access s = (s1, Inr x)" using rest init by (simp add: bindU_def ret_def)
  then obtain s2 s3 u1 w where p: "publish_chunk env u i d b s = (s2, Inr w)"
    and rc: "(if find_chunk (up_id u) i s = None then record_chunk env u i b else ret u) s2 = (s3, Inr u1)"
    and s1: "s1 = put_session (u1\<lparr>up_status := Uploading\<rparr>) s3"
    unfolding chunk_store_def bindU_Inr comp_Inr by blast
  have same: "same_db s s2" using quietD [OF quiet_publish_chunk p] .
  have ok2: "accounts_ok s2" using accounts_ok_cong [OF same] ok by simp
  have us2: "u \<in> set (us_sessions s2)" and fc: "find_chunk (up_id u) i s2 = find_chunk (up_id u) i s"
    using us same by (simp_all add: same_db_def find_chunk_def)
  show ?thesis
  proof (cases "find_chunk (up_id u) i s")
    case None
    let ?r = "\<lparr>ch_session = up_id u, ch_index = i, ch_byteSize = int (length b), ch_sha256 = ue_sha env b\<rparr>"
    have "s3 = s2\<lparr>us_chunks := us_chunks s2 @ [?r]\<rparr>"
      "u1 = u\<lparr>up_uploadedCount := up_uploadedCount u + 1, up_uploadedSize := up_uploadedSize u + int (length b)\<rparr>"
      using rc None by (auto simp: record_chunk_def bindU_Inr comp_Inr db_size_Inr)
    then show ?thesis
      using count_chunk [OF ok2 us2 c(1), of ?r] c(2,3) fc None s1 by simp
  next
    case (Some q)
    then show ?thesis using rc s1 touch_session [OF ok2 us2 c(1)] by (simp add: comp_Inr)
  qed
qed


lemma still_current_Inr:
  "still_current env user u access s = (s1, Inr c) \<longleftrightarrow>
     s1 = s \<and> find_session user (up_uploadId u) access s = Some c \<and> same_session u c \<and> \<not> at_expiry env c
     \<and> up_id c \<notin> set (us_reserved s) \<and> ue_workspace env c"
  by (auto simp: still_current_def Let_def bindU_Inr comp_Inr assertLegacyUnreserved_def resolveSessionWorkspace_def
      split: option.splits)

lemma active_user_Inr:
  "active_user k s = (s1, Inr w) \<longleftrightarrow> s1 = s \<and> findById (us_db s) k = Some w \<and> u_isActive w"
  by (auto simp: active_user_def bindU_Inr comp_Inr require_eq_Inr)

lemma liftDb_Inr:
  "liftDb f s = (s1, Inr x) \<longleftrightarrow> (\<exists>d. f (us_db s) = Inr (d, x) \<and> s1 = s\<lparr>us_db := d\<rparr>)"
  by (auto simp: liftDb_def bindU_Inr comp_Inr)

lemma link_attempt_Inr:
  "link_attempt env a s = (s1, Inr pl) \<longleftrightarrow>
     (\<exists>b. read_file (at_path a) s = Some b \<and> read_file (at_final a) s = None \<and> ue_io_ok env
        \<and> s1 = write_file (at_final a) b s \<and> placementForPath (ue_trusted env) (ue_root env) (at_final a) = Inr pl)"
  by (auto simp: link_attempt_def bindU_Inr comp_Inr)

lemma quota_admits_Inr:
  assumes "users_ok d" "findById d k = Some w"
  shows "quota_admits w n = Inr () \<longleftrightarrow> 0 \<le> n \<and> u_storageUsed w + n \<le> u_storageQuota w"
  using user_range [OF assms] by (auto simp: quota_admits_def err_simps db_size_Inr)

lemma publish_Inr:
  "publish env a u access s = (s1, Inr f) \<longleftrightarrow>
     (\<exists>owner c name pl s2 d1 d2.
        findById (us_db s) (up_userId u) = Some owner \<and> u_isActive owner
        \<and> authorizeSession access u 1 True = Inr ()
        \<and> lockPublicationDestination (us_db s) (up_userId u) (up_parentId u) = Inr ()
        \<and> find_session (up_userId u) (up_uploadId u) access s = Some c \<and> same_session u c
        \<and> \<not> at_expiry env c \<and> up_id c \<notin> set (us_reserved s) \<and> ue_workspace env c
        \<and> quota_admits owner (active_total (up_userId u) s) = Inr ()
        \<and> allocateNamespaceName (us_db s) (up_userId u) (up_parentId c) (up_filename c) KFile None None = Inr name
        \<and> link_attempt env a s = (s2, Inr pl) \<and> authorizeSession access c 2 False = Inr ()
        \<and> insert_file (uploaded_file env a c name pl) (us_db s2) = Inr (d1, f)
        \<and> updateStorageUsed (up_userId u) (int (length (at_data a))) d1 = Inr d2
        \<and> authorizeSession access c 3 False = Inr ()
        \<and> s1 = put_session (completed_session a c) (delete_chunks (up_id c) (s2\<lparr>us_db := d2\<rparr>)))"
    (is "?L \<longleftrightarrow> ?R")
proof
  assume ?L
  then show ?R
    unfolding publish_def Let_def bindU_Inr comp_Inr active_user_Inr still_current_Inr liftDb_Inr bindE_eq_Inr
    by (elim exE conjE) simp
next
  assume ?R
  then show ?L
    unfolding publish_def Let_def bindU_Inr comp_Inr active_user_Inr still_current_Inr liftDb_Inr bindE_eq_Inr
    by (elim exE conjE) auto
qed

lemma insert_file_users:
  "insert_file f d = Inr (d1, r) \<Longrightarrow> users d1 = users d"
  by (auto simp: insert_file_Inr)

lemma users_ok_cong: "users d1 = users d \<Longrightarrow> users_ok d1 = users_ok d \<and> used_of d1 k = used_of d k \<and> quota_of d1 k = quota_of d k
    \<and> findById d1 k = findById d k"
  by (simp add: users_ok_def used_of_def quota_of_def findById_def)

lemma publish_ok:
  assumes ok: "accounts_ok s" and r: "publish env a u access s = (s1, Inr f)"
    and len: "int (length (at_data a)) = up_totalSize u"
  shows "accounts_ok s1"
proof -
  obtain owner c name pl s2 d1 d2 where
    c: "find_session (up_userId u) (up_uploadId u) access s = Some c" "same_session u c"
    and link: "link_attempt env a s = (s2, Inr pl)"
    and ins: "insert_file (uploaded_file env a c name pl) (us_db s2) = Inr (d1, f)"
    and used: "updateStorageUsed (up_userId u) (int (length (at_data a))) d1 = Inr d2"
    and s1: "s1 = put_session (completed_session a c) (delete_chunks (up_id c) (s2\<lparr>us_db := d2\<rparr>))"
    using r unfolding publish_Inr by blast
  have same: "same_db s s2" using quietD [OF quiet_link link] .
  have ok2: "accounts_ok s2" using accounts_ok_cong [OF same] ok by simp
  have cs: "c \<in> set (us_sessions s2)" "up_userId c = up_userId u"
    using find_sessionD [OF c(1)] same by (auto simp: same_db_def session_where_def)
  have tot: "up_totalSize c = up_totalSize u" "active_status (up_status c)" using c(2) by (simp_all add: same_session_def)
  have sok: "session_ok s2 c" using accounts_okD(3) [OF ok2 cs(1)] .
  have ud: "users d1 = users (us_db s2)" using insert_file_users [OF ins] .
  have uok: "users_ok d1" using users_ok_cong [OF ud] accounts_okD(1) [OF ok2] by simp
  have pos: "0 < up_totalSize u" using sok tot by (simp add: session_ok_def)
  have d2: "d2 = add_used (up_userId u) (up_totalSize u) d1" and fits: "findById d1 (up_userId u) \<noteq> None"
    "used_of d1 (up_userId u) + up_totalSize u \<le> quota_of d1 (up_userId u)"
    using used pos unfolding updateStorageUsed_eq [OF uok] len
    by (auto simp: used_of_def quota_of_def split: if_splits option.splits)
  have "0 \<le> used_of d1 (up_userId u)"
    using user_range [OF uok] by (auto simp: used_of_def split: option.split)
  then have uok2: "users_ok d2" unfolding d2 using pos fits by (intro users_ok_add_used [OF uok]) auto
  have "same_terms c (completed_session a c)" by (simp add: same_terms_def completed_session_def)
  moreover have "\<not> active_status (up_status (completed_session a c))" by (simp add: completed_session_def active_status_def)
  moreover have "quota_of d2 k = quota_of (us_db s2) k" "used_of d2 k \<le> used_of (us_db s2) k
      + (if k = up_userId c \<and> active_status (up_status c) then up_totalSize c else 0)" for k
    unfolding d2 using quota_of_add_used [OF uok] used_of_add_used [OF uok] users_ok_cong [OF ud, of k] fits(1) tot cs(2) by simp_all
  ultimately show ?thesis unfolding s1 using close_session [OF ok2 cs(1) _ _ uok2] by blast
qed

lemma repair_ok:
  assumes ok: "accounts_ok s" and r: "repair env g u access s = (s1, Inr f)"
  shows "accounts_ok s1"
proof -
  obtain c where "find_session (up_userId u) (up_uploadId u) access s = Some c"
    "s1 = put_session (c\<lparr>up_status := Completed\<rparr>) (delete_chunks (up_id c) s)"
    using r unfolding repair_def Let_def bindU_Inr comp_Inr active_user_Inr assertLegacyUnreserved_def
    by (elim exE conjE) (auto split: option.splits)
  moreover have "same_terms c (c\<lparr>up_status := Completed\<rparr>)" if "c \<in> set (us_sessions s)"
    using accounts_okD(3) [OF ok that] by (simp add: same_terms_def session_ok_def)
  ultimately show ?thesis
    using close_plain [OF ok, of c "c\<lparr>up_status := Completed\<rparr>"] find_sessionD by (simp add: active_status_def)
qed

lemma abort_ok:
  assumes ok: "accounts_ok s" and r: "abort_tx env user k access s = (s1, Inr f)"
  shows "accounts_ok s1"
proof -
  obtain u sa sb m n where u: "find_session user k access s = Some u"
    and c: "cleanupUnpublishedAssembly env u s = (sa, Inr m)" "deleteTempFiles env (up_tempPath u) sa = (sb, Inr n)"
    and s1: "s1 = put_session (u\<lparr>up_status := Aborted\<rparr>) (delete_chunks (up_id u) sb)"
    using r unfolding abort_tx_def bindU_Inr comp_Inr require_session_Inr resolveSessionWorkspace_def
    by blast
  have same: "same_db s sb" using quietD [OF quiet_cleanup c(1)] quietD [OF quiet_delete c(2)] by (rule same_db_trans)
  have ok': "accounts_ok sb" using accounts_ok_cong [OF same] ok by simp
  have us: "u \<in> set (us_sessions sb)" using same find_sessionD [OF u] by (simp add: same_db_def)
  have "same_terms u (u\<lparr>up_status := Aborted\<rparr>)"
    using accounts_okD(3) [OF ok' us] by (simp add: same_terms_def session_ok_def)
  then show ?thesis
    unfolding s1 using close_plain [OF ok' us] by (simp add: active_status_def)
qed


lemma expire_session_ok:
  assumes ok: "accounts_ok s" and us: "u \<in> set (us_sessions s)" and r: "expire_session env u s = (s1, Inr n)"
  shows "accounts_ok s1"
proof -
  obtain sa sb m w where c: "cleanupUnpublishedAssembly env u s = (sa, Inr m)" "deleteTempFiles env (up_tempPath u) sa = (sb, Inr w)"
    and s1: "s1 = (if closed u then delete_chunks (up_id u) sb else remove_session u (delete_chunks (up_id u) sb))"
    using r unfolding expire_session_def bindU_Inr comp_Inr by blast
  have same: "same_db s sb" using quietD [OF quiet_cleanup c(1)] quietD [OF quiet_delete c(2)] by (rule same_db_trans)
  have ok': "accounts_ok sb" using accounts_ok_cong [OF same] ok by simp
  have us': "u \<in> set (us_sessions sb)" using same us by (simp add: same_db_def)
  show ?thesis
    using s1 drop_session [OF ok' us'] closed_has_no_rows [OF ok' us'] ok'
    by (auto simp: active_status_def closed_def remove_session_def)
qed

lemma expire_ok:
  assumes ok: "accounts_ok s" and r: "expire_tx env cand s = (s1, Inr n)"
  shows "accounts_ok s1"
proof (cases "find (\<lambda>u. up_id u = up_id cand) (us_sessions s)")
  case None
  then show ?thesis using r ok by (auto simp: expire_tx_def comp_simps split: if_splits)
next
  case (Some u)
  then have us: "u \<in> set (us_sessions s)" using find_SomeD by fastforce
  show ?thesis
    using r ok Some expire_session_ok [OF ok us]
    by (auto simp: expire_tx_def resolveSessionWorkspace_def comp_simps split: if_splits)
qed

lemma expire_all_ok: "accounts_ok s \<Longrightarrow> accounts_ok (fst (expire_all env us n s))"
proof (induction us arbitrary: s n)
  case (Cons u us)
  have "accounts_ok (fst (withTransaction (ue_commit env) None (expire_tx env u) s))"
    using transaction_ok [OF Cons.prems] expire_ok [OF Cons.prems] by blast
  then show ?case
    using Cons.IH by (cases "withTransaction (ue_commit env) None (expire_tx env u) s")
      (auto simp: bindU_def split: sum.split)
qed (simp add: comp_simps)

lemma size_checks_Inr:
  "size_checks c t0 k0 = Inr (t, k, n) \<Longrightarrow>
     0 < t \<and> t \<le> max_safe \<and> 0 < k \<and> n = nat (ceil_div t k) \<and> k \<le> uc_maxChunkSize c \<and> int n \<le> uc_maxUploadChunks c"
  by (cases t0; cases k0) (auto simp: size_checks_def validateSafePositiveInteger_def err_simps Let_def safe_integer_def split: if_splits)

lemma reserve_checks_Inr:
  assumes "users_ok d" "findById d k = Some w" "reserve_checks c w n t = Inr ()"
  shows "u_storageUsed w + n + t \<le> u_storageQuota w"
  using user_range [OF assms(1,2)] assms(3) by (auto simp: reserve_checks_def err_simps db_size_Inr split: if_splits)

lemma create_tx_ok:
  assumes ok: "accounts_ok s" and r: "create_tx env row access s = (s1, Inr x)"
    and row: "\<And>k. session_ok (s\<lparr>us_next := Suc (us_next s)\<rparr>) (row\<lparr>up_id := us_next s\<rparr>)"
  shows "accounts_ok s1"
proof (cases "Option.bind access a_replay")
  case (Some prior)
  then have "s1 = s"
    using r unfolding create_tx_def bindU_Inr comp_Inr resolveSessionWorkspace_def by (auto simp: comp_Inr bindU_Inr)
  then show ?thesis using ok by simp
next
  case None
  obtain w where w: "findById (us_db s) (up_userId row) = Some w"
    "reserve_checks (ue_config env) w (active_total (up_userId row) s) (up_totalSize row) = Inr ()"
    and s1: "s1 = s\<lparr>us_sessions := us_sessions s @ [row\<lparr>up_id := us_next s\<rparr>], us_next := Suc (us_next s)\<rparr>"
    using r None unfolding create_tx_def bindU_Inr comp_Inr resolveSessionWorkspace_def insert_session_def Let_def
    by (auto simp: bindU_Inr comp_Inr require_eq_Inr)
  have "used_of (us_db s) (up_userId row) = u_storageUsed w" "quota_of (us_db s) (up_userId row) = u_storageQuota w"
    using w(1) by (simp_all add: used_of_def quota_of_def)
  then show ?thesis
    unfolding s1 using add_session [OF ok, of "row\<lparr>up_id := us_next s\<rparr>"] row reserve_checks_Inr [OF accounts_okD(1) [OF ok] w]
    by simp
qed

lemma insert_session_run:
  "insert_session u0 s =
     (if chk_public_origin (u0\<lparr>up_id := us_next s\<rparr>)
      then (s\<lparr>us_sessions := us_sessions s @ [u0\<lparr>up_id := us_next s\<rparr>], us_next := Suc (us_next s)\<rparr>, Inr (u0\<lparr>up_id := us_next s\<rparr>))
      else (s, Inl (DbError ''CHK_upload_sessions_public_origin'')))"
  by (simp add: insert_session_def Let_def comp_simps)

lemma create_tx_owner:
  "create_tx env row None s = (s1, Inr x) \<Longrightarrow>
     x = row\<lparr>up_id := us_next s\<rparr> \<and> s1 = s\<lparr>us_sessions := us_sessions s @ [x], us_next := Suc (us_next s)\<rparr>"
  by (auto simp: create_tx_def resolveSessionWorkspace_def comp_simps require_def bindU_def [of "insert_session row"]
      insert_session_run split: if_splits option.splits sum.splits)

lemma withTransaction_Inr:
  "withTransaction c fence body s = (s1, Inr x) \<Longrightarrow>
     body s = (s1, Inr x) \<and> c = Committed \<and> (case fence of None \<Rightarrow> True | Some k \<Rightarrow> k \<notin> set (us_fences s))"
  by (auto simp: withTransaction_def runnerTransaction_def comp_simps split: prod.splits sum.splits commit_outcome.splits if_splits)

lemma new_session_ok:
  assumes "accounts_ok s" "0 < t" "t \<le> max_safe" "0 < c"
  shows "session_ok (s\<lparr>us_next := Suc (us_next s)\<rparr>) (new_session env k user f t c (nat (ceil_div t c)) p h access\<lparr>up_id := us_next s\<rparr>)"
proof -
  have "rows_of (us_next s) s = []"
  proof -
    have "ch_session r \<noteq> us_next s" if "r \<in> set (us_chunks s)" for r
      using accounts_okD(4) [OF assms(1) that] accounts_okD(3) [OF assms(1)] unfolding chunk_ok_def session_ok_def by fastforce
    then show ?thesis by (simp add: rows_of_def filter_empty_conv)
  qed
  moreover have "rows_of (us_next s) (s\<lparr>us_next := Suc (us_next s)\<rparr>) = rows_of (us_next s) s" by (simp add: rows_of_def)
  ultimately show ?thesis using assms by (simp add: session_ok_def new_session_def)
qed

lemma create_ok:
  assumes ok: "accounts_ok s"
  shows "accounts_ok (fst (createUploadSession env k user f t0 c0 p h access s))"
proof (cases "create_checks (ue_config env) (us_db s) user f t0 c0 p h")
  case (Inl e)
  then show ?thesis using ok by (simp add: createUploadSession_def bindU_def getU_def liftU_def)
next
  case (Inr tcn)
  obtain t c n where tcn: "tcn = (t, c, n)" by (cases tcn) auto
  have "size_checks (ue_config env) t0 c0 = Inr (t, c, n)" using Inr tcn by (simp add: create_checks_def err_simps)
  note sz = size_checks_Inr [OF this]
  let ?row = "new_session env k user f t c n (map_option nat p) h access"
  let ?tx = "withTransaction (ue_commit env) None (create_tx env ?row access)"
  have new: "session_ok (s\<lparr>us_next := Suc (us_next s)\<rparr>) (?row\<lparr>up_id := us_next s\<rparr>)"
    using new_session_ok [OF ok] sz by blast
  obtain s1 r where tx: "?tx s = (s1, r)" by (cases "?tx s")
  have ok1: "accounts_ok s1"
    using transaction_ok [OF ok, of "create_tx env ?row access"] create_tx_ok [OF ok _ new] tx by (metis fst_conv)
  have dirs: "accounts_ok (s1\<lparr>us_dirs := d\<rparr>)" for d using accounts_ok_cong [of s1 "s1\<lparr>us_dirs := d\<rparr>"] ok1 by simp
  have drop: "accounts_ok (s1\<lparr>us_sessions := drop_rows up_id [up_id x] (us_sessions s1)\<rparr>)"
    if "r = Inr x" "access = None" for x
  proof -
    have c: "create_tx env ?row access s = (s1, Inr x)" using withTransaction_Inr [OF tx [unfolded that(1)]] by (rule conjunct1)
    have xs: "x = ?row\<lparr>up_id := us_next s\<rparr> \<and> s1 = s\<lparr>us_sessions := us_sessions s @ [x], us_next := Suc (us_next s)\<rparr>"
      using create_tx_owner [OF c [unfolded that(2)]] unfolding that(2) .
    then have "us_sessions s1 = us_sessions s @ [x]" by (elim conjE) simp
    then have mem: "x \<in> set (us_sessions s1)" by simp
    have "up_status x = Pending" "up_uploadedCount x = 0" using xs by (simp_all add: new_session_def)
    then have "length (rows_of (up_id x) s1) = 0"
      using accounts_okD(3) [OF ok1 mem] by (simp only: session_ok_def active_status_def simp_thms)
    then have "rows_of (up_id x) s1 = []" by simp
    then have "delete_chunks (up_id x) s1 = s1" by (simp add: rows_of_def delete_chunks_def filter_empty_conv)
    then show ?thesis using drop_session [OF ok1 mem] by simp
  qed
  show ?thesis
    using tx ok1 dirs drop Inr tcn
    by (cases r) (auto simp: createUploadSession_def bindU_def getU_def liftU_def modU_def ret_def split: if_splits)
qed


abbreviation sound :: "'a ucomp \<Rightarrow> bool" where
  "sound m \<equiv> keeps accounts_ok m"

lemma sound_quiet: "quiet m \<Longrightarrow> sound m"
  by (simp add: keeps_def quiet_ok)

lemma keeps_bindU_result:
  assumes "keeps P m" "\<And>s s1 x. P s \<Longrightarrow> m s = (s1, Inr x) \<Longrightarrow> P s1 \<Longrightarrow> P (fst (f x s1))"
  shows "keeps P (bindU m f)"
  unfolding keeps_def
proof (intro allI impI)
  fix s assume p: "P s"
  obtain s1 r where m: "m s = (s1, r)" by (cases "m s")
  then have "P s1" using assms(1) p unfolding keeps_def by (metis fst_conv)
  then show "P (fst (bindU m f s))" using assms(2) [OF p] m by (cases r) (simp_all add: bindU_def)
qed

lemma sound_runner: "(\<And>s s1 x. accounts_ok s \<Longrightarrow> body s = (s1, Inr x) \<Longrightarrow> accounts_ok s1) \<Longrightarrow> sound (runnerTransaction c body)"
  unfolding keeps_def using runner_ok by blast

lemma sound_transaction: "(\<And>s s1 x. accounts_ok s \<Longrightarrow> body s = (s1, Inr x) \<Longrightarrow> accounts_ok s1) \<Longrightarrow> sound (withTransaction c f body)"
  unfolding keeps_def using transaction_ok by blast

lemma assemble_length: "assemble env m u s = (s1, Inr a) \<Longrightarrow> int (length (at_data a)) = up_totalSize u"
proof -
  assume "assemble env m u s = (s1, Inr a)"
  then obtain p f data d where "\<lparr>at_path = p, at_final = f, at_data = data, at_digest = d\<rparr> = a"
    "int (length data) = up_totalSize u"
    unfolding assemble_def Let_def bindU_Inr comp_Inr by blast
  then show ?thesis by auto
qed

lemma publication_ok:
  assumes "accounts_ok s" "int (length (at_data a)) = up_totalSize u"
  shows "accounts_ok (fst (publication env a u access s))"
proof (cases "publish env a u access s")
  case (Pair s1 r)
  have "same_db s (discard a (rollback s s1))" by (simp add: discard_def same_db_def)
  then have "accounts_ok (discard a (rollback s s1))" using accounts_ok_cong assms(1) by blast
  moreover have "accounts_ok (fst (runnerTransaction (ue_commit env) (publish env a u access) s))"
    using runner_ok [OF assms(1)] publish_ok [OF assms(1) _ assms(2)] by blast
  ultimately show ?thesis using Pair by (cases r) (simp_all add: publication_def)
qed

lemma sound_complete_body:
  assumes "\<And>s. accounts_ok s \<Longrightarrow> accounts_ok (interfere s)"
  shows "sound (complete_body env m interfere user k access)"
proof -
  have q: "sound (quietly (deleteTempFiles env p))" for p by (intro sound_quiet) simp
  have before: "sound (completed_before env u access)" for u
    unfolding completed_before_def
    by (intro sound_quiet quiet_bindU quiet_pure quiet_quietly quiet_cleanup quiet_delete)
  have rep: "sound (bindU (runnerTransaction (ue_commit env) (repair env f u access)) (\<lambda>file.
           bindU (quietly (deleteTempFiles env (up_tempPath u))) (\<lambda>_. ret file)))" for f u
    using repair_ok by (intro keeps_bindU sound_runner q keeps_pure)
  have pub: "sound (bindU (assemble env m u) (\<lambda>a.
           bindU (modU interfere) (\<lambda>_.
           bindU (publication env a u access) (\<lambda>file.
           bindU (quietly (deleteTempFiles env (up_tempPath u))) (\<lambda>_. ret file)))))" for u
  proof (rule keeps_bindU_result [OF sound_quiet [OF quiet_assemble]])
    fix s s1 a
    assume a: "assemble env m u s = (s1, Inr a)" "accounts_ok s1"
    have "sound (bindU (publication env a u access) (\<lambda>file.
           bindU (quietly (deleteTempFiles env (up_tempPath u))) (\<lambda>_. ret file)))"
      using publication_ok [OF _ assemble_length [OF a(1)]] by (intro keeps_bindU q keeps_pure) (simp add: keeps_def)
    then show "accounts_ok (fst (bindU (modU interfere) (\<lambda>_.
           bindU (publication env a u access) (\<lambda>file.
           bindU (quietly (deleteTempFiles env (up_tempPath u))) (\<lambda>_. ret file))) s1))"
      using assms a(2) by (simp add: comp_simps keeps_def)
  qed
  show ?thesis
    unfolding complete_body_def
    by (intro keeps_bindU sound_quiet [OF quiet_open] sound_quiet [OF quiet_cleanup] keeps_pure)
      (auto simp: before rep pub split: option.split intro!: keeps_bindU sound_quiet [OF quiet_cleanup])
qed

lemma sound_complete:
  assumes "\<And>s. accounts_ok s \<Longrightarrow> accounts_ok (interfere s)"
  shows "sound (completeUpload env pool m interfere user k access)"
  unfolding keeps_def
proof (intro allI impI)
  fix s assume ok: "accounts_ok s"
  let ?s = "s\<lparr>us_fences := k # us_fences s\<rparr>"
  let ?body = "complete_body env m interfere user k access"
  have "accounts_ok ?s" using accounts_ok_cong [of s ?s] ok by simp
  then have "accounts_ok (fst (?body ?s))" using sound_complete_body [of interfere, OF assms] unfolding keeps_def by blast
  moreover have "accounts_ok (t\<lparr>us_fences := g\<rparr>) = accounts_ok t" for t g
    using accounts_ok_cong [of t "t\<lparr>us_fences := g\<rparr>"] by simp
  ultimately show "accounts_ok (fst (completeUpload env pool m interfere user k access s))"
    using ok by (cases "?body ?s") (simp add: completeUpload_def withAssemblyFence_def)
qed

lemma sound_chunk: "sound (uploadChunk env user k index d access)"
  unfolding keeps_def
proof (intro allI impI)
  fix s assume ok: "accounts_ok s"
  have quiet: "quiet (chunk_bytes env d)"
    by (cases d) (auto simp: chunk_bytes_def validateIngressChunk_def intro!: quiet_bindU)
  have rem: "accounts_ok (remove_ingress d t) = accounts_ok t" for t
    using accounts_ok_cong [of t "remove_ingress d t"] by (cases d) (simp_all add: remove_ingress_def)
  have sound_tx: "sound (withTransaction c f (chunk_tx env user k i d b access))" for c f i b
    by (rule sound_transaction) (rule chunk_tx_ok)
  show "accounts_ok (fst (uploadChunk env user k index d access s))"
  proof (cases index)
    case (JInt n)
    obtain s0 r where b: "chunk_bytes env d s = (s0, r)" by (cases "chunk_bytes env d s")
    have ok0: "accounts_ok s0" using quiet_step_ok [OF quiet b ok] .
    have tx: "accounts_ok (fst (withTransaction c f (chunk_tx env user k i d bs access) s0))" for c f i bs
      using sound_tx ok0 unfolding keeps_def by blast
    show ?thesis
    proof (cases r)
      case (Inr bs)
      obtain s1 q where t: "withTransaction (ue_commit env) (Some k) (chunk_tx env user k (nat n) d bs access) s0 = (s1, q)"
        by (cases "withTransaction (ue_commit env) (Some k) (chunk_tx env user k (nat n) d bs access) s0")
      then have "accounts_ok s1" using tx by (metis fst_conv)
      then show ?thesis using JInt b Inr t ok rem by (simp add: uploadChunk_def)
    qed (use JInt b ok ok0 in \<open>simp add: uploadChunk_def\<close>)
  qed (use ok in \<open>simp_all add: uploadChunk_def\<close>)
qed

lemma sound_abort: "sound (abortUpload env user k access)"
  unfolding abortUpload_def by (rule sound_transaction) (rule abort_ok)

lemma sound_create: "sound (createUploadSession env k user f t0 c0 p h access)"
  by (simp add: keeps_def create_ok)

lemma sound_expire: "sound (cleanupExpiredSessions env)"
  unfolding cleanupExpiredSessions_def
  by (intro keeps_bindU keeps_pure) (simp add: keeps_def expire_all_ok)

lemma sound_orphans: "sound (cleanupOrphanedTempDirs env)"
proof -
  have "sound (remove_dirs env ref ps n)" for ref ps n
    unfolding keeps_def
  proof (induction ps arbitrary: n)
    case (Cons p ps)
    then show ?case using quiet_step_ok [OF quiet_delete] by (auto split: prod.splits sum.splits)
  qed simp
  then show ?thesis unfolding cleanupOrphanedTempDirs_def by (intro keeps_bindU keeps_pure)
qed

lemma sound_reconcile: "sound (reconcileUploadSession env user k access)"
  unfolding reconcileUploadSession_def
proof (rule sound_transaction)
  fix s s1 x
  assume ok: "accounts_ok s" and r: "reconcile_tx env user k access s = (s1, Inr x)"
  then obtain u where u: "find_session user k access s = Some u"
    unfolding reconcile_tx_def bindU_Inr require_session_Inr by blast
  then have "up_accountingInitialized u"
    using accounts_okD(3) [OF ok] find_sessionD [OF u] by (simp add: session_ok_def)
  then have "s1 = s"
    using r u unfolding reconcile_tx_def resolveSessionWorkspace_def require_session_def reconcile_completed_def
    by (auto simp: comp_simps bindU_def [of "bindU _ _"] require_def split: if_splits sum.splits prod.splits)
  then show "accounts_ok s1" using ok by simp
qed

end
