(* ===== verification/UploadClaims.thy ===== *)
theory UploadClaims
  imports UploadProps
begin

text \<open>
  Histories of uploads by any number of clients, what other requests do during an assembly included,
  and the properties of uploads.
\<close>

section \<open>Histories\<close>

datatype upload_op =
    OpCreate upload_env ustring nat ustring js_value js_value "int option" "ustring option" "upload_access option"
  | OpChunk upload_env nat ustring js_value chunk_data "upload_access option"
  | OpComplete upload_env int ustring "upload_op list" nat ustring "upload_access option"
  | OpAbort upload_env nat ustring "upload_access option"
  | OpReconcile upload_env nat ustring "upload_access option"
  | OpExpire upload_env
  | OpOrphans upload_env

fun upload_step :: "upload_op \<Rightarrow> ustate \<Rightarrow> ustate" and upload_run :: "upload_op list \<Rightarrow> ustate \<Rightarrow> ustate" where
  "upload_step (OpCreate env k user f t c p h access) = fst \<circ> createUploadSession env k user f t c p h access"
| "upload_step (OpChunk env user k i d access) = fst \<circ> uploadChunk env user k i d access"
| "upload_step (OpComplete env pool m others user k access) =
     fst \<circ> completeUpload env pool m (upload_run others) user k access"
| "upload_step (OpAbort env user k access) = fst \<circ> abortUpload env user k access"
| "upload_step (OpReconcile env user k access) = fst \<circ> reconcileUploadSession env user k access"
| "upload_step (OpExpire env) = fst \<circ> cleanupExpiredSessions env"
| "upload_step (OpOrphans env) = fst \<circ> cleanupOrphanedTempDirs env"
| "upload_run [] = id"
| "upload_run (x # xs) = upload_run xs \<circ> upload_step x"

lemma upload_run_ok:
  "accounts_ok s \<Longrightarrow> accounts_ok (upload_step x s)"
  "accounts_ok s \<Longrightarrow> accounts_ok (upload_run xs s)"
proof (induction x and xs arbitrary: s and s rule: upload_step_upload_run.induct)
  case (3 env pool m others user k access)
  then show ?case using sound_complete [of "upload_run others" env pool m user k access] by (simp add: keeps_def)
next
  case (9 x xs)
  have "accounts_ok (upload_step x s)" using 9(1) 9(3) .
  then show ?case using 9(2) [of "upload_step x s"] by simp
qed (use sound_create sound_chunk sound_abort sound_reconcile sound_expire sound_orphans in \<open>simp_all add: keeps_def\<close>)

definition demo_user :: user_row where
  "demo_user = \<lparr>u_id = 1, u_email = [], u_password = [], u_isActive = True, u_storageQuota = 100, u_storageUsed = 10\<rparr>"

definition ustate0 :: ustate where
  "ustate0 = \<lparr>us_db = \<lparr>users = [demo_user], files = [], folders = [], next_file = 1, next_folder = 1\<rparr>,
     us_sessions = [], us_chunks = [], us_next = 1, us_disk = [], us_dirs = [], us_reserved = [], us_fences = []\<rparr>"

definition demo_env :: upload_env where
  "demo_env = \<lparr>ue_config = \<lparr>uc_maxFileSize = 0, uc_maxTotalSize = 0, uc_maxChunkSize = 4, uc_maxUploadChunks = 9,
       uc_sessionTtlMs = 1000\<rparr>,
     ue_now = 0, ue_sha = id, ue_mime = (\<lambda>_. []), ue_workspace = (\<lambda>_. True), ue_root = js ''/s'', ue_lower = id,
     ue_trusted = (\<lambda>_. True), ue_io_ok = True, ue_commit = Committed\<rparr>"

lemma ustate0_ok: "accounts_ok ustate0"
  by (simp add: accounts_ok_def ustate0_def users_ok_def demo_user_def max_safe_def reserve_ok_def used_of_def
      quota_of_def active_total_def findById_def)

text \<open>
  C3: over every history of creations, chunks, completions, aborts, reconciliations and clean-ups, with
  any interleaving during assemblies, any failure of the disk and any end of a commit, every open
  session counts exactly its chunk records, each of the size its place asks for, and no user has more
  stored and reserved than the quota.
\<close>

theorem upload_histories_keep_accounts:
  assumes "accounts_ok s"
  shows "accounts_ok (upload_run ops s)"
  using upload_run_ok(2) [OF assms] .

theorem upload_histories_keep_accounts_witness:
  "accounts_ok (upload_run [OpCreate demo_env (js ''a'') 1 (js ''f'') (JInt 6) (JInt 4) None None None,
     OpChunk demo_env 1 (js ''a'') (JInt 1) (Buf [7, 8]) None,
     OpComplete demo_env 10 (js ''m'') [OpAbort demo_env 1 (js ''a'') None] 1 (js ''a'') None] ustate0)"
  by (rule upload_histories_keep_accounts [OF ustate0_ok])

end
