(* ===== verification/UploadTrip.thy ===== *)
theory UploadTrip
  imports UploadClaims
begin

text \<open>
  From a session to the stored file: the chunks of a file, sent in any order and any number of times,
  are assembled to the file again.
\<close>

section \<open>Slices\<close>

lemma ceil_div_bounds:
  assumes "0 < a" "0 < b"
  shows "1 \<le> nat (ceil_div a b)" "a \<le> int (nat (ceil_div a b)) * b" "(int (nat (ceil_div a b)) - 1) * b < a"
proof -
  define q r where "q = (- a) div b" and "r = (- a) mod b"
  have d: "q * b + r = - a" "0 \<le> r" "r < b" using assms by (simp_all add: q_def r_def)
  have neg: "q < 0" using assms by (simp add: q_def neg_imp_zdiv_neg_iff div_neg_pos_less0)
  then have c: "int (nat (ceil_div a b)) = - q" by (simp add: ceil_div_def q_def)
  then show "1 \<le> nat (ceil_div a b)" using neg by linarith
  have "- q * b = - (q * b)" "(- q - 1) * b = - (q * b) - b" by (simp_all add: algebra_simps)
  then show "a \<le> int (nat (ceil_div a b)) * b" "(int (nat (ceil_div a b)) - 1) * b < a"
    unfolding c using d by linarith+
qed

definition slice :: "upload_row \<Rightarrow> bytes \<Rightarrow> nat \<Rightarrow> bytes" where
  "slice u data i = take (nat (up_chunkSize u)) (drop (i * nat (up_chunkSize u)) data)"

definition fits :: "upload_row \<Rightarrow> bytes \<Rightarrow> bool" where
  "fits u data \<longleftrightarrow> 0 < up_chunkSize u \<and> 0 < up_totalSize u \<and> up_totalSize u = int (length data)
     \<and> up_totalSize u \<le> max_safe \<and> up_totalChunks u = nat (ceil_div (up_totalSize u) (up_chunkSize u))"

lemma fits_bounds:
  assumes "fits u data"
  shows "1 \<le> up_totalChunks u" "length data \<le> up_totalChunks u * nat (up_chunkSize u)"
    "(up_totalChunks u - 1) * nat (up_chunkSize u) < length data"
proof -
  note C = ceil_div_bounds [of "up_totalSize u" "up_chunkSize u"]
  have f: "0 < up_chunkSize u" "0 < up_totalSize u" "up_totalSize u = int (length data)"
    "up_totalChunks u = nat (ceil_div (up_totalSize u) (up_chunkSize u))" using assms by (auto simp: fits_def)
  let ?c = "nat (up_chunkSize u)" and ?n = "up_totalChunks u"
  have c: "up_chunkSize u = int ?c" using f by simp
  show n1: "1 \<le> ?n" using C(1) f by simp
  have "int (length data) \<le> int (?n * ?c)" "int ((?n - 1) * ?c) < int (length data)"
    using C(2,3) f c n1 by (simp_all add: of_nat_diff)
  then show "length data \<le> ?n * ?c" "(?n - 1) * ?c < length data" by linarith+
qed

lemma length_slice:
  assumes "fits u data" "i < up_totalChunks u"
  shows "int (length (slice u data i)) = expected_size u i" "0 < up_totalSize u - int i * up_chunkSize u"
proof -
  let ?c = "nat (up_chunkSize u)" and ?n = "up_totalChunks u"
  note B = fits_bounds [OF assms(1)]
  have c: "up_chunkSize u = int ?c" and t: "up_totalSize u = int (length data)" using assms(1) by (simp_all add: fits_def)
  have le: "i * ?c \<le> (?n - 1) * ?c" using assms(2) by (intro mult_le_mono1) simp
  have "i * ?c < length data" using B(3) le by linarith
  moreover have "int i * int ?c = int (i * ?c)" by simp
  ultimately show "0 < up_totalSize u - int i * up_chunkSize u" unfolding t c [symmetric] using c by (metis diff_gt_0_iff_gt of_nat_less_iff)
  show "int (length (slice u data i)) = expected_size u i"
  proof (cases "i = ?n - 1")
    case True
    have "length data - i * ?c \<le> ?c" using B(1,2) True by (cases ?n) (simp_all add: algebra_simps)
    moreover have "int (length data - i * ?c) = up_totalSize u - int i * up_chunkSize u"
      using \<open>i * ?c < length data\<close> t c by (metis of_nat_diff of_nat_mult less_imp_le)
    ultimately show ?thesis using True by (simp add: slice_def expected_size_def)
  next
    case False
    then have "Suc i * ?c \<le> (?n - 1) * ?c" using assms(2) by (intro mult_le_mono1) simp
    then have "?c \<le> length data - i * ?c" using B(3) by simp
    then show ?thesis using False c by (simp add: slice_def expected_size_def min_def)
  qed
qed

lemma concat_slices: "concat (map (slice u data) [0..<n]) = take (n * nat (up_chunkSize u)) data"
proof (induction n)
  case (Suc n)
  then show ?case by (simp add: slice_def take_add [symmetric] add.commute)
qed simp

lemma slices_complete: "fits u data \<Longrightarrow> concat (map (slice u data) [0..<up_totalChunks u]) = data"
  using fits_bounds(2) by (simp add: concat_slices)


section \<open>Sending chunks\<close>

definition works :: "upload_env \<Rightarrow> bool" where
  "works env \<longleftrightarrow> (\<forall>v. ue_workspace env v) \<and> ue_io_ok env \<and> ue_commit env = Committed"

text \<open>The session \<open>u\<close> of the state \<open>s0\<close> has received the slices \<open>R\<close> and nothing else happened.\<close>

definition received :: "upload_env \<Rightarrow> bytes \<Rightarrow> upload_row \<Rightarrow> ustate \<Rightarrow> nat set \<Rightarrow> ustate \<Rightarrow> bool" where
  "received env data u s0 R s \<longleftrightarrow>
     (\<exists>v. us_sessions s = put_row up_id v (us_sessions s0) \<and> active_status (up_status v)
        \<and> v = u\<lparr>up_status := up_status v, up_uploadedCount := up_uploadedCount v, up_uploadedSize := up_uploadedSize v\<rparr>
        \<and> up_uploadedSize v = (\<Sum>i\<in>R. int (length (slice u data i))))
   \<and> us_db s = us_db s0 \<and> us_dirs s = us_dirs s0 \<and> us_fences s = us_fences s0 \<and> us_reserved s = us_reserved s0
   \<and> (\<forall>i. find_chunk (up_id u) i s = (if i \<in> R then Some \<lparr>ch_session = up_id u, ch_index = i,
        ch_byteSize = int (length (slice u data i)), ch_sha256 = ue_sha env (slice u data i)\<rparr> else None))
   \<and> (\<forall>p. below (up_tempPath u) p \<longrightarrow> read_file p s = (case find (\<lambda>i. chunk_path u i = p) [0..<up_totalChunks u] of
        Some i \<Rightarrow> if i \<in> R then Some (slice u data i) else None | None \<Rightarrow> None))
   \<and> (\<forall>p. \<not> below (up_tempPath u) p \<longrightarrow> read_file p s = read_file p s0)"

definition open_for :: "upload_row \<Rightarrow> ustate \<Rightarrow> bool" where
  "open_for u s \<longleftrightarrow> find_session (up_userId u) (up_uploadId u) None s = Some u
     \<and> (\<forall>v \<in> set (us_sessions s). up_uploadId v = up_uploadId u \<longrightarrow> v = u)
     \<and> distinct (map up_id (us_sessions s)) \<and> active_status (up_status u) \<and> up_accountingInitialized u
     \<and> up_uploadedSize u = 0 \<and> up_id u \<notin> set (us_reserved s) \<and> up_uploadId u \<notin> set (us_fences s)
     \<and> up_tempPath u \<in> set (us_dirs s) \<and> (\<forall>r \<in> set (us_chunks s). ch_session r \<noteq> up_id u)
     \<and> (\<forall>p. below (up_tempPath u) p \<longrightarrow> read_file p s = None)"

lemma put_row_self: "distinct (map key rs) \<Longrightarrow> r \<in> set rs \<Longrightarrow> put_row key r rs = rs"
  unfolding put_row_def by (rule map_idI) (auto dest: key_unique)

lemma put_row_twice: "key v = key w \<Longrightarrow> put_row key v (put_row key w rs) = put_row key v rs"
  by (simp add: put_row_def comp_def)

lemma received_start:
  assumes "open_for u s"
  shows "received env data u s {} s"
  using assms put_row_self [of up_id "us_sessions s" u] find_sessionD [of "up_userId u" "up_uploadId u" None s u]
  by (auto simp: received_def open_for_def find_chunk_def find_None_iff intro!: exI [of _ u] split: option.split)

lemma find_chunk_path: "i < n \<Longrightarrow> find (\<lambda>j. chunk_path u j = chunk_path u i) [0..<n] = Some i"
  by (simp add: find_Some_iff) (rule exI [of _ i], simp)

lemma find_put_session:
  assumes "open_for u s0" "us_sessions s = put_row up_id v (us_sessions s0)"
    and "up_id v = up_id u" "up_userId v = up_userId u" "up_uploadId v = up_uploadId u" "up_origin v = up_origin u"
  shows "find_session (up_userId u) (up_uploadId u) None s = Some v"
proof -
  have u: "u \<in> set (us_sessions s0)" "session_where (up_userId u) (up_uploadId u) None u"
    using assms(1) find_sessionD unfolding open_for_def by blast+
  have uniq: "session_where (up_userId u) (up_uploadId u) None w \<Longrightarrow> w = u" if "w \<in> set (us_sessions s0)" for w
    using assms(1) that by (auto simp: open_for_def session_where_def)
  have other: "up_id w = up_id u \<Longrightarrow> w = u" if "w \<in> set (us_sessions s0)" for w
    using assms(1) that u(1) key_unique unfolding open_for_def by metis
  have "find (session_where (up_userId u) (up_uploadId u) None) (map (\<lambda>x. if up_id x = up_id v then v else x) xs) = Some v"
    if "u \<in> set xs" "set xs \<subseteq> set (us_sessions s0)" for xs
    using that
  proof (induction xs)
    case (Cons x xs)
    have v: "session_where (up_userId u) (up_uploadId u) None v" using u(2) assms(3-6) by (simp add: session_where_def)
    show ?case
    proof (cases "x = u")
      case True
      then show ?thesis using v assms(3) by simp
    next
      case False
      then have "\<not> session_where (up_userId u) (up_uploadId u) None x" "up_id x \<noteq> up_id u"
        using uniq [of x] other [of x] Cons.prems(2) by auto
      then show ?thesis using False Cons assms(3) by simp
    qed
  qed simp
  then show ?thesis using assms(2) u(1) by (simp add: find_session_def put_row_def)
qed


lemma receivedD:
  assumes "received env data u s0 R s"
  obtains v where "us_sessions s = put_row up_id v (us_sessions s0)" "active_status (up_status v)"
    "v = u\<lparr>up_status := up_status v, up_uploadedCount := up_uploadedCount v, up_uploadedSize := up_uploadedSize v\<rparr>"
    "up_uploadedSize v = (\<Sum>i\<in>R. int (length (slice u data i)))"
  using assms unfolding received_def by blast

lemma row_fields:
  assumes "v = u\<lparr>up_status := a, up_uploadedCount := b, up_uploadedSize := c\<rparr>"
  shows "up_id v = up_id u" "up_userId v = up_userId u" "up_uploadId v = up_uploadId u" "up_origin v = up_origin u"
    "up_tempPath v = up_tempPath u" "up_totalSize v = up_totalSize u" "up_chunkSize v = up_chunkSize u"
    "up_totalChunks v = up_totalChunks u" "up_expiresAt v = up_expiresAt u" "up_filename v = up_filename u"
    "up_expectedSha256 v = up_expectedSha256 u" "up_parentId v = up_parentId u"
    "up_accountingInitialized v = up_accountingInitialized u" "expected_size v = expected_size u"
    "chunk_path v = chunk_path u" "attempt_path v = attempt_path u" "attempt_key v = attempt_key u"
  by (simp_all add: assms expected_size_def chunk_path_def attempt_path_def attempt_key_def fun_eq_iff)

lemma sum_slices_le:
  assumes "fits u data" "R \<subseteq> {..<up_totalChunks u}"
  shows "(\<Sum>i\<in>R. int (length (slice u data i))) \<le> up_totalSize u"
proof -
  have "(\<Sum>i\<in>R. int (length (slice u data i))) \<le> (\<Sum>i<up_totalChunks u. int (length (slice u data i)))"
    using assms(2) by (intro sum_mono2) auto
  also have "\<dots> = int (length (concat (map (slice u data) [0..<up_totalChunks u])))"
    by (simp add: length_concat comp_def sum_list_sum_nth lessThan_atLeast0)
  also have "\<dots> = up_totalSize u" using assms(1) by (simp add: slices_complete) (simp add: fits_def)
  finally show ?thesis .
qed

lemma chunk_sent:
  assumes w: "works env" and f: "fits u data" and o: "open_for u s0" and r: "received env data u s0 R s"
    and R: "R \<subseteq> {..<up_totalChunks u}" and i: "i < up_totalChunks u" and t: "\<not> after_expiry env u"
  shows "received env data u s0 (insert i R)
    (fst (uploadChunk env (up_userId u) (up_uploadId u) (JInt (int i)) (Buf (slice u data i)) None s))"
proof -
  let ?b = "slice u data i" and ?k = "up_uploadId u" and ?user = "up_userId u"
  obtain v where v: "us_sessions s = put_row up_id v (us_sessions s0)" "active_status (up_status v)"
    "v = u\<lparr>up_status := up_status v, up_uploadedCount := up_uploadedCount v, up_uploadedSize := up_uploadedSize v\<rparr>"
    "up_uploadedSize v = (\<Sum>i\<in>R. int (length (slice u data i)))"
    using receivedD [OF r] .
  note vf = row_fields [OF v(3)]
  have find: "find_session ?user ?k None s = Some v"
    using find_put_session [OF o v(1)] vf by simp
  have frame: "us_db s = us_db s0" "us_dirs s = us_dirs s0" "us_fences s = us_fences s0" "us_reserved s = us_reserved s0"
    and ch: "\<And>j. find_chunk (up_id u) j s = (if j \<in> R then Some \<lparr>ch_session = up_id u, ch_index = j,
        ch_byteSize = int (length (slice u data j)), ch_sha256 = ue_sha env (slice u data j)\<rparr> else None)"
    and rd: "\<And>p. below (up_tempPath u) p \<Longrightarrow> read_file p s = (case find (\<lambda>j. chunk_path u j = p) [0..<up_totalChunks u] of
        Some j \<Rightarrow> if j \<in> R then Some (slice u data j) else None | None \<Rightarrow> None)"
    and ro: "\<And>p. \<not> below (up_tempPath u) p \<Longrightarrow> read_file p s = read_file p s0"
    using r unfolding received_def by simp_all
  have rp: "read_file (chunk_path u i) s = (if i \<in> R then Some ?b else None)"
    using rd [of "chunk_path u i"] find_chunk_path [OF i] by simp
  have open1: "open_session env ?user ?k None s = (s, Inr v)"
    using o find w vf(1) frame(4) unfolding open_session_Inr by (simp add: open_for_def authorizeSession_def works_def)
  have checks: "chunk_checks env v i (int (length ?b)) = Inr ()"
    using i t v(2) vf length_slice [OF f i] unfolding chunk_checks_Inr by (simp add: after_expiry_def)
  have init: "up_accountingInitialized v" using o vf(13) by (simp add: open_for_def)
  have sum: "(\<Sum>j\<in>insert i R. int (length (slice u data j))) \<le> max_safe"
    using sum_slices_le [OF f, of "insert i R"] R i f by (auto simp: fits_def)
  have max: "0 \<le> up_uploadedSize v" unfolding v(4) by (simp add: sum_nonneg)
  define x where "x = (if i \<in> R then v else v\<lparr>up_uploadedCount := up_uploadedCount v + 1,
      up_uploadedSize := up_uploadedSize v + int (length ?b)\<rparr>)\<lparr>up_status := Uploading\<rparr>"
  define s2 where "s2 = (if i \<in> R then s else (write_file (chunk_path u i) ?b s)\<lparr>us_chunks := us_chunks s @
      [\<lparr>ch_session = up_id u, ch_index = i, ch_byteSize = int (length ?b), ch_sha256 = ue_sha env ?b\<rparr>]\<rparr>)"
  have fin: "finite R" using R finite_subset by blast
  have tp: "up_tempPath u \<in> set (us_dirs s)" using o frame(2) by (simp add: open_for_def)
  have size: "i \<notin> R \<Longrightarrow> up_uploadedSize v + int (length ?b) \<le> max_safe"
    using sum fin v(4) by (simp add: add.commute)
  have store: "chunk_store env v i (Buf ?b) ?b None s = (put_session x s2, Inr x)"
  proof (cases "i \<in> R")
    case True
    then show ?thesis
      using ch rp vf by (simp add: chunk_store_def publish_chunk_def comp_simps authorizeSession_def x_def s2_def
          bindU_def [of "publish_chunk _ _ _ _ _"])
  next
    case False
    then show ?thesis
      using ch rp vf w size max tp
      by (simp add: chunk_store_def publish_chunk_def record_chunk_def comp_simps authorizeSession_def x_def s2_def
          bindU_def [of "publish_chunk _ _ _ _ _"] bindU_def [of "bindU _ _"] remove_ingress_def works_def db_size_def)
  qed
  have fence: "?k \<notin> set (us_fences s)" using o frame(3) by (simp add: open_for_def)
  have tx: "chunk_tx env ?user ?k i (Buf ?b) ?b None s = (put_session x s2, Inr x)"
    using open1 checks init store by (simp add: chunk_tx_def bindU_def [of "open_session _ _ _ _"] comp_simps)
  have "int i \<le> max_safe"
  proof -
    have "int i * 1 \<le> int i * up_chunkSize u" using f by (intro mult_left_mono) (simp_all add: fits_def)
    then show ?thesis using length_slice(2) [OF f i] f by (simp add: fits_def)
  qed
  then have safe: "safe_integer (int i)" by (simp add: safe_integer_def max_safe_def)
  have run: "fst (uploadChunk env ?user ?k (JInt (int i)) (Buf ?b) None s) = put_session x s2"
    using tx fence safe w
    by (simp add: uploadChunk_def chunk_bytes_def comp_simps withTransaction_def runnerTransaction_def works_def remove_ingress_def)
  show ?thesis
    unfolding run received_def
  proof (intro conjI)
    have xf: "up_id x = up_id u" using vf by (simp add: x_def)
    have ss: "us_sessions s2 = us_sessions s" by (simp add: s2_def)
    have "us_sessions (put_session x s2) = put_row up_id x (us_sessions s0)"
      using put_row_twice [of up_id x v] xf vf(1) by (simp add: put_session_def ss v(1))
    moreover have "active_status (up_status x)" by (simp add: x_def active_status_def)
    moreover have "x = u\<lparr>up_status := up_status x, up_uploadedCount := up_uploadedCount x, up_uploadedSize := up_uploadedSize x\<rparr>"
      using v(3) by (cases u; cases v) (simp add: x_def)
    moreover have "up_uploadedSize x = (\<Sum>j\<in>insert i R. int (length (slice u data j)))"
      using v(4) fin by (simp add: x_def insert_absorb)
    ultimately show "\<exists>v. us_sessions (put_session x s2) = put_row up_id v (us_sessions s0) \<and> active_status (up_status v)
        \<and> v = u\<lparr>up_status := up_status v, up_uploadedCount := up_uploadedCount v, up_uploadedSize := up_uploadedSize v\<rparr>
        \<and> up_uploadedSize v = (\<Sum>i\<in>insert i R. int (length (slice u data i)))" by blast
    have rf: "read_file p (put_session x s2) = read_file p s2" for p by (simp add: read_file_def)
    have r2: "read_file p s2 = (if p = chunk_path u i \<and> i \<notin> R then Some ?b else read_file p s)" for p
      by (simp add: s2_def read_file_def write_file_def update_conv')
    show "\<forall>j. find_chunk (up_id u) j (put_session x s2) = (if j \<in> insert i R then Some \<lparr>ch_session = up_id u, ch_index = j,
        ch_byteSize = int (length (slice u data j)), ch_sha256 = ue_sha env (slice u data j)\<rparr> else None)"
    proof
      fix j
      have "find_chunk (up_id u) j (put_session x s2) = find_chunk (up_id u) j s2" by (simp add: find_chunk_def)
      also have "\<dots> = (case find_chunk (up_id u) j s of Some q \<Rightarrow> Some q | None \<Rightarrow>
          if j = i \<and> i \<notin> R then Some \<lparr>ch_session = up_id u, ch_index = i, ch_byteSize = int (length ?b), ch_sha256 = ue_sha env ?b\<rparr> else None)"
        by (auto simp: s2_def find_chunk_def find_append split: option.split)
      finally show "find_chunk (up_id u) j (put_session x s2) = (if j \<in> insert i R then Some \<lparr>ch_session = up_id u, ch_index = j,
        ch_byteSize = int (length (slice u data j)), ch_sha256 = ue_sha env (slice u data j)\<rparr> else None)"
        using ch by simp
    qed
    show "\<forall>p. below (up_tempPath u) p \<longrightarrow> read_file p (put_session x s2) = (case find (\<lambda>j. chunk_path u j = p) [0..<up_totalChunks u] of
        Some j \<Rightarrow> if j \<in> insert i R then Some (slice u data j) else None | None \<Rightarrow> None)"
    proof (intro allI impI)
      fix p assume p: "below (up_tempPath u) p"
      show "read_file p (put_session x s2) = (case find (\<lambda>j. chunk_path u j = p) [0..<up_totalChunks u] of
        Some j \<Rightarrow> if j \<in> insert i R then Some (slice u data j) else None | None \<Rightarrow> None)"
      proof (cases "p = chunk_path u i")
        case True
        then show ?thesis using rf r2 rp find_chunk_path [OF i] by simp
      next
        case False
        then show ?thesis using rf r2 rd [OF p] by (auto split: option.split dest!: find_SomeD)
      qed
    qed
    show "\<forall>p. \<not> below (up_tempPath u) p \<longrightarrow> read_file p (put_session x s2) = read_file p s0"
      using rf r2 ro by auto
  qed (simp_all add: s2_def frame)
qed


fun send :: "upload_env \<Rightarrow> upload_row \<Rightarrow> bytes \<Rightarrow> (int \<times> nat) list \<Rightarrow> ustate \<Rightarrow> ustate" where
  "send env u data [] s = s"
| "send env u data ((t, i) # xs) s =
     send env u data xs (fst (uploadChunk (env\<lparr>ue_now := t\<rparr>) (up_userId u) (up_uploadId u) (JInt (int i))
       (Buf (slice u data i)) None s))"

definition before_expiry :: "int \<Rightarrow> upload_row \<Rightarrow> bool" where
  "before_expiry t u \<longleftrightarrow> (case up_expiresAt u of None \<Rightarrow> True | Some e \<Rightarrow> t < e)"

lemma received_env [simp]: "received (env\<lparr>ue_now := t\<rparr>) = received env"
  by (simp add: received_def fun_eq_iff)

lemma sent_all:
  assumes "works env" "fits u data" "open_for u s0" "received env data u s0 R s" "R \<subseteq> {..<up_totalChunks u}"
    and "\<forall>(t, i) \<in> set xs. before_expiry t u \<and> i < up_totalChunks u"
  shows "received env data u s0 (R \<union> snd ` set xs) (send env u data xs s)"
  using assms(4-6)
proof (induction xs arbitrary: R s)
  case (Cons x xs)
  obtain t i where x: "x = (t, i)" by (cases x)
  have "works (env\<lparr>ue_now := t\<rparr>)" using assms(1) by (simp add: works_def)
  moreover have "\<not> after_expiry (env\<lparr>ue_now := t\<rparr>) u" "i < up_totalChunks u"
    using Cons.prems(3) x by (auto simp: before_expiry_def after_expiry_def split: option.splits)
  ultimately have "received env data u s0 (insert i R) (fst (uploadChunk (env\<lparr>ue_now := t\<rparr>) (up_userId u) (up_uploadId u)
      (JInt (int i)) (Buf (slice u data i)) None s))"
    using chunk_sent [of "env\<lparr>ue_now := t\<rparr>" u data s0 R s i] assms(2,3) Cons.prems(1,2) by simp
  then show ?case using Cons.IH [of "insert i R"] Cons.prems x \<open>i < up_totalChunks u\<close> by auto
qed simp

lemma read_all:
  assumes f: "fits u data" and r: "received env data u s0 {..<up_totalChunks u} s"
  shows "read_chunks env u [0..<up_totalChunks u] s = Inr data"
proof -
  have "read_chunks env u is s = Inr (concat (map (slice u data) is))" if "set is \<subseteq> {..<up_totalChunks u}" for "is"
    using that
  proof (induction "is")
    case (Cons i "is")
    then have i: "i < up_totalChunks u" by simp
    have "read_file (chunk_path u i) s = Some (slice u data i)"
      using r i find_chunk_path [OF i] by (simp add: received_def)
    moreover have "find_chunk (up_id u) i s = Some \<lparr>ch_session = up_id u, ch_index = i,
        ch_byteSize = int (length (slice u data i)), ch_sha256 = ue_sha env (slice u data i)\<rparr>"
      using r i by (simp add: received_def)
    ultimately show ?case using Cons length_slice(1) [OF f i] by simp
  qed simp
  then show ?thesis using slices_complete [OF f] by (simp add: subset_iff)
qed

text \<open>No finished file lies below the temporary directory.\<close>

lemma final_path_shape:
  "final_path env user key name = Inr p \<Longrightarrow> \<exists>r. p = ue_root env @ 47 # dec user @ 47 # r
     \<and> is_ok (placementForPath (ue_trusted env) (ue_root env) p)"
  by (auto simp: final_path_def generateFinalPath_def ensureWithinStorageRoot_def err_simps placementForPath_def)

lemma final_not_temp:
  assumes "final_path env user key name = Inr p"
  shows "\<not> below (ue_root env @ js ''/.tmp/'' @ k) p"
proof -
  obtain c cs where c: "dec user = c # cs" "digit c" using dec_digits [of user] by (cases "dec user") auto
  have "c \<noteq> 46" using c(2) by (auto simp: digit_def)
  then show ?thesis using final_path_shape [OF assms] c(1) by (auto simp: below_def starts_with_iff)
qed

lemma remove_attempts_none:
  "\<forall>e \<in> set es. assembly_id e = None \<Longrightarrow> remove_attempts env u c es s = (s, Inr ())"
  by (induction es) (simp_all add: comp_simps)

lemma entry_read: "e \<in> set (entries d s) \<Longrightarrow> below d (d @ 47 # e) \<and> read_file (d @ 47 # e) s \<noteq> None"
  by (auto simp: entries_def below_iff read_file_def map_of_eq_None_iff image_iff) (metis fst_conv)

lemma no_attempts:
  assumes "received env data u s0 R s" "e \<in> set (entries (up_tempPath u) s)"
  shows "assembly_id e = None"
proof -
  have "read_file (up_tempPath u @ 47 # e) s \<noteq> None" "below (up_tempPath u) (up_tempPath u @ 47 # e)"
    using entry_read [OF assms(2)] by simp_all
  then obtain i where "chunk_path u i = up_tempPath u @ 47 # e"
    using assms(1) unfolding received_def by (auto dest!: find_SomeD split: option.splits if_splits)
  then have "e = dec i" by (simp add: chunk_path_def)
  moreover obtain c cs where "dec i = c # cs" "digit c" using dec_digits [of i] by (cases "dec i") auto
  ultimately show ?thesis by (auto simp: assembly_id_def starts_with_def assembly_prefix_def digit_def Let_def)
qed

lemma cleanup_fresh:
  assumes r: "received env data u s0 R s" and fields: "v = u\<lparr>up_status := a, up_uploadedCount := b, up_uploadedSize := c\<rparr>"
    and "up_id u \<notin> set (us_reserved s)" "up_filename u \<noteq> []" "committed_file u s = None"
    and "final_path env (up_userId u) (up_uploadId u) (up_filename u) = Inr q"
  shows "cleanupUnpublishedAssembly env v s = (remove_file q s, Inr None)"
proof -
  have "remove_attempts env v None (entries (up_tempPath u) s) s = (s, Inr ())"
    using no_attempts [OF r] by (intro remove_attempts_none) simp
  moreover have "committed_file v s = committed_file u s" by (simp add: committed_file_def fields)
  ultimately show ?thesis
    using assms row_fields [OF fields]
    by (simp add: cleanupUnpublishedAssembly_def assertLegacyUnreserved_def comp_simps bindU_def [of "bindU _ _"]
        bindU_def [of "remove_attempts _ _ _ _"])
qed


text \<open>What the publication needs of the rest of the system.\<close>

definition publishable :: "upload_env \<Rightarrow> upload_row \<Rightarrow> ustring \<Rightarrow> ustring \<Rightarrow> ustring \<Rightarrow> bytes \<Rightarrow> ustate \<Rightarrow> bool" where
  "publishable env u m p name data s \<longleftrightarrow>
     up_filename u \<noteq> [] \<and> committed_file u s = None \<and> \<not> at_expiry env u
     \<and> (up_expectedSha256 u = None \<or> up_expectedSha256 u = Some (ue_sha env data))
     \<and> up_tempPath u = ue_root env @ js ''/.tmp/'' @ up_uploadId u
     \<and> is_ok (final_path env (up_userId u) (up_uploadId u) (up_filename u))
     \<and> final_path env (up_userId u) (attempt_key u m) (up_filename u) = Inr p \<and> read_file p s = None
     \<and> (\<exists>w. findById (us_db s) (up_userId u) = Some w \<and> u_isActive w)
     \<and> lockPublicationDestination (us_db s) (up_userId u) (up_parentId u) = Inr ()
     \<and> allocateNamespaceName (us_db s) (up_userId u) (up_parentId u) (up_filename u) KFile None None = Inr name
     \<and> varchar_ok 255 name"

lemma read_chunks_cong:
  assumes "\<And>i. read_file (chunk_path u i) s' = read_file (chunk_path u i) s" "us_chunks s' = us_chunks s"
    and "expected_size v = expected_size u" "chunk_path v = chunk_path u" "up_id v = up_id u"
  shows "read_chunks env v is s' = read_chunks env u is s"
  using assms by (induction "is") (simp_all add: find_chunk_def cong: option.case_cong)

lemma attempt_not_chunk: "chunk_path u i \<noteq> attempt_path u m"
proof -
  obtain c cs where "dec i = c # cs" "digit c" using dec_digits [of i] by (cases "dec i") auto
  then show ?thesis by (auto simp: chunk_path_def attempt_path_def assembly_prefix_def digit_def)
qed

lemma below_attempt_path [simp]: "below (up_tempPath u) (attempt_path u m)"
  by (simp add: below_def starts_with_def attempt_path_def)

lemma publish_succeeds:
  assumes ok: "accounts_ok s" and w: "works env" and p: "publishable env u m p name data s0"
    and db: "us_db s = us_db s0" and v: "find_session (up_userId u) (up_uploadId u) None s = Some v"
    and vf: "v = u\<lparr>up_status := a, up_uploadedCount := b, up_uploadedSize := c\<rparr>" "active_status a"
    and res: "up_id u \<notin> set (us_reserved s)" and len: "0 < length data" "up_totalSize u = int (length data)" "up_totalSize u \<le> max_safe"
    and at: "at = \<lparr>at_path = attempt_path u m, at_final = p, at_data = data, at_digest = h\<rparr>"
    and rd: "read_file (attempt_path u m) s = Some data" "read_file p s = None"
  shows "\<exists>d f. publish env at v None s =
      (put_session (completed_session at v) (delete_chunks (up_id u) (write_file p data s\<lparr>us_db := d\<rparr>)), Inr f)
    \<and> f_storagePath f = Some p \<and> f_size f = int (length data) \<and> f_name f = name \<and> f_uploadId f = Some (up_uploadId u)
    \<and> f_userId f = up_userId u \<and> f_parentId f = up_parentId u \<and> f \<in> set (files d)
    \<and> used_of d (up_userId u) = used_of (us_db s) (up_userId u) + int (length data)"
proof -
  note f = row_fields [OF vf(1)]
  let ?user = "up_userId u"
  obtain o1 where o1: "findById (us_db s) ?user = Some o1" "u_isActive o1" using p db by (auto simp: publishable_def)
  have uok: "users_ok (us_db s)" using accounts_okD(1) [OF ok] .
  have used: "used_of (us_db s) ?user = u_storageUsed o1" "quota_of (us_db s) ?user = u_storageQuota o1"
    using o1(1) by (simp_all add: used_of_def quota_of_def)
  have vin: "v \<in> set (us_sessions s)" using find_sessionD [OF v] by simp
  have pos: "0 \<le> up_totalSize x" if "x \<in> set (us_sessions s)" for x
    using accounts_okD(3) [OF ok that] by (simp add: session_ok_def)
  have act: "up_totalSize u \<le> active_total ?user s"
  proof -
    have "v \<in> set (filter (\<lambda>u. up_userId u = ?user \<and> active_status (up_status u)) (us_sessions s))"
      using vin f vf by simp
    then have "up_totalSize v \<le> active_total ?user s"
      unfolding active_total_def total_def using pos by (intro member_le_sum_list) auto
    then show ?thesis using f by simp
  qed
  have fit: "u_storageUsed o1 + active_total ?user s \<le> u_storageQuota o1"
    using accounts_okD(6) [OF ok, of ?user] used by simp
  then have quota: "quota_admits o1 (active_total ?user s) = Inr ()"
    using quota_admits_Inr [OF uok o1(1)] act len by simp
  obtain pl where pl: "placementForPath (ue_trusted env) (ue_root env) p = Inr pl" "pl_storagePath pl = p"
    using p final_path_shape [of env ?user "attempt_key u m" "up_filename u" p]
    by (cases "placementForPath (ue_trusted env) (ue_root env) p") (auto simp: publishable_def placementForPath_def err_simps)
  have link: "link_attempt env at s = (write_file p data s, Inr pl)"
    using rd pl(1) w by (simp add: link_attempt_Inr at works_def)
  let ?row = "uploaded_file env at v name pl"
  let ?f = "?row\<lparr>f_id := next_file (us_db s)\<rparr>"
  let ?da = "(us_db s)\<lparr>files := files (us_db s) @ [?f], next_file := Suc (next_file (us_db s))\<rparr>"
  have ex: "user_exists (us_db s) ?user" using o1(1) findById_Some [OF uok] by (auto simp: user_exists_def)
  have ins: "insert_file ?row (us_db (write_file p data s)) = Inr (?da, ?f)"
    using p ex f by (simp add: insert_file_Inr uploaded_file_def new_file_def chk_files_placement_def publishable_def)
  have u1: "users ?da = users (us_db s)" by simp
  note cong = users_ok_cong [OF u1]
  have charge: "updateStorageUsed ?user (int (length data)) ?da = Inr (add_used ?user (int (length data)) ?da)"
    using o1(1) fit act len cong uok by (simp add: updateStorageUsed_eq)
  let ?db = "add_used ?user (int (length data)) ?da"
  have charge': "updateStorageUsed ?user (int (length (at_data at))) ?da = Inr ?db" using charge by (simp add: at)
  have same: "same_session v v" using vf by (simp add: same_session_def)
  have exp: "\<not> at_expiry env v" using p f by (simp add: publishable_def at_expiry_def)
  have pre: "lockPublicationDestination (us_db s0) ?user (up_parentId u) = Inr ()"
    "allocateNamespaceName (us_db s0) ?user (up_parentId u) (up_filename u) KFile None None = Inr name"
    using p by (simp_all add: publishable_def)
  have "publish env at v None s = (put_session (completed_session at v) (delete_chunks (up_id v) (write_file p data s\<lparr>us_db := ?db\<rparr>)), Inr ?f)"
    unfolding publish_Inr
    by (rule exI [of _ o1], rule exI [of _ v], rule exI [of _ name], rule exI [of _ pl],
        rule exI [of _ "write_file p data s"], rule exI [of _ ?da], rule exI [of _ ?db])
      (use o1 pre db v f(1,2,3,10,12) res w quota link ins charge' same exp in \<open>simp add: authorizeSession_def works_def\<close>)
  moreover have "used_of ?db ?user = used_of (us_db s) ?user + int (length data)"
    using used_of_add_used [of ?da ?user "int (length data)" ?user] cong uok o1(1) by simp
  ultimately show ?thesis
    using f pl(2) by (intro exI [of _ ?db] exI [of _ ?f]) (simp add: uploaded_file_def new_file_def at)
qed


lemma received_fences:
  "received env data u s0 R s \<Longrightarrow> received env data u (s0\<lparr>us_fences := F\<rparr>) R (s\<lparr>us_fences := F\<rparr>)"
  by (simp add: received_def find_chunk_def read_file_def)

lemma assemble_run:
  assumes "final_path env (up_userId v) (attempt_key v m) (up_filename v) = Inr p"
    "read_file (attempt_path v m) s = None" "ue_io_ok env" "up_tempPath v \<in> set (us_dirs s)"
    "read_chunks env v [0..<up_totalChunks v] s = Inr data" "int (length data) = up_totalSize v"
    "up_expectedSha256 v = None \<or> up_expectedSha256 v = Some (ue_sha env data)"
  shows "assemble env m v s = (write_file (attempt_path v m) data s,
     Inr \<lparr>at_path = attempt_path v m, at_final = p, at_data = data, at_digest = ue_sha env data\<rparr>)"
  using assms by (auto simp: assemble_def Let_def comp_simps)

lemma complete_sent:
  assumes w: "works env" and f: "fits u data" and o: "open_for u s0"
    and r: "received env data u s0 {..<up_totalChunks u} s" and ok: "accounts_ok s"
    and p: "publishable env u m p name data s" and pool: "length (us_fences s) < assembly_limit pool"
  shows "\<exists>f. snd (completeUpload env pool m id (up_userId u) (up_uploadId u) None s) = Inr f
     \<and> f_storagePath f = Some p \<and> f_size f = int (length data) \<and> f_name f = name \<and> f_parentId f = up_parentId u
     \<and> (let s' = fst (completeUpload env pool m id (up_userId u) (up_uploadId u) None s)
        in read_file p s' = Some data \<and> f \<in> set (files (us_db s'))
         \<and> used_of (us_db s') (up_userId u) = used_of (us_db s) (up_userId u) + int (length data)
         \<and> (\<forall>q. below (up_tempPath u) q \<longrightarrow> read_file q s' = None))"
proof -
  let ?user = "up_userId u" and ?k = "up_uploadId u" and ?n = "up_totalChunks u"
  let ?s = "s\<lparr>us_fences := ?k # us_fences s\<rparr>"
  obtain v where v: "us_sessions s = put_row up_id v (us_sessions s0)" "active_status (up_status v)"
    "v = u\<lparr>up_status := up_status v, up_uploadedCount := up_uploadedCount v, up_uploadedSize := up_uploadedSize v\<rparr>"
    using receivedD [OF r] by blast
  note vf = row_fields [OF v(3)]
  have find: "find_session ?user ?k None s = Some v" using find_put_session [OF o v(1)] vf by simp
  have frame: "us_db s = us_db s0" "us_dirs s = us_dirs s0" "us_fences s = us_fences s0" "us_reserved s = us_reserved s0"
    using r by (simp_all add: received_def)
  have res: "up_id u \<notin> set (us_reserved s)" "up_tempPath u \<in> set (us_dirs s)" "?k \<notin> set (us_fences s)"
    using o frame by (simp_all add: open_for_def)
  have rs: "received env data u (s0\<lparr>us_fences := ?k # us_fences s\<rparr>) {..<?n} ?s" by (rule received_fences [OF r])
  have op: "open_session env ?user ?k None ?s = (?s, Inr v)"
    using find w vf res by (simp add: open_session_Inr find_session_def authorizeSession_def works_def)
  have fresh: "\<not> at_expiry env v" "\<not> after_expiry env v"
    using p vf by (auto simp: publishable_def at_expiry_def after_expiry_def split: option.splits)
  have st: "up_status v \<noteq> Completed" "up_status v \<noteq> Aborted" using v(2) by (auto simp: active_status_def)
  obtain q where q: "final_path env ?user ?k (up_filename u) = Inr q"
    using p by (cases "final_path env ?user ?k (up_filename u)") (auto simp: publishable_def)
  have fin: "final_path env ?user (attempt_key u m) (up_filename u) = Inr p" "read_file p s = None" using p by (simp_all add: publishable_def)
  have tp: "up_tempPath u = ue_root env @ js ''/.tmp/'' @ ?k" using p by (simp add: publishable_def)
  have out: "\<not> below (up_tempPath u) q" "\<not> below (up_tempPath u) p"
    using final_not_temp [OF q] final_not_temp [OF fin(1)] unfolding tp by blast+
  define s2 where "s2 = remove_file q ?s"
  have clean: "cleanupUnpublishedAssembly env v ?s = (s2, Inr None)"
    unfolding s2_def using p res q by (intro cleanup_fresh [OF rs v(3)]) (simp_all add: publishable_def committed_file_def)
  let ?ap = "attempt_path u m"
  have rd2: "read_file x s2 = (if x = q then None else read_file x s)" for x by (simp add: s2_def read_file_def remove_file_def delete_conv')
  have cq: "chunk_path u i \<noteq> q" for i using out(1) by auto
  have rc: "read_file (chunk_path u i) s2 = read_file (chunk_path u i) s" for i using cq by (simp add: rd2)
  have ch2: "us_chunks s2 = us_chunks s" by (simp add: s2_def)
  have chunks: "read_chunks env v [0..<?n] s2 = Inr data"
    using read_chunks_cong [OF rc ch2 vf(14,15,1)] read_all [OF f r] by simp
  have "find (\<lambda>i. chunk_path u i = ?ap) [0..<?n] = None"
    using attempt_not_chunk by (simp add: find_None_iff)
  moreover have "read_file ?ap s = (case find (\<lambda>i. chunk_path u i = ?ap) [0..<?n] of
      Some i \<Rightarrow> if i \<in> {..<?n} then Some (slice u data i) else None | None \<Rightarrow> None)"
    using r below_attempt_path unfolding received_def by blast
  ultimately have apn: "read_file ?ap s2 = None" unfolding rd2 by simp
  define a where "a = \<lparr>at_path = ?ap, at_final = p, at_data = data, at_digest = ue_sha env data\<rparr>"
  define s3 where "s3 = write_file ?ap data s2"
  have len: "int (length data) = up_totalSize u" "0 < length data" "up_totalSize u \<le> max_safe" using f by (auto simp: fits_def)
  have asm: "assemble env m v s2 = (s3, Inr a)"
    using assemble_run [of env v m p s2 data] vf fin(1) apn w res(2) chunks len(1) p
    by (simp add: a_def s3_def works_def publishable_def) (simp add: s2_def)
  have dbs: "same_db s s3" by (simp add: same_db_def s3_def s2_def)
  have ok3: "accounts_ok s3" using accounts_ok_cong [OF dbs] ok by simp
  have find3: "find_session ?user ?k None s3 = Some v" using find dbs by (simp add: find_session_def same_db_def)
  have pa: "p \<noteq> ?ap" using out(2) by auto
  have rd3: "read_file ?ap s3 = Some data" "read_file p s3 = None"
    using pa fin(2) by (simp_all add: s3_def rd2)
  have res3: "up_id u \<notin> set (us_reserved s3)" using res(1) by (simp add: s3_def s2_def)
  obtain d g where pub: "publish env a v None s3 =
      (put_session (completed_session a v) (delete_chunks (up_id u) (write_file p data s3\<lparr>us_db := d\<rparr>)), Inr g)"
    and g: "f_storagePath g = Some p" "f_size g = int (length data)" "f_name g = name" "f_parentId g = up_parentId u"
      "g \<in> set (files d)" "used_of d ?user = used_of (us_db s3) ?user + int (length data)"
    using publish_succeeds [OF ok3 w p _ find3 v(3,2) res3 len(2) _ len(3) a_def rd3] len(1) dbs
    by (auto simp: same_db_def)
  define s4 where "s4 = put_session (completed_session a v) (delete_chunks (up_id u) (write_file p data s3\<lparr>us_db := d\<rparr>))"
  have publ: "publication env a v None s3 = (s4, Inr g)"
    using pub w by (simp add: publication_def runnerTransaction_def works_def s4_def)
  have "up_tempPath u \<noteq> temp_root env" using tp by (simp add: temp_root_def)
  then have del: "quietly (deleteTempFiles env (up_tempPath v)) s4 = (remove_tree (up_tempPath u) s4, Inr ())"
    using vf by (simp add: quietly_def deleteTempFiles_def comp_simps)
  have body: "complete_body env m id ?user ?k None ?s = (remove_tree (up_tempPath u) s4, Inr g)"
    using op fresh st clean asm publ del
    by (simp add: complete_body_def comp_simps bindU_def [of "open_session _ _ _ _"] bindU_def [of "cleanupUnpublishedAssembly _ _"]
        bindU_def [of "assemble _ _ _"] bindU_def [of "publication _ _ _ _"] bindU_def [of "quietly _"])
  let ?s' = "remove_tree (up_tempPath u) s4\<lparr>us_fences := remove1 ?k (us_fences (remove_tree (up_tempPath u) s4))\<rparr>"
  have run: "completeUpload env pool m id ?user ?k None s = (?s', Inr g)"
    using body pool res(3) by (simp add: completeUpload_def withAssemblyFence_def)
  have r': "read_file x ?s' = (if below (up_tempPath u) x then None else read_file x s4)" for x
    using read_remove_tree [of x "up_tempPath u" s4] by (simp add: read_file_def)
  have "read_file p s4 = Some data" by (simp add: s4_def read_file_def write_file_def update_conv')
  moreover have "us_db s4 = d" by (simp add: s4_def)
  moreover have "us_db s3 = us_db s" using dbs by (simp add: same_db_def)
  ultimately show ?thesis
    unfolding run Let_def using g r' out(2) by (intro exI [of _ g]) simp
qed

end
