(* ===== verification/UploadTripClaims.thy ===== *)
theory UploadTripClaims
  imports UploadTrip UploadClaims
begin

section \<open>From creation to the stored file\<close>

definition unused_id :: "upload_env \<Rightarrow> ustring \<Rightarrow> ustate \<Rightarrow> bool" where
  "unused_id env k s \<longleftrightarrow> (\<forall>v \<in> set (us_sessions s). up_uploadId v \<noteq> k) \<and> k \<notin> set (us_fences s)
     \<and> us_next s \<notin> set (us_reserved s)
     \<and> (\<forall>q. below (ue_root env @ js ''/.tmp/'' @ k) q \<longrightarrow> read_file q s = None)"

lemma created_open:
  assumes w: "works env" and ok: "accounts_ok s" and k: "unused_id env k s"
    and c: "createUploadSession env k user name (JInt n) (JInt c) parent sha None s = (s1, Inr u)"
  shows "open_for u s1" "us_db s1 = us_db s" "read_file q s1 = read_file q s" "us_fences s1 = us_fences s"
    "up_userId u = user" "up_uploadId u = k" "up_totalSize u = n" "0 < n" "n \<le> max_safe" "0 < up_chunkSize u"
    "up_totalChunks u = nat (ceil_div n (up_chunkSize u))"
proof -
  obtain t ch m where cc: "create_checks (ue_config env) (us_db s) user name (JInt n) (JInt c) parent sha = Inr (t, ch, m)"
    using c by (cases "create_checks (ue_config env) (us_db s) user name (JInt n) (JInt c) parent sha")
      (auto simp: createUploadSession_def comp_simps)
  then have sc: "size_checks (ue_config env) (JInt n) (JInt c) = Inr (t, ch, m)" by (simp add: create_checks_def err_simps)
  have sz: "t = n" "0 < n" "n \<le> max_safe" "0 < ch" "m = nat (ceil_div n ch)"
    by (insert sc, auto simp: size_checks_def safe_integer_def validateSafePositiveInteger_def err_simps Let_def split: if_splits)
  let ?row = "new_session env k user name t ch m (map_option nat parent) sha None"
  let ?u = "?row\<lparr>up_id := us_next s\<rparr>"
  let ?sa = "s\<lparr>us_sessions := us_sessions s @ [?u], us_next := Suc (us_next s)\<rparr>"
  obtain sb r where tx: "withTransaction (ue_commit env) None (create_tx env ?row None) s = (sb, r)"
    by (cases "withTransaction (ue_commit env) None (create_tx env ?row None) s")
  have "is_ok r" using c tx cc by (cases r) (auto simp: createUploadSession_def comp_simps bindU_def [of "withTransaction _ _ _"])
  then obtain x where r: "r = Inr x" by (cases r) auto
  have "create_tx env ?row None s = (sb, Inr x)" using withTransaction_Inr [OF tx [unfolded r]] by (rule conjunct1)
  then have x: "x = ?u" "sb = ?sa" using create_tx_owner by auto
  have s1: "s1 = ?sa\<lparr>us_dirs := List.insert (up_tempPath ?u) (us_dirs s)\<rparr>" "u = ?u"
    using c tx cc r x w
    by (auto simp: createUploadSession_def comp_simps bindU_def [of "withTransaction _ _ _"] works_def new_session_def)
  have less: "up_id v < us_next s" if "v \<in> set (us_sessions s)" for v
    using accounts_okD(3) [OF ok that] by (simp add: session_ok_def)
  have rows: "ch_session q \<noteq> us_next s" if "q \<in> set (us_chunks s)" for q
    using accounts_okD(4) [OF ok that] less unfolding chunk_ok_def by fastforce
  have uf: "up_id u = us_next s" "up_userId u = user" "up_uploadId u = k" "up_totalSize u = n" "up_chunkSize u = ch"
    "up_totalChunks u = m" "up_tempPath u = ue_root env @ js ''/.tmp/'' @ k" "active_status (up_status u)" "up_origin u = OwnerOrigin"
    "up_accountingInitialized u" "up_uploadedSize u = 0"
    using sz(1) by (simp_all add: s1(2) new_session_def active_status_def)
  show "us_db s1 = us_db s" "read_file q s1 = read_file q s" "us_fences s1 = us_fences s" for q
    by (simp_all add: s1(1) read_file_def)
  show "up_userId u = user" "up_uploadId u = k" "up_totalSize u = n" "0 < n" "n \<le> max_safe" "0 < up_chunkSize u"
    "up_totalChunks u = nat (ceil_div n (up_chunkSize u))" using uf sz by simp_all
  have sess: "us_sessions s1 = us_sessions s @ [u]" by (simp add: s1)
  have "find (session_where user k None) (us_sessions s) = None"
    using k by (auto simp: find_None_iff unused_id_def session_where_def)
  then have "find_session user k None s1 = Some u"
    using uf by (simp add: find_session_def sess find_append session_where_def)
  moreover have "distinct (map up_id (us_sessions s1))" unfolding sess using accounts_okD(2) [OF ok] less uf(1) by fastforce
  moreover have "us_reserved s1 = us_reserved s" "us_chunks s1 = us_chunks s" by (simp_all add: s1(1))
  moreover have "up_tempPath u \<in> set (us_dirs s1)" unfolding s1 by simp
  moreover have "read_file q s1 = None" if "below (up_tempPath u) q" for q
    using that k unfolding uf(7) by (simp add: unused_id_def s1(1) read_file_def)
  ultimately show "open_for u s1"
    using uf k rows sess \<open>us_fences s1 = us_fences s\<close> by (auto simp: open_for_def unused_id_def)
qed

lemma send_ok: "accounts_ok s \<Longrightarrow> accounts_ok (send env u data xs s)"
proof (induction xs arbitrary: s)
  case (Cons x xs)
  then show ?case using sound_chunk by (cases x) (simp add: keeps_def)
qed simp

lemma publishable_cong:
  "us_db s' = us_db s \<Longrightarrow> read_file p s' = read_file p s \<Longrightarrow> publishable env u m p n data s' = publishable env u m p n data s"
  by (simp add: publishable_def committed_file_def)

text \<open>
  C2: a file whose upload session was created, whose chunks were all sent before the expiry, in any
  order and with any repetitions, is completed successfully when its destination admits it: the object
  of the new row holds exactly the bytes of the file, the row has its size and the allocated name, the
  user is charged exactly that size, and nothing is left in the temporary directory of the session.
\<close>

theorem upload_roundtrip:
  assumes "works env" "accounts_ok s" "unused_id env k s"
    and "createUploadSession env k user name (JInt (int (length data))) (JInt c) parent sha None s = (s1, Inr u)"
    and "\<forall>(t, i) \<in> set xs. before_expiry t u \<and> i < up_totalChunks u" "snd ` set xs = {..<up_totalChunks u}"
    and "publishable (env\<lparr>ue_now := t\<rparr>) u m p name' data s" "length (us_fences s) < assembly_limit pool"
  defines "r \<equiv> completeUpload (env\<lparr>ue_now := t\<rparr>) pool m id user k None (send env u data xs s1)"
  shows "\<exists>f. snd r = Inr f \<and> f_storagePath f = Some p \<and> f_size f = int (length data) \<and> f_name f = name'
    \<and> f_parentId f = up_parentId u \<and> f \<in> set (files (us_db (fst r))) \<and> read_file p (fst r) = Some data
    \<and> used_of (us_db (fst r)) user = used_of (us_db s) user + int (length data)
    \<and> (\<forall>q. below (up_tempPath u) q \<longrightarrow> read_file q (fst r) = None)"
proof -
  note C = created_open [OF assms(1-4)]
  have f: "fits u data" using C(7-11) by (simp add: fits_def)
  let ?s = "send env u data xs s1"
  have "received env data u s1 ({} \<union> snd ` set xs) ?s"
    by (rule sent_all [OF assms(1) f C(1) received_start [OF C(1)] _ assms(5)]) simp
  then have r: "received (env\<lparr>ue_now := t\<rparr>) data u s1 {..<up_totalChunks u} ?s" using assms(6) by simp
  have "accounts_ok s1" using create_ok [OF assms(2)] assms(4) by (metis fst_conv)
  then have ok: "accounts_ok ?s" by (rule send_ok)
  have w: "works (env\<lparr>ue_now := t\<rparr>)" using assms(1) by (simp add: works_def)
  have db: "us_db ?s = us_db s" "us_fences ?s = us_fences s" using r C(2,4) by (simp_all add: received_def)
  have "final_path env (up_userId u) (attempt_key u m) (up_filename u) = Inr p"
    "up_tempPath u = ue_root env @ js ''/.tmp/'' @ up_uploadId u"
    using assms(7) by (simp_all add: publishable_def final_path_def)
  then have "\<not> below (up_tempPath u) p" using final_not_temp by metis
  then have "read_file p ?s = read_file p s" using r C(3) by (simp add: received_def)
  then have "publishable (env\<lparr>ue_now := t\<rparr>) u m p name' data ?s"
    using publishable_cong [OF db(1)] assms(7) by blast
  then have "publishable (env\<lparr>ue_now := t\<rparr>) u m p name' data ?s" .
  note fin = complete_sent [OF w f C(1) r ok this]
  have "length (us_fences ?s) < assembly_limit pool" using assms(8) db by simp
  note fin = fin [OF this]
  show ?thesis using fin unfolding C(5,6) db Let_def r_def by blast
qed

definition pred_or_false :: "('a \<Rightarrow> bool) \<Rightarrow> 'a option \<Rightarrow> bool" where
  "pred_or_false P x = (case x of None \<Rightarrow> False | Some y \<Rightarrow> P y)"

definition trip_bytes :: bytes where
  "trip_bytes = [7, 8, 9, 10, 11, 12]"

definition trip_create :: "ustate \<times> upload_row res" where
  "trip_create = createUploadSession demo_env (js ''abc'') 1 (js ''f'') (JInt 6) (JInt 4) None None None ustate0"

definition trip_state :: ustate where
  "trip_state = fst trip_create"

definition trip_row :: upload_row where
  "trip_row = projr (snd trip_create)"

lemma active_iff: "(\<exists>w. findById d i = Some w \<and> u_isActive w) = pred_or_false u_isActive (findById d i)"
  by (cases "findById d i") (simp_all add: pred_or_false_def)

lemma trip_facts:
  "createUploadSession demo_env (js ''abc'') 1 (js ''f'') (JInt (int (length trip_bytes))) (JInt 4) None None None ustate0
     = (trip_state, Inr trip_row)"
  "works demo_env" "unused_id demo_env (js ''abc'') ustate0"
  "\<forall>(t, i) \<in> set [(0, 1), (5, 0), (7, 1)]. before_expiry t trip_row \<and> i < up_totalChunks trip_row"
  "snd ` set [(0::int, 1::nat), (5, 0), (7, 1)] = {..<up_totalChunks trip_row}"
  "publishable (demo_env\<lparr>ue_now := 9\<rparr>) trip_row (js ''m'')
     (projr (final_path demo_env 1 (attempt_key trip_row (js ''m'')) (js ''f''))) (js ''f'') trip_bytes ustate0"
  "length (us_fences ustate0) < assembly_limit 10"
proof -
  show "createUploadSession demo_env (js ''abc'') 1 (js ''f'') (JInt (int (length trip_bytes))) (JInt 4) None None None ustate0
     = (trip_state, Inr trip_row)" by code_simp
  show "works demo_env" by (simp add: works_def demo_env_def)
  show "unused_id demo_env (js ''abc'') ustate0" by (simp add: unused_id_def ustate0_def read_file_def)
  show "\<forall>(t, i) \<in> set [(0, 1), (5, 0), (7, 1)]. before_expiry t trip_row \<and> i < up_totalChunks trip_row" by code_simp
  have "up_totalChunks trip_row = 2" by code_simp
  then show "snd ` set [(0::int, 1::nat), (5, 0), (7, 1)] = {..<up_totalChunks trip_row}" by auto
  show "publishable (demo_env\<lparr>ue_now := 9\<rparr>) trip_row (js ''m'')
     (projr (final_path demo_env 1 (attempt_key trip_row (js ''m'')) (js ''f''))) (js ''f'') trip_bytes ustate0"
    unfolding publishable_def active_iff by code_simp
  show "length (us_fences ustate0) < assembly_limit 10" by code_simp
qed

theorem upload_roundtrip_witness:
  "\<exists>f. snd (completeUpload (demo_env\<lparr>ue_now := 9\<rparr>) 10 (js ''m'') id 1 (js ''abc'') None
      (send demo_env trip_row trip_bytes [(0, 1), (5, 0), (7, 1)] trip_state)) = Inr f \<and> f_size f = 6"
  using upload_roundtrip [OF trip_facts(2) ustate0_ok trip_facts(3,1,4-7)] by (auto simp: trip_bytes_def)

end
