(* ===== verification/Sha256.thy ===== *)
theory Sha256
  imports Prelude "HOL-Library.Word"
begin

unbundle bit_operations_syntax

text \<open>
  The incremental digest of a file before an upload (frontend/src/files/wholeSha256.ts): compression
  on 32-bit words, buffering of a partial block, padding, and the loop that reads a file in bounded
  slices.  A \<open>Uint8Array\<close> is a list of 8-bit words; a \<open>Uint32Array\<close> a list of 32-bit words, so that
  additions wrap and \<open>>>> 0\<close> is the identity.
\<close>

type_synonym u8 = "8 word"
type_synonym u32 = "32 word"

section \<open>Compression\<close>

definition ROUND_CONSTANTS :: "u32 list" where
  "ROUND_CONSTANTS = concat [
    [0x428a2f98, 0x71374491, 0xb5c0fbcf, 0xe9b5dba5, 0x3956c25b, 0x59f111f1, 0x923f82a4, 0xab1c5ed5],
    [0xd807aa98, 0x12835b01, 0x243185be, 0x550c7dc3, 0x72be5d74, 0x80deb1fe, 0x9bdc06a7, 0xc19bf174],
    [0xe49b69c1, 0xefbe4786, 0x0fc19dc6, 0x240ca1cc, 0x2de92c6f, 0x4a7484aa, 0x5cb0a9dc, 0x76f988da],
    [0x983e5152, 0xa831c66d, 0xb00327c8, 0xbf597fc7, 0xc6e00bf3, 0xd5a79147, 0x06ca6351, 0x14292967],
    [0x27b70a85, 0x2e1b2138, 0x4d2c6dfc, 0x53380d13, 0x650a7354, 0x766a0abb, 0x81c2c92e, 0x92722c85],
    [0xa2bfe8a1, 0xa81a664b, 0xc24b8b70, 0xc76c51a3, 0xd192e819, 0xd6990624, 0xf40e3585, 0x106aa070],
    [0x19a4c116, 0x1e376c08, 0x2748774c, 0x34b0bcb5, 0x391c0cb3, 0x4ed8aa4a, 0x5b9cca4f, 0x682e6ff3],
    [0x748f82ee, 0x78a5636f, 0x84c87814, 0x8cc70208, 0x90befffa, 0xa4506ceb, 0xbef9a3f7, 0xc67178f2]]"

definition initial_state :: "u32 list" where
  "initial_state = [0x6a09e667, 0xbb67ae85, 0x3c6ef372, 0xa54ff53a, 0x510e527f, 0x9b05688c, 0x1f83d9ab, 0x5be0cd19]"

definition rotateRight :: "u32 \<Rightarrow> nat \<Rightarrow> u32" where
  "rotateRight value bits = drop_bit bits value OR push_bit (32 - bits) value"

definition load_word :: "u8 list \<Rightarrow> nat \<Rightarrow> u32" where
  "load_word bytes start =
     push_bit 24 (ucast (bytes ! start)) OR push_bit 16 (ucast (bytes ! (start + 1)))
       OR push_bit 8 (ucast (bytes ! (start + 2))) OR ucast (bytes ! (start + 3))"

text \<open>One more word of the schedule, at the index \<open>length words\<close>.\<close>

definition schedule_word :: "u32 list \<Rightarrow> u32" where
  "schedule_word words =
     (let index = length words; x = words ! (index - 15); y = words ! (index - 2);
          sigma0 = rotateRight x 7 XOR rotateRight x 18 XOR drop_bit 3 x;
          sigma1 = rotateRight y 17 XOR rotateRight y 19 XOR drop_bit 10 y
      in sigma1 + words ! (index - 7) + sigma0 + words ! (index - 16))"

fun extend_schedule :: "nat \<Rightarrow> u32 list \<Rightarrow> u32 list" where
  "extend_schedule 0 words = words"
| "extend_schedule (Suc n) words = extend_schedule n (words @ [schedule_word words])"

definition schedule :: "u8 list \<Rightarrow> nat \<Rightarrow> u32 list" where
  "schedule bytes offset = extend_schedule 48 (map (\<lambda>i. load_word bytes (offset + i * 4)) [0..<16])"

type_synonym working = "u32 \<times> u32 \<times> u32 \<times> u32 \<times> u32 \<times> u32 \<times> u32 \<times> u32"

fun compress_round :: "u32 \<Rightarrow> u32 \<Rightarrow> working \<Rightarrow> working" where
  "compress_round k w (a, b, c, d, e, f, g, h) =
     (let sum1 = rotateRight e 6 XOR rotateRight e 11 XOR rotateRight e 25;
          choice = (e AND f) XOR (NOT e AND g);
          temp1 = h + sum1 + choice + k + w;
          sum0 = rotateRight a 2 XOR rotateRight a 13 XOR rotateRight a 22;
          majority = (a AND b) XOR (a AND c) XOR (b AND c);
          temp2 = sum0 + majority
      in (temp1 + temp2, a, b, c, d + temp1, e, f, g))"

fun round_loop :: "u32 list \<Rightarrow> nat list \<Rightarrow> working \<Rightarrow> working" where
  "round_loop words [] v = v"
| "round_loop words (i # is) v = round_loop words is (compress_round (ROUND_CONSTANTS ! i) (words ! i) v)"

definition compress :: "u8 list \<Rightarrow> nat \<Rightarrow> u32 list \<Rightarrow> u32 list" where
  "compress bytes offset st =
     (case round_loop (schedule bytes offset) [0..<64]
        (st ! 0, st ! 1, st ! 2, st ! 3, st ! 4, st ! 5, st ! 6, st ! 7) of
        (a, b, c, d, e, f, g, h) \<Rightarrow>
          [st ! 0 + a, st ! 1 + b, st ! 2 + c, st ! 3 + d, st ! 4 + e, st ! 5 + f, st ! 6 + g, st ! 7 + h])"


section \<open>Streaming\<close>

record sha =
  sh_state :: "u32 list"
  sh_tail :: "u8 list"
  sh_tailBytes :: nat
  sh_byteLength :: int

definition IncrementalSha256 :: sha where
  "IncrementalSha256 = \<lparr>sh_state = initial_state, sh_tail = replicate 64 0, sh_tailBytes = 0, sh_byteLength = 0\<rparr>"

text \<open>\<open>TypedArray.prototype.set\<close> within the bounds of the array.\<close>

definition set_at :: "'a list \<Rightarrow> nat \<Rightarrow> 'a list \<Rightarrow> 'a list" where
  "set_at xs at ys = take at xs @ ys @ drop (at + length ys) xs"

text \<open>The loop over the whole blocks of the input.\<close>

function compress_blocks :: "u8 list \<Rightarrow> nat \<Rightarrow> u32 list \<Rightarrow> nat \<times> u32 list" where
  "compress_blocks bytes offset st =
     (if offset + 64 \<le> length bytes then compress_blocks bytes (offset + 64) (compress bytes offset st)
      else (offset, st))"
  by pat_completeness auto
termination by (relation "measure (\<lambda>(bytes, offset, st). length bytes - offset)") auto

declare compress_blocks.simps [simp del]

definition fill_tail :: "u8 list \<Rightarrow> sha \<Rightarrow> nat \<times> sha" where
  "fill_tail bytes s =
     (if 0 < sh_tailBytes s then
        let taken = min (64 - sh_tailBytes s) (length bytes);
            s1 = s\<lparr>sh_tail := set_at (sh_tail s) (sh_tailBytes s) (take taken bytes),
                   sh_tailBytes := sh_tailBytes s + taken\<rparr>
        in (taken, if sh_tailBytes s1 = 64
                   then s1\<lparr>sh_state := compress (sh_tail s1) 0 (sh_state s1), sh_tailBytes := 0\<rparr> else s1)
      else (0, s))"

definition sha_update :: "u8 list \<Rightarrow> sha \<Rightarrow> sha" where
  "sha_update bytes s0 =
     (let s = s0\<lparr>sh_byteLength := sh_byteLength s0 + int (length bytes)\<rparr>;
          (offset0, s1) = fill_tail bytes s;
          (offset, st) = compress_blocks bytes offset0 (sh_state s1);
          s2 = s1\<lparr>sh_state := st\<rparr>
      in if offset < length bytes
         then s2\<lparr>sh_tail := set_at (sh_tail s2) 0 (drop offset bytes), sh_tailBytes := length bytes - offset\<rparr>
         else s2)"

fun bit_length_loop :: "nat \<Rightarrow> int \<Rightarrow> u8 list \<Rightarrow> u8 list" where
  "bit_length_loop 0 bits result = result"
| "bit_length_loop (Suc n) bits result = bit_length_loop n (bits div 256) (word_of_int (bits mod 256) # result)"

definition encodeSha256BitLength :: "int \<Rightarrow> u8 list res" where
  "encodeSha256BitLength byteLength =
     bindE (ensure (safe_integer byteLength \<and> 0 \<le> byteLength) (PlainError ''Invalid SHA-256 byte length'')) (\<lambda>_.
     Inr (bit_length_loop 8 (byteLength * 8) []))"

text \<open>\<open>word.toString(16).padStart(8, '0')\<close>\<close>

definition hex_digit :: "nat \<Rightarrow> nat" where
  "hex_digit d = (if d < 10 then 48 + d else 87 + d)"

fun to_hex :: "nat \<Rightarrow> ustring" where
  "to_hex n = (if n < 16 then [hex_digit n] else to_hex (n div 16) @ [hex_digit (n mod 16)])"

declare to_hex.simps [simp del]

definition pad_start :: "nat \<Rightarrow> ustring \<Rightarrow> ustring" where
  "pad_start n s = replicate (n - length s) 48 @ s"

definition sha_digest :: "sha \<Rightarrow> ustring res" where
  "sha_digest s =
     (let size = (if sh_tailBytes s < 56 then 64 else 128);
          padded0 = set_at (replicate size 0) 0 (take (sh_tailBytes s) (sh_tail s));
          padded1 = padded0[sh_tailBytes s := 0x80]
      in bindE (encodeSha256BitLength (sh_byteLength s)) (\<lambda>len.
         let padded = set_at padded1 (size - 8) len;
             st = snd (compress_blocks padded 0 (sh_state s))
         in Inr (concat (map (\<lambda>w. pad_start 8 (to_hex (unat w))) st))))"


section \<open>Reading a file\<close>

definition SHA256_READ_BYTES :: nat where
  "SHA256_READ_BYTES = 2 * 1024 * 1024"

definition WORK_BYTES :: nat where
  "WORK_BYTES = 256 * 1024"

text \<open>
  What the loop finds: \<open>he_aborted n\<close> is the state of the signal at its \<open>n\<close>-th test, \<open>he_read\<close> the
  bytes between two positions, \<open>he_late\<close> whether eight milliseconds have passed at a position.
\<close>

record hash_env =
  he_aborted :: "nat \<Rightarrow> bool"
  he_read :: "nat \<Rightarrow> nat \<Rightarrow> u8 list"
  he_late :: "nat \<Rightarrow> bool"

text \<open>The state of the call: the digest, the number of tests of the signal, the reported progress.\<close>

record hash_run =
  hr_sha :: sha
  hr_checks :: nat
  hr_progress :: "nat list"

definition checkAbort :: "hash_env \<Rightarrow> hash_run \<Rightarrow> hash_run res" where
  "checkAbort env r =
     bindE (ensure (\<not> he_aborted env (hr_checks r)) (PlainError ''AbortError'')) (\<lambda>_.
     Inr (r\<lparr>hr_checks := Suc (hr_checks r)\<rparr>))"

lemma WORK_BYTES_pos [simp]: "0 < WORK_BYTES" by (simp add: WORK_BYTES_def)
lemma SHA256_READ_BYTES_pos [simp]: "0 < SHA256_READ_BYTES" by (simp add: SHA256_READ_BYTES_def)

function work_loop :: "hash_env \<Rightarrow> nat \<Rightarrow> u8 list \<Rightarrow> nat \<Rightarrow> hash_run \<Rightarrow> hash_run res" where
  "work_loop env start bytes offset r =
     (if offset < length bytes then
        bindE (checkAbort env r) (\<lambda>r1.
        let workEnd = min (length bytes) (offset + WORK_BYTES);
            r2 = r1\<lparr>hr_sha := sha_update (take (workEnd - offset) (drop offset bytes)) (hr_sha r1),
                    hr_progress := hr_progress r1 @ [start + workEnd]\<rparr>
        in bindE (if he_late env (start + workEnd) \<or> workEnd = length bytes then checkAbort env r2 else Inr r2) (\<lambda>r3.
           work_loop env start bytes (offset + WORK_BYTES) r3))
      else Inr r)"
  by pat_completeness auto
termination
  by (relation "measure (\<lambda>(env, start, bytes, offset, r). length bytes - offset)")
     (auto intro: diff_less_mono2 simp: WORK_BYTES_def)

declare work_loop.simps [simp del]

text \<open>\<open>readSlice\<close> tests the signal and may be cancelled while it waits.\<close>

definition readSlice :: "hash_env \<Rightarrow> nat \<Rightarrow> nat \<Rightarrow> hash_run \<Rightarrow> (hash_run \<times> u8 list) res" where
  "readSlice env start stop r =
     bindE (checkAbort env r) (\<lambda>r1.
     bindE (checkAbort env r1) (\<lambda>r2. Inr (r2, he_read env start stop)))"

function read_loop :: "hash_env \<Rightarrow> nat \<Rightarrow> nat \<Rightarrow> hash_run \<Rightarrow> hash_run res" where
  "read_loop env fsize start r =
     (if start < fsize then
        bindE (checkAbort env r) (\<lambda>r1.
        let stop = min fsize (start + SHA256_READ_BYTES)
        in bindE (readSlice env start stop r1) (\<lambda>(r2, bytes).
           bindE (checkAbort env r2) (\<lambda>r3.
           bindE (ensure (length bytes = stop - start) (PlainError ''Incomplete file read during SHA-256'')) (\<lambda>_.
           bindE (work_loop env start bytes 0 r3) (\<lambda>r4.
           read_loop env fsize (start + SHA256_READ_BYTES) r4)))))
      else Inr r)"
  by pat_completeness auto
termination
  by (relation "measure (\<lambda>(env, fsize, start, r). fsize - start)")
     (auto intro: diff_less_mono2 simp: SHA256_READ_BYTES_def)

declare read_loop.simps [simp del]

definition hashFileSha256 :: "hash_env \<Rightarrow> nat \<Rightarrow> ustring res" where
  "hashFileSha256 env fsize =
     bindE (checkAbort env \<lparr>hr_sha = IncrementalSha256, hr_checks = 0, hr_progress = []\<rparr>) (\<lambda>r0.
     bindE (ensure (safe_integer (int fsize)) (PlainError ''Invalid file fsize'')) (\<lambda>_.
     bindE (read_loop env fsize 0 (r0\<lparr>hr_progress := [0]\<rparr>)) (\<lambda>r1.
     bindE (checkAbort env r1) (\<lambda>r2. sha_digest (hr_sha r2)))))"

end
