(* ===== verification/Sha256Spec.thy ===== *)
theory Sha256Spec
  imports Sha256
begin

text \<open>
  The secure hash standard (FIPS 180-4, sections 4.1.2, 5.1.1, 5.2.1 and 6.2.2) as a reference, and the
  refinement: the incremental digest of the code computes it, however the input is cut.
\<close>

section \<open>The standard\<close>

definition fips_Ch :: "u32 \<Rightarrow> u32 \<Rightarrow> u32 \<Rightarrow> u32" where
  "fips_Ch x y z = (x AND y) XOR (NOT x AND z)"

definition fips_Maj :: "u32 \<Rightarrow> u32 \<Rightarrow> u32 \<Rightarrow> u32" where
  "fips_Maj x y z = (x AND y) XOR (x AND z) XOR (y AND z)"

definition fips_Sigma0 :: "u32 \<Rightarrow> u32" where
  "fips_Sigma0 x = word_rotr 2 x XOR word_rotr 13 x XOR word_rotr 22 x"

definition fips_Sigma1 :: "u32 \<Rightarrow> u32" where
  "fips_Sigma1 x = word_rotr 6 x XOR word_rotr 11 x XOR word_rotr 25 x"

definition fips_sigma0 :: "u32 \<Rightarrow> u32" where
  "fips_sigma0 x = word_rotr 7 x XOR word_rotr 18 x XOR drop_bit 3 x"

definition fips_sigma1 :: "u32 \<Rightarrow> u32" where
  "fips_sigma1 x = word_rotr 17 x XOR word_rotr 19 x XOR drop_bit 10 x"

text \<open>The 16 words of a block, each of four bytes in big-endian order, and the schedule.\<close>

definition fips_words :: "u8 list \<Rightarrow> u32 list" where
  "fips_words block = map (\<lambda>i. word_rcat (take 4 (drop (4 * i) block))) [0..<16]"

fun fips_W :: "u32 list \<Rightarrow> nat \<Rightarrow> u32" where
  "fips_W M t =
     (if t < 16 then M ! t
      else fips_sigma1 (fips_W M (t - 2)) + fips_W M (t - 7) + fips_sigma0 (fips_W M (t - 15)) + fips_W M (t - 16))"

declare fips_W.simps [simp del]

fun fips_step :: "u32 \<Rightarrow> u32 \<Rightarrow> working \<Rightarrow> working" where
  "fips_step k w (a, b, c, d, e, f, g, h) =
     (let t1 = h + fips_Sigma1 e + fips_Ch e f g + k + w; t2 = fips_Sigma0 a + fips_Maj a b c
      in (t1 + t2, a, b, c, d + t1, e, f, g))"

primrec fips_vars :: "u32 list \<Rightarrow> working \<Rightarrow> nat \<Rightarrow> working" where
  "fips_vars M v 0 = v"
| "fips_vars M v (Suc t) = fips_step (ROUND_CONSTANTS ! t) (fips_W M t) (fips_vars M v t)"

definition fips_block :: "u8 list \<Rightarrow> u32 list \<Rightarrow> u32 list" where
  "fips_block block H =
     (case fips_vars (fips_words block) (H ! 0, H ! 1, H ! 2, H ! 3, H ! 4, H ! 5, H ! 6, H ! 7) 64 of
        (a, b, c, d, e, f, g, h) \<Rightarrow>
          [H ! 0 + a, H ! 1 + b, H ! 2 + c, H ! 3 + d, H ! 4 + e, H ! 5 + f, H ! 6 + g, H ! 7 + h])"

function absorb :: "u8 list \<Rightarrow> u32 list \<Rightarrow> u32 list" where
  "absorb m H = (if length m < 64 then H else absorb (drop 64 m) (fips_block (take 64 m) H))"
  by pat_completeness auto
termination by (relation "measure (\<lambda>(m, H). length m)") auto

declare absorb.simps [simp del]

definition fips_pad :: "u8 list \<Rightarrow> u8 list" where
  "fips_pad m = m @ [0x80] @ replicate (nat ((55 - int (length m)) mod 64)) 0
     @ map (\<lambda>i. word_of_int (8 * int (length m) div 256 ^ (7 - i))) [0..<8]"

definition fips_hex :: "u32 \<Rightarrow> ustring" where
  "fips_hex w = map (\<lambda>i. hex_digit (unat w div 16 ^ (7 - i) mod 16)) [0..<8]"

definition fips_sha256 :: "u8 list \<Rightarrow> ustring" where
  "fips_sha256 m = concat (map fips_hex (absorb (fips_pad m) initial_state))"


section \<open>Compression\<close>

lemma rotateRight_rotr: "0 < n \<Longrightarrow> n < 32 \<Longrightarrow> rotateRight x n = word_rotr n x"
proof (rule bit_word_eqI)
  fix i assume n: "0 < n" "n < 32" and i: "i < LENGTH(32)"
  have "(i + n) mod 32 = (if i + n < 32 then i + n else i + n - 32)" using n i by (auto simp: mod_if)
  then show "bit (rotateRight x n) i = bit (word_rotr n x) i"
    using n i by (auto simp: rotateRight_def bit_simps bit_word_rotr_iff add.commute dest: bit_imp_le_length)
qed

lemma load_word_rcat:
  assumes "offset + 4 \<le> length bytes"
  shows "load_word bytes offset = word_rcat (take 4 (drop offset bytes))"
proof -
  obtain b0 b1 b2 b3 where b: "take 4 (drop offset bytes) = [b0, b1, b2, b3]"
    using assms by (auto simp: take_Suc_conv_app_nth numeral_eq_Suc)
  have "bytes ! (offset + i) = take 4 (drop offset bytes) ! i" if "i < 4" for i using that assms by simp
  from this [of 0] this [of 1] this [of 2] this [of 3]
  have n: "bytes ! offset = b0" "bytes ! (offset + 1) = b1" "bytes ! (offset + 2) = b2" "bytes ! (offset + 3) = b3"
    unfolding b by simp_all
  have bits: "bit b i \<Longrightarrow> i < 8" for b :: u8 and i using bit_imp_le_length [of b i] by simp
  have "horner_sum uint (2 ^ LENGTH(8)) [b3, b2, b1, b0] =
      concat_bit LENGTH(8) (uint b3) (concat_bit LENGTH(8) (uint b2)
      (concat_bit LENGTH(8) (uint b1) (concat_bit LENGTH(8) (uint b0) 0)))"
    by (simp only: horner_sum_uint_exp_Cons_eq horner_sum_simps(1))
  then have "word_rcat [b0, b1, b2, b3] = (word_of_int (concat_bit LENGTH(8) (uint b3) (concat_bit LENGTH(8) (uint b2)
      (concat_bit LENGTH(8) (uint b1) (concat_bit LENGTH(8) (uint b0) 0)))) :: u32)"
    by (simp only: word_rcat_def comp_apply rev.simps append.simps)
  also have "\<dots> = load_word bytes offset"
    unfolding load_word_def n
    by (rule bit_word_eqI) (auto simp: bit_simps bit_concat_bit_iff bit_uint_iff dest: bits)
  finally show ?thesis unfolding b by simp
qed

lemmas rotates = rotateRight_rotr [of 2] rotateRight_rotr [of 6] rotateRight_rotr [of 7] rotateRight_rotr [of 11]
  rotateRight_rotr [of 13] rotateRight_rotr [of 17] rotateRight_rotr [of 18] rotateRight_rotr [of 19]
  rotateRight_rotr [of 22] rotateRight_rotr [of 25]

lemma extend_schedule_W:
  "16 \<le> k \<Longrightarrow> extend_schedule n (map (fips_W M) [0..<k]) = map (fips_W M) [0..<k + n]"
proof (induction n arbitrary: k)
  case (Suc n)
  have "schedule_word (map (fips_W M) [0..<k]) = fips_W M k"
    using Suc.prems fips_W.simps [of M k]
    by (simp add: schedule_word_def Let_def rotates fips_sigma0_def fips_sigma1_def)
  then have "map (fips_W M) [0..<k] @ [schedule_word (map (fips_W M) [0..<k])] = map (fips_W M) [0..<Suc k]" by simp
  then show ?case using Suc.IH [of "Suc k"] Suc.prems by simp
qed simp

lemma schedule_W:
  assumes "offset + 64 \<le> length bytes"
  shows "schedule bytes offset = map (fips_W (fips_words (take 64 (drop offset bytes)))) [0..<64]"
proof -
  let ?M = "fips_words (take 64 (drop offset bytes))"
  have "load_word bytes (offset + i * 4) = fips_W ?M i" if "i < 16" for i
    using that assms load_word_rcat [of "offset + i * 4" bytes]
    by (simp add: fips_W.simps fips_words_def take_drop add.commute mult.commute min_def)
  then have m: "map (\<lambda>i. load_word bytes (offset + i * 4)) [0..<16] = map (fips_W ?M) [0..<16]"
    by (intro map_cong) simp_all
  show ?thesis unfolding schedule_def m using extend_schedule_W [of 16 48 ?M] by simp
qed

lemma compress_round_step: "compress_round k w v = fips_step k w v"
  by (cases "(k, w, v)" rule: compress_round.cases) (simp add: Let_def rotates fips_Sigma0_def fips_Sigma1_def fips_Ch_def fips_Maj_def)

lemma round_loop_append: "round_loop ws (xs @ ys) v = round_loop ws ys (round_loop ws xs v)"
  by (induction xs arbitrary: v) simp_all

lemma round_loop_vars:
  "n \<le> 64 \<Longrightarrow> round_loop (map (fips_W M) [0..<64]) [0..<n] v = fips_vars M v n"
  by (induction n) (simp_all add: round_loop_append compress_round_step)

lemma compress_block:
  "offset + 64 \<le> length bytes \<Longrightarrow> compress bytes offset st = fips_block (take 64 (drop offset bytes)) st"
  by (simp add: compress_def fips_block_def schedule_W round_loop_vars)

lemma compress_blocks_absorb:
  "compress_blocks bytes offset st =
     (offset + 64 * ((length bytes - offset) div 64), absorb (drop offset bytes) st)"
proof (induction bytes offset st rule: compress_blocks.induct)
  case (1 bytes offset st)
  show ?case
  proof (cases "offset + 64 \<le> length bytes")
    case True
    then have n: "(length bytes - offset) div 64 = Suc ((length bytes - (offset + 64)) div 64)"
      using div_add_self2 [of 64 "length bytes - (offset + 64)"] by simp
    have "\<not> length (drop offset bytes) < 64" using True by (simp add: le_diff_conv2)
    then have "absorb (drop offset bytes) st = absorb (drop (offset + 64) bytes) (compress bytes offset st)"
      unfolding absorb.simps [of "drop offset bytes" st] compress_block [OF True] by (simp add: add.commute)
    then show ?thesis using 1 [OF True] True n compress_blocks.simps [of bytes offset st] by simp
  next
    case False
    then have "length bytes - offset < 64" by simp
    then show ?thesis using False by (simp add: compress_blocks.simps [of bytes offset] absorb.simps [of "drop offset bytes"])
  qed
qed


section \<open>Streaming\<close>

lemma absorb_append: "64 dvd length a \<Longrightarrow> absorb (a @ b) H = absorb b (absorb a H)"
proof (induction a H rule: absorb.induct)
  case (1 m H)
  show ?case
  proof (cases "length m < 64")
    case True
    then have "m = []" using 1(2) by (auto dest: dvd_imp_le)
    then show ?thesis by (simp add: absorb.simps [of "[]"])
  next
    case False
    then have "64 dvd length (drop 64 m)" using 1(2) by (simp add: dvd_diff_nat)
    then show ?thesis
      using 1(1) [OF False] False absorb.simps [of "m @ b" H] absorb.simps [of m H] by simp
  qed
qed

lemma absorb_short [simp]: "length m < 64 \<Longrightarrow> absorb m H = H"
  by (simp add: absorb.simps)

text \<open>The buffered bytes are the message beyond its whole blocks.\<close>

definition rest :: "u8 list \<Rightarrow> u8 list" where
  "rest m = drop (64 * (length m div 64)) m"

definition streams :: "u8 list \<Rightarrow> sha \<Rightarrow> bool" where
  "streams m s \<longleftrightarrow> sh_state s = absorb m initial_state \<and> length (sh_tail s) = 64
     \<and> sh_tailBytes s = length m mod 64 \<and> take (sh_tailBytes s) (sh_tail s) = rest m
     \<and> sh_byteLength s = int (length m)"

lemma rest_length [simp]: "length (rest m) = length m mod 64"
  by (simp add: rest_def minus_div_mult_eq_mod [symmetric] mult.commute)

lemma absorb_rest: "absorb (m @ b) initial_state = absorb (rest m @ b) (absorb m initial_state)"
proof -
  let ?a = "take (64 * (length m div 64)) m"
  have l: "length ?a = 64 * (length m div 64)" by simp
  then have d: "64 dvd length ?a" by (metis dvd_triv_left)
  have m: "m = ?a @ rest m" by (simp add: rest_def)
  have "absorb (m @ b) initial_state = absorb (?a @ (rest m @ b)) initial_state" using m by (metis append_assoc)
  also have "\<dots> = absorb (rest m @ b) (absorb ?a initial_state)" by (rule absorb_append [OF d])
  also have "absorb ?a initial_state = absorb (rest m) (absorb ?a initial_state)" by simp
  also have "\<dots> = absorb (?a @ rest m) initial_state" by (rule absorb_append [OF d, symmetric])
  finally show ?thesis using m by metis
qed

lemma rest_append: "rest (m @ b) = rest (rest m @ b)"
proof -
  let ?q = "length m div 64"
  have q: "length m = 64 * ?q + length (rest m)" by simp
  have "length (m @ b) div 64 = ?q + length (rest m @ b) div 64"
    using div_mult_self1 [of 64 "length (rest m) + length b" ?q] q by (simp add: add.commute add.left_commute)
  moreover have "64 * ?q + x - length m = x - length m mod 64" for x
    using mult_div_mod_eq [of 64 "length m"] by linarith
  ultimately show ?thesis
    by (simp add: rest_def [of "m @ b"] rest_def [of "rest m @ b"] distrib_left) (simp add: rest_def add.commute)
qed

lemma set_at_length [simp]: "k + length ys \<le> length xs \<Longrightarrow> length (set_at xs k ys) = length xs"
  by (simp add: set_at_def)

lemma set_at_take: "k \<le> length xs \<Longrightarrow> take (k + length ys) (set_at xs k ys) = take k xs @ ys"
  by (simp add: set_at_def)

lemma rest_short [simp]: "length m < 64 \<Longrightarrow> rest m = m"
  by (simp add: rest_def)

lemma absorb_block: "64 \<le> length m \<Longrightarrow> absorb m H = absorb (drop 64 m) (fips_block (take 64 m) H)"
  by (subst absorb.simps) simp

lemma update_rest:
  assumes o: "offset = j + 64 * ((length b - j) div 64)" "j \<le> length b"
    and r: "rest x = rest (drop j b)" and s: "length (sh_tail s) = 64" "sh_tailBytes s = 0"
  shows "let s' = (if offset < length b
           then s\<lparr>sh_tail := set_at (sh_tail s) 0 (drop offset b), sh_tailBytes := length b - offset\<rparr> else s)
         in length (sh_tail s') = 64 \<and> sh_tailBytes s' = length (rest x) \<and> take (sh_tailBytes s') (sh_tail s') = rest x
           \<and> sh_state s' = sh_state s \<and> sh_byteLength s' = sh_byteLength s"
proof -
  have d: "rest (drop j b) = drop offset b" using o by (simp add: rest_def add.commute)
  have l: "length (rest x) = length b - offset" unfolding r d by simp
  have "length (rest x) < 64" by simp
  then have small: "length b - offset < 64" using l by simp
  show ?thesis
  proof (cases "offset < length b")
    case True
    have "take (0 + length (drop offset b)) (set_at (sh_tail s) 0 (drop offset b)) = drop offset b"
      by (subst set_at_take) simp_all
    then show ?thesis using True small s l r d by (simp add: Let_def del: rest_length)
  next
    case False
    then show ?thesis using s l by (simp add: Let_def del: rest_length)
  qed
qed

lemma update_streams:
  assumes "streams m s"
  shows "streams (m @ b) (sha_update b s)"
proof -
  define k where "k = length m mod 64"
  let ?r = "rest m"
  let ?H = "absorb m initial_state"
  let ?s = "s\<lparr>sh_byteLength := sh_byteLength s + int (length b)\<rparr>"
  have st: "sh_state s = ?H" "length (sh_tail s) = 64" "sh_tailBytes s = k" "take k (sh_tail s) = ?r"
    "sh_byteLength s = int (length m)" using assms by (auto simp: streams_def k_def)
  have k: "k < 64" "length ?r = k" by (simp_all add: k_def)
  have H: "absorb (m @ b) initial_state = absorb (?r @ b) ?H" by (rule absorb_rest)
  have len: "length (rest (m @ b)) = length (m @ b) mod 64" by (rule rest_length)
  consider (empty) "k = 0" | (part) "0 < k" "length b < 64 - k" | (full) "0 < k" "64 - k \<le> length b" by linarith
  then show ?thesis
  proof cases
    case empty
    then have "rest m = []" using k(2) by (metis length_0_conv)
    then have r: "rest (m @ b) = rest (drop 0 b)" using rest_append [of m b] by simp
    let ?s1 = "?s\<lparr>sh_state := absorb b ?H\<rparr>" and ?o = "0 + 64 * ((length b - 0) div 64)"
    define s' where "s' = (if ?o < length b
      then ?s1\<lparr>sh_tail := set_at (sh_tail ?s1) 0 (drop ?o b), sh_tailBytes := length b - ?o\<rparr> else ?s1)"
    have up: "sha_update b s = s'"
      using st empty unfolding s'_def by (simp add: sha_update_def fill_tail_def Let_def compress_blocks_absorb)
    have "absorb (m @ b) initial_state = absorb b ?H" unfolding H using \<open>rest m = []\<close> by simp
    then show ?thesis
      using update_rest [of ?o 0 b "m @ b" ?s1, OF _ _ r] st empty len
      unfolding up streams_def Let_def s'_def [symmetric] by auto
  next
    case part
    have "rest (m @ b) = ?r @ b" using part k rest_append [of m b] by simp
    moreover have "absorb (?r @ b) ?H = ?H" using part k by simp
    moreover have "sha_update b s = ?s\<lparr>sh_tail := set_at (sh_tail s) k b, sh_tailBytes := k + length b\<rparr>"
      using st part by (simp add: sha_update_def fill_tail_def Let_def compress_blocks_absorb)
    moreover have "take (k + length b) (set_at (sh_tail s) k b) = ?r @ b"
      using set_at_take [of k "sh_tail s" b] st k by simp
    moreover have "k + length b = length (m @ b) mod 64"
      using part len calculation(1) k(2) by simp
    ultimately show ?thesis using st H part by (simp add: streams_def)
  next
    case full
    let ?j = "64 - k"
    let ?t = "set_at (sh_tail s) k (take ?j b)" and ?o = "?j + 64 * ((length b - ?j) div 64)"
    have t: "?t = ?r @ take ?j b"
    proof -
      have "length (take ?j b) = ?j" using full by simp
      then have "take 64 ?t = take k (sh_tail s) @ take ?j b"
        using set_at_take [of k "sh_tail s" "take ?j b"] st k by simp
      moreover have "length ?t = 64" using st(2) full k by (simp add: set_at_def min_def)
      ultimately show ?thesis using st by simp
    qed
    have rb: "64 \<le> length (?r @ b)" "take 64 (?r @ b) = ?t" "drop 64 (?r @ b) = drop ?j b"
      using t full k by simp_all
    let ?H1 = "fips_block ?t ?H"
    have "compress ?t 0 ?H = ?H1" using compress_block [of 0 ?t ?H] t full k by simp
    then have "fill_tail b ?s = (?j, ?s\<lparr>sh_tail := ?t, sh_tailBytes := 0, sh_state := ?H1\<rparr>)"
      using st full k(1) by (simp add: fill_tail_def Let_def min_def)
    then have up: "sha_update b s = (let s1 = ?s\<lparr>sh_tail := ?t, sh_tailBytes := 0, sh_state := absorb (drop ?j b) ?H1\<rparr>
        in if ?o < length b then s1\<lparr>sh_tail := set_at (sh_tail s1) 0 (drop ?o b), sh_tailBytes := length b - ?o\<rparr> else s1)"
      by (simp add: sha_update_def Let_def compress_blocks_absorb)
    define s1 where "s1 = ?s\<lparr>sh_tail := ?t, sh_tailBytes := 0, sh_state := absorb (drop ?j b) ?H1\<rparr>"
    define s' where "s' = (if ?o < length b
      then s1\<lparr>sh_tail := set_at (sh_tail s1) 0 (drop ?o b), sh_tailBytes := length b - ?o\<rparr> else s1)"
    have up: "sha_update b s = s'" unfolding up s'_def s1_def Let_def ..
    have H': "absorb (m @ b) initial_state = absorb (drop ?j b) ?H1"
      unfolding H using absorb_block [OF rb(1), of ?H] rb by simp
    have r: "rest (m @ b) = rest (drop ?j b)"
    proof -
      have "length (?r @ b) div 64 = Suc ((length b - ?j) div 64)"
        using div_add_self2 [of 64 "length b - ?j"] full k by simp
      then have "rest (?r @ b) = drop (64 * ((length b - ?j) div 64)) (drop 64 (?r @ b))"
        by (simp add: rest_def [of "rest m @ b"] add.commute del: drop_append)
      then show ?thesis unfolding rb(3) rest_append [of m b] by (simp add: rest_def)
    qed
    have "length ?t = 64" using t full k by simp
    then have s1: "length (sh_tail s1) = 64" "sh_tailBytes s1 = 0" "sh_state s1 = absorb (drop ?j b) ?H1"
      "sh_byteLength s1 = int (length m) + int (length b)" using st(5) by (simp_all add: s1_def)
    show ?thesis
      using update_rest [of ?o ?j b "m @ b" s1, OF refl full(2) r s1(1,2)] s1 H' len
      unfolding up streams_def Let_def s'_def [symmetric] by auto
  qed
qed

lemma streams_init: "streams [] IncrementalSha256"
  by (simp add: streams_def IncrementalSha256_def absorb.simps [of "[]"])


section \<open>Digest\<close>

lemma bit_length_loop_eq:
  "bit_length_loop n x r = map (\<lambda>i. word_of_int (x div 256 ^ (n - 1 - i))) [0..<n] @ r"
proof (induction n x r rule: bit_length_loop.induct)
  case (2 n x r)
  have "map (\<lambda>i. word_of_int (x div 256 div 256 ^ (n - 1 - i))) [0..<n]
      = (map (\<lambda>i. word_of_int (x div 256 ^ (n - i))) [0..<n] :: u8 list)"
  proof (rule map_cong)
    fix i assume "i \<in> set [0..<n]"
    then have "n - i = Suc (n - 1 - i)" by auto
    then have "x div 256 ^ (n - i) = x div 256 div 256 ^ (n - 1 - i)" by (simp add: zdiv_zmult2_eq)
    then show "word_of_int (x div 256 div 256 ^ (n - 1 - i)) = (word_of_int (x div 256 ^ (n - i)) :: u8)" by simp
  qed simp
  moreover have "word_of_int (x mod 256) = (word_of_int x :: u8)"
    by (rule word_uint_eqI) (simp add: uint_word_of_int)
  ultimately show ?case using 2 by simp
qed simp

lemma to_hex_step: "16 \<le> n \<Longrightarrow> to_hex n = to_hex (n div 16) @ [hex_digit (n mod 16)]"
  by (simp add: to_hex.simps [of n])

lemma pad_hex:
  "n < 16 ^ Suc k \<Longrightarrow> pad_start (Suc k) (to_hex n) = map (\<lambda>i. hex_digit (n div 16 ^ (k - i) mod 16)) [0..<Suc k]"
proof (induction k arbitrary: n)
  case 0
  then show ?case by (simp add: pad_start_def to_hex.simps [of n])
next
  case (Suc k)
  let ?ds = "map (\<lambda>i. hex_digit (n div 16 div 16 ^ (k - i) mod 16)) [0..<Suc k]"
  have ds: "?ds = map (\<lambda>i. hex_digit (n div 16 ^ (Suc k - i) mod 16)) [0..<Suc k]"
  proof (rule map_cong)
    fix i assume "i \<in> set [0..<Suc k]"
    then have "Suc k - i = Suc (k - i)" by auto
    then show "hex_digit (n div 16 div 16 ^ (k - i) mod 16) = hex_digit (n div 16 ^ (Suc k - i) mod 16)"
      by (simp add: div_mult2_eq)
  qed simp
  have ih: "pad_start (Suc k) (to_hex (n div 16)) = ?ds" using Suc by simp
  have "pad_start (Suc (Suc k)) (to_hex n) = pad_start (Suc k) (to_hex (n div 16)) @ [hex_digit (n mod 16)]"
  proof (cases "16 \<le> n")
    case True
    then show ?thesis by (simp add: pad_start_def to_hex_step)
  next
    case False
    then show ?thesis
      by (simp add: pad_start_def to_hex.simps [of n] to_hex.simps [of 0] hex_digit_def replicate_append_same)
  qed
  also have "\<dots> = ?ds @ [hex_digit (n mod 16)]" unfolding ih ..
  also have "\<dots> = map (\<lambda>i. hex_digit (n div 16 ^ (Suc k - i) mod 16)) [0..<Suc (Suc k)]" unfolding ds by simp
  finally show ?case .
qed

lemma pad_word: "pad_start 8 (to_hex (unat w)) = fips_hex (w :: u32)"
proof -
  have "unat w < 16 ^ Suc 7" using unsigned_less [of w, where 'a = nat] by simp
  then show ?thesis using pad_hex [of "unat w" 7] by (simp add: fips_hex_def)
qed

lemma set_at_middle: "length ys = length zs \<Longrightarrow> set_at (a @ zs @ c) (length a) ys = a @ ys @ c"
  by (simp add: set_at_def)

lemma absorb_state_pad:
  assumes "streams m s"
  shows "absorb (fips_pad m) initial_state = absorb (rest m @ drop (length m) (fips_pad m)) (sh_state s)"
  using assms absorb_rest [of m "drop (length m) (fips_pad m)"] by (simp add: fips_pad_def streams_def)

lemma sha_digest_streams:
  assumes "streams m s" "int (length m) \<le> max_safe"
  shows "sha_digest s = Inr (fips_sha256 m)"
proof -
  define k where "k = sh_tailBytes s"
  define n :: nat where "n = (if k < 56 then 64 else 128)"
  have st: "take k (sh_tail s) = rest m" "length (sh_tail s) = 64" "sh_byteLength s = int (length m)"
    "k = length m mod 64" "k < 64"
    using assms(1) by (auto simp: streams_def k_def)
  have r: "length (rest m) = k" using st(4) by simp
  define len :: "u8 list" where "len = map (\<lambda>i. word_of_int (8 * int (length m) div 256 ^ (7 - i))) [0..<8]"
  have "bit_length_loop 8 (int (length m) * 8) [] = len"
    by (simp add: bit_length_loop_eq len_def mult.commute)
  then have e: "encodeSha256BitLength (int (length m)) = Inr len"
    using assms(2) by (simp add: encodeSha256BitLength_def err_simps safe_integer_def max_safe_def)
  have l8: "length len = 8" by (simp add: len_def)
  have zeros: "nat ((55 - int (length m)) mod 64) = n - k - 9"
  proof -
    have "(55 - int (length m)) mod 64 = (55 - int k) mod 64" unfolding st(4) by (simp add: zmod_int mod_diff_right_eq)
    also have "\<dots> = int (n - k - 9)"
    proof (cases "k < 56")
      case True
      then show ?thesis by (simp add: n_def of_nat_diff)
    next
      case False
      have "(55 - int k) mod 64 = (119 - int k) mod 64" using mod_add_self2 [of "55 - int k" 64] by (simp add: algebra_simps)
      then show ?thesis using False st(5) by (simp add: n_def of_nat_diff)
    qed
    finally show ?thesis by simp
  qed
  let ?padded = "rest m @ 0x80 # replicate (n - k - 9) 0 @ len"
  have n: "k + 9 \<le> n" "n = k + 1 + (n - k - 9) + 8" using st(5) by (auto simp: n_def)
  have p0: "set_at (replicate n 0) 0 (take k (sh_tail s)) = rest m @ replicate (n - k) (0::u8)"
    unfolding st(1) set_at_def by (simp add: st(4))
  have rep: "replicate (n - k) (0::u8) = 0 # replicate (n - k - 9) 0 @ replicate 8 0"
  proof -
    have "n - k = Suc ((n - k - 9) + 8)" using n(1) by simp
    then show ?thesis by (metis replicate_Suc replicate_add)
  qed
  have p1: "(rest m @ replicate (n - k) (0::u8))[k := 0x80] = (rest m @ 0x80 # replicate (n - k - 9) 0) @ replicate 8 0 @ []"
    unfolding rep using r by (simp add: list_update_append)
  have "length (rest m @ (0x80::u8) # replicate (n - k - 9) 0) = n - 8" using n r by simp
  then have p2: "set_at ((rest m @ replicate (n - k) (0::u8))[k := 0x80]) (n - 8) len = ?padded"
    unfolding p1 using set_at_middle [of len "replicate 8 0" "rest m @ 0x80 # replicate (n - k - 9) 0" "[]"] l8 by simp
  have "drop (length m) (fips_pad m) = 0x80 # replicate (n - k - 9) 0 @ len"
    by (simp add: fips_pad_def zeros len_def)
  then have "absorb (fips_pad m) initial_state = absorb ?padded (sh_state s)"
    using absorb_state_pad [OF assms(1)] by simp
  then have "fips_sha256 m = concat (map fips_hex (snd (compress_blocks ?padded 0 (sh_state s))))"
    by (simp add: fips_sha256_def compress_blocks_absorb)
  then show ?thesis
    unfolding sha_digest_def Let_def k_def [symmetric] n_def [symmetric] p0 p2 st(3) e
    by (simp add: err_simps pad_word p2)
qed



section \<open>Files\<close>

lemma checkAbort_ok: "\<forall>n. \<not> he_aborted env n \<Longrightarrow> checkAbort env r = Inr (r\<lparr>hr_checks := Suc (hr_checks r)\<rparr>)"
  by (simp add: checkAbort_def err_simps)

lemma work_loop_streams:
  assumes "\<forall>n. \<not> he_aborted env n" "streams m (hr_sha r)"
  shows "\<exists>r'. work_loop env start bytes offset r = Inr r' \<and> streams (m @ drop offset bytes) (hr_sha r')"
  using assms(2)
proof (induction "length bytes - offset" arbitrary: m r offset rule: less_induct)
  case less
  show ?case
  proof (cases "offset < length bytes")
    case True
    define e where "e = min (length bytes) (offset + WORK_BYTES)"
    let ?part = "take WORK_BYTES (drop offset bytes)"
    have part: "take (e - offset) (drop offset bytes) = ?part" using True by (simp add: e_def min_def)
    define r2 where "r2 = r\<lparr>hr_checks := Suc (hr_checks r), hr_sha := sha_update ?part (hr_sha r),
      hr_progress := hr_progress r @ [start + e]\<rparr>"
    define r3 where "r3 = (if he_late env (start + e) \<or> e = length bytes then r2\<lparr>hr_checks := Suc (hr_checks r2)\<rparr> else r2)"
    have run: "work_loop env start bytes offset r = work_loop env start bytes (offset + WORK_BYTES) r3"
      using True unfolding work_loop.simps [of env start bytes offset r] checkAbort_ok [OF assms(1)] Let_def
      by (simp add: err_simps e_def [symmetric] part r3_def r2_def)
    have "hr_sha r3 = sha_update ?part (hr_sha r)" by (simp add: r3_def r2_def)
    then have "streams (m @ ?part) (hr_sha r3)" using update_streams [OF less.prems] by simp
    moreover have "length bytes - (offset + WORK_BYTES) < length bytes - offset" using True WORK_BYTES_pos by linarith
    ultimately have "\<exists>r'. work_loop env start bytes (offset + WORK_BYTES) r3 = Inr r'
        \<and> streams ((m @ ?part) @ drop (offset + WORK_BYTES) bytes) (hr_sha r')"
      using less.hyps by blast
    moreover have "?part @ drop (offset + WORK_BYTES) bytes = drop offset bytes"
      using append_take_drop_id [of WORK_BYTES "drop offset bytes"] by (simp add: add.commute)
    ultimately show ?thesis unfolding run by simp
  next
    case False
    then show ?thesis using less.prems by (simp add: work_loop.simps [of env start bytes offset r])
  qed
qed

lemma read_loop_streams:
  assumes "\<forall>n. \<not> he_aborted env n"
    and "\<forall>a b. a \<le> b \<longrightarrow> b \<le> length file \<longrightarrow> he_read env a b = take (b - a) (drop a file)"
    and "streams m (hr_sha r)"
  shows "\<exists>r'. read_loop env (length file) start r = Inr r' \<and> streams (m @ drop start file) (hr_sha r')"
  using assms(3)
proof (induction "length file - start" arbitrary: m r start rule: less_induct)
  case less
  show ?case
  proof (cases "start < length file")
    case True
    define e where "e = min (length file) (start + SHA256_READ_BYTES)"
    let ?part = "take SHA256_READ_BYTES (drop start file)"
    have "start \<le> e" "e \<le> length file" using True by (simp_all add: e_def)
    then have "he_read env start e = take (e - start) (drop start file)" using assms(2) by blast
    also have "\<dots> = ?part" using True by (simp add: e_def min_def)
    finally have rd: "he_read env start e = ?part" .
    have l: "length ?part = e - start" using True by (auto simp: e_def min_def)
    define r3 where "r3 = r\<lparr>hr_checks := Suc (Suc (Suc (Suc (hr_checks r))))\<rparr>"
    have "streams m (hr_sha r3)" using less.prems by (simp add: r3_def)
    then obtain r4 where r4: "work_loop env start ?part 0 r3 = Inr r4" "streams (m @ ?part) (hr_sha r4)"
      using work_loop_streams [OF assms(1), of m r3 start ?part 0] by auto
    have run: "read_loop env (length file) start r = read_loop env (length file) (start + SHA256_READ_BYTES) r4"
      using True r4(1) unfolding read_loop.simps [of env "length file" start r] checkAbort_ok [OF assms(1)] Let_def
        readSlice_def e_def [symmetric]
      by (simp add: err_simps rd l [unfolded length_take length_drop] r3_def)
    have "length file - (start + SHA256_READ_BYTES) < length file - start"
      using True SHA256_READ_BYTES_pos by linarith
    then have "\<exists>r'. read_loop env (length file) (start + SHA256_READ_BYTES) r4 = Inr r'
        \<and> streams ((m @ ?part) @ drop (start + SHA256_READ_BYTES) file) (hr_sha r')"
      using less.hyps r4(2) by blast
    moreover have "?part @ drop (start + SHA256_READ_BYTES) file = drop start file"
      using append_take_drop_id [of SHA256_READ_BYTES "drop start file"] by (simp add: add.commute)
    ultimately show ?thesis unfolding run by simp
  next
    case False
    then show ?thesis using less.prems by (simp add: read_loop.simps [of env "length file" start r])
  qed
qed

text \<open>
  C8: when the signal is never raised and the slices of the file are read as they are, the incremental
  hash of any file within the safe integers returns, and its result is the digest of the standard for
  the whole file, whatever the sizes of the slices and of the pieces of work are.
\<close>

theorem hashFileSha256_refines:
  assumes "\<forall>n. \<not> he_aborted env n" "int (length file) \<le> max_safe"
    and "\<forall>a b. a \<le> b \<longrightarrow> b \<le> length file \<longrightarrow> he_read env a b = take (b - a) (drop a file)"
  shows "hashFileSha256 env (length file) = Inr (fips_sha256 file)"
proof -
  let ?r = "\<lparr>hr_sha = IncrementalSha256, hr_checks = Suc 0, hr_progress = [0]\<rparr>"
  obtain r' where r': "read_loop env (length file) 0 ?r = Inr r'" "streams ([] @ drop 0 file) (hr_sha r')"
    using read_loop_streams [OF assms(1,3), of "[]" ?r 0] streams_init by auto
  have "sha_digest (hr_sha r') = Inr (fips_sha256 file)" using sha_digest_streams [OF _ assms(2)] r'(2) by simp
  moreover have "safe_integer (int (length file))" using assms(2) by (simp add: safe_integer_def max_safe_def)
  ultimately show ?thesis
    using r'(1) by (simp add: hashFileSha256_def checkAbort_ok [OF assms(1)] err_simps)
qed

theorem hashFileSha256_refines_witness:
  "hashFileSha256 \<lparr>he_aborted = (\<lambda>_. False), he_read = (\<lambda>a b. take (b - a) (drop a [97, 98, 99])), he_late = (\<lambda>_. True)\<rparr> 3
     = Inr (fips_sha256 [97, 98, 99])"
  using hashFileSha256_refines [of "\<lparr>he_aborted = (\<lambda>_. False), he_read = (\<lambda>a b. take (b - a) (drop a [97, 98, 99])),
    he_late = (\<lambda>_. True)\<rparr>" "[97, 98, 99]"] by (simp add: max_safe_def eval_nat_numeral)

end
