(* ===== verification/OneTime.thy ===== *)
theory OneTime
  imports Prelude
begin

text \<open>
  The contract of a one-time secret, shared by refresh tokens and download capabilities: a store in
  which every admission of the secret uses up one of the entries that match it.
\<close>

text \<open>The number of operations of a history that are admitted, and the state after it.\<close>

fun admissions :: "('op \<Rightarrow> 's \<Rightarrow> 's) \<Rightarrow> ('op \<Rightarrow> 's \<Rightarrow> bool) \<Rightarrow> 'op list \<Rightarrow> 's \<Rightarrow> nat" where
  "admissions step admits [] s = 0"
| "admissions step admits (x # xs) s = (if admits x s then 1 else 0) + admissions step admits xs (step x s)"

locale one_time =
  fixes step :: "'op \<Rightarrow> 's \<Rightarrow> 's" and admits :: "'op \<Rightarrow> 's \<Rightarrow> bool" and weight :: "'s \<Rightarrow> nat"
    and allowed :: "'op \<Rightarrow> bool"
  assumes spends: "allowed x \<Longrightarrow> (if admits x s then 1 else 0) + weight (step x s) \<le> weight s"
begin

lemma admissions_le: "\<forall>x \<in> set xs. allowed x \<Longrightarrow> admissions step admits xs s \<le> weight s"
proof (induction xs arbitrary: s)
  case (Cons x xs)
  have "admissions step admits xs (step x s) \<le> weight (step x s)" using Cons by simp
  then show ?case using spends [of x s] Cons.prems by simp
qed simp

lemma single_use: "\<forall>x \<in> set xs. allowed x \<Longrightarrow> weight s \<le> 1 \<Longrightarrow> admissions step admits xs s \<le> 1"
  using admissions_le [of xs s] by simp

end

text \<open>The rows with a given key.\<close>

definition with_key :: "('r \<Rightarrow> 'k) \<Rightarrow> 'k \<Rightarrow> 'r list \<Rightarrow> nat" where
  "with_key key k rows = length (filter (\<lambda>c. key c = k) rows)"

lemma with_key_simps [simp]:
  "with_key key k [] = 0"
  "with_key key k (xs @ ys) = with_key key k xs + with_key key k ys"
  "with_key key k (x # xs) = (if key x = k then 1 else 0) + with_key key k xs"
  by (simp_all add: with_key_def)

lemma with_key_filter: "with_key key k (filter P rows) \<le> with_key key k rows"
  by (induction rows) auto

lemma with_key_drop:
  assumes "c \<in> set rows" "P c" "key c = k"
  shows "Suc (with_key key k (filter (\<lambda>c. \<not> P c) rows)) \<le> with_key key k rows"
proof -
  obtain xs ys where rows: "rows = xs @ c # ys" using split_list [OF assms(1)] by blast
  show ?thesis
    using with_key_filter [of key k "\<lambda>c. \<not> P c" xs] with_key_filter [of key k "\<lambda>c. \<not> P c" ys] assms(2,3)
    unfolding rows by simp
qed

lemma with_key_none: "\<forall>c \<in> set rows. key c \<noteq> k \<Longrightarrow> with_key key k rows = 0"
  by (simp add: with_key_def filter_empty_conv)

end
