(* ===== verification/Downloads.thy ===== *)
theory Downloads
  imports ShareScope StoragePath
begin

text \<open>
  Downloads: the two parsers of the Range header, the response for a file of the drive
  (backend/src/files/files.controller.ts), with the headers as they are sent and the bytes of the body;
  the public downloads are in PublicDownloads.  \<open>disk\<close> is the content of the objects by path, \<open>trusted\<close>
  the live checks of the storage.
\<close>

section \<open>The Range header\<close>

datatype range_result = RangeNone | RangeOf int int | RangeUnsatisfiable

text \<open>\<open>/^bytes=(\d*)-(\d*)$/\<close>; \<open>Number\<close> of a digit string.\<close>

definition range_match :: "ustring \<Rightarrow> (ustring \<times> ustring) option" where
  "range_match h =
     (let r = drop 6 h; r2 = dropWhile digit r
      in if starts_with (js ''bytes='') h \<and> r2 \<noteq> [] \<and> hd r2 = 45 \<and> (\<forall>c \<in> set (tl r2). digit c)
         then Some (takeWhile digit r, tl r2) else None)"

definition digits_value :: "ustring \<Rightarrow> int" where
  "digits_value s = int (undec 0 s)"

definition parseDownloadRange :: "ustring option \<Rightarrow> int \<Rightarrow> range_result" where
  "parseDownloadRange header fileSize =
     (if \<not> safe_integer fileSize \<or> fileSize < 0 then RangeUnsatisfiable
      else case header of None \<Rightarrow> RangeNone | Some h \<Rightarrow>
        if h = [] \<or> trim h = [] then RangeNone
        else case range_match (trim h) of None \<Rightarrow> RangeUnsatisfiable | Some (startText, endText) \<Rightarrow>
          (let checked = \<lambda>start stop.
                 if start < 0 \<or> stop < 0 \<or> start > stop \<or> start \<ge> fileSize then RangeUnsatisfiable
                 else RangeOf start (if stop \<ge> fileSize then fileSize - 1 else stop)
           in if startText = [] then
                (let n = digits_value endText
                 in if \<not> safe_integer n \<or> n \<le> 0 \<or> fileSize = 0 then RangeUnsatisfiable
                    else checked (if n \<ge> fileSize then 0 else fileSize - n) (fileSize - 1))
              else
                (let start = digits_value startText;
                     stop = (if endText = [] then fileSize - 1 else digits_value endText)
                 in if \<not> safe_integer start \<or> \<not> safe_integer stop \<or> fileSize = 0 then RangeUnsatisfiable
                    else checked start stop)))"

definition parseRangeHeader :: "ustring option \<Rightarrow> int \<Rightarrow> range_result" where
  "parseRangeHeader header fileSize =
     (if \<not> safe_integer fileSize \<or> fileSize < 0 then RangeUnsatisfiable
      else case header of None \<Rightarrow> RangeNone | Some h \<Rightarrow>
        if h = [] \<or> trim h = [] then RangeNone
        else case range_match (trim h) of None \<Rightarrow> RangeUnsatisfiable | Some (startStr, endStr) \<Rightarrow>
          (let checked = \<lambda>start stop.
                 if start < 0 \<or> stop < 0 then RangeUnsatisfiable
                 else if start > stop then RangeUnsatisfiable
                 else if fileSize = 0 then RangeUnsatisfiable
                 else if start \<ge> fileSize then RangeUnsatisfiable
                 else RangeOf start (if stop \<ge> fileSize then fileSize - 1 else stop)
           in if startStr = [] then
                (let n = digits_value endStr
                 in if \<not> safe_integer n \<or> n \<le> 0 then RangeUnsatisfiable
                    else if n \<ge> fileSize then checked 0 (fileSize - 1)
                    else checked (fileSize - n) (fileSize - 1))
              else
                (let start = digits_value startStr;
                     stop = (if endStr = [] then fileSize - 1 else digits_value endStr)
                 in if \<not> safe_integer start \<or> \<not> safe_integer stop then RangeUnsatisfiable
                    else checked start stop)))"


section \<open>Headers\<close>

record response =
  rs_status :: nat
  rs_headers :: "(string \<times> ustring) list"
  rs_body :: "nat list"

text \<open>The name of the file, code point by code point.\<close>

definition unprintable :: "nat \<Rightarrow> bool" where
  "unprintable c \<longleftrightarrow> c < 32 \<or> 127 \<le> c \<and> c \<le> 159 \<or> 0xd800 \<le> c \<and> c \<le> 0xdfff"

fun download_name :: "ustring \<Rightarrow> ustring" where
  "download_name (a # b # s) =
     (if high_surrogate a \<and> low_surrogate b then a # b # download_name s
      else (if unprintable a then 95 else a) # download_name (b # s))"
| "download_name [a] = [if unprintable a then 95 else a]"
| "download_name [] = []"

text \<open>\<open>replace(/[^\x20-\x7e]|["\\]/g, "_")\<close>\<close>

definition header_char :: "nat \<Rightarrow> bool" where
  "header_char c \<longleftrightarrow> 32 \<le> c \<and> c \<le> 126"

definition safe_file_name :: "ustring \<Rightarrow> ustring" where
  "safe_file_name s = map (\<lambda>c. if \<not> header_char c \<or> c = 34 \<or> c = 92 then 95 else c) s"

fun utf8 :: "ustring \<Rightarrow> nat list" where
  "utf8 (a # b # s) =
     (if high_surrogate a \<and> low_surrogate b
      then let n = 0x10000 + (a - 0xd800) * 0x400 + (b - 0xdc00)
           in [0xf0 + n div 0x40000, 0x80 + n div 0x1000 mod 0x40, 0x80 + n div 0x40 mod 0x40, 0x80 + n mod 0x40] @ utf8 s
      else (if a < 0x80 then [a] else if a < 0x800 then [0xc0 + a div 0x40, 0x80 + a mod 0x40]
            else [0xe0 + a div 0x1000, 0x80 + a div 0x40 mod 0x40, 0x80 + a mod 0x40]) @ utf8 (b # s))"
| "utf8 [a] = (if a < 0x80 then [a] else if a < 0x800 then [0xc0 + a div 0x40, 0x80 + a mod 0x40]
            else [0xe0 + a div 0x1000, 0x80 + a div 0x40 mod 0x40, 0x80 + a mod 0x40])"
| "utf8 [] = []"

definition upper_hex :: "nat \<Rightarrow> nat" where
  "upper_hex d = (if d < 10 then 48 + d else 55 + d)"

definition percent :: "nat \<Rightarrow> ustring" where
  "percent b = [37, upper_hex (b div 16), upper_hex (b mod 16)]"

text \<open>\<open>encodeURIComponent\<close> leaves letters, digits and \<open>- _ . ! ~ * ' ( )\<close>, and refuses lone surrogates.\<close>

definition uri_unreserved :: "nat \<Rightarrow> bool" where
  "uri_unreserved c \<longleftrightarrow> letter c \<or> digit c \<or> c \<in> {45, 95, 46, 33, 126, 42, 39, 40, 41}"

definition encodeURIComponent :: "ustring \<Rightarrow> ustring res" where
  "encodeURIComponent s =
     bindE (ensure (well_formed s) (PlainError ''URI malformed'')) (\<lambda>_.
     Inr (concat (map (\<lambda>b. if uri_unreserved b then [b] else percent b) (utf8 s))))"

text \<open>The replacement of \<open>['()*]\<close> for RFC 5987.\<close>

definition rfc5987 :: "ustring \<Rightarrow> ustring" where
  "rfc5987 s = concat (map (\<lambda>c. if c \<in> {39, 40, 41, 42} then percent c else [c]) s)"

definition mime_char :: "nat \<Rightarrow> bool" where
  "mime_char c \<longleftrightarrow> letter c \<or> digit c \<or> c \<in> {33, 35, 36, 38, 94, 95, 46, 43, 45}"

definition mime_header :: "ustring option \<Rightarrow> ustring" where
  "mime_header mime =
     (case mime of
        None \<Rightarrow> js ''application/octet-stream''
      | Some m \<Rightarrow>
          (case split_on 47 m of
             [a, b] \<Rightarrow> if a \<noteq> [] \<and> b \<noteq> [] \<and> (\<forall>c \<in> set (a @ b). mime_char c) then m else js ''application/octet-stream''
           | _ \<Rightarrow> js ''application/octet-stream''))"

definition named_download :: "file_row \<Rightarrow> ustring" where
  "named_download f = (if f_name f = [] then js ''download'' else f_name f)"

definition original_headers :: "file_row \<Rightarrow> (string \<times> ustring) list res" where
  "original_headers f =
     (let name = download_name (named_download f)
      in bindE (encodeURIComponent name) (\<lambda>encoded.
         Inr [(''Content-Type'', mime_header (f_mimeType f)),
              (''Content-Disposition'', js ''attachment; filename='' @ [34] @ safe_file_name name @ [34]
                 @ js ''; filename*=UTF-8'' @ [39, 39] @ rfc5987 encoded),
              (''Accept-Ranges'', js ''bytes''), (''Cache-Control'', js ''no-store''),
              (''X-Content-Type-Options'', js ''nosniff'')]))"


section \<open>A file of the drive\<close>

definition download_id :: "ustring \<Rightarrow> nat res" where
  "download_id i =
     bindE (ensure (i \<noteq> [] \<and> (\<forall>c \<in> set i. digit c) \<and> hd i \<noteq> 48 \<and> safe_integer (digits_value i)
              \<and> digits_value i \<le> 2147483647) (BadRequest ''Invalid file id'')) (\<lambda>_.
     Inr (undec 0 i))"

definition open_object :: "(ustring \<Rightarrow> bool) \<Rightarrow> ustring \<Rightarrow> (ustring \<Rightarrow> nat list option) \<Rightarrow> file_row \<Rightarrow> nat list res" where
  "open_object trusted root disk f =
     (case bindE (resolve_placement trusted root f) (ensureWithinStorageRoot trusted root) of
        Inl _ \<Rightarrow> Inl (NotFound ''File not found on storage'')
      | Inr p \<Rightarrow> require (disk p) (NotFound ''File not found on storage''))"

definition content_range :: "int \<Rightarrow> int \<Rightarrow> nat \<Rightarrow> ustring" where
  "content_range a b n = js ''bytes '' @ dec (nat a) @ [45] @ dec (nat b) @ [47] @ dec n"

definition byte_slice :: "int \<Rightarrow> int \<Rightarrow> nat list \<Rightarrow> nat list" where
  "byte_slice a b xs = take (nat (b - a + 1)) (drop (nat a) xs)"

text \<open>The response for parsed range \<open>r\<close>; a \<open>HEAD\<close> request has no body.\<close>

definition ranged_response :: "(string \<times> ustring) list \<Rightarrow> bool \<Rightarrow> nat list \<Rightarrow> range_result \<Rightarrow> response" where
  "ranged_response base head content r =
     (let n = length content; body = (\<lambda>xs. if head then [] else xs)
      in case r of
        RangeUnsatisfiable \<Rightarrow>
          \<lparr>rs_status = 416, rs_headers = base @ [(''Content-Range'', js ''bytes */'' @ dec n)], rs_body = []\<rparr>
      | RangeNone \<Rightarrow>
          \<lparr>rs_status = 200, rs_headers = base @ [(''Content-Length'', dec n)], rs_body = body content\<rparr>
      | RangeOf a b \<Rightarrow>
          \<lparr>rs_status = 206, rs_headers = base @ [(''Content-Range'', content_range a b n),
             (''Content-Length'', dec (nat (b - a + 1)))], rs_body = body (byte_slice a b content)\<rparr>)"

definition streamOriginalDownload :: "(ustring \<Rightarrow> bool) \<Rightarrow> ustring \<Rightarrow> (ustring \<Rightarrow> nat list option) \<Rightarrow> db \<Rightarrow> nat
    \<Rightarrow> ustring \<Rightarrow> ustring option \<Rightarrow> bool \<Rightarrow> response res" where
  "streamOriginalDownload trusted root disk s user i rng head =
     bindE (download_id i) (\<lambda>k.
     bindE (findOne s user k) (\<lambda>f.
     bindE (ensure (\<not> f_isFolder f) (BadRequest ''Folders cannot be downloaded as files'')) (\<lambda>_.
     bindE (ensure (\<not> f_isDeleted f \<and> f_storagePath f \<noteq> None \<and> f_storagePath f \<noteq> Some [])
        (NotFound ''File not found'')) (\<lambda>_.
     bindE (open_object trusted root disk f) (\<lambda>content.
     bindE (ensure (safe_integer (int (length content))) (NotFound ''File not found on storage'')) (\<lambda>_.
     bindE (original_headers f) (\<lambda>base.
     Inr (ranged_response base head content (parseDownloadRange rng (int (length content)))))))))))"

end
