(* ===== verification/Archive.thy ===== *)
theory Archive
  imports OneTime Downloads "HOL-Library.List_Lexorder" "HOL-Library.Product_Lexorder"
begin

text \<open>
  ZIP downloads of a selection of the drive (backend/src/files/archive-downloads.service.ts): the parsed
  selection, the manifest planned from the tables, its checks against the disk, the capability that
  carries it, and the entries streamed under the shared engine of backend/src/common/archive-stream.ts.
  \<open>nfc\<close> and \<open>lower\<close> are \<open>String.prototype.normalize("NFC")\<close> and \<open>toLocaleLowerCase("und")\<close>; the
  client stays connected.
\<close>

definition MAX_ROOTS :: nat where "MAX_ROOTS = 32"
definition MAX_MEMBERS :: nat where "MAX_MEMBERS = 5000"
definition MAX_DEPTH :: nat where "MAX_DEPTH = 32"
definition MAX_BYTES :: int where "MAX_BYTES = 100 * 1024 ^ 3"
definition MAX_FILE_BYTES :: int where "MAX_FILE_BYTES = 100 * 1024 ^ 3"

datatype archive_kind = AFile | AFolder

type_synonym selection = "archive_kind \<times> nat"

record archive_member =
  am_kind :: archive_kind
  am_id :: nat
  am_parentId :: "nat option"
  am_name :: ustring
  am_path :: ustring
  am_isFolder :: bool
  am_storagePath :: "ustring option"
  am_storageLocationId :: "ustring option"
  am_relativeObjectKey :: "ustring option"
  am_size :: int

record manifest =
  mf_roots :: "selection list"
  mf_members :: "archive_member list"


section \<open>The selection\<close>

text \<open>The parsed JSON of a request: an array whose entries are objects, with their own keys, or not.\<close>

datatype archive_entry = EntryObject "(ustring \<times> js_value) list" | EntryOther
datatype archive_input = InputArray "archive_entry list" | InputOther

definition selection_kind :: "js_value option \<Rightarrow> archive_kind option" where
  "selection_kind v =
     (if v = Some (JStr (js ''file'')) then Some AFile else if v = Some (JStr (js ''folder'')) then Some AFolder else None)"

definition selection_id :: "js_value option \<Rightarrow> nat option" where
  "selection_id v =
     (case v of Some (JInt n) \<Rightarrow> if safe_integer n \<and> 1 \<le> n \<and> n \<le> 2147483647 then Some (nat n) else None | _ \<Rightarrow> None)"

definition selection_entry :: "archive_entry \<Rightarrow> selection res" where
  "selection_entry e =
     (case e of
        EntryOther \<Rightarrow> Inl (BadRequest ''Invalid archive selection'')
      | EntryObject ps \<Rightarrow>
          (case (join_with 44 (sort (map fst ps)) = js ''id,kind'',
                 selection_kind (map_of ps (js ''kind'')), selection_id (map_of ps (js ''id''))) of
             (True, Some kind, Some k) \<Rightarrow> Inr (kind, k)
           | _ \<Rightarrow> Inl (BadRequest ''Invalid archive selection'')))"

fun selection_loop :: "selection list \<Rightarrow> archive_entry list \<Rightarrow> selection list res" where
  "selection_loop seen [] = Inr []"
| "selection_loop seen (e # es) =
     bindE (selection_entry e) (\<lambda>root.
     bindE (ensure (root \<notin> set seen) (BadRequest ''Duplicate archive selection'')) (\<lambda>_.
     bindE (selection_loop (seen @ [root]) es) (\<lambda>roots. Inr (root # roots))))"

definition parseSelection :: "archive_input \<Rightarrow> selection list res" where
  "parseSelection input =
     (case input of
        InputOther \<Rightarrow> Inl (BadRequest ''Select 1 to 32 files or folders'')
      | InputArray es \<Rightarrow>
          if es = [] \<or> MAX_ROOTS < length es then Inl (BadRequest ''Select 1 to 32 files or folders'')
          else selection_loop [] es)"


section \<open>Names\<close>

definition ascii_lower :: "nat \<Rightarrow> nat" where
  "ascii_lower c = (if 65 \<le> c \<and> c \<le> 90 then c + 32 else c)"

definition device_names :: "ustring list" where
  "device_names = map js [''con'', ''prn'', ''aux'', ''nul'']
     @ map (\<lambda>i. js ''com'' @ [48 + i]) [1..<10] @ map (\<lambda>i. js ''lpt'' @ [48 + i]) [1..<10]"

text \<open>The negation of the tests of \<open>segment\<close>.\<close>

definition segment_ok :: "ustring \<Rightarrow> bool" where
  "segment_ok s \<longleftrightarrow> s \<noteq> [] \<and> length s \<le> 255 \<and> s \<noteq> [46] \<and> s \<noteq> [46, 46]
     \<and> (\<forall>c \<in> set s. c \<notin> set (js ''/:*?<>|'') \<and> c \<noteq> 92 \<and> c \<noteq> 34 \<and> 32 \<le> c \<and> c \<noteq> 127)
     \<and> last s \<noteq> 46 \<and> last s \<noteq> 32
     \<and> map ascii_lower (takeWhile (\<lambda>c. c \<noteq> 46) s) \<notin> set device_names"

definition archive_segment :: "(ustring \<Rightarrow> ustring) \<Rightarrow> ustring \<Rightarrow> ustring res" where
  "archive_segment nfc name =
     bindE (ensure (segment_ok (nfc name)) (BadRequest ''Unsafe archive name'')) (\<lambda>_. Inr (nfc name))"

function reserve_loop :: "(ustring \<Rightarrow> ustring) \<Rightarrow> (ustring \<Rightarrow> ustring) \<Rightarrow> ustring list \<Rightarrow> ustring \<Rightarrow> nat \<Rightarrow> ustring
    \<Rightarrow> ustring res" where
  "reserve_loop nfc lower names name i cand =
     (if lower cand \<notin> set names then Inr cand
      else if MAX_ROOTS + 1 < i then Inl (Conflict ''Archive name collision'')
      else bindE (archive_segment nfc (name @ suffix i)) (\<lambda>c. reserve_loop nfc lower names name (Suc i) c))"
  by pat_completeness auto
termination
  by (relation "measure (\<lambda>(nfc, lower, names, name, i, cand). MAX_ROOTS + 2 - i)") auto

declare reserve_loop.simps [simp del]

text \<open>The chosen name and the taken names after it.\<close>

definition reserveRootName :: "(ustring \<Rightarrow> ustring) \<Rightarrow> (ustring \<Rightarrow> ustring) \<Rightarrow> ustring \<Rightarrow> ustring list
    \<Rightarrow> (ustring \<times> ustring list) res" where
  "reserveRootName nfc lower raw names =
     bindE (archive_segment nfc raw) (\<lambda>name.
     bindE (reserve_loop nfc lower names name 2 name) (\<lambda>c. Inr (c, lower c # names)))"


section \<open>The queries\<close>

text \<open>The recursion of \<open>ancestors\<close>: at most \<open>n\<close> further folders upwards, none of them twice.\<close>

fun folder_chain :: "db \<Rightarrow> nat \<Rightarrow> nat list \<Rightarrow> folder_row \<Rightarrow> folder_row list" where
  "folder_chain s 0 visited d = [d]"
| "folder_chain s (Suc n) visited d =
     d # (case d_parentId d of
            None \<Rightarrow> []
          | Some p \<Rightarrow>
              (case find (\<lambda>x. d_id x = p) (folders s) of
                 None \<Rightarrow> []
               | Some x \<Rightarrow> if p \<in> set visited then [] else folder_chain s n (p # visited) x))"

text \<open>The left join with the live mirrors of the user.\<close>

definition mirror_join :: "db \<Rightarrow> nat \<Rightarrow> (folder_row \<Rightarrow> 'a) \<Rightarrow> folder_row \<Rightarrow> ('a \<times> nat option) list" where
  "mirror_join s user g d =
     (let ms = filter (\<lambda>f. f_folderId f = Some (d_id d) \<and> f_userId f = user \<and> f_isFolder f \<and> \<not> f_isDeleted f) (files s)
      in if ms = [] then [(g d, None)] else map (\<lambda>f. (g d, Some (f_id f))) ms)"

definition archive_ancestors :: "db \<Rightarrow> nat \<Rightarrow> nat \<Rightarrow> folder_row list res" where
  "archive_ancestors s user k =
     (let rows = (case find (\<lambda>d. d_id d = k) (folders s) of
                    None \<Rightarrow> []
                  | Some d \<Rightarrow> concat (map (mirror_join s user (\<lambda>d. d)) (folder_chain s (MAX_DEPTH + 1) [k] d)))
      in if rows = [] \<or> MAX_DEPTH + 1 < length rows \<or> d_parentId (fst (last rows)) \<noteq> None
            \<or> (\<exists>(d, m) \<in> set rows. d_userId d \<noteq> user \<or> d_isDeleted d \<or> m = None)
         then Inl (NotFound ''Folder unavailable'') else Inr (map fst rows))"

definition archive_file :: "db \<Rightarrow> nat \<Rightarrow> nat \<Rightarrow> file_row res" where
  "archive_file s user k =
     bindE (require (find (\<lambda>f. f_id f = k \<and> f_userId f = user) (files s)) (NotFound ''File unavailable'')) (\<lambda>f.
     bindE (ensure (\<not> f_isDeleted f \<and> \<not> f_isFolder f \<and> f_storagePath f \<noteq> None \<and> f_storagePath f \<noteq> Some [])
        (NotFound ''File unavailable'')) (\<lambda>_. Inr f))"

text \<open>The recursion of \<open>folderTree\<close>, one level at a time; every folder carries the ids above it.\<close>

definition tree_children :: "db \<Rightarrow> nat \<Rightarrow> folder_row \<times> nat list \<Rightarrow> (folder_row \<times> nat list) list" where
  "tree_children s user dv =
     map (\<lambda>d. (d, d_id d # snd dv))
       (filter (\<lambda>d. d_parentId d = Some (d_id (fst dv)) \<and> d_userId d = user \<and> \<not> d_isDeleted d
          \<and> d_id d \<notin> set (snd dv)) (folders s))"

fun tree_rows :: "db \<Rightarrow> nat \<Rightarrow> nat \<Rightarrow> nat \<Rightarrow> (folder_row \<times> nat list) list \<Rightarrow> (folder_row \<times> nat) list" where
  "tree_rows s user 0 k level = map (\<lambda>(d, v). (d, k)) level"
| "tree_rows s user (Suc n) k level =
     map (\<lambda>(d, v). (d, k)) level @ tree_rows s user n (Suc k) (concat (map (tree_children s user) level))"

definition folderTree :: "db \<Rightarrow> nat \<Rightarrow> nat \<Rightarrow> (folder_row list \<times> file_row list) res" where
  "folderTree s user root =
     (let start = map (\<lambda>d. (d, [root])) (filter (\<lambda>d. d_id d = root \<and> d_userId d = user \<and> \<not> d_isDeleted d) (folders s));
          joined = take (MAX_MEMBERS + 1) (concat (map (\<lambda>(d, k). mirror_join s user (\<lambda>d. (d, k)) d)
                     (tree_rows s user (MAX_DEPTH + 1) 0 start)))
      in bindE (ensure (\<not> (joined = [] \<or> MAX_MEMBERS < length joined \<or> (\<exists>((d, k), m) \<in> set joined. MAX_DEPTH < k \<or> m = None)))
           (BadRequest ''Archive folder limit exceeded or unavailable'')) (\<lambda>_.
         let ordered = map fst (sort_key (\<lambda>(d, k). (k, d_id d)) (map fst joined));
             rows = take (MAX_MEMBERS + 1) (filter (\<lambda>f. f_parentId f \<in> Some ` d_id ` set ordered \<and> f_userId f = user
                      \<and> \<not> f_isDeleted f \<and> \<not> f_isFolder f) (files s))
         in bindE (ensure (length rows \<le> MAX_MEMBERS) (BadRequest ''Archive member limit exceeded'')) (\<lambda>_.
            Inr (ordered, sort_key f_id rows))))"


section \<open>The manifest\<close>

definition file_member :: "file_row \<Rightarrow> ustring \<Rightarrow> archive_member res" where
  "file_member f path =
     bindE (parseDatabaseSize (bigint_text (f_size f)) ''Invalid file size metadata'') (\<lambda>n.
     Inr \<lparr>am_kind = AFile, am_id = f_id f, am_parentId = f_parentId f, am_name = f_name f, am_path = path,
       am_isFolder = False, am_storagePath = f_storagePath f, am_storageLocationId = f_storageLocationId f,
       am_relativeObjectKey = f_relativeObjectKey f, am_size = n\<rparr>)"

definition folder_member :: "folder_row \<Rightarrow> ustring \<Rightarrow> archive_member" where
  "folder_member d path =
     \<lparr>am_kind = AFolder, am_id = d_id d, am_parentId = d_parentId d, am_name = d_name d, am_path = path,
       am_isFolder = True, am_storagePath = None, am_storageLocationId = None, am_relativeObjectKey = None, am_size = 0\<rparr>"

definition am_key :: "archive_member \<Rightarrow> selection" where
  "am_key m = (am_kind m, am_id m)"

text \<open>The members so far and the keys seen.\<close>

type_synonym draft = "archive_member list \<times> selection list"

definition add_member :: "archive_member \<Rightarrow> draft \<Rightarrow> draft res" where
  "add_member m st =
     (if am_key m \<in> set (snd st) then Inr st
      else let ms = fst st @ [m] in
        if MAX_MEMBERS < length ms then Inl (BadRequest ''Archive member limit exceeded'')
        else Inr (ms, am_key m # snd st))"

text \<open>The loop over the folders of one root, with the paths of the folders met.\<close>

fun place_folders :: "(ustring \<Rightarrow> ustring) \<Rightarrow> nat \<Rightarrow> ustring \<Rightarrow> folder_row list \<Rightarrow> (nat \<rightharpoonup> ustring) \<Rightarrow> draft
    \<Rightarrow> ((nat \<rightharpoonup> ustring) \<times> draft) res" where
  "place_folders nfc root base [] paths st = Inr (paths, st)"
| "place_folders nfc root base (d # ds) paths st =
     bindE (if d_id d = root then Inr base
            else bindE (require (Option.bind (d_parentId d) paths) (Conflict ''Folder tree changed'')) (\<lambda>parent.
                 bindE (archive_segment nfc (d_name d)) (\<lambda>seg. Inr (parent @ [47] @ seg)))) (\<lambda>path.
     bindE (add_member (folder_member d path) st) (\<lambda>st'.
     place_folders nfc root base ds (paths(d_id d \<mapsto> path)) st'))"

fun place_files :: "(ustring \<Rightarrow> ustring) \<Rightarrow> (nat \<rightharpoonup> ustring) \<Rightarrow> file_row list \<Rightarrow> draft \<Rightarrow> draft res" where
  "place_files nfc paths [] st = Inr st"
| "place_files nfc paths (f # fs) st =
     bindE (require (Option.bind (f_parentId f) paths) (Conflict ''Folder tree changed'')) (\<lambda>parent.
     bindE (ensure (parent \<noteq> []) (Conflict ''Folder tree changed'')) (\<lambda>_.
     bindE (archive_segment nfc (f_name f)) (\<lambda>seg.
     bindE (file_member f (parent @ [47] @ seg)) (\<lambda>m.
     bindE (add_member m st) (\<lambda>st'. place_files nfc paths fs st')))))"

text \<open>The rows of the selected roots, the folders with their depth.\<close>

fun root_rows :: "db \<Rightarrow> nat \<Rightarrow> selection list \<Rightarrow> ((folder_row \<times> nat \<times> nat) list \<times> file_row list) res" where
  "root_rows s user [] = Inr ([], [])"
| "root_rows s user ((AFolder, k) # roots) =
     bindE (archive_ancestors s user k) (\<lambda>ds.
     bindE (root_rows s user roots) (\<lambda>(folder_roots, file_roots).
     Inr ((hd ds, length ds, k) # folder_roots, file_roots)))"
| "root_rows s user ((AFile, k) # roots) =
     bindE (archive_file s user k) (\<lambda>f.
     bindE (case f_parentId f of None \<Rightarrow> Inr [] | Some p \<Rightarrow> archive_ancestors s user p) (\<lambda>_.
     bindE (root_rows s user roots) (\<lambda>(folder_roots, file_roots).
     Inr (folder_roots, f # file_roots))))"

fun place_folder_roots :: "(ustring \<Rightarrow> ustring) \<Rightarrow> (ustring \<Rightarrow> ustring) \<Rightarrow> db \<Rightarrow> nat \<Rightarrow> (folder_row \<times> nat \<times> nat) list
    \<Rightarrow> ustring list \<Rightarrow> draft \<Rightarrow> (ustring list \<times> draft) res" where
  "place_folder_roots nfc lower s user [] names st = Inr (names, st)"
| "place_folder_roots nfc lower s user ((d, depth, root) # rs) names st =
     (if (AFolder, root) \<in> set (snd st) then place_folder_roots nfc lower s user rs names st
      else bindE (reserveRootName nfc lower (d_name d) names) (\<lambda>(base, names').
           bindE (folderTree s user root) (\<lambda>(ds, fs).
           bindE (place_folders nfc root base ds (\<lambda>_. None) st) (\<lambda>(paths, st1).
           bindE (place_files nfc paths fs st1) (\<lambda>st2.
           place_folder_roots nfc lower s user rs names' st2)))))"

fun place_file_roots :: "(ustring \<Rightarrow> ustring) \<Rightarrow> (ustring \<Rightarrow> ustring) \<Rightarrow> file_row list \<Rightarrow> ustring list \<Rightarrow> draft
    \<Rightarrow> draft res" where
  "place_file_roots nfc lower [] names st = Inr st"
| "place_file_roots nfc lower (f # fs) names st =
     (if (AFile, f_id f) \<in> set (snd st) then place_file_roots nfc lower fs names st
      else bindE (reserveRootName nfc lower (f_name f) names) (\<lambda>(name, names').
           bindE (file_member f name) (\<lambda>m.
           bindE (add_member m st) (\<lambda>st'. place_file_roots nfc lower fs names' st'))))"

fun manifest_loop :: "(ustring \<Rightarrow> ustring) \<Rightarrow> (ustring \<Rightarrow> ustring) \<Rightarrow> ustring list \<Rightarrow> int \<Rightarrow> archive_member list \<Rightarrow> unit res" where
  "manifest_loop nfc lower paths bytes [] = Inr ()"
| "manifest_loop nfc lower paths bytes (m # ms) =
     (let key = lower (nfc (am_path m)); total = bytes + am_size m in
      if 1024 < length (am_path m) \<or> MAX_DEPTH + 1 < length (split_on 47 (am_path m))
      then Inl (BadRequest ''Archive path limit exceeded'')
      else if key \<in> set paths then Inl (Conflict ''Archive names collide'')
      else if am_isFolder m then manifest_loop nfc lower (key # paths) bytes ms
      else if \<not> safe_integer (am_size m) \<or> am_size m < 0 \<or> MAX_FILE_BYTES < am_size m
      then Inl (BadRequest ''Archive file size limit exceeded'')
      else if \<not> safe_integer total \<or> MAX_BYTES < total then Inl (BadRequest ''Archive size limit exceeded'')
      else manifest_loop nfc lower (key # paths) total ms)"

definition validateManifest :: "(ustring \<Rightarrow> ustring) \<Rightarrow> (ustring \<Rightarrow> ustring) \<Rightarrow> archive_member list \<Rightarrow> unit res" where
  "validateManifest nfc lower ms =
     (if ms = [] then Inl (BadRequest ''Archive is empty'') else manifest_loop nfc lower [] 0 ms)"

definition plan :: "(ustring \<Rightarrow> ustring) \<Rightarrow> (ustring \<Rightarrow> ustring) \<Rightarrow> db \<Rightarrow> nat \<Rightarrow> selection list \<Rightarrow> manifest res" where
  "plan nfc lower s user roots =
     bindE (root_rows s user roots) (\<lambda>(folder_roots, file_roots).
     bindE (place_folder_roots nfc lower s user (sort_key snd folder_roots) [] ([], [])) (\<lambda>(names, st).
     bindE (place_file_roots nfc lower (sort_key f_id file_roots) names st) (\<lambda>st'.
     bindE (validateManifest nfc lower (fst st')) (\<lambda>_.
     Inr \<lparr>mf_roots = roots, mf_members = fst st'\<rparr>))))"

end
