(* ===== verification/ArchiveStream.thy ===== *)
theory ArchiveStream
  imports Archive
begin

text \<open>
  The life of an archive download: preparation, the capability, revalidation and the entries of the ZIP
  file (\<open>prepare\<close>, \<open>authorize\<close>, \<open>stream\<close>, \<open>preflight\<close> and \<open>revalidateEntry\<close> of
  backend/src/files/archive-downloads.service.ts, and backend/src/common/archive-stream.ts).  The two
  counters of running work are arguments; the archiver package is the list of the entries it is given.
\<close>

section \<open>Checks against the disk\<close>

text \<open>The columns of a placement, as \<open>resolveFilePath\<close> reads them from a member.\<close>

definition member_object :: "archive_member \<Rightarrow> file_row" where
  "member_object m =
     \<lparr>f_id = am_id m, f_name = am_name m, f_storagePath = am_storagePath m,
      f_storageLocationId = am_storageLocationId m, f_relativeObjectKey = am_relativeObjectKey m, f_size = am_size m,
      f_mimeType = None, f_isFolder = am_isFolder m, f_isDeleted = False, f_deletedAt = None,
      f_parentId = am_parentId m, f_folderId = None, f_version = 0, f_uploadId = None, f_userId = 0\<rparr>"

definition preflight :: "(ustring \<Rightarrow> bool) \<Rightarrow> ustring \<Rightarrow> (ustring \<Rightarrow> nat list option) \<Rightarrow> manifest \<Rightarrow> unit res" where
  "preflight trusted root disk mf =
     ensure (\<forall>m \<in> set (mf_members mf). am_isFolder m \<or>
         (case open_object trusted root disk (member_object m) of
            Inl _ \<Rightarrow> False | Inr content \<Rightarrow> int (length content) = am_size m))
       (NotFound ''Archive file unavailable'')"


section \<open>Preparation and the capability\<close>

record archive_cap =
  ac_id :: ustring
  ac_hash :: ustring
  ac_user :: nat
  ac_manifest :: manifest
  ac_expiresAt :: int

definition store_capability :: "ustring \<Rightarrow> ustring \<Rightarrow> nat \<Rightarrow> manifest \<Rightarrow> int \<Rightarrow> archive_cap list \<Rightarrow> archive_cap list res" where
  "store_capability i h user mf now rows =
     (let kept = filter (\<lambda>c. \<not> ac_expiresAt c \<le> now) rows
      in bindE (ensure (\<not> (1000 \<le> length kept \<or> 2 \<le> length (filter (\<lambda>c. ac_user c = user) kept)))
           (TooManyRequests ''Too many pending archives'')) (\<lambda>_.
         bindE (ensure (i \<notin> ac_id ` set kept) (DbError ''duplicate key'')) (\<lambda>_.
         Inr (kept @ [\<lparr>ac_id = i, ac_hash = h, ac_user = user, ac_manifest = mf, ac_expiresAt = now + 120000\<rparr>]))))"

record archive_env =
  ae_nfc :: "ustring \<Rightarrow> ustring"
  ae_lower :: "ustring \<Rightarrow> ustring"
  ae_trusted :: "ustring \<Rightarrow> bool"
  ae_root :: ustring
  ae_disk :: "ustring \<Rightarrow> nat list option"
  ae_active :: nat

definition prepare_archive :: "archive_env \<Rightarrow> db \<Rightarrow> nat \<Rightarrow> archive_input \<Rightarrow> ustring \<Rightarrow> ustring \<Rightarrow> int \<Rightarrow> archive_cap list
    \<Rightarrow> archive_cap list res" where
  "prepare_archive env s user input i h now rows =
     bindE (parseSelection input) (\<lambda>roots.
     bindE (ensure (\<not> 2 \<le> ae_active env) (TooManyRequests ''Archive preparation is busy'')) (\<lambda>_.
     bindE (plan (ae_nfc env) (ae_lower env) s user roots) (\<lambda>mf.
     bindE (preflight (ae_trusted env) (ae_root env) (ae_disk env) mf) (\<lambda>_.
     store_capability i h user mf now rows))))"

definition hex_text :: "nat \<Rightarrow> ustring \<Rightarrow> bool" where
  "hex_text n t \<longleftrightarrow> length t = n \<and> (\<forall>c \<in> set t. digit c \<or> 97 \<le> c \<and> c \<le> 102)"

definition archive_scope :: "ustring \<Rightarrow> ustring \<Rightarrow> db \<Rightarrow> int \<Rightarrow> archive_cap \<Rightarrow> bool" where
  "archive_scope i h s now c \<longleftrightarrow> ac_id c = i \<and> ac_hash c = h \<and> now < ac_expiresAt c
     \<and> (\<exists>u \<in> set (users s). u_id u = ac_user c \<and> u_isActive u)"

definition authorize_archive :: "(ustring \<Rightarrow> ustring) \<Rightarrow> db \<Rightarrow> int \<Rightarrow> ustring \<Rightarrow> ustring option \<Rightarrow> bool \<Rightarrow> archive_cap list
    \<Rightarrow> archive_cap list \<times> (nat \<times> manifest) res" where
  "authorize_archive hash s now i token consume rows =
     (case token of
        None \<Rightarrow> (rows, Inl (NotFound ''Archive unavailable''))
      | Some t \<Rightarrow>
          if \<not> hex_text 32 i \<or> \<not> hex_text 64 t then (rows, Inl (NotFound ''Archive unavailable''))
          else
            let hit = archive_scope i (hash t) s now; found = filter hit rows;
                rows' = (if consume then filter (\<lambda>c. \<not> hit c) rows else rows)
            in (case found of
                  [c] \<Rightarrow> (rows', Inr (ac_user c, ac_manifest c))
                | _ \<Rightarrow> (rows', Inl (NotFound ''Archive unavailable''))))"


section \<open>Entries\<close>

definition revalidateEntry :: "db \<Rightarrow> nat \<Rightarrow> archive_member \<Rightarrow> unit res" where
  "revalidateEntry s user m =
     (if am_kind m = AFolder then
        bindE (archive_ancestors s user (am_id m)) (\<lambda>ds.
        ensure (d_name (hd ds) = am_name m \<and> d_parentId (hd ds) = am_parentId m) (Conflict ''Archive folder changed''))
      else
        bindE (archive_file s user (am_id m)) (\<lambda>f.
        bindE (if f_parentId f \<noteq> am_parentId m \<or> f_name f \<noteq> am_name m \<or> f_storagePath f \<noteq> am_storagePath m
                  \<or> f_storageLocationId f \<noteq> am_storageLocationId m \<or> f_relativeObjectKey f \<noteq> am_relativeObjectKey m
               then Inl (Conflict ''Archive file changed'')
               else bindE (parseDatabaseSize (bigint_text (f_size f)) ''Invalid file size metadata'') (\<lambda>n.
                    ensure (n = am_size m) (Conflict ''Archive file changed''))) (\<lambda>_.
        bindE (case f_parentId f of None \<Rightarrow> Inr [] | Some p \<Rightarrow> archive_ancestors s user p) (\<lambda>_. Inr ()))))"

datatype zip_entry = ZipFolder ustring | ZipFile ustring "nat list"

text \<open>The options of the shared engine; the callbacks see the number of the entry they are called for.\<close>

record stream_options =
  so_path :: "archive_member \<Rightarrow> ustring res"
  so_before :: "nat \<Rightarrow> archive_member \<Rightarrow> unit res"
  so_after :: "nat \<Rightarrow> archive_member \<Rightarrow> unit res"
  so_maxFileBytes :: "int option"
  so_maxTotalBytes :: "int option"
  so_enforceSize :: bool

definition over :: "int \<Rightarrow> int option \<Rightarrow> bool" where
  "over n limit = (case limit of None \<Rightarrow> False | Some l \<Rightarrow> l < n)"

text \<open>One member: the entry, and the bytes counted for it.\<close>

definition stream_member :: "stream_options \<Rightarrow> (ustring \<Rightarrow> bool) \<Rightarrow> ustring \<Rightarrow> (nat \<Rightarrow> ustring \<Rightarrow> nat list option)
    \<Rightarrow> nat \<Rightarrow> int \<Rightarrow> archive_member \<Rightarrow> (zip_entry \<times> int) res" where
  "stream_member opt trusted root disk i bytes m =
     bindE (so_before opt i m) (\<lambda>_.
     bindE (so_path opt m) (\<lambda>name.
     if am_isFolder m then Inr (ZipFolder (if am_path m = [] then [46, 47] else name @ [47]), bytes)
     else
       bindE (ensure (am_storagePath m \<noteq> None \<and> am_storagePath m \<noteq> Some [])
         (BadRequest ''Archive member has no storage path'')) (\<lambda>_.
       bindE (resolve_placement trusted root (member_object m)) (\<lambda>p.
       bindE (ensureWithinStorageRoot trusted root p) (\<lambda>q.
       bindE (require (disk i q) (PlainError ''ENOENT'')) (\<lambda>content.
       let n = int (length content) in
       bindE (ensure (\<not> (so_enforceSize opt \<and> n \<noteq> am_size m)) (NotFound ''Archive file changed'')) (\<lambda>_.
       bindE (ensure (\<not> over n (so_maxFileBytes opt)) (BadRequest ''Archive file size limit exceeded'')) (\<lambda>_.
       bindE (ensure (\<not> over (bytes + n) (so_maxTotalBytes opt)) (BadRequest ''Archive size limit exceeded'')) (\<lambda>_.
       bindE (so_after opt i m) (\<lambda>_. Inr (ZipFile name content, bytes + n)))))))))))"

text \<open>The entries appended, and how the loop ended; an exception destroys the response after them.\<close>

fun streamArchiveMembers :: "stream_options \<Rightarrow> (ustring \<Rightarrow> bool) \<Rightarrow> ustring \<Rightarrow> (nat \<Rightarrow> ustring \<Rightarrow> nat list option)
    \<Rightarrow> nat \<Rightarrow> int \<Rightarrow> archive_member list \<Rightarrow> zip_entry list \<times> unit res" where
  "streamArchiveMembers opt trusted root disk i bytes [] = ([], Inr ())"
| "streamArchiveMembers opt trusted root disk i bytes (m # ms) =
     (case stream_member opt trusted root disk i bytes m of
        Inl e \<Rightarrow> ([], Inl e)
      | Inr (entry, bytes') \<Rightarrow>
          (case streamArchiveMembers opt trusted root disk (Suc i) bytes' ms of (es, r) \<Rightarrow> (entry # es, r)))"

text \<open>
  \<open>before i\<close> and \<open>after i\<close> are the databases when entry \<open>i\<close> is checked, \<open>disk i\<close> the objects when it is
  opened.
\<close>

definition archive_options :: "nat \<Rightarrow> (nat \<Rightarrow> db) \<Rightarrow> (nat \<Rightarrow> db) \<Rightarrow> stream_options" where
  "archive_options user before after =
     \<lparr>so_path = \<lambda>m. Inr (am_path m), so_before = \<lambda>i. revalidateEntry (before i) user,
      so_after = \<lambda>i. revalidateEntry (after i) user, so_maxFileBytes = Some MAX_FILE_BYTES,
      so_maxTotalBytes = Some MAX_BYTES, so_enforceSize = True\<rparr>"

definition stream_archive :: "archive_env \<Rightarrow> db \<Rightarrow> nat \<Rightarrow> manifest \<Rightarrow> (nat \<Rightarrow> db) \<Rightarrow> (nat \<Rightarrow> db)
    \<Rightarrow> (nat \<Rightarrow> ustring \<Rightarrow> nat list option) \<Rightarrow> zip_entry list \<times> unit res" where
  "stream_archive env s user original before after disk =
     (if 2 \<le> ae_active env then ([], Inl (TooManyRequests ''Archive server is busy''))
      else case plan (ae_nfc env) (ae_lower env) s user (mf_roots original) of
        Inl e \<Rightarrow> ([], Inl e)
      | Inr current \<Rightarrow>
          if current \<noteq> original then ([], Inl (Conflict ''Archive contents changed; prepare it again''))
          else (case preflight (ae_trusted env) (ae_root env) (ae_disk env) current of
                  Inl e \<Rightarrow> ([], Inl e)
                | Inr _ \<Rightarrow> streamArchiveMembers (archive_options user before after) (ae_trusted env) (ae_root env) disk
                    0 0 (mf_members current)))"


section \<open>The capability as a one-time secret\<close>

datatype archive_op =
    Prepare archive_env db nat archive_input ustring ustring int
  | Stream db int ustring "ustring option" bool

fun archive_step :: "(ustring \<Rightarrow> ustring) \<Rightarrow> archive_op \<Rightarrow> archive_cap list \<Rightarrow> archive_cap list" where
  "archive_step hash (Prepare env s user input i t now) rows =
     (case prepare_archive env s user input i (hash t) now rows of Inl _ \<Rightarrow> rows | Inr rows' \<Rightarrow> rows')"
| "archive_step hash (Stream s now i token consume) rows = fst (authorize_archive hash s now i token consume rows)"

fun archive_admits :: "(ustring \<Rightarrow> ustring) \<Rightarrow> ustring \<Rightarrow> archive_op \<Rightarrow> archive_cap list \<Rightarrow> bool" where
  "archive_admits hash i (Prepare env s user input i' t now) rows = False"
| "archive_admits hash i (Stream s now i' token consume) rows =
     (i' = i \<and> consume \<and> is_ok (snd (authorize_archive hash s now i' token consume rows)))"

fun archive_allowed :: "ustring \<Rightarrow> archive_op \<Rightarrow> bool" where
  "archive_allowed i (Prepare env s user input i' t now) = (i' \<noteq> i)"
| "archive_allowed i (Stream s now i' token consume) = True"

lemma store_weight:
  "store_capability j h user mf now rows = Inr rows' \<Longrightarrow> with_key ac_id i rows' \<le> with_key ac_id i rows + (if j = i then 1 else 0)"
  using with_key_filter [of ac_id i] by (auto simp: store_capability_def Let_def err_simps)

lemma prepare_weight:
  "prepare_archive env s user input j h now rows = Inr rows' \<Longrightarrow> with_key ac_id i rows' \<le> with_key ac_id i rows + (if j = i then 1 else 0)"
  unfolding prepare_archive_def bindE_eq_Inr by (elim exE conjE) (rule store_weight)

lemma authorize_archive_weight:
  assumes "authorize_archive hash s now j token consume rows = (rows', r)"
  shows "(if j = i \<and> consume \<and> is_ok r then 1 else 0) + with_key ac_id i rows' \<le> with_key ac_id i rows"
proof (cases "j = i \<and> consume \<and> is_ok r")
  case True
  then obtain v where v: "r = Inr v" by (cases r) auto
  obtain t where t: "token = Some t" using assms v by (cases token) (auto simp: authorize_archive_def)
  obtain c where c: "filter (archive_scope i (hash t) s now) rows = [c]"
      "rows' = filter (\<lambda>c. \<not> archive_scope i (hash t) s now c) rows"
    using assms True unfolding v t by (auto simp: authorize_archive_def Let_def split: if_splits list.splits)
  have "c \<in> set (filter (archive_scope i (hash t) s now) rows)" unfolding c(1) by simp
  then have "Suc (with_key ac_id i rows') \<le> with_key ac_id i rows"
    unfolding c(2) using with_key_drop [of c rows "archive_scope i (hash t) s now" ac_id i] by (simp add: archive_scope_def)
  then show ?thesis by simp
next
  case False
  have "\<exists>Q. rows' = filter Q rows"
  proof -
    have "rows' = filter (\<lambda>_. True) rows \<or> (\<exists>t. rows' = filter (\<lambda>c. \<not> archive_scope j (hash t) s now c) rows)"
      using assms by (cases token) (auto simp: authorize_archive_def Let_def split: if_splits list.splits)
    then show ?thesis by blast
  qed
  then show ?thesis using False with_key_filter [of ac_id i _ rows] by auto
qed

interpretation archives: one_time "archive_step hash" "archive_admits hash i" "with_key ac_id i" "archive_allowed i"
proof
  fix x rows assume a: "archive_allowed i x"
  show "(if archive_admits hash i x rows then 1 else 0) + with_key ac_id i (archive_step hash x rows) \<le> with_key ac_id i rows"
  proof (cases x)
    case (Prepare env s user input j t now)
    then show ?thesis using a prepare_weight [of env s user input j "hash t" now rows _ i] by (auto split: sum.split)
  next
    case (Stream s now j token consume)
    then show ?thesis
      using authorize_archive_weight [of hash s now j token consume rows _ _ i]
      by (cases "authorize_archive hash s now j token consume rows") (auto split: if_splits)
  qed
qed

lemma archive_single_use:
  "with_key ac_id i rows \<le> 1 \<Longrightarrow> \<forall>x \<in> set ops. archive_allowed i x \<Longrightarrow>
     admissions (archive_step hash) (archive_admits hash i) ops rows \<le> 1"
  by (rule archives.single_use)

end
