(* ===== verification/PublicDownloads.thy ===== *)
theory PublicDownloads
  imports ArchiveStream
begin

text \<open>
  Downloads of a public share (backend/src/sharing/sharing.controller.ts): the password, the file or the
  archive of a shared folder, the slot that is taken from the limit of the link, and the stream that
  follows, which may fail or be abandoned after the slot is taken.  The archive is written by the engine
  of ArchiveStream (backend/src/common/archive-stream.ts).
\<close>

section \<open>A public share\<close>

text \<open>
  What the live streams do, after the download was admitted: an object is read to its end, reading it fails,
  or the client goes away.
\<close>

datatype stream_end = Finished | ReadFails | ClientCloses

text \<open>
  The answer of a request.  \<open>Broken\<close> is a download that was admitted and whose stream did not finish; what the
  client sees of it then is the status 500, the redirection of a browser form, or a connection that ends.
\<close>

datatype broken = Status500 | BrowserRedirect string | ConnectionDestroyed | ClientGone

datatype public_download =
    Served response
  | ArchiveServed ustring "zip_entry list"
  | Redirected string
  | Broken broken

record download_request =
  dr_password :: "ustring option"
  dr_fileId :: "nat option"
  dr_range :: "ustring option"
  dr_browser :: bool

record share_env =
  se_compare :: "ustring \<Rightarrow> ustring \<Rightarrow> bool"
  se_wrap :: bool
  se_now :: int
  se_dbnow :: int
  se_trusted :: "ustring \<Rightarrow> bool"
  se_root :: ustring
  se_disk :: "ustring \<Rightarrow> nat list option"
  se_order :: "member list \<Rightarrow> member list"
  se_later :: db
  se_entryDisk :: "nat \<Rightarrow> ustring \<Rightarrow> nat list option"
  se_stream :: "nat \<Rightarrow> stream_end"
  se_headersSent :: "nat \<Rightarrow> bool"

text \<open>
  The tables are read again when the archive is written (\<open>se_later\<close>), and its objects when their entry is
  reached (\<open>se_entryDisk\<close>).  \<open>se_stream i\<close> is how the stream of entry \<open>i\<close> ends, and \<open>se_headersSent i\<close> whether the
  headers of the response were on the wire by then; a single file is entry 0.
\<close>

definition public_headers :: "file_row \<Rightarrow> (string \<times> ustring) list" where
  "public_headers f =
     [(''Content-Type'', mime_header (f_mimeType f)),
      (''Content-Disposition'', js ''attachment; filename='' @ [34] @ safe_file_name (named_download f) @ [34]),
      (''Accept-Ranges'', js ''bytes'')]"

definition password_gate :: "share_env \<Rightarrow> db \<Rightarrow> share_row \<Rightarrow> ustring \<Rightarrow> ustring option \<Rightarrow> share_row list
    \<Rightarrow> share_row list \<times> unit res" where
  "password_gate env s h token password shares =
     (if s_password h = None \<or> s_password h = Some [] then (shares, Inr ())
      else case password of
        None \<Rightarrow> (shares, Inl (BadRequest ''Password is required''))
      | Some p \<Rightarrow>
          if p = [] then (shares, Inl (BadRequest ''Password is required''))
          else verifySharePassword (se_compare env) (se_wrap env) s (se_now env) (se_dbnow env) token p shares)"

text \<open>Errors of a browser form become a redirection with a code that depends on the status only.\<close>

definition http_status :: "http_error \<Rightarrow> nat" where
  "http_status e =
     (case e of BadRequest _ \<Rightarrow> 400 | Unauthorized _ \<Rightarrow> 401 | Forbidden _ \<Rightarrow> 403 | NotFound _ \<Rightarrow> 404 | Conflict _ \<Rightarrow> 409
      | Gone _ \<Rightarrow> 410 | PayloadTooLarge _ \<Rightarrow> 413 | RangeNotSatisfiable _ \<Rightarrow> 416 | TooManyRequests _ \<Rightarrow> 429
      | ServiceUnavailable _ \<Rightarrow> 503 | _ \<Rightarrow> 500)"

definition error_code :: "http_error \<Rightarrow> string" where
  "error_code e =
     (let status = http_status e
      in if status = 404 \<or> status = 410 then ''unavailable''
         else if status = 401 \<or> status = 403 then ''forbidden''
         else if status = 400 then ''invalid''
         else if status = 429 then ''busy'' else ''failed'')"

text \<open>The handlers of a failing stream, and the end of a stream whose client is gone.\<close>

definition stream_failure :: "share_env \<Rightarrow> bool \<Rightarrow> nat \<Rightarrow> broken" where
  "stream_failure env browser i =
     (if se_headersSent env i then ConnectionDestroyed
      else if browser then BrowserRedirect (error_code (PlainError ''Internal server error'')) else Status500)"

definition finish_stream :: "share_env \<Rightarrow> bool \<Rightarrow> nat \<Rightarrow> stream_end \<Rightarrow> public_download \<Rightarrow> public_download" where
  "finish_stream env browser i fin answer =
     (case fin of Finished \<Rightarrow> answer | ReadFails \<Rightarrow> Broken (stream_failure env browser i) | ClientCloses \<Rightarrow> Broken ClientGone)"

definition serve_file :: "share_env \<Rightarrow> db \<Rightarrow> ustring \<Rightarrow> file_row \<Rightarrow> file_row \<Rightarrow> download_request \<Rightarrow> share_row list
    \<Rightarrow> share_row list \<times> public_download res" where
  "serve_file env s token shared f rq shares =
     (case bindE (ensure (f_storagePath f \<noteq> None \<and> f_storagePath f \<noteq> Some []) (NotFound ''File not found on storage''))
          (\<lambda>_. open_object (se_trusted env) (se_root env) (se_disk env) f) of
        Inl e \<Rightarrow> (shares, Inl e)
      | Inr content \<Rightarrow>
          let r = parseRangeHeader (dr_range rq) (int (length content)) in
          if r = RangeUnsatisfiable then
            (shares, if dr_browser rq then Inr (Redirected ''invalid'')
                     else Inr (Served (ranged_response (public_headers f) False content r)))
          else
            (case (if f_isFolder shared then incrementFolderDownloadCount s (se_dbnow env) token (f_id f) shares
                   else incrementDownloadCount (se_dbnow env) token shares) of
               Inl e \<Rightarrow> (shares, Inl e)
             | Inr (shares', _) \<Rightarrow>
                 (shares', Inr (finish_stream env (dr_browser rq) 0 (se_stream env 0)
                    (Served (ranged_response (public_headers f) False content r))))))"

text \<open>A member of the share as the shared engine takes it: the engine reads its path, its size and its object.\<close>

definition share_member :: "member \<times> ustring \<Rightarrow> archive_member" where
  "share_member mp =
     (case mp of (m, p) \<Rightarrow> \<lparr>am_kind = (if m_isFolder m then AFolder else AFile), am_id = m_folderId m, am_parentId = m_parentId m,
        am_name = m_name m, am_path = p, am_isFolder = m_isFolder m, am_storagePath = m_storagePath m,
        am_storageLocationId = m_storageLocationId m, am_relativeObjectKey = m_relativeObjectKey m, am_size = m_size m\<rparr>)"

definition share_stream_options :: stream_options where
  "share_stream_options = \<lparr>so_path = \<lambda>m. entry_path (am_path m), so_before = \<lambda>_ _. Inr (), so_after = \<lambda>_ _. Inr (),
     so_maxFileBytes = None, so_maxTotalBytes = None, so_enforceSize = False\<rparr>"

text \<open>
  The archive of the members: the entries up to the first one whose stream does not finish.  The result is
  the number of that entry with the reason, or the entries of the whole archive.
\<close>

definition archive_entries :: "share_env \<Rightarrow> archive_member list \<Rightarrow> (nat \<times> stream_end) + zip_entry list" where
  "archive_entries env ms =
     (let k = length (takeWhile (\<lambda>i. se_stream env i = Finished) [0..<length ms])
      in case streamArchiveMembers share_stream_options (se_trusted env) (se_root env) (se_entryDisk env) 0 0 (take k ms) of
           (es, Inl _) \<Rightarrow> Inl (length es, ReadFails)
         | (es, Inr _) \<Rightarrow> if k = length ms then Inr es else Inl (k, se_stream env k))"

definition streamFolderArchive :: "share_env \<Rightarrow> share_row \<Rightarrow> (nat \<times> stream_end) + zip_entry list" where
  "streamFolderArchive env h =
     (case listArchiveMembers (se_order env) (se_later env) h of
        Inl _ \<Rightarrow> Inl (0, ReadFails)
      | Inr members \<Rightarrow> archive_entries env (map share_member members))"

definition serve_archive :: "share_env \<Rightarrow> db \<Rightarrow> ustring \<Rightarrow> share_row \<Rightarrow> file_row \<Rightarrow> download_request \<Rightarrow> share_row list
    \<Rightarrow> share_row list \<times> public_download res" where
  "serve_archive env s token h shared rq shares =
     (case listArchiveMembers (se_order env) s h of
        Inl e \<Rightarrow> (shares, Inl e)
      | Inr _ \<Rightarrow>
          (case incrementFolderArchiveDownloadCount s (se_dbnow env) token shares of
             Inl e \<Rightarrow> (shares, Inl e)
           | Inr (shares', _) \<Rightarrow>
               (shares', Inr (case streamFolderArchive env h of
                   Inl (i, fin) \<Rightarrow> finish_stream env (dr_browser rq) i fin (Broken (stream_failure env (dr_browser rq) i))
                 | Inr entries \<Rightarrow>
                     ArchiveServed (safe_file_name (if f_name shared = [] then js ''folder'' else f_name shared)) entries))))"

definition streamPublicDownload :: "share_env \<Rightarrow> db \<Rightarrow> ustring \<Rightarrow> download_request \<Rightarrow> share_row list
    \<Rightarrow> share_row list \<times> public_download res" where
  "streamPublicDownload env s token rq shares =
     (case findShareByToken s (se_now env) token shares of
        Inl e \<Rightarrow> (shares, Inl e)
      | Inr h \<Rightarrow>
          (case password_gate env s h token (dr_password rq) shares of
             (shares1, Inl e) \<Rightarrow> (shares1, Inl e)
           | (shares1, Inr _) \<Rightarrow>
               (case find (\<lambda>f. f_id f = s_fileId h) (files s) of
                  None \<Rightarrow> (shares1, Inl (NotFound ''Share link not found or expired''))
                | Some shared \<Rightarrow>
                    if f_isFolder shared then
                      (if dr_fileId rq = None \<or> dr_fileId rq = Some 0 then serve_archive env s token h shared rq shares1
                       else case resolveSharedFolderFile s h (the (dr_fileId rq)) of
                              Inl e \<Rightarrow> (shares1, Inl e)
                            | Inr f \<Rightarrow> serve_file env s token shared f rq shares1)
                    else if dr_fileId rq \<noteq> None \<and> dr_fileId rq \<noteq> Some (f_id shared)
                    then (shares1, Inl (NotFound ''Shared file not found''))
                    else serve_file env s token shared shared rq shares1)))"

definition downloadShare :: "share_env \<Rightarrow> db \<Rightarrow> ustring \<Rightarrow> download_request \<Rightarrow> share_row list
    \<Rightarrow> share_row list \<times> public_download res" where
  "downloadShare env s token rq shares =
     (case streamPublicDownload env s token rq shares of
        (shares1, Inl e) \<Rightarrow> (shares1, if dr_browser rq then Inr (Redirected (error_code e)) else Inl e)
      | r \<Rightarrow> r)"

end
