(* ===== verification/DownloadClaims.thy ===== *)
theory DownloadClaims
  imports PublicDownloads
begin

text \<open>
  What the download handlers guarantee: the range parsers against the set of requested bytes, the
  headers of a file of the drive, and the one count of a served public download.
\<close>

section \<open>Ranges\<close>

text \<open>The positions a well-formed single range asks for in \<open>n\<close> bytes.\<close>

definition requested :: "ustring \<Rightarrow> int \<Rightarrow> int set option" where
  "requested h n =
     (case range_match (trim h) of
        None \<Rightarrow> None
      | Some (a, b) \<Rightarrow>
          if a = [] then
            (if 0 < digits_value b \<and> digits_value b \<le> max_safe
             then Some {i. 0 \<le> i \<and> n - digits_value b \<le> i \<and> i < n} else None)
          else
            (if digits_value a \<le> max_safe \<and> (b = [] \<or> digits_value b \<le> max_safe)
             then Some {i. digits_value a \<le> i \<and> i < n \<and> (b = [] \<or> i \<le> digits_value b)} else None))"

definition reference_range :: "ustring \<Rightarrow> int \<Rightarrow> range_result" where
  "reference_range h n =
     (case requested h n of
        None \<Rightarrow> RangeUnsatisfiable
      | Some S \<Rightarrow> if S = {} then RangeUnsatisfiable else RangeOf (Min S) (Max S))"

lemma interval_range:
  "(if {lo..hi} = {} then RangeUnsatisfiable else RangeOf (Min {lo..hi}) (Max {lo..hi}))
     = (if hi < lo then RangeUnsatisfiable else RangeOf lo (hi :: int))"
proof (cases "hi < lo")
  case False
  then have "Min {lo..hi} = lo" "Max {lo..hi} = hi" by (auto intro: Min_eqI Max_eqI)
  then show ?thesis using False by simp
qed simp

lemma digits_value_nonneg: "0 \<le> digits_value s"
  by (simp add: digits_value_def)

lemma requested_suffix: "{i. 0 \<le> i \<and> n - v \<le> i \<and> i < (n::int)} = {max 0 (n - v)..n - 1}"
  by auto

lemma requested_from: "{i. v \<le> i \<and> i < (n::int)} = {v..n - 1}"
  by auto

lemma requested_between: "{i. v \<le> i \<and> i < (n::int) \<and> i \<le> w} = {v..min w (n - 1)}"
  by auto

lemma parse_reference:
  assumes "0 \<le> n" "n \<le> max_safe" "trim h \<noteq> []"
  shows "parseRangeHeader (Some h) n = reference_range h n"
proof (cases "range_match (trim h)")
  case None
  then show ?thesis using assms
    by (auto simp: parseRangeHeader_def reference_range_def requested_def safe_integer_def trim_def)
next
  case (Some ab)
  obtain a b where ab: "ab = (a, b)" by (cases ab)
  note m = Some [unfolded ab]
  have h: "h \<noteq> []" using assms(3) by (auto simp: trim_def)
  have n: "safe_integer n" "\<not> n < 0" using assms by (simp_all add: safe_integer_def max_safe_def)
  have sv: "safe_integer (digits_value x) \<longleftrightarrow> digits_value x \<le> max_safe" for x
    by (simp add: safe_integer_def max_safe_def order_trans [OF _ digits_value_nonneg])
  have sn: "safe_integer (n - 1)" using assms by (simp add: safe_integer_def max_safe_def)
  show ?thesis
  proof (cases "a = []")
    case True
    then show ?thesis
      using assms h n m digits_value_nonneg [of b] interval_range [of "max 0 (n - digits_value b)" "n - 1"]
      by (auto simp: parseRangeHeader_def reference_range_def requested_def requested_suffix sv Let_def)
  next
    case False
    show ?thesis
    proof (cases "b = []")
      case True
      then show ?thesis
        using False assms h n m sn digits_value_nonneg [of a] interval_range [of "digits_value a" "n - 1"]
        by (auto simp: parseRangeHeader_def reference_range_def requested_def requested_from sv Let_def)
    next
      case b: False
      then show ?thesis
        using False assms h n m digits_value_nonneg [of a] digits_value_nonneg [of b] interval_range [of "digits_value a" "min (digits_value b) (n - 1)"]
        by (auto simp: parseRangeHeader_def reference_range_def requested_def requested_between sv Let_def)
    qed
  qed
qed

lemma parsers_agree: "parseDownloadRange h n = parseRangeHeader h n"
  by (auto simp: parseDownloadRange_def parseRangeHeader_def Let_def split: option.split)

text \<open>
  C24: both parsers of the Range header, of the drive and of public shares, agree on every header and size,
  and for a header that is not blank they return the first and last of the requested positions that the
  file has, or refuse when there is none or the header is not a single range of safe integers.
\<close>

theorem range_parsers_reference:
  assumes "0 \<le> n" "n \<le> max_safe" "trim h \<noteq> []"
  shows "parseDownloadRange (Some h) n = reference_range h n \<and> parseRangeHeader (Some h) n = reference_range h n"
  using parse_reference [OF assms] parsers_agree by simp

theorem range_parsers_reference_witness:
  "reference_range (js '' bytes=-5'') 3 = RangeOf 0 2"
proof -
  have "parseRangeHeader (Some (js '' bytes=-5'')) 3 = RangeOf 0 2" by code_simp
  moreover have "trim (js '' bytes=-5'') \<noteq> []" by code_simp
  ultimately show ?thesis using range_parsers_reference [of 3 "js '' bytes=-5''"] by (simp add: max_safe_def)
qed


section \<open>Headers\<close>

definition hex_value :: "nat \<Rightarrow> nat" where
  "hex_value c = (if c < 58 then c - 48 else c - 55)"

fun percent_decode :: "ustring \<Rightarrow> nat list" where
  "percent_decode [] = []"
| "percent_decode (c # s) =
     (case s of
        a # b # s' \<Rightarrow> if c = 37 then (hex_value a * 16 + hex_value b) # percent_decode s' else c # percent_decode s
      | _ \<Rightarrow> c # percent_decode s)"

lemma percent_decode_plain: "c \<noteq> 37 \<Longrightarrow> percent_decode (c # s) = c # percent_decode s"
  by (cases s rule: percent_decode.cases) (simp_all split: list.split)

lemma hex_value_upper: "d < 16 \<Longrightarrow> hex_value (upper_hex d) = d"
  by (simp add: upper_hex_def hex_value_def)

lemma percent_decode_percent:
  assumes "c < 256" shows "percent_decode (percent c @ s) = c # percent_decode s"
proof -
  have "c div 16 < 16" "c mod 16 < 16" using assms by simp_all
  then have "hex_value (upper_hex (c div 16)) = c div 16" "hex_value (upper_hex (c mod 16)) = c mod 16"
    using hex_value_upper by blast+
  then show ?thesis by (simp add: percent_def)
qed

text \<open>The characters of \<open>ext-value\<close> in RFC 5987.\<close>

definition attr_char :: "nat \<Rightarrow> bool" where
  "attr_char c \<longleftrightarrow> letter c \<or> digit c \<or> c \<in> {45, 95, 46, 33, 126, 37}"

definition encode_byte :: "nat \<Rightarrow> ustring" where
  "encode_byte b = (if uri_unreserved b \<and> b \<notin> {39, 40, 41, 42} then [b] else percent b)"

lemma upper_hex_chars: "d < 16 \<Longrightarrow> attr_char (upper_hex d) \<and> upper_hex d \<notin> {39, 40, 41, 42}"
  by (cases "d < 10") (auto simp: upper_hex_def attr_char_def letter_def digit_def)

lemma percent_chars:
  assumes "b < 256" "c \<in> set (percent b)" shows "attr_char c \<and> c \<notin> {39, 40, 41, 42}"
proof -
  have "b div 16 < 16" "b mod 16 < 16" using assms(1) by simp_all
  note this [THEN upper_hex_chars]
  moreover have "c = 37 \<or> c = upper_hex (b div 16) \<or> c = upper_hex (b mod 16)"
    using assms(2) by (simp add: percent_def)
  moreover have "attr_char 37" by (simp add: attr_char_def)
  ultimately show ?thesis by (elim disjE) simp_all
qed

lemma rfc5987_keep: "\<forall>c \<in> set s. c \<notin> {39, 40, 41, 42} \<Longrightarrow> rfc5987 s = s"
  by (induction s) (auto simp: rfc5987_def)

lemma rfc5987_percent: "b < 256 \<Longrightarrow> rfc5987 (percent b) = percent b"
  using percent_chars [of b] by (intro rfc5987_keep) blast

lemma rfc5987_byte:
  assumes "b < 256"
  shows "rfc5987 (if uri_unreserved b then [b] else percent b) = encode_byte b"
proof (cases "uri_unreserved b")
  case True
  then show ?thesis by (cases "b \<in> {39, 40, 41, 42}") (simp_all add: encode_byte_def rfc5987_def)
next
  case False
  then show ?thesis using rfc5987_percent [OF assms] by (simp add: encode_byte_def)
qed

lemma rfc5987_append [simp]: "rfc5987 (s @ t) = rfc5987 s @ rfc5987 t"
  by (simp add: rfc5987_def)

lemma rfc5987_encode:
  "\<forall>b \<in> set bs. b < 256 \<Longrightarrow>
     rfc5987 (concat (map (\<lambda>b. if uri_unreserved b then [b] else percent b) bs)) = concat (map encode_byte bs)"
proof (induction bs)
  case (Cons b bs)
  have "rfc5987 (if uri_unreserved b then [b] else percent b) = encode_byte b"
    using Cons.prems by (intro rfc5987_byte) simp
  then show ?case using Cons by simp
qed (simp add: rfc5987_def)

lemma encode_byte_decode:
  assumes "b < 256" shows "percent_decode (encode_byte b @ s) = b # percent_decode s"
proof (cases "uri_unreserved b \<and> b \<notin> {39, 40, 41, 42}")
  case True
  then have "b \<noteq> 37" by (auto simp: uri_unreserved_def letter_def digit_def)
  then show ?thesis using True percent_decode_plain by (simp add: encode_byte_def)
next
  case False
  then show ?thesis using percent_decode_percent [OF assms] by (simp only: encode_byte_def if_False)
qed

lemma encode_decode: "\<forall>b \<in> set bs. b < 256 \<Longrightarrow> percent_decode (concat (map encode_byte bs)) = bs"
  by (induction bs) (simp_all add: encode_byte_decode)

lemma encode_byte_chars: "b < 256 \<Longrightarrow> c \<in> set (encode_byte b) \<Longrightarrow> attr_char c"
  using percent_chars [of b c] by (auto simp: encode_byte_def attr_char_def uri_unreserved_def split: if_splits)

lemma utf8_bytes: "\<forall>c \<in> set s. c < 65536 \<Longrightarrow> \<forall>b \<in> set (utf8 s). b < 256"
proof (induction s rule: utf8.induct)
  case (1 a b s)
  show ?case
  proof (cases "high_surrogate a \<and> low_surrogate b")
    case True
    have "0x10000 + (a - 0xd800) * 0x400 + (b - 0xdc00) < 0x400 * 0x440"
      using True by (auto simp: high_surrogate_def low_surrogate_def)
    then have "(0x10000 + (a - 0xd800) * 0x400 + (b - 0xdc00)) div 0x40000 < 5" by simp
    then show ?thesis using True 1 by (auto simp: Let_def)
  next
    case False
    then show ?thesis using 1 by auto
  qed
qed auto

lemma download_name_well_formed: "well_formed (download_name s)"
proof (induction s rule: download_name.induct)
  case (1 a b s)
  then show ?case
    by (cases "download_name (b # s)") (auto simp: high_surrogate_def low_surrogate_def unprintable_def)
next
  case (2 a)
  then show ?case by (auto simp: high_surrogate_def low_surrogate_def unprintable_def)
qed simp

definition control_char :: "nat \<Rightarrow> bool" where
  "control_char c \<longleftrightarrow> c < 32 \<or> 127 \<le> c \<and> c \<le> 159"

lemma download_name_keeps:
  "well_formed s \<Longrightarrow> \<forall>c \<in> set s. \<not> control_char c \<Longrightarrow> download_name s = s"
proof (induction s rule: download_name.induct)
  case (1 a b s)
  then show ?case
    by (auto simp: high_surrogate_def low_surrogate_def unprintable_def control_char_def split: if_splits)
next
  case (2 a)
  then show ?case by (auto simp: high_surrogate_def low_surrogate_def unprintable_def control_char_def)
qed simp

lemma download_name_bound: "\<forall>c \<in> set s. c < 65536 \<Longrightarrow> \<forall>c \<in> set (download_name s). c < 65536"
  by (induction s rule: download_name.induct) auto

lemma attr_char_header: "attr_char c \<Longrightarrow> header_char c"
  by (auto simp: attr_char_def header_char_def letter_def digit_def)

lemma safe_file_name_chars:
  "c \<in> set (safe_file_name s) \<Longrightarrow> header_char c \<and> c \<noteq> 34 \<and> c \<noteq> 92"
  by (auto simp: safe_file_name_def header_char_def)

lemma split_on_chars: "c \<in> set s \<Longrightarrow> c = x \<or> (\<exists>p \<in> set (split_on x s). c \<in> set p)"
proof (induction s)
  case (Cons a s)
  then show ?case by (cases "split_on x s") (auto simp: split_on_not_Nil)
qed simp

lemma mime_header_chars: "c \<in> set (mime_header m) \<Longrightarrow> header_char c"
proof -
  assume c: "c \<in> set (mime_header m)"
  have d: "\<forall>c \<in> set (js ''application/octet-stream''). header_char c" by (simp add: header_char_def)
  show ?thesis
  proof (cases "mime_header m = js ''application/octet-stream''")
    case False
    then obtain x a b where x: "m = Some x" "split_on 47 x = [a, b]" "\<forall>c \<in> set (a @ b). mime_char c" "mime_header m = x"
      unfolding mime_header_def by (auto split: option.splits list.splits if_splits)
    then have "c = 47 \<or> c \<in> set (a @ b)" using c split_on_chars [of c x 47] by auto
    then have "c = 47 \<or> mime_char c" using x(3) by blast
    then show ?thesis by (auto simp: mime_char_def header_char_def letter_def digit_def)
  qed (use c d in metis)
qed

text \<open>
  C35: whatever the stored name is, the headers of a download can be built, they are printable ASCII, the
  quoted name has no quote or backslash, and the extended name is made of the characters of RFC 5987 and
  decodes to the UTF-8 form of the name with control characters (C0, delete and C1) and lone surrogates
  replaced; this is the name itself when it has none of them.
\<close>

theorem disposition_is_safe:
  assumes "\<forall>c \<in> set (f_name f). c < 65536"
  shows "\<exists>hs ext. original_headers f = Inr hs \<and> (\<forall>(h, v) \<in> set hs. \<forall>c \<in> set v. header_char c)
    \<and> (''Content-Disposition'', js ''attachment; filename='' @ [34] @ safe_file_name (download_name (named_download f)) @ [34]
          @ js ''; filename*=UTF-8'' @ [39, 39] @ ext) \<in> set hs
    \<and> 34 \<notin> set (safe_file_name (download_name (named_download f)))
    \<and> 92 \<notin> set (safe_file_name (download_name (named_download f)))
    \<and> (\<forall>c \<in> set ext. attr_char c) \<and> percent_decode ext = utf8 (download_name (named_download f))
    \<and> (well_formed (named_download f) \<and> (\<forall>c \<in> set (named_download f). \<not> control_char c)
        \<longrightarrow> percent_decode ext = utf8 (named_download f))"
proof -
  let ?n = "download_name (named_download f)"
  define ext where "ext = concat (map encode_byte (utf8 ?n))"
  have "\<forall>c \<in> set (named_download f). c < 65536" using assms by (auto simp: named_download_def)
  then have b: "\<forall>b \<in> set (utf8 ?n). b < 256" using utf8_bytes download_name_bound by blast
  have e: "rfc5987 (concat (map (\<lambda>b. if uri_unreserved b then [b] else percent b) (utf8 ?n))) = ext"
    using rfc5987_encode [OF b] by (simp add: ext_def)
  define v where "v = js ''attachment; filename='' @ [34] @ safe_file_name ?n @ [34] @ js ''; filename*=UTF-8'' @ [39, 39] @ ext"
  define hs where "hs = [(''Content-Type'', mime_header (f_mimeType f)), (''Content-Disposition'', v),
    (''Accept-Ranges'', js ''bytes''), (''Cache-Control'', js ''no-store''), (''X-Content-Type-Options'', js ''nosniff'')]"
  have hs: "original_headers f = Inr hs"
    by (simp add: original_headers_def encodeURIComponent_def err_simps download_name_well_formed e hs_def v_def)
  have ext: "\<forall>c \<in> set ext. attr_char c" using b encode_byte_chars by (auto simp: ext_def)
  have "\<forall>c \<in> set v. header_char c"
    using ext attr_char_header safe_file_name_chars [of _ ?n] by (auto simp: v_def header_char_def)
  moreover have "\<forall>c \<in> set (js ''bytes'') \<union> set (js ''no-store'') \<union> set (js ''nosniff''). header_char c"
    by (simp add: header_char_def)
  ultimately have "\<forall>(h, v) \<in> set hs. \<forall>c \<in> set v. header_char c"
    using mime_header_chars [of _ "f_mimeType f"] by (simp add: hs_def)
  moreover have "(''Content-Disposition'', v) \<in> set hs" by (simp add: hs_def)
  moreover have decode: "percent_decode ext = utf8 ?n" using encode_decode [OF b] by (simp add: ext_def)
  moreover have keep: "well_formed (named_download f) \<and> (\<forall>c \<in> set (named_download f). \<not> control_char c)
      \<longrightarrow> percent_decode ext = utf8 (named_download f)"
    using download_name_keeps [of "named_download f"] decode by simp
  ultimately show ?thesis
    using hs ext keep safe_file_name_chars [of _ ?n] unfolding v_def by blast
qed

definition plain_row :: file_row where
  "plain_row = new_file [34, 97, 8364] \<lparr>pl_storagePath = js ''/s/a'', pl_storageLocationId = [], pl_relativeObjectKey = []\<rparr> 0 None None 1"

theorem disposition_is_safe_witness:
  "\<exists>hs ext. original_headers plain_row = Inr hs \<and> (\<forall>(h, v) \<in> set hs. \<forall>c \<in> set v. header_char c)
     \<and> percent_decode ext = utf8 [34, 97, 8364]"
proof -
  have "named_download plain_row = [34, 97, 8364]" "\<forall>c \<in> set (f_name plain_row). c < 65536" "well_formed [34, 97, 8364]"
    "\<forall>c \<in> set [34, 97, 8364]. \<not> control_char c"
    by (simp_all add: named_download_def plain_row_def new_file_def high_surrogate_def low_surrogate_def control_char_def)
  moreover obtain hs ext where "original_headers plain_row = Inr hs" "\<forall>(h, v) \<in> set hs. \<forall>c \<in> set v. header_char c"
    "well_formed (named_download plain_row) \<and> (\<forall>c \<in> set (named_download plain_row). \<not> control_char c)
      \<longrightarrow> percent_decode ext = utf8 (named_download plain_row)"
    using disposition_is_safe [OF calculation(2)] by blast
  ultimately show ?thesis by auto
qed


section \<open>Counting public downloads\<close>

definition count_of :: "ustring \<Rightarrow> share_row list \<Rightarrow> int" where
  "count_of token shares = total s_downloadCount (filter (\<lambda>h. s_token h = token) shares)"

text \<open>
  An answer that carries bytes of the share: a whole file, a part of one, or the archive; or one that was
  to carry them, and whose stream failed or was abandoned.
\<close>

definition delivers :: "public_download res \<Rightarrow> bool" where
  "delivers r \<longleftrightarrow> (case r of
     Inr (Served x) \<Rightarrow> rs_status x = 200 \<or> rs_status x = 206
   | Inr (ArchiveServed n es) \<Rightarrow> True
   | _ \<Rightarrow> False)"

definition breaks_off :: "public_download res \<Rightarrow> bool" where
  "breaks_off r \<longleftrightarrow> (case r of Inr (Broken x) \<Rightarrow> True | _ \<Rightarrow> False)"

definition admitted :: "public_download res \<Rightarrow> bool" where
  "admitted r \<longleftrightarrow> delivers r \<or> breaks_off r"

lemmas admitted_defs = admitted_def delivers_def breaks_off_def

lemma count_of_map:
  "(\<And>h. s_token (g h) = s_token h \<and> s_downloadCount (g h) = s_downloadCount h) \<Longrightarrow> count_of token (map g shares) = count_of token shares"
  by (induction shares) (auto simp: count_of_def total_def)

lemma tokens_map: "(\<And>h. s_token (g h) = s_token h) \<Longrightarrow> map s_token (map g shares) = map s_token shares"
  by simp

lemma verify_keeps_counts:
  "verifySharePassword cmp wrap s now dbnow token password shares = (shares', r) \<Longrightarrow>
     map s_token shares' = map s_token shares \<and> count_of t shares' = count_of t shares"
  unfolding verifySharePassword_def Let_def
  by (auto split: sum.splits option.splits if_splits list.splits simp: count_of_map bump_attempts_def comp_def)

lemma password_gate_counts:
  "password_gate env s h token password shares = (shares', r) \<Longrightarrow>
     map s_token shares' = map s_token shares \<and> count_of t shares' = count_of t shares"
  using verify_keeps_counts
  unfolding password_gate_def by (auto split: if_splits option.splits)

lemma filter_one: "distinct (map f xs) \<Longrightarrow> x \<in> set xs \<Longrightarrow> filter (\<lambda>y. f y = f x) xs = [x]"
  by (induction xs) (auto simp: filter_empty_conv image_iff)

lemma counted_counts:
  assumes "counted P shares = Inr (shares', n)" "distinct (map s_token shares)" "\<And>h. P h \<Longrightarrow> s_token h = token"
  shows "map s_token shares' = map s_token shares \<and> count_of t shares' = count_of t shares + (if t = token then 1 else 0)"
proof -
  have "filter P shares \<noteq> []" using assms(1) by (auto simp: counted_def)
  then obtain h where h: "h \<in> set shares" "P h" by (auto simp: filter_empty_conv)
  let ?g = "\<lambda>h. if P h then h\<lparr>s_downloadCount := s_downloadCount h + 1\<rparr> else h"
  have sh: "shares' = map ?g shares" using assms(1) by (auto simp: counted_def count_one_def split: list.splits)
  have tok: "s_token (?g x) = s_token x" for x by simp
  have "s_token h = token" using assms(3) h(2) .
  then have only: "filter (\<lambda>x. s_token x = token) shares = [h]" using filter_one [OF assms(2) h(1)] by simp
  have f: "filter (\<lambda>x. s_token x = t) shares' = map ?g (filter (\<lambda>x. s_token x = t) shares)"
    unfolding sh by (simp add: filter_map comp_def tok)
  show ?thesis
  proof (cases "t = token")
    case True
    then show ?thesis using f only h(2) by (simp add: count_of_def total_def sh)
  next
    case False
    then have "map ?g (filter (\<lambda>x. s_token x = t) shares) = filter (\<lambda>x. s_token x = t) shares"
      using assms(3) by (auto intro!: map_idI)
    then show ?thesis using f False by (simp add: count_of_def sh)
  qed
qed

lemma increments_count:
  assumes "distinct (map s_token shares)"
  shows "incrementDownloadCount dbnow token shares = Inr (shares', n) \<Longrightarrow>
      map s_token shares' = map s_token shares \<and> count_of t shares' = count_of t shares + (if t = token then 1 else 0)"
    "incrementFolderDownloadCount s dbnow token k shares = Inr (shares', n) \<Longrightarrow>
      map s_token shares' = map s_token shares \<and> count_of t shares' = count_of t shares + (if t = token then 1 else 0)"
    "incrementFolderArchiveDownloadCount s dbnow token shares = Inr (shares', n) \<Longrightarrow>
      map s_token shares' = map s_token shares \<and> count_of t shares' = count_of t shares + (if t = token then 1 else 0)"
proof -
  have tok: "countable_share dbnow token h \<Longrightarrow> s_token h = token" for h by (simp add: countable_share_def)
  note count = counted_counts [OF _ assms, where token = token]
  show "incrementDownloadCount dbnow token shares = Inr (shares', n) \<Longrightarrow>
      map s_token shares' = map s_token shares \<and> count_of t shares' = count_of t shares + (if t = token then 1 else 0)"
    unfolding incrementDownloadCount_def by (erule count) (rule tok)
  show "incrementFolderDownloadCount s dbnow token k shares = Inr (shares', n) \<Longrightarrow>
      map s_token shares' = map s_token shares \<and> count_of t shares' = count_of t shares + (if t = token then 1 else 0)"
    unfolding incrementFolderDownloadCount_def by (erule count) (use tok in blast)
  show "incrementFolderArchiveDownloadCount s dbnow token shares = Inr (shares', n) \<Longrightarrow>
      map s_token shares' = map s_token shares \<and> count_of t shares' = count_of t shares + (if t = token then 1 else 0)"
    unfolding incrementFolderArchiveDownloadCount_def by (erule count) (use tok in blast)
qed

lemma serve_file_counts:
  assumes "distinct (map s_token shares)" "serve_file env s token shared f rq shares = (shares', r)"
  shows "count_of t shares' = count_of t shares + (if t = token \<and> admitted r then 1 else 0)"
proof -
  let ?open = "bindE (ensure (f_storagePath f \<noteq> None \<and> f_storagePath f \<noteq> Some []) (NotFound ''File not found on storage''))
          (\<lambda>_. open_object (se_trusted env) (se_root env) (se_disk env) f)"
  let ?inc = "if f_isFolder shared then incrementFolderDownloadCount s (se_dbnow env) token (f_id f) shares
              else incrementDownloadCount (se_dbnow env) token shares"
  have inc: "?inc = Inr (x, n) \<Longrightarrow> count_of t x = count_of t shares + (if t = token then 1 else 0)" for x n
    using increments_count [OF assms(1)] by (auto split: if_splits)
  show ?thesis
  proof (cases ?open)
    case (Inr content)
    define p where "p = parseRangeHeader (dr_range rq) (int (length content))"
    show ?thesis
    proof (cases "p = RangeUnsatisfiable")
      case True
      then show ?thesis
        using assms(2) Inr by (auto simp: serve_file_def Let_def p_def [symmetric] admitted_defs ranged_response_def split: if_splits)
    next
      case False
      then have d: "admitted (Inr (finish_stream env c i e (Served (ranged_response b False content p))))" for b c i e
        by (cases p; cases e) (simp_all add: admitted_defs finish_stream_def ranged_response_def Let_def)
      have "(case ?inc of Inl e \<Rightarrow> (shares, Inl e)
             | Inr (shares', _) \<Rightarrow> (shares', Inr (finish_stream env (dr_browser rq) 0 (se_stream env 0)
                  (Served (ranged_response (public_headers f) False content p))))) = (shares', r)"
        using assms(2) Inr False by (simp add: serve_file_def Let_def p_def [symmetric])
      moreover have "\<not> admitted (Inl e)" for e by (simp add: admitted_defs)
      ultimately show ?thesis using inc d by (cases ?inc) auto
    qed
  qed (use assms(2) in \<open>auto simp: serve_file_def admitted_defs\<close>)
qed

lemma serve_archive_counts:
  assumes "distinct (map s_token shares)" "serve_archive env s token h shared rq shares = (shares', r)"
  shows "count_of t shares' = count_of t shares + (if t = token \<and> admitted r then 1 else 0)"
  using assms(2) increments_count(3) [OF assms(1)]
  by (auto simp: serve_archive_def admitted_defs finish_stream_def split: sum.splits stream_end.splits)

text \<open>What happens after the admission does not reach the table of the links.\<close>

definition with_stream :: "share_env \<Rightarrow> db \<Rightarrow> (nat \<Rightarrow> ustring \<Rightarrow> nat list option) \<Rightarrow> (nat \<Rightarrow> stream_end) \<Rightarrow> (nat \<Rightarrow> bool) \<Rightarrow> share_env" where
  "with_stream env later entries stream sent =
     env\<lparr>se_later := later, se_entryDisk := entries, se_stream := stream, se_headersSent := sent\<rparr>"

lemma with_stream_fields [simp]:
  "se_compare (with_stream env l e st hs) = se_compare env" "se_wrap (with_stream env l e st hs) = se_wrap env"
  "se_now (with_stream env l e st hs) = se_now env" "se_dbnow (with_stream env l e st hs) = se_dbnow env"
  "se_trusted (with_stream env l e st hs) = se_trusted env" "se_root (with_stream env l e st hs) = se_root env"
  "se_disk (with_stream env l e st hs) = se_disk env" "se_order (with_stream env l e st hs) = se_order env"
  by (simp_all add: with_stream_def)

lemma password_gate_stream: "password_gate (with_stream env l e st hs) = password_gate env"
  by (intro ext) (simp add: password_gate_def split: option.split)

lemma serve_file_stream:
  "fst (serve_file (with_stream env l e st hs) s token shared f rq shares) = fst (serve_file env s token shared f rq shares)"
  by (simp add: serve_file_def Let_def split: sum.split prod.split)

lemma serve_archive_stream:
  "fst (serve_archive (with_stream env l e st hs) s token h shared rq shares) = fst (serve_archive env s token h shared rq shares)"
  by (simp add: serve_archive_def split: sum.split prod.split)

lemma downloadShare_fst: "fst (downloadShare env s token rq shares) = fst (streamPublicDownload env s token rq shares)"
  by (simp add: downloadShare_def split: prod.split sum.split)

lemma download_stream:
  "fst (downloadShare (with_stream env l e st hs) s token rq shares) = fst (downloadShare env s token rq shares)"
  unfolding downloadShare_fst streamPublicDownload_def
  by (simp add: password_gate_stream serve_file_stream serve_archive_stream sum.case_distrib [of fst] prod.case_distrib [of fst]
      option.case_distrib [of fst] if_distrib [of fst] split del: if_split cong: sum.case_cong prod.case_cong option.case_cong if_cong)

text \<open>
  C20: a request for a public download counts against the limit of its link exactly when it is admitted:
  once when it is answered with a whole file, a part of one or an archive, and also once when the stream of
  such an answer fails or the client goes away, whatever the tables, the objects and the connection are by
  then; not at all for a refusal, an unsatisfiable range or their redirections.  No other link is counted.
\<close>

theorem public_download_counts_once:
  assumes "distinct (map s_token shares)"
    and "downloadShare env s token rq shares = (shares', r)"
  shows "count_of t shares' = count_of t shares + (if t = token \<and> admitted r then 1 else 0)
    \<and> fst (downloadShare (with_stream env later entries stream sent) s token rq shares) = shares'"
proof -
  obtain shares2 r2 where st: "streamPublicDownload env s token rq shares = (shares2, r2)"
    by (cases "streamPublicDownload env s token rq shares")
  have "count_of t shares2 = count_of t shares + (if t = token \<and> admitted r2 then 1 else 0)"
  proof (cases "findShareByToken s (se_now env) token shares")
    case (Inr h)
    obtain shares1 g where g: "password_gate env s h token (dr_password rq) shares = (shares1, g)"
      by (cases "password_gate env s h token (dr_password rq) shares")
    note c1 = password_gate_counts [OF g, of t]
    then have "distinct (map s_token shares1)" using assms(1) by simp
    note served = serve_file_counts [OF this] serve_archive_counts [OF this]
    have none: "\<not> admitted (Inl e)" for e by (simp add: admitted_defs)
    note run0 = st [unfolded streamPublicDownload_def Inr sum.case g prod.case]
    show ?thesis
    proof (cases "\<exists>u shared. g = Inr u \<and> find (\<lambda>f. f_id f = s_fileId h) (files s) = Some shared")
      case False
      then show ?thesis
        using run0 c1 none
        by (cases g; cases "find (\<lambda>f. f_id f = s_fileId h) (files s)") auto
    next
      case True
      then obtain u shared where gs: "g = Inr u" "find (\<lambda>f. f_id f = s_fileId h) (files s) = Some shared" by blast
      note run = run0 [unfolded gs sum.case option.case]
      show ?thesis
      proof (cases "f_isFolder shared")
        case folder: True
        show ?thesis
        proof (cases "dr_fileId rq = None \<or> dr_fileId rq = Some 0")
          case True
          then show ?thesis using run folder c1 served(2) by simp
        next
          case False
          then show ?thesis
            using run folder c1 served(1) none by (cases "resolveSharedFolderFile s h (the (dr_fileId rq))") auto
        qed
      next
        case False
        then show ?thesis using run c1 served(1) none by (auto split: if_splits)
      qed
    qed
  qed (use st in \<open>auto simp: streamPublicDownload_def admitted_defs\<close>)
  moreover have "shares' = shares2 \<and> admitted r = admitted r2"
    using assms(2) st by (cases r2) (auto simp: downloadShare_def admitted_defs split: if_splits)
  ultimately show ?thesis using download_stream assms(2) by simp
qed

definition demo_file :: file_row where
  "demo_file = (new_file (js ''a.txt'') \<lparr>pl_storagePath = js ''/s/1/a'', pl_storageLocationId = LEGACY_STORAGE_ID,
     pl_relativeObjectKey = js ''1/a''\<rparr> 3 (Some (js ''text/plain'')) None 1)\<lparr>f_id := 5\<rparr>"

definition demo_db :: db where
  "demo_db = \<lparr>users = [\<lparr>u_id = 1, u_email = [], u_password = [], u_isActive = True, u_storageQuota = 9, u_storageUsed = 3\<rparr>],
     files = [demo_file], folders = [], next_file = 6, next_folder = 1\<rparr>"

definition demo_share :: share_row where
  "demo_share = \<lparr>s_id = 2, s_token = js ''t'', s_password = None, s_expiresAt = None, s_lockedUntil = None, s_isActive = True,
     s_failedAttempts = 0, s_downloadCount = 4, s_maxDownloads = Some 5, s_isFolder = False, s_allowUpload = False,
     s_userId = 1, s_fileId = 5\<rparr>"

definition demo_share_env :: share_env where
  "demo_share_env = \<lparr>se_compare = (=), se_wrap = True, se_now = 0, se_dbnow = 0, se_trusted = (\<lambda>_. True), se_root = js ''/s'',
     se_disk = (\<lambda>p. if p = js ''/s/1/a'' then Some [65, 66, 67] else None), se_order = id,
     se_later = demo_db, se_entryDisk = (\<lambda>_ _. None), se_stream = (\<lambda>_. ReadFails), se_headersSent = (\<lambda>_. False)\<rparr>"

definition demo_request :: download_request where
  "demo_request = \<lparr>dr_password = None, dr_fileId = None, dr_range = Some (js ''bytes=1-''), dr_browser = False\<rparr>"

theorem public_download_counts_once_witness:
  "snd (downloadShare demo_share_env demo_db (js ''t'') demo_request [demo_share]) = Inr (Broken Status500)
    \<and> count_of (js ''t'') (fst (downloadShare demo_share_env demo_db (js ''t'') demo_request [demo_share])) = 5
    \<and> count_of (js ''t'') (fst (downloadShare (with_stream demo_share_env demo_db (\<lambda>_ _. None) (\<lambda>_. Finished) (\<lambda>_. False))
          demo_db (js ''t'') demo_request [demo_share])) = 5"
proof -
  obtain shares' r where run: "downloadShare demo_share_env demo_db (js ''t'') demo_request [demo_share] = (shares', r)"
    by (cases "downloadShare demo_share_env demo_db (js ''t'') demo_request [demo_share]")
  have "case snd (downloadShare demo_share_env demo_db (js ''t'') demo_request [demo_share]) of
      Inr (Broken Status500) \<Rightarrow> True | _ \<Rightarrow> False" "count_of (js ''t'') [demo_share] = 4" by code_simp+
  then have "r = Inr (Broken Status500)" "count_of (js ''t'') [demo_share] = 4"
    using run by (auto split: sum.splits public_download.splits broken.splits)
  then show ?thesis
    using public_download_counts_once [OF _ run, of "js ''t''"] run by (simp add: admitted_defs)
qed

end
