(* ===== verification/Capability.thy ===== *)
theory Capability
  imports OneTime FileOps
begin

text \<open>
  Capabilities of native downloads (backend/src/files/download-capability.service.ts and the routes of
  backend/src/files/native-downloads.controller.ts): a random token, stored as its hash, that lets a
  browser fetch one file once within two minutes.  Time is the clock of the database in milliseconds;
  the hash of the token and the random token itself are parameters.
\<close>

record cap_row =
  cap_hash :: ustring
  cap_user :: nat
  cap_file :: nat
  cap_expiresAt :: int

definition DOWNLOAD_CAPABILITY_TTL_MS :: int where
  "DOWNLOAD_CAPABILITY_TTL_MS = 120000"

definition DOWNLOAD_CAPABILITY_COOKIE :: ustring where
  "DOWNLOAD_CAPABILITY_COOKIE = js ''hc_native_download''"

definition issue_capability :: "ustring \<Rightarrow> int \<Rightarrow> nat \<Rightarrow> nat \<Rightarrow> cap_row list \<Rightarrow> cap_row list res" where
  "issue_capability h now user k rows =
     (let kept = filter (\<lambda>c. \<not> (cap_user c = user \<and> cap_file c = k)) (filter (\<lambda>c. \<not> cap_expiresAt c \<le> now) rows)
      in bindE (ensure (\<not> (10000 \<le> length kept \<or> 8 \<le> length (filter (\<lambda>c. cap_user c = user) kept)))
           (TooManyRequests ''Too many pending downloads'')) (\<lambda>_.
         bindE (ensure (h \<notin> cap_hash ` set kept) (DbError ''duplicate key'')) (\<lambda>_.
         Inr (kept @ [\<lparr>cap_hash = h, cap_user = user, cap_file = k,
            cap_expiresAt = now + DOWNLOAD_CAPABILITY_TTL_MS\<rparr>]))))"

definition token_text :: "ustring \<Rightarrow> bool" where
  "token_text t \<longleftrightarrow> length t = 64 \<and> (\<forall>c \<in> set t. digit c \<or> 97 \<le> c \<and> c \<le> 102)"

text \<open>The owner is active and the file is a live file of the owner.\<close>

definition cap_scope :: "ustring \<Rightarrow> db \<Rightarrow> int \<Rightarrow> nat \<Rightarrow> cap_row \<Rightarrow> bool" where
  "cap_scope h s now k c \<longleftrightarrow> cap_hash c = h \<and> cap_file c = k \<and> now < cap_expiresAt c
     \<and> (\<exists>u \<in> set (users s). \<exists>f \<in> set (files s). f_userId f = u_id u \<and> u_id u = cap_user c \<and> u_isActive u
          \<and> f_id f = cap_file c \<and> \<not> f_isDeleted f \<and> \<not> f_isFolder f)"

definition authorize_capability :: "(ustring \<Rightarrow> ustring) \<Rightarrow> db \<Rightarrow> int \<Rightarrow> ustring option \<Rightarrow> nat \<Rightarrow> bool \<Rightarrow> cap_row list
    \<Rightarrow> cap_row list \<times> nat res" where
  "authorize_capability hash s now token k consume rows =
     (case token of
        None \<Rightarrow> (rows, Inl (NotFound ''Download unavailable''))
      | Some t \<Rightarrow>
          if \<not> token_text t then (rows, Inl (NotFound ''Download unavailable''))
          else
            let hit = cap_scope (hash t) s now k; found = filter hit rows;
                rows' = (if consume then filter (\<lambda>c. \<not> hit c) rows else rows)
            in (case found of
                  [c] \<Rightarrow> (rows', Inr (cap_user c))
                | _ \<Rightarrow> (rows', Inl (NotFound ''Download unavailable''))))"

text \<open>The cookie: the first part of the header that begins with its name.\<close>

definition capability_cookie :: "ustring \<Rightarrow> ustring option" where
  "capability_cookie header =
     map_option (drop (length DOWNLOAD_CAPABILITY_COOKIE + 1))
       (find (\<lambda>p. take (length DOWNLOAD_CAPABILITY_COOKIE + 1) p = DOWNLOAD_CAPABILITY_COOKIE @ [61])
          (map trim (split_on 59 header)))"

definition native_id :: "ustring \<Rightarrow> nat res" where
  "native_id i =
     bindE (ensure (i \<noteq> [] \<and> (\<forall>c \<in> set i. digit c) \<and> hd i \<noteq> 48 \<and> undec 0 i \<le> 2147483647)
       (BadRequest ''Invalid file id'')) (\<lambda>_. Inr (undec 0 i))"

definition prepare_download :: "(file_row \<Rightarrow> bool) \<Rightarrow> db \<Rightarrow> nat \<Rightarrow> ustring \<Rightarrow> ustring \<Rightarrow> int \<Rightarrow> cap_row list
    \<Rightarrow> cap_row list res" where
  "prepare_download placed s user i h now rows =
     bindE (native_id i) (\<lambda>k.
     bindE (findOne s user k) (\<lambda>f.
     bindE (ensure (\<not> f_isFolder f \<and> \<not> f_isDeleted f \<and> f_storagePath f \<noteq> None \<and> f_storagePath f \<noteq> Some [])
        (NotFound ''File not found'')) (\<lambda>_.
     bindE (ensure (placed f) (NotFound ''File not found on storage'')) (\<lambda>_.
     issue_capability h now user k rows))))"

definition native_download :: "(ustring \<Rightarrow> ustring) \<Rightarrow> db \<Rightarrow> int \<Rightarrow> ustring \<Rightarrow> ustring \<Rightarrow> bool \<Rightarrow> cap_row list
    \<Rightarrow> cap_row list \<times> nat res" where
  "native_download hash s now header i head rows =
     (case native_id i of
        Inl e \<Rightarrow> (rows, Inl e)
      | Inr k \<Rightarrow> authorize_capability hash s now (capability_cookie header) k (\<not> head) rows)"


section \<open>Histories\<close>

datatype cap_op =
    Issue ustring int nat nat
  | Fetch db int ustring ustring bool

text \<open>\<open>Fetch s now header i head\<close>: the request for file \<open>i\<close> with a cookie header.\<close>

fun cap_step :: "(ustring \<Rightarrow> ustring) \<Rightarrow> cap_op \<Rightarrow> cap_row list \<Rightarrow> cap_row list" where
  "cap_step hash (Issue t now user k) rows = (case issue_capability (hash t) now user k rows of Inl _ \<Rightarrow> rows | Inr r \<Rightarrow> r)"
| "cap_step hash (Fetch s now header i head) rows = fst (native_download hash s now header i head rows)"

text \<open>A download of the content with the token \<open>t\<close>.\<close>

fun cap_admits :: "(ustring \<Rightarrow> ustring) \<Rightarrow> ustring \<Rightarrow> cap_op \<Rightarrow> cap_row list \<Rightarrow> bool" where
  "cap_admits hash t (Issue t' now user k) rows = False"
| "cap_admits hash t (Fetch s now header i head) rows =
     (capability_cookie header = Some t \<and> \<not> head \<and> is_ok (snd (native_download hash s now header i head rows)))"

fun cap_allowed :: "(ustring \<Rightarrow> ustring) \<Rightarrow> ustring \<Rightarrow> cap_op \<Rightarrow> bool" where
  "cap_allowed hash t (Issue t' now user k) = (hash t' \<noteq> hash t)"
| "cap_allowed hash t (Fetch s now header i head) = True"

abbreviation cap_weight :: "ustring \<Rightarrow> cap_row list \<Rightarrow> nat" where
  "cap_weight \<equiv> with_key cap_hash"

lemma issue_rows:
  assumes "issue_capability h now user k rows = Inr rows'"
  shows "\<exists>Q. rows' = filter Q rows @ [\<lparr>cap_hash = h, cap_user = user, cap_file = k, cap_expiresAt = now + DOWNLOAD_CAPABILITY_TTL_MS\<rparr>]"
  using assms unfolding issue_capability_def Let_def filter_filter by (auto simp: err_simps ensure_def split: if_splits)

lemma issue_weight:
  "issue_capability h' now user k rows = Inr rows' \<Longrightarrow> cap_weight h rows' \<le> cap_weight h rows + (if h' = h then 1 else 0)"
proof -
  assume "issue_capability h' now user k rows = Inr rows'"
  then obtain Q where "rows' = filter Q rows
      @ [\<lparr>cap_hash = h', cap_user = user, cap_file = k, cap_expiresAt = now + DOWNLOAD_CAPABILITY_TTL_MS\<rparr>]"
    using issue_rows by blast
  then show ?thesis using with_key_filter [of cap_hash h Q rows] by simp
qed

lemma authorize_weight:
  "cap_weight h (fst (authorize_capability hash s now tk k consume rows)) \<le> cap_weight h rows"
  by (auto simp: authorize_capability_def Let_def with_key_filter split: option.split list.split)

lemma authorize_spends:
  assumes "authorize_capability hash s now (Some t) k True rows = (rows', Inr u)"
  shows "Suc (cap_weight (hash t) rows') \<le> cap_weight (hash t) rows"
proof -
  let ?hit = "cap_scope (hash t) s now k"
  obtain c where c: "filter ?hit rows = [c]" "rows' = filter (\<lambda>c. \<not> ?hit c) rows"
    using assms by (auto simp: authorize_capability_def Let_def split: if_splits list.splits)
  have "c \<in> set (filter ?hit rows)" unfolding c(1) by simp
  then have "c \<in> set rows" "?hit c" by simp_all
  moreover have "cap_hash c = hash t" using calculation(2) by (simp add: cap_scope_def)
  ultimately show ?thesis unfolding c(2) by (rule with_key_drop)
qed

interpretation caps: one_time "cap_step hash" "cap_admits hash t" "cap_weight (hash t)" "cap_allowed hash t"
proof
  fix x rows assume a: "cap_allowed hash t x"
  show "(if cap_admits hash t x rows then 1 else 0) + cap_weight (hash t) (cap_step hash x rows) \<le> cap_weight (hash t) rows"
  proof (cases x)
    case (Issue t' now user k)
    then show ?thesis
      using a issue_weight [of "hash t'" now user k rows _ "hash t"] by (auto split: sum.split)
  next
    case (Fetch s now header i head)
    show ?thesis
    proof (cases "native_id i")
      case (Inl e)
      then show ?thesis using Fetch by (simp add: native_download_def)
    next
      case (Inr k)
      obtain rows' r where run: "authorize_capability hash s now (capability_cookie header) k (\<not> head) rows = (rows', r)"
        by (cases "authorize_capability hash s now (capability_cookie header) k (\<not> head) rows")
      have "cap_weight (hash t) rows' \<le> cap_weight (hash t) rows"
        using authorize_weight [of "hash t" hash s now "capability_cookie header" k "\<not> head" rows] run by simp
      moreover have "Suc (cap_weight (hash t) rows') \<le> cap_weight (hash t) rows" if "cap_admits hash t x rows"
      proof -
        have "capability_cookie header = Some t" "\<not> head" "is_ok r"
          using that Fetch Inr run by (simp_all add: native_download_def)
        then show ?thesis using authorize_spends run by (cases r) auto
      qed
      ultimately show ?thesis using Fetch Inr run by (simp add: native_download_def)
    qed
  qed
qed

text \<open>
  C12: a capability that was issued downloads the content at most once, over any later sequence of
  issues, downloads and head requests by anybody, as long as no other token with the same hash is issued.
\<close>

theorem capability_single_use:
  assumes "\<forall>c \<in> set rows. cap_hash c \<noteq> hash t" "\<forall>x \<in> set ops. cap_allowed hash t x"
  shows "admissions (cap_step hash) (cap_admits hash t) ops (cap_step hash (Issue t now user k) rows) \<le> 1"
proof (rule caps.single_use [OF assms(2)])
  have "cap_weight (hash t) rows = 0" using assms(1) by (rule with_key_none)
  then show "cap_weight (hash t) (cap_step hash (Issue t now user k) rows) \<le> 1"
    using issue_weight [of "hash t" now user k rows _ "hash t"] by (auto split: sum.split)
qed

definition cap_demo_db :: db where
  "cap_demo_db = \<lparr>users = [\<lparr>u_id = 1, u_email = [], u_password = [], u_isActive = True, u_storageQuota = 9, u_storageUsed = 3\<rparr>],
     files = [(new_file (js ''a'') \<lparr>pl_storagePath = js ''/s/a'', pl_storageLocationId = [], pl_relativeObjectKey = []\<rparr>
       3 None None 1)\<lparr>f_id := 5\<rparr>], folders = [], next_file = 6, next_folder = 1\<rparr>"

definition cap_demo_header :: ustring where
  "cap_demo_header = js ''x=1; hc_native_download='' @ replicate 64 97"

theorem capability_single_use_witness:
  "admissions (cap_step id) (cap_admits id (replicate 64 97))
     [Fetch cap_demo_db 5 cap_demo_header (js ''5'') True, Fetch cap_demo_db 6 cap_demo_header (js ''5'') False,
      Fetch cap_demo_db 7 cap_demo_header (js ''5'') False]
     (cap_step id (Issue (replicate 64 97) 0 1 5) []) = 1"
proof -
  let ?ops = "[Fetch cap_demo_db 5 cap_demo_header (js ''5'') True, Fetch cap_demo_db 6 cap_demo_header (js ''5'') False,
      Fetch cap_demo_db 7 cap_demo_header (js ''5'') False]"
  have "1 \<le> admissions (cap_step id) (cap_admits id (replicate 64 97)) ?ops (cap_step id (Issue (replicate 64 97) 0 1 5) [])"
    by code_simp
  then show ?thesis using capability_single_use [of "[]" id "replicate 64 97" ?ops 0 1 5] by simp
qed

end
