(* ===== verification/Auth.thy ===== *)
theory Auth
  imports OneTime Entities
begin

text \<open>
  Accounts and refresh tokens (backend/src/auth/auth.service.ts and the entity of the tokens): login,
  rotation with detection of reuse, logout along the chain of replacements, change of the password,
  clean-up.  The bcrypt and JWT packages and the random identifiers are parameters of a call, in
  \<open>auth_env\<close>; dates are milliseconds of a process that runs in UTC.
\<close>

record token_row =
  t_id :: nat
  t_hash :: ustring
  t_replacedBy :: "ustring option"
  t_revoked :: bool
  t_expiresAt :: int
  t_revokedAt :: "int option"
  t_userId :: nat

record auth_state =
  as_users :: "user_row list"
  as_tokens :: "token_row list"
  as_next_user :: nat
  as_next_token :: nat

text \<open>
  \<open>ae_hash\<close> and \<open>ae_compare\<close> are \<open>bcrypt.hash\<close> with the salt of the call and \<open>bcrypt.compare\<close>;
  \<open>ae_access\<close> and \<open>ae_refresh\<close> sign the two payloads, the second with the fresh \<open>jti\<close> of the call.
\<close>

record auth_env =
  ae_now :: int
  ae_hash :: "ustring \<Rightarrow> ustring"
  ae_compare :: "ustring \<Rightarrow> ustring \<Rightarrow> bool"
  ae_access :: "nat \<Rightarrow> ustring \<Rightarrow> ustring"
  ae_refresh :: "nat \<Rightarrow> ustring \<Rightarrow> ustring"
  ae_verify :: "ustring \<Rightarrow> nat option"
  ae_expires :: "ustring option"

record tokens =
  accessToken :: ustring
  refreshToken :: ustring

section \<open>The life of a refresh token\<close>

text \<open>The first match of \<open>/(\d+)([smhd])/\<close>: a run of digits and its unit.\<close>

definition unit_ms :: "nat \<Rightarrow> int option" where
  "unit_ms c = (if c = 115 then Some 1000 else if c = 109 then Some 60000
     else if c = 104 then Some 3600000 else if c = 100 then Some 86400000 else None)"

function duration_match :: "ustring \<Rightarrow> (nat \<times> nat) option" where
  "duration_match s =
     (case dropWhile (\<lambda>c. \<not> digit c) s of
        [] \<Rightarrow> None
      | c # cs \<Rightarrow>
          (case dropWhile digit (c # cs) of
             [] \<Rightarrow> None
           | u # us \<Rightarrow> if unit_ms u \<noteq> None then Some (undec 0 (takeWhile digit (c # cs)), u)
                       else duration_match (u # us)))"
  by pat_completeness auto
termination
proof (relation "measure length")
  fix s c cs u us assume s: "dropWhile (\<lambda>c. \<not> digit c) s = c # cs" and u: "dropWhile digit (c # cs) = u # us"
  have "digit c" using s by (metis dropWhile_eq_Cons_conv)
  then have "length (u # us) \<le> length cs" using u length_dropWhile_le [of digit cs] by simp
  moreover have "length (c # cs) \<le> length s" using s length_dropWhile_le [of "\<lambda>c. \<not> digit c" s] by simp
  ultimately show "(u # us, s) \<in> measure length" by simp
qed simp

declare duration_match.simps [simp del]

definition refresh_ttl :: "ustring option \<Rightarrow> int" where
  "refresh_ttl conf =
     (let text = (case conf of None \<Rightarrow> js ''7d'' | Some t \<Rightarrow> if t = [] then js ''7d'' else t)
      in case duration_match text of
           Some (n, u) \<Rightarrow> int n * (case unit_ms u of Some ms \<Rightarrow> ms | None \<Rightarrow> 0)
         | None \<Rightarrow> 7 * 86400000)"

definition new_token :: "auth_env \<Rightarrow> nat \<Rightarrow> nat \<Rightarrow> ustring \<Rightarrow> token_row" where
  "new_token env k user h = \<lparr>t_id = k, t_hash = h, t_replacedBy = None, t_revoked = False,
     t_expiresAt = ae_now env + refresh_ttl (ae_expires env), t_revokedAt = None, t_userId = user\<rparr>"

definition insert_token :: "auth_env \<Rightarrow> nat \<Rightarrow> ustring \<Rightarrow> auth_state \<Rightarrow> auth_state res" where
  "insert_token env user h s =
     bindE (ensure (h \<notin> t_hash ` set (as_tokens s)) (DbError ''duplicate key'')) (\<lambda>_.
     Inr (s\<lparr>as_tokens := as_tokens s @ [new_token env (as_next_token s) user h],
            as_next_token := Suc (as_next_token s)\<rparr>))"

definition storeRefreshToken :: "auth_env \<Rightarrow> nat \<Rightarrow> ustring \<Rightarrow> auth_state \<Rightarrow> auth_state res" where
  "storeRefreshToken env user token s = insert_token env user (ae_hash env token) s"

definition generateTokens :: "auth_env \<Rightarrow> nat \<Rightarrow> ustring \<Rightarrow> auth_state \<Rightarrow> auth_state \<times> tokens res" where
  "generateTokens env user email s =
     (let token = ae_refresh env user email
      in case storeRefreshToken env user token s of
           Inl e \<Rightarrow> (s, Inl e)
         | Inr s' \<Rightarrow> (s', Inr \<lparr>accessToken = ae_access env user email, refreshToken = token\<rparr>))"


section \<open>Accounts\<close>

definition user_by_email :: "ustring \<Rightarrow> auth_state \<Rightarrow> user_row option" where
  "user_by_email email s = find (\<lambda>u. u_email u = email) (as_users s)"

definition user_by_id :: "nat \<Rightarrow> auth_state \<Rightarrow> user_row option" where
  "user_by_id k s = find (\<lambda>u. u_id u = k) (as_users s)"

text \<open>The row of the user and the row of the token are saved one after the other.\<close>

definition register :: "auth_env \<Rightarrow> ustring \<Rightarrow> ustring \<Rightarrow> auth_state \<Rightarrow> auth_state \<times> tokens res" where
  "register env email password s =
     (case user_by_email email s of
        Some u \<Rightarrow> (s, Inl (Conflict ''User with this email already exists''))
      | None \<Rightarrow>
          let user = \<lparr>u_id = as_next_user s, u_email = email, u_password = ae_hash env password, u_isActive = True,
                      u_storageQuota = 0, u_storageUsed = 0\<rparr>
          in generateTokens env (u_id user) email
               (s\<lparr>as_users := as_users s @ [user], as_next_user := Suc (as_next_user s)\<rparr>))"

definition validateUser :: "auth_env \<Rightarrow> ustring \<Rightarrow> ustring \<Rightarrow> auth_state \<Rightarrow> user_row option" where
  "validateUser env email password s =
     (case user_by_email email s of
        None \<Rightarrow> None
      | Some u \<Rightarrow> if \<not> u_isActive u then None
                  else if \<not> ae_compare env password (u_password u) then None else Some u)"

definition login :: "auth_env \<Rightarrow> ustring \<Rightarrow> ustring \<Rightarrow> auth_state \<Rightarrow> auth_state \<times> tokens res" where
  "login env email password s =
     (case user_by_email email s of
        None \<Rightarrow> (s, Inl (Unauthorized ''Invalid credentials''))
      | Some u \<Rightarrow>
          if \<not> u_isActive u then (s, Inl (Unauthorized ''Invalid credentials''))
          else if \<not> ae_compare env password (u_password u) then (s, Inl (Unauthorized ''Invalid credentials''))
          else generateTokens env (u_id u) (u_email u) s)"


section \<open>Rotation\<close>

definition findRefreshToken :: "auth_env \<Rightarrow> nat \<Rightarrow> ustring \<Rightarrow> auth_state \<Rightarrow> token_row option" where
  "findRefreshToken env user token s =
     find (\<lambda>r. ae_compare env token (t_hash r)) (filter (\<lambda>r. t_userId r = user) (as_tokens s))"

definition revoke_row :: "int \<Rightarrow> token_row \<Rightarrow> token_row" where
  "revoke_row now r = r\<lparr>t_revoked := True, t_revokedAt := Some now\<rparr>"

definition revokeAllUserTokens :: "int \<Rightarrow> nat \<Rightarrow> auth_state \<Rightarrow> auth_state" where
  "revokeAllUserTokens now user s =
     s\<lparr>as_tokens := map (\<lambda>r. if t_userId r = user \<and> \<not> t_revoked r then revoke_row now r else r) (as_tokens s)\<rparr>"

definition rotate_row :: "int \<Rightarrow> nat \<Rightarrow> ustring \<Rightarrow> token_row \<Rightarrow> token_row" where
  "rotate_row now k h r =
     (if t_id r = k \<and> \<not> t_revoked r then (revoke_row now r)\<lparr>t_replacedBy := Some h\<rparr> else r)"

text \<open>
  The transaction: an exception rolls back; \<open>{ reused: true }\<close> is returned, so that the revocation of
  every token of the user is committed before the caller throws.
\<close>

definition refresh :: "auth_env \<Rightarrow> nat \<Rightarrow> ustring \<Rightarrow> auth_state \<Rightarrow> auth_state \<times> tokens res" where
  "refresh env user token s =
     (case user_by_id user s of
        None \<Rightarrow> (s, Inl (Unauthorized ''Invalid user''))
      | Some u \<Rightarrow>
          if \<not> u_isActive u then (s, Inl (Unauthorized ''Invalid user''))
          else if token = [] then (s, Inl (Unauthorized ''Invalid refresh token''))
          else (case findRefreshToken env user token s of
            None \<Rightarrow> (s, Inl (Unauthorized ''Invalid refresh token''))
          | Some r \<Rightarrow>
              if t_expiresAt r < ae_now env then (s, Inl (Unauthorized ''Refresh token expired''))
              else if t_revoked r
              then (revokeAllUserTokens (ae_now env) user s, Inl (Unauthorized ''Refresh token was reused''))
              else
                let fresh = ae_refresh env (u_id u) (u_email u); h = ae_hash env fresh;
                    rows = filter (\<lambda>x. t_id x = t_id r \<and> \<not> t_revoked x) (as_tokens s)
                in if rows = []
                   then (revokeAllUserTokens (ae_now env) user s, Inl (Unauthorized ''Refresh token was reused''))
                   else (case insert_token env user h
                                (s\<lparr>as_tokens := map (rotate_row (ae_now env) (t_id r) h) (as_tokens s)\<rparr>) of
                           Inl e \<Rightarrow> (s, Inl e)
                         | Inr s' \<Rightarrow> (s', Inr \<lparr>accessToken = ae_access env (u_id u) (u_email u), refreshToken = fresh\<rparr>))))"

text \<open>The route verifies the signature first and takes the user from the payload.\<close>

definition refresh_route :: "auth_env \<Rightarrow> ustring \<Rightarrow> auth_state \<Rightarrow> auth_state \<times> tokens res" where
  "refresh_route env token s =
     (case ae_verify env token of
        None \<Rightarrow> (s, Inl (Unauthorized ''Invalid refresh token''))
      | Some user \<Rightarrow> refresh env user token s)"


section \<open>Logout\<close>

text \<open>
  The loop follows \<open>replacedBy\<close> until a token without one; a hash met twice or missing ends it without
  a result.  Every step visits a new hash of the table.
\<close>

function chain_end :: "nat \<Rightarrow> token_row list \<Rightarrow> ustring list \<Rightarrow> token_row \<Rightarrow> token_row option" where
  "chain_end user rows visited r =
     (case t_replacedBy r of
        None \<Rightarrow> Some r
      | Some h \<Rightarrow>
          if h = [] then Some r
          else if h \<in> set visited then None
          else (case find (\<lambda>x. t_hash x = h \<and> t_userId x = user) rows of
                  None \<Rightarrow> None
                | Some x \<Rightarrow> chain_end user rows (h # visited) x))"
  by pat_completeness auto
termination
proof (relation "measure (\<lambda>(user, rows, visited, r). card (t_hash ` set rows - set visited))")
  fix user rows visited r h x
  assume h: "h \<notin> set visited" and x: "find (\<lambda>x. t_hash x = h \<and> t_userId x = user) rows = Some x"
  have "x \<in> set rows" "t_hash x = h" using x by (auto simp: find_Some_iff in_set_conv_nth)
  then have "h \<in> t_hash ` set rows - set visited" using h by blast
  moreover have "t_hash ` set rows - set (h # visited) = (t_hash ` set rows - set visited) - {h}" by auto
  ultimately have "card (t_hash ` set rows - set (h # visited)) < card (t_hash ` set rows - set visited)"
    using card_Diff1_less [of "t_hash ` set rows - set visited" h] by simp
  then show "((user, rows, h # visited, x), user, rows, visited, r)
      \<in> measure (\<lambda>(user, rows, visited, r). card (t_hash ` set rows - set visited))" by simp
qed simp

declare chain_end.simps [simp del]

definition logout :: "auth_env \<Rightarrow> nat \<Rightarrow> ustring \<Rightarrow> auth_state \<Rightarrow> auth_state" where
  "logout env user token s =
     (if token = [] then s
      else case findRefreshToken env user token s of
        None \<Rightarrow> s
      | Some r \<Rightarrow>
          (case chain_end user (as_tokens s) [] r of
             None \<Rightarrow> s
           | Some e \<Rightarrow>
               if t_revoked e then s
               else s\<lparr>as_tokens := map (\<lambda>x. if t_id x = t_id e \<and> \<not> t_revoked x then revoke_row (ae_now env) x else x)
                        (as_tokens s)\<rparr>))"


section \<open>Passwords and clean-up\<close>

definition changePassword :: "auth_env \<Rightarrow> nat \<Rightarrow> ustring \<Rightarrow> ustring \<Rightarrow> auth_state \<Rightarrow> auth_state \<times> unit res" where
  "changePassword env user old_password new_password s =
     (case user_by_id user s of
        None \<Rightarrow> (s, Inl (Unauthorized ''User not found''))
      | Some u \<Rightarrow>
          if \<not> ae_compare env old_password (u_password u) then (s, Inl (Unauthorized ''Current password is incorrect''))
          else (revokeAllUserTokens (ae_now env) user
                  (s\<lparr>as_users := put_row u_id (u\<lparr>u_password := ae_hash env new_password\<rparr>) (as_users s)\<rparr>), Inr ()))"

definition cleanupExpiredTokens :: "int \<Rightarrow> auth_state \<Rightarrow> auth_state" where
  "cleanupExpiredTokens now s = s\<lparr>as_tokens := filter (\<lambda>r. \<not> t_expiresAt r < now) (as_tokens s)\<rparr>"

definition WEAK_SECRETS :: "ustring list" where
  "WEAK_SECRETS = map js [''changeme'', ''changeme-change-in-production'', ''change-me-in-production'', ''secret'',
     ''password'', ''jwt_secret'', ''your-secret-key'', '''']"

definition validateSecret :: "(ustring \<Rightarrow> ustring) \<Rightarrow> ustring option \<Rightarrow> bool" where
  "validateSecret lower conf =
     (let secret = (case conf of None \<Rightarrow> [] | Some x \<Rightarrow> x)
      in if lower (trim secret) \<in> set WEAK_SECRETS then False else 32 \<le> length secret)"

end
