(* ===== verification/AuthClaims.thy ===== *)
theory AuthClaims
  imports Auth
begin

text \<open>
  Histories of authentication: a refresh token is accepted once, its reuse locks every session of the
  user out, and a logout with any token of a session revokes the token that session ends in.
\<close>

datatype auth_op =
    Register auth_env ustring ustring
  | Login auth_env ustring ustring
  | Refresh auth_env ustring
  | Logout auth_env nat ustring
  | ChangePassword auth_env nat ustring ustring
  | Cleanup int

fun auth_step :: "auth_op \<Rightarrow> auth_state \<Rightarrow> auth_state" where
  "auth_step (Register env email pw) s = fst (register env email pw s)"
| "auth_step (Login env email pw) s = fst (login env email pw s)"
| "auth_step (Refresh env token) s = fst (refresh_route env token s)"
| "auth_step (Logout env user token) s = logout env user token s"
| "auth_step (ChangePassword env user old new) s = fst (changePassword env user old new s)"
| "auth_step (Cleanup now) s = cleanupExpiredTokens now s"

text \<open>
  What a transition does to the tokens: rows change by revocation or disappear, and at most one fresh
  row with a new hash is added.
\<close>

definition only_revoked :: "token_row \<Rightarrow> token_row \<Rightarrow> bool" where
  "only_revoked r r' \<longleftrightarrow> t_id r' = t_id r \<and> t_hash r' = t_hash r \<and> t_userId r' = t_userId r \<and> (t_revoked r \<longrightarrow> t_revoked r')"

lemma only_revoked_refl [simp]: "only_revoked r r"
  by (simp add: only_revoked_def)

lemma revoke_row_fields [simp]:
  "t_id (revoke_row now r) = t_id r" "t_hash (revoke_row now r) = t_hash r" "t_userId (revoke_row now r) = t_userId r"
  "t_revoked (revoke_row now r)" "t_replacedBy (revoke_row now r) = t_replacedBy r"
  by (simp_all add: revoke_row_def)

lemma rotate_row_fields [simp]:
  "t_id (rotate_row now k h r) = t_id r" "t_hash (rotate_row now k h r) = t_hash r"
  "t_userId (rotate_row now k h r) = t_userId r" "t_revoked r \<Longrightarrow> rotate_row now k h r = r"
  by (simp_all add: rotate_row_def)

lemma new_token_fields [simp]:
  "t_id (new_token env k user h) = k" "t_hash (new_token env k user h) = h" "t_userId (new_token env k user h) = user"
  "\<not> t_revoked (new_token env k user h)" "t_replacedBy (new_token env k user h) = None"
  by (simp_all add: new_token_def)

lemma insert_token_Inr:
  "insert_token env user h s = Inr s' \<longleftrightarrow> h \<notin> t_hash ` set (as_tokens s)
     \<and> s' = s\<lparr>as_tokens := as_tokens s @ [new_token env (as_next_token s) user h], as_next_token := Suc (as_next_token s)\<rparr>"
  by (auto simp: insert_token_def err_simps ensure_def)

text \<open>The states a refresh can lead to.\<close>

lemma refresh_cases:
  assumes "refresh env user token s = (s', r)"
  obtains (same) e where "s' = s" "r = Inl e"
    | (reused) e where "s' = revokeAllUserTokens (ae_now env) user s" "r = Inl e"
    | (rotated) u x t where "user_by_id user s = Some u" "findRefreshToken env user token s = Some x" "\<not> t_revoked x"
        "insert_token env user (ae_hash env (ae_refresh env (u_id u) (u_email u)))
           (s\<lparr>as_tokens := map (rotate_row (ae_now env) (t_id x) (ae_hash env (ae_refresh env (u_id u) (u_email u)))) (as_tokens s)\<rparr>)
           = Inr s'" "r = Inr t"
  using assms unfolding refresh_def Let_def
  by (auto split: option.splits if_splits sum.splits)

lemma sign_in_cases:
  assumes "login env email pw s = (s', r)"
  shows "s' = s \<or> (\<exists>u h. user_by_email email s = Some u \<and> h = ae_hash env (ae_refresh env (u_id u) (u_email u))
     \<and> insert_token env (u_id u) h s = Inr s')"
  using assms unfolding login_def generateTokens_def storeRefreshToken_def Let_def
  by (auto split: option.splits if_splits sum.splits)

lemma register_cases:
  assumes "register env email pw s = (s', r)"
  shows "s' = s \<or> (\<exists>v. u_id v = as_next_user s \<and> u_email v = email \<and>
     (let s1 = s\<lparr>as_users := as_users s @ [v], as_next_user := Suc (as_next_user s)\<rparr>
      in s' = s1 \<or> insert_token env (u_id v) (ae_hash env (ae_refresh env (u_id v) email)) s1 = Inr s'))"
proof (cases "user_by_email email s")
  case None
  let ?v = "\<lparr>u_id = as_next_user s, u_email = email, u_password = ae_hash env pw, u_isActive = True,
    u_storageQuota = 0, u_storageUsed = 0\<rparr>"
  show ?thesis
    using assms None unfolding register_def generateTokens_def storeRefreshToken_def Let_def
    by (intro disjI2 exI [of _ ?v]) (auto split: sum.splits)
qed (use assms in \<open>simp add: register_def\<close>)


section \<open>Single use\<close>

definition live_matches :: "(ustring \<Rightarrow> ustring \<Rightarrow> bool) \<Rightarrow> ustring \<Rightarrow> auth_state \<Rightarrow> nat" where
  "live_matches cmp token s = length (filter (\<lambda>r. cmp token (t_hash r) \<and> \<not> t_revoked r) (as_tokens s))"

fun auth_env_of :: "auth_op \<Rightarrow> auth_env option" where
  "auth_env_of (Register env _ _) = Some env"
| "auth_env_of (Login env _ _) = Some env"
| "auth_env_of (Refresh env _) = Some env"
| "auth_env_of (Logout env _ _) = Some env"
| "auth_env_of (ChangePassword env _ _ _) = Some env"
| "auth_env_of (Cleanup _) = None"

text \<open>The comparison is always \<open>cmp\<close>, and no token that is issued matches \<open>token\<close>.\<close>

definition issues_other :: "(ustring \<Rightarrow> ustring \<Rightarrow> bool) \<Rightarrow> ustring \<Rightarrow> auth_env \<Rightarrow> bool" where
  "issues_other cmp token env \<longleftrightarrow> (\<forall>user email. \<not> cmp token (ae_hash env (ae_refresh env user email)))"

definition other_tokens :: "(ustring \<Rightarrow> ustring \<Rightarrow> bool) \<Rightarrow> ustring \<Rightarrow> auth_op \<Rightarrow> bool" where
  "other_tokens cmp token x \<longleftrightarrow> (\<forall>env. auth_env_of x = Some env \<longrightarrow> ae_compare env = cmp
     \<and> issues_other cmp token env)"

fun refreshes :: "ustring \<Rightarrow> auth_op \<Rightarrow> auth_state \<Rightarrow> bool" where
  "refreshes token (Refresh env t) s = (t = token \<and> is_ok (snd (refresh_route env t s)))"
| "refreshes token _ s = False"

lemma live_matches_map:
  assumes "\<And>r. only_revoked r (g r)"
  shows "length (filter (\<lambda>r. P (t_hash r) \<and> \<not> t_revoked r) (map g rows)) \<le> length (filter (\<lambda>r. P (t_hash r) \<and> \<not> t_revoked r) rows)"
proof (induction rows)
  case (Cons r rows)
  have "(if P (t_hash (g r)) \<and> \<not> t_revoked (g r) then Suc 0 else 0) \<le> (if P (t_hash r) \<and> \<not> t_revoked r then Suc 0 else 0)"
    using assms [of r] by (auto simp: only_revoked_def)
  then show ?case using Cons.IH by (auto split: if_splits)
qed simp

lemma live_matches_drop:
  assumes "\<And>r. only_revoked r (g r)" "x \<in> set rows" "P (t_hash x)" "\<not> t_revoked x" "t_revoked (g x)"
  shows "Suc (length (filter (\<lambda>r. P (t_hash r) \<and> \<not> t_revoked r) (map g rows))) \<le> length (filter (\<lambda>r. P (t_hash r) \<and> \<not> t_revoked r) rows)"
proof -
  obtain xs ys where rows: "rows = xs @ x # ys" using split_list [OF assms(2)] by blast
  show ?thesis
    using live_matches_map [of g P xs, OF assms(1)] live_matches_map [of g P ys, OF assms(1)] assms(3-5)
    unfolding rows by simp
qed

lemma live_matches_filter:
  "length (filter P (filter Q rows)) \<le> length (filter P rows)"
  by (induction rows) auto

lemma live_matches_insert:
  "insert_token env user h s = Inr s' \<Longrightarrow> \<not> cmp token h \<Longrightarrow> live_matches cmp token s' = live_matches cmp token s"
  by (simp add: insert_token_Inr live_matches_def)

lemma live_matches_revoke: "live_matches cmp token (revokeAllUserTokens now user s) \<le> live_matches cmp token s"
  unfolding live_matches_def revokeAllUserTokens_def
  using live_matches_map [of "\<lambda>r. if t_userId r = user \<and> \<not> t_revoked r then revoke_row now r else r" "cmp token"]
  by (simp add: only_revoked_def)

lemma live_matches_users: "live_matches cmp token (s\<lparr>as_users := us\<rparr>) = live_matches cmp token s"
  "live_matches cmp token (s\<lparr>as_next_user := n\<rparr>) = live_matches cmp token s"
  by (simp_all add: live_matches_def)

lemma refresh_spends:
  assumes "refresh env user token s = (s', Inr t)" "ae_compare env = cmp"
    and "issues_other cmp token env"
  shows "Suc (live_matches cmp token s') \<le> live_matches cmp token s"
  using assms(1)
proof (cases rule: refresh_cases)
  case (rotated u x t')
  let ?h = "ae_hash env (ae_refresh env (u_id u) (u_email u))"
  let ?s = "s\<lparr>as_tokens := map (rotate_row (ae_now env) (t_id x) ?h) (as_tokens s)\<rparr>"
  have x: "x \<in> set (as_tokens s)" "cmp token (t_hash x)"
    using find_SomeD [OF rotated(2) [unfolded findRefreshToken_def]] assms(2) by auto
  have "live_matches cmp token s' = live_matches cmp token ?s"
    using live_matches_insert [OF rotated(4)] assms(3) by (simp add: issues_other_def)
  moreover have "Suc (live_matches cmp token ?s) \<le> live_matches cmp token s"
    using live_matches_drop [of "rotate_row (ae_now env) (t_id x) ?h" x "as_tokens s" "cmp token"] x rotated(3)
    by (simp add: live_matches_def only_revoked_def rotate_row_def)
  ultimately show ?thesis by simp
qed simp_all

lemma refresh_keeps:
  assumes "refresh env user token' s = (s', r)" "issues_other cmp token env"
  shows "live_matches cmp token s' \<le> live_matches cmp token s"
  using assms(1)
proof (cases rule: refresh_cases)
  case (reused e)
  then show ?thesis using live_matches_revoke by simp
next
  case (rotated u x t')
  let ?h = "ae_hash env (ae_refresh env (u_id u) (u_email u))"
  have "live_matches cmp token s' = live_matches cmp token
      (s\<lparr>as_tokens := map (rotate_row (ae_now env) (t_id x) ?h) (as_tokens s)\<rparr>)"
    using live_matches_insert [OF rotated(4)] assms(2) by (simp add: issues_other_def)
  then show ?thesis
    using live_matches_map [of "rotate_row (ae_now env) (t_id x) ?h" "cmp token" "as_tokens s"]
    by (simp add: live_matches_def only_revoked_def rotate_row_def)
qed simp

lemma step_keeps_matches:
  assumes "other_tokens cmp token x"
  shows "live_matches cmp token (auth_step x s) \<le> live_matches cmp token s"
proof (cases x)
  case (Register env email pw)
  have new: "issues_other cmp token env"
    using assms Register by (simp add: other_tokens_def)
  obtain s' r where run: "register env email pw s = (s', r)" by (cases "register env email pw s")
  show ?thesis
    using register_cases [OF run] live_matches_insert [where cmp = cmp] new [unfolded issues_other_def] run Register
    by (auto simp: Let_def live_matches_users)
next
  case (Login env email pw)
  have new: "issues_other cmp token env"
    using assms Login by (simp add: other_tokens_def)
  obtain s' r where run: "login env email pw s = (s', r)" by (cases "login env email pw s")
  show ?thesis
    using sign_in_cases [OF run] live_matches_insert [where cmp = cmp] new [unfolded issues_other_def] run Login by auto
next
  case (Refresh env tk)
  have new: "issues_other cmp token env"
    using assms Refresh by (simp add: other_tokens_def)
  show ?thesis
  proof (cases "ae_verify env tk")
    case (Some user)
    obtain s' r where run: "refresh env user tk s = (s', r)" by (cases "refresh env user tk s")
    show ?thesis using refresh_keeps [OF run new] run Some Refresh by (simp add: refresh_route_def)
  qed (simp add: Refresh refresh_route_def)
next
  case (Logout env user tk)
  then show ?thesis
    using live_matches_map [of "\<lambda>x. if t_id x = k \<and> \<not> t_revoked x then revoke_row (ae_now env) x else x" "cmp token" "as_tokens s" for k]
    by (auto simp: logout_def live_matches_def only_revoked_def split: option.split)
next
  case (ChangePassword env user old new)
  then show ?thesis
    using live_matches_revoke [of cmp token "ae_now env" user "s\<lparr>as_users := us\<rparr>" for us]
    by (auto simp: changePassword_def live_matches_users split: option.split)
next
  case (Cleanup now)
  then show ?thesis by (simp add: live_matches_def cleanupExpiredTokens_def live_matches_filter del: filter_filter)
qed

interpretation refresh_tokens: one_time auth_step "refreshes token" "live_matches cmp token" "other_tokens cmp token"
proof
  fix x s assume a: "other_tokens cmp token x"
  show "(if refreshes token x s then 1 else 0) + live_matches cmp token (auth_step x s) \<le> live_matches cmp token s"
  proof (cases "refreshes token x s")
    case True
    then obtain env where x: "x = Refresh env token" "is_ok (snd (refresh_route env token s))"
      by (cases "(token, x, s)" rule: refreshes.cases) auto
    then obtain user where v: "ae_verify env token = Some user"
      by (auto simp: refresh_route_def is_ok_def split: option.splits)
    obtain s' t where run: "refresh env user token s = (s', Inr t)"
      using x(2) v by (cases "refresh env user token s"; cases "snd (refresh env user token s)") (auto simp: refresh_route_def is_ok_def)
    have "Suc (live_matches cmp token s') \<le> live_matches cmp token s"
      using refresh_spends [OF run, of cmp] a x(1) by (simp add: other_tokens_def)
    then show ?thesis using True x(1) v run by (simp add: refresh_route_def)
  next
    case False
    then show ?thesis using step_keeps_matches [OF a] by simp
  qed
qed

text \<open>
  C11: over any history of registrations, logins, refreshes, logouts, password changes and clean-ups, a
  refresh token that matches at most one unrevoked row is exchanged for new tokens at most once, as long
  as no issued token matches it.
\<close>

theorem refresh_token_single_use:
  assumes "live_matches cmp token s \<le> 1" "\<forall>x \<in> set ops. other_tokens cmp token x"
  shows "admissions auth_step (refreshes token) ops s \<le> 1"
  by (rule refresh_tokens.single_use [OF assms(2,1)])

definition auth_demo_env :: "ustring \<Rightarrow> auth_env" where
  "auth_demo_env t = \<lparr>ae_now = 0, ae_hash = (\<lambda>x. 35 # x), ae_compare = (\<lambda>x h. h = 35 # x), ae_access = (\<lambda>_ _. []),
     ae_refresh = (\<lambda>_ _. t), ae_verify = (\<lambda>_. Some 1), ae_expires = Some (js ''7d'')\<rparr>"

definition auth_demo_user :: user_row where
  "auth_demo_user = \<lparr>u_id = 1, u_email = js ''m'', u_password = js ''#p'', u_isActive = True, u_storageQuota = 0, u_storageUsed = 0\<rparr>"

definition auth_demo :: auth_state where
  "auth_demo = auth_step (Login (auth_demo_env (js ''a'')) (js ''m'') (js ''p''))
     \<lparr>as_users = [auth_demo_user], as_tokens = [], as_next_user = 2, as_next_token = 1\<rparr>"

theorem refresh_token_single_use_witness:
  "admissions auth_step (refreshes (js ''a''))
     [Refresh (auth_demo_env (js ''b'')) (js ''a''), Refresh (auth_demo_env (js ''c'')) (js ''a'')] auth_demo = 1"
proof -
  let ?ops = "[Refresh (auth_demo_env (js ''b'')) (js ''a''), Refresh (auth_demo_env (js ''c'')) (js ''a'')]"
  have l: "live_matches (\<lambda>x h. h = 35 # x) (js ''a'') auth_demo \<le> 1" by code_simp
  have ops: "\<forall>x \<in> set ?ops. other_tokens (\<lambda>x h. h = 35 # x) (js ''a'') x"
    by (simp add: other_tokens_def issues_other_def auth_demo_env_def)
  have "1 \<le> admissions auth_step (refreshes (js ''a'')) ?ops auth_demo" by code_simp
  then show ?thesis using refresh_token_single_use [OF l ops] by (rule le_antisym [rotated])
qed


section \<open>Reuse locks out\<close>

definition locked_out :: "nat \<Rightarrow> ustring \<Rightarrow> auth_state \<Rightarrow> bool" where
  "locked_out user email s \<longleftrightarrow> (\<forall>r \<in> set (as_tokens s). t_userId r = user \<longrightarrow> t_revoked r)
     \<and> (\<forall>u \<in> set (as_users s). u_id u = user \<longrightarrow> u_email u = email) \<and> user < as_next_user s"

fun signs_in :: "ustring \<Rightarrow> auth_op \<Rightarrow> bool" where
  "signs_in email (Register env m pw) = (m = email)"
| "signs_in email (Login env m pw) = (m = email)"
| "signs_in email _ = False"

lemma locked_out_map:
  assumes "locked_out user email s" "\<And>r. only_revoked r (g r)"
  shows "locked_out user email (s\<lparr>as_tokens := map g (as_tokens s)\<rparr>)"
  using assms by (auto simp: locked_out_def only_revoked_def)

lemma locked_out_insert:
  "locked_out user email s \<Longrightarrow> insert_token env v h s = Inr s' \<Longrightarrow> v \<noteq> user \<Longrightarrow> locked_out user email s'"
  by (auto simp: locked_out_def insert_token_Inr)

lemma locked_out_revoke: "locked_out user email s \<Longrightarrow> locked_out user email (revokeAllUserTokens now v s)"
  unfolding revokeAllUserTokens_def by (rule locked_out_map) (simp_all add: only_revoked_def)

lemma user_by_email_id: "user_by_email m s = Some u \<Longrightarrow> u \<in> set (as_users s) \<and> u_email u = m"
  using find_SomeD unfolding user_by_email_def by fastforce

lemma locked_out_refuses:
  "locked_out user email s \<Longrightarrow> refresh env user token s = (s', r) \<Longrightarrow> \<not> is_ok r"
  by (erule refresh_cases) (auto simp: locked_out_def findRefreshToken_def dest!: find_SomeD)

lemma locked_out_step:
  assumes l: "locked_out user email s" and a: "\<not> signs_in email x"
  shows "locked_out user email (auth_step x s)"
proof (cases x)
  case (Register env m pw)
  obtain s' r where run: "register env m pw s = (s', r)" by (cases "register env m pw s")
  from register_cases [OF run] show ?thesis
  proof (elim disjE exE conjE)
    fix v assume v: "u_id v = as_next_user s" "u_email v = m"
      and "let s1 = s\<lparr>as_users := as_users s @ [v], as_next_user := Suc (as_next_user s)\<rparr>
           in s' = s1 \<or> insert_token env (u_id v) (ae_hash env (ae_refresh env (u_id v) m)) s1 = Inr s'"
    moreover have "locked_out user email (s\<lparr>as_users := as_users s @ [v], as_next_user := Suc (as_next_user s)\<rparr>)"
      using l v by (auto simp: locked_out_def)
    moreover have "u_id v \<noteq> user" using l v by (auto simp: locked_out_def)
    ultimately show ?thesis using locked_out_insert run Register by (auto simp: Let_def)
  qed (use l run Register in simp)
next
  case (Login env m pw)
  obtain s' r where run: "login env m pw s = (s', r)" by (cases "login env m pw s")
  from sign_in_cases [OF run] show ?thesis
  proof (elim disjE exE conjE)
    fix u h assume "user_by_email m s = Some u" "insert_token env (u_id u) h s = Inr s'"
    moreover have "u_id u \<noteq> user"
      using user_by_email_id [OF calculation(1)] l a Login by (auto simp: locked_out_def)
    ultimately show ?thesis using locked_out_insert [OF l] run Login by simp
  qed (use l run Login in simp)
next
  case (Refresh env tk)
  show ?thesis
  proof (cases "ae_verify env tk")
    case (Some v)
    obtain s' r where run: "refresh env v tk s = (s', r)" by (cases "refresh env v tk s")
    have "locked_out user email s'"
      using run
    proof (cases rule: refresh_cases)
      case (reused e)
      then show ?thesis using locked_out_revoke [OF l] by simp
    next
      case (rotated u y t)
      have "is_ok r" using rotated(5) by simp
      then have "v \<noteq> user" using locked_out_refuses [OF l, of env tk s' r] run by blast
      moreover have "locked_out user email (s\<lparr>as_tokens := map (rotate_row (ae_now env) k h) (as_tokens s)\<rparr>)" for k h
        by (rule locked_out_map [OF l]) (simp add: only_revoked_def rotate_row_def)
      ultimately show ?thesis using locked_out_insert rotated(4) by blast
    qed (use l in simp)
    then show ?thesis using run Some Refresh by (simp add: refresh_route_def)
  qed (use l Refresh in \<open>simp add: refresh_route_def\<close>)
next
  case (Logout env v tk)
  have m: "locked_out user email (s\<lparr>as_tokens := map (\<lambda>x. if t_id x = k \<and> \<not> t_revoked x then revoke_row (ae_now env) x else x)
      (as_tokens s)\<rparr>)" for k
    by (rule locked_out_map [OF l]) (simp add: only_revoked_def)
  show ?thesis using l m by (auto simp: Logout logout_def split: option.split)
next
  case (ChangePassword env v old new)
  have "locked_out user email (s\<lparr>as_users := put_row u_id (u\<lparr>u_password := p\<rparr>) (as_users s)\<rparr>)"
    if "user_by_id v s = Some u" for u p
  proof -
    have "u \<in> set (as_users s)" using find_SomeD that unfolding user_by_id_def by fastforce
    then show ?thesis using l by (auto simp: locked_out_def put_row_def)
  qed
  then show ?thesis using l locked_out_revoke by (auto simp: ChangePassword changePassword_def split: option.split)
next
  case (Cleanup now)
  then show ?thesis using l by (auto simp: locked_out_def cleanupExpiredTokens_def)
qed

lemma revoke_all_locks: "locked_out user email (revokeAllUserTokens now user s)"
  if "\<forall>u \<in> set (as_users s). u_id u = user \<longrightarrow> u_email u = email" "user < as_next_user s"
proof -
  define g where "g = (\<lambda>r. if t_userId r = user \<and> \<not> t_revoked r then revoke_row now r else r)"
  have "t_userId (g r) = user \<longrightarrow> t_revoked (g r)" for r by (simp add: g_def)
  moreover have "revokeAllUserTokens now user s = s\<lparr>as_tokens := map g (as_tokens s)\<rparr>"
    by (simp add: revokeAllUserTokens_def g_def)
  ultimately show ?thesis using that by (simp add: locked_out_def)
qed

text \<open>
  C36: when a token that was already exchanged is presented again before its expiry, no refresh token of
  that user works any more, over any history in which the user does not sign in again: not the stolen
  one, and not the one it was exchanged for.
\<close>

theorem reuse_locks_every_session_out:
  assumes "user_by_id user s = Some u" "u_isActive u" "token \<noteq> []" "ae_verify env token = Some user"
    and "findRefreshToken env user token s = Some r" "t_revoked r" "ae_now env \<le> t_expiresAt r"
    and "distinct (map u_id (as_users s))" "user < as_next_user s"
    and "\<forall>x \<in> set ops. \<not> signs_in (u_email u) x" "ae_verify env' token' = Some user"
  shows "\<not> is_ok (snd (refresh_route env' token' (fold auth_step ops (auth_step (Refresh env token) s))))"
proof -
  have u: "u \<in> set (as_users s)" "u_id u = user" using find_SomeD assms(1) unfolding user_by_id_def by fastforce+
  then have "\<forall>v \<in> set (as_users s). u_id v = user \<longrightarrow> u_email v = u_email u"
    using key_unique [OF assms(8)] by metis
  then have "locked_out user (u_email u) (revokeAllUserTokens (ae_now env) user s)"
    using revoke_all_locks assms(9) by blast
  moreover have "auth_step (Refresh env token) s = revokeAllUserTokens (ae_now env) user s"
    using assms(1-7) by (simp add: refresh_route_def refresh_def)
  ultimately have "locked_out user (u_email u) (auth_step (Refresh env token) s)" by simp
  then have "locked_out user (u_email u) (fold auth_step ops (auth_step (Refresh env token) s))"
    using assms(10) locked_out_step by (induction ops arbitrary: s rule: rev_induct) auto
  from locked_out_refuses [OF this prod.collapse [symmetric]] show ?thesis
    using assms(11) by (simp add: refresh_route_def)
qed

definition stolen_demo :: auth_state where
  "stolen_demo = auth_step (Refresh (auth_demo_env (js ''b'')) (js ''a'')) auth_demo"

theorem reuse_locks_every_session_out_witness:
  "\<not> is_ok (snd (refresh_route (auth_demo_env (js ''d'')) (js ''b'')
     (fold auth_step [Cleanup 0] (auth_step (Refresh (auth_demo_env (js ''c'')) (js ''a'')) stolen_demo))))"
proof -
  let ?r = "the (findRefreshToken (auth_demo_env (js ''c'')) 1 (js ''a'') stolen_demo)"
  have "user_by_id 1 stolen_demo = Some auth_demo_user" "u_isActive auth_demo_user"
    "findRefreshToken (auth_demo_env (js ''c'')) 1 (js ''a'') stolen_demo = Some ?r" "t_revoked ?r"
    "ae_now (auth_demo_env (js ''c'')) \<le> t_expiresAt ?r" "distinct (map u_id (as_users stolen_demo))"
    "1 < as_next_user stolen_demo" by code_simp+
  from reuse_locks_every_session_out [OF this(1,2) _ _ this(3-7), of "[Cleanup 0]" "auth_demo_env (js ''d'')" "js ''b''"]
  show ?thesis by (simp add: auth_demo_env_def)
qed


section \<open>Logout\<close>

text \<open>The replacement of a token, as the loop of \<open>logout\<close> looks it up.\<close>

definition replaced_by :: "nat \<Rightarrow> token_row list \<Rightarrow> token_row \<Rightarrow> token_row \<Rightarrow> bool" where
  "replaced_by user rows r x \<longleftrightarrow> (\<exists>h. t_replacedBy r = Some h \<and> h \<noteq> [] \<and>
     find (\<lambda>x. t_hash x = h \<and> t_userId x = user) rows = Some x)"

definition tokens_ok :: "auth_state \<Rightarrow> bool" where
  "tokens_ok s \<longleftrightarrow> distinct (map t_hash (as_tokens s)) \<and> distinct (map t_id (as_tokens s))
     \<and> (\<forall>r \<in> set (as_tokens s). t_id r < as_next_token s)
     \<and> (\<forall>r \<in> set (as_tokens s). \<forall>x \<in> set (as_tokens s). t_replacedBy r = Some (t_hash x) \<longrightarrow> t_id r < t_id x)"

lemma tokens_ok_map:
  assumes "tokens_ok s" "\<And>r. only_revoked r (g r) \<and> t_replacedBy (g r) = t_replacedBy r"
  shows "tokens_ok (s\<lparr>as_tokens := map g (as_tokens s)\<rparr>)"
  using assms by (auto simp: tokens_ok_def only_revoked_def comp_def)

lemma tokens_ok_filter: "tokens_ok s \<Longrightarrow> tokens_ok (s\<lparr>as_tokens := filter P (as_tokens s)\<rparr>)"
  by (auto simp: tokens_ok_def distinct_map_filter)

lemma tokens_ok_insert:
  assumes "tokens_ok s" "insert_token env user h s = Inr s'"
  shows "tokens_ok s'"
  using assms by (auto simp: tokens_ok_def insert_token_Inr less_Suc_eq)

lemma tokens_ok_rotate:
  assumes ok: "tokens_ok s"
    and i: "insert_token env user h (s\<lparr>as_tokens := map (rotate_row now k h) (as_tokens s)\<rparr>) = Inr s'"
  shows "tokens_ok s'"
proof -
  let ?rows = "map (rotate_row now k h) (as_tokens s)" and ?x = "new_token env (as_next_token s) user h"
  have h: "h \<notin> t_hash ` set (as_tokens s)" and s': "as_tokens s' = ?rows @ [?x]" "as_next_token s' = Suc (as_next_token s)"
    using i by (simp_all add: insert_token_Inr image_image)
  have "t_replacedBy (rotate_row now k h r) = t_replacedBy r \<or> t_replacedBy (rotate_row now k h r) = Some h" for r
    by (simp add: rotate_row_def)
  then have "t_id r < t_id x" if "r \<in> set (as_tokens s)" "x \<in> set (as_tokens s)"
      "t_replacedBy (rotate_row now k h r) = Some (t_hash x)" for r x
    using that ok h unfolding tokens_ok_def by (metis image_eqI option.inject)
  moreover have "map t_hash ?rows = map t_hash (as_tokens s)" "map t_id ?rows = map t_id (as_tokens s)" by simp_all
  ultimately show ?thesis
    using ok h unfolding tokens_ok_def s' by (auto simp: less_Suc_eq comp_def)
qed

lemma tokens_ok_cong: "as_tokens s' = as_tokens s \<Longrightarrow> as_next_token s' = as_next_token s \<Longrightarrow> tokens_ok s \<Longrightarrow> tokens_ok s'"
  by (simp add: tokens_ok_def)

lemma tokens_ok_revoke: "tokens_ok s \<Longrightarrow> tokens_ok (revokeAllUserTokens now v s)"
  unfolding revokeAllUserTokens_def by (rule tokens_ok_map) (simp_all add: only_revoked_def)

lemma tokens_ok_step:
  assumes ok: "tokens_ok s" shows "tokens_ok (auth_step x s)"
proof (cases x)
  case (Register env m pw)
  obtain s' r where run: "register env m pw s = (s', r)" by (cases "register env m pw s")
  have u: "tokens_ok (s\<lparr>as_users := us, as_next_user := n\<rparr>)" for us n by (rule tokens_ok_cong [OF _ _ ok]) simp_all
  show ?thesis using register_cases [OF run] ok u tokens_ok_insert [OF u] run Register by (auto simp: Let_def)
next
  case (Login env m pw)
  obtain s' r where run: "login env m pw s = (s', r)" by (cases "login env m pw s")
  show ?thesis using sign_in_cases [OF run] ok tokens_ok_insert [OF ok] run Login by auto
next
  case (Refresh env tk)
  show ?thesis
  proof (cases "ae_verify env tk")
    case (Some v)
    obtain s' r where run: "refresh env v tk s = (s', r)" by (cases "refresh env v tk s")
    then have "tokens_ok s'" by (rule refresh_cases) (use ok tokens_ok_revoke tokens_ok_rotate in auto)
    then show ?thesis using run Some Refresh by (simp add: refresh_route_def)
  qed (use ok Refresh in \<open>simp add: refresh_route_def\<close>)
next
  case (Logout env v tk)
  have m: "tokens_ok (s\<lparr>as_tokens := map (\<lambda>x. if t_id x = k \<and> \<not> t_revoked x then revoke_row (ae_now env) x else x)
      (as_tokens s)\<rparr>)" for k
    by (rule tokens_ok_map [OF ok]) (simp add: only_revoked_def)
  show ?thesis using ok m by (auto simp: Logout logout_def split: option.split)
next
  case (ChangePassword env v old new)
  have "tokens_ok (s\<lparr>as_users := us\<rparr>)" for us by (rule tokens_ok_cong [OF _ _ ok]) simp_all
  then show ?thesis using ok tokens_ok_revoke by (auto simp: ChangePassword changePassword_def split: option.split)
next
  case (Cleanup now)
  then show ?thesis using tokens_ok_filter [OF ok] by (simp add: cleanupExpiredTokens_def)
qed

lemma tokens_ok_history: "tokens_ok s \<Longrightarrow> tokens_ok (fold auth_step ops s)"
  using tokens_ok_step by (induction ops arbitrary: s) auto

lemma replaced_by_less:
  "tokens_ok s \<Longrightarrow> r \<in> set (as_tokens s) \<Longrightarrow> replaced_by user (as_tokens s) r x \<Longrightarrow> x \<in> set (as_tokens s) \<and> t_id r < t_id x"
  unfolding replaced_by_def tokens_ok_def using find_SomeD by fastforce

lemma chain_end_reaches:
  assumes ok: "tokens_ok s" and "(replaced_by user (as_tokens s))\<^sup>*\<^sup>* r e" "t_replacedBy e = None"
    and "r \<in> set (as_tokens s)" "\<forall>h \<in> set visited. \<exists>y \<in> set (as_tokens s). t_hash y = h \<and> t_id y \<le> t_id r"
  shows "chain_end user (as_tokens s) visited r = Some e \<and> e \<in> set (as_tokens s)"
  using assms(2,4,5)
proof (induction arbitrary: visited rule: converse_rtranclp_induct)
  case base
  then show ?case using assms(3) by (simp add: chain_end.simps)
next
  case (step r x)
  have x: "x \<in> set (as_tokens s)" "t_id r < t_id x" using replaced_by_less [OF ok step.prems(1) step.hyps(1)] by blast+
  obtain h where h: "t_replacedBy r = Some h" "h \<noteq> []" "find (\<lambda>x. t_hash x = h \<and> t_userId x = user) (as_tokens s) = Some x"
    using step.hyps(1) by (auto simp: replaced_by_def)
  have "t_hash x = h" using find_SomeD [OF h(3)] by simp
  have "h \<notin> set visited"
  proof
    assume "h \<in> set visited"
    then obtain y where "y \<in> set (as_tokens s)" "t_hash y = h" "t_id y \<le> t_id r" using step.prems(2) by blast
    moreover have "y = x"
      using key_unique [of t_hash "as_tokens s" y x] ok calculation(1,2) x(1) \<open>t_hash x = h\<close> by (simp add: tokens_ok_def)
    ultimately show False using x(2) by simp
  qed
  moreover have "\<forall>h' \<in> set (h # visited). \<exists>y \<in> set (as_tokens s). t_hash y = h' \<and> t_id y \<le> t_id x"
    using step.prems(2) x \<open>t_hash x = h\<close> by (auto intro: order_trans [OF _ less_imp_le])
  ultimately have "h \<notin> set visited" "chain_end user (as_tokens s) (h # visited) x = Some e \<and> e \<in> set (as_tokens s)"
    using step.IH [OF x(1)] by blast+
  then show ?case using h by (simp add: chain_end.simps [of user "as_tokens s" visited r])
qed

text \<open>
  C37: after any history, a logout with any token of a rotation chain, however old, follows the chain to
  its end and revokes exactly the token there: the loop over the replacements neither runs forever nor
  gives up, and no other row changes.
\<close>

theorem logout_ends_session:
  assumes "tokens_ok s0" "s = fold auth_step ops s0"
    and "token \<noteq> []" "findRefreshToken env user token s = Some r"
    and "(replaced_by user (as_tokens s))\<^sup>*\<^sup>* r e" "t_replacedBy e = None"
  shows "logout env user token s =
    s\<lparr>as_tokens := map (\<lambda>x. if x = e \<and> \<not> t_revoked e then revoke_row (ae_now env) e else x) (as_tokens s)\<rparr>"
proof -
  have ok: "tokens_ok s" using tokens_ok_history assms(1,2) by simp
  have "r \<in> set (as_tokens s)" using find_SomeD [OF assms(4) [unfolded findRefreshToken_def]] by simp
  then have e: "chain_end user (as_tokens s) [] r = Some e" "e \<in> set (as_tokens s)"
    using chain_end_reaches [OF ok assms(5,6), of "[]"] by simp_all
  have "map (\<lambda>x. if t_id x = t_id e \<and> \<not> t_revoked x then revoke_row (ae_now env) x else x) (as_tokens s)
      = map (\<lambda>x. if x = e \<and> \<not> t_revoked e then revoke_row (ae_now env) e else x) (as_tokens s)"
    using key_unique [of t_id "as_tokens s" _ e] ok e(2) by (auto simp: tokens_ok_def)
  moreover have "map (\<lambda>x. if x = e \<and> \<not> t_revoked e then revoke_row (ae_now env) e else x) (as_tokens s) = as_tokens s"
    if "t_revoked e" using that by simp
  ultimately show ?thesis using assms(3,4) e(1) by (simp add: logout_def)
qed

theorem logout_ends_session_witness:
  "t_revoked (last (as_tokens (logout (auth_demo_env (js ''d'')) 1 (js ''a'') (fold auth_step
     [Refresh (auth_demo_env (js ''b'')) (js ''a''), Refresh (auth_demo_env (js ''c'')) (js ''b'')] auth_demo))))"
proof -
  let ?ops = "[Refresh (auth_demo_env (js ''b'')) (js ''a''), Refresh (auth_demo_env (js ''c'')) (js ''b'')]"
  let ?s = "fold auth_step ?ops auth_demo"
  let ?a = "as_tokens ?s ! 0" and ?b = "as_tokens ?s ! 1" and ?c = "as_tokens ?s ! 2"
  have "tokens_ok auth_demo" unfolding tokens_ok_def by code_simp
  moreover have "js ''a'' \<noteq> []" "findRefreshToken (auth_demo_env (js ''d'')) 1 (js ''a'') ?s = Some ?a"
    "t_replacedBy ?c = None" by code_simp+
  moreover have "(replaced_by 1 (as_tokens ?s))\<^sup>*\<^sup>* ?a ?c"
  proof -
    have "replaced_by 1 (as_tokens ?s) ?a ?b"
      unfolding replaced_by_def by (rule exI [of _ "35 # js ''b''"]) code_simp
    moreover have "replaced_by 1 (as_tokens ?s) ?b ?c"
      unfolding replaced_by_def by (rule exI [of _ "35 # js ''c''"]) code_simp
    ultimately show ?thesis by (meson rtranclp.rtrancl_into_rtrancl rtranclp.rtrancl_refl)
  qed
  ultimately have "logout (auth_demo_env (js ''d'')) 1 (js ''a'') ?s =
    ?s\<lparr>as_tokens := map (\<lambda>x. if x = ?c \<and> \<not> t_revoked ?c then revoke_row (ae_now (auth_demo_env (js ''d''))) ?c else x) (as_tokens ?s)\<rparr>"
    using logout_ends_session [OF _ refl] by blast
  moreover have "last (as_tokens ?s) = ?c" "as_tokens ?s \<noteq> []" by code_simp+
  ultimately show ?thesis by (simp add: last_map del: fold_simps)
qed

end
