(* ===== verification/ArchiveClaims.thy ===== *)
theory ArchiveClaims
  imports ArchiveStream
begin

text \<open>
  The properties of archive downloads: the selection that is accepted, the members and the paths of the
  planned manifest, and the authority of every streamed entry.
\<close>

section \<open>The selection\<close>

fun kind_text :: "archive_kind \<Rightarrow> ustring" where
  "kind_text AFile = js ''file''"
| "kind_text AFolder = js ''folder''"

text \<open>An object with the two keys in either order, a kind and the id of a row.\<close>

definition denotes :: "archive_entry \<Rightarrow> selection \<Rightarrow> bool" where
  "denotes e r \<longleftrightarrow> (\<exists>ps. e = EntryObject ps
     \<and> (map fst ps = [js ''id'', js ''kind''] \<or> map fst ps = [js ''kind'', js ''id''])
     \<and> map_of ps (js ''kind'') = Some (JStr (kind_text (fst r)))
     \<and> map_of ps (js ''id'') = Some (JInt (int (snd r))) \<and> 1 \<le> snd r \<and> snd r \<le> 2147483647)"

lemma commas_join: "length ps \<le> Suc (count_list (join_with c ps) c)"
  by (induction c ps rule: join_with.induct) auto

lemma two_keys:
  assumes j: "join_with 44 (sort ks) = js ''id,kind''" and m: "js ''id'' \<in> set ks" "js ''kind'' \<in> set ks"
  shows "ks = [js ''id'', js ''kind''] \<or> ks = [js ''kind'', js ''id'']"
proof -
  have "length (sort ks) \<le> 2" using commas_join [of "sort ks" 44] unfolding j by simp
  then have "length ks \<le> 2" by simp
  moreover have "js ''id'' \<noteq> js ''kind''" by simp
  ultimately show ?thesis using m by (cases ks; cases "tl ks"; cases "tl (tl ks)") (auto simp del: js_Cons js_Nil)
qed

lemma selection_kind_Some: "selection_kind v = Some kind \<longleftrightarrow> v = Some (JStr (kind_text kind))"
  by (cases kind) (auto simp: selection_kind_def)

lemma selection_id_Some: "selection_id v = Some k \<longleftrightarrow> v = Some (JInt (int k)) \<and> 1 \<le> k \<and> k \<le> 2147483647"
  by (auto simp: selection_id_def safe_integer_def max_safe_def split: option.splits js_value.splits if_splits)

lemma selection_entry_iff: "selection_entry e = Inr r \<longleftrightarrow> denotes e r"
proof (cases e)
  case (EntryObject ps)
  obtain kind k where r: "r = (kind, k)" by (cases r)
  have "selection_entry e = Inr r \<longleftrightarrow> join_with 44 (sort (map fst ps)) = js ''id,kind''
      \<and> selection_kind (map_of ps (js ''kind'')) = Some kind \<and> selection_id (map_of ps (js ''id'')) = Some k"
    unfolding EntryObject r selection_entry_def by (auto split: bool.split option.split simp del: js_Cons)
  also have "\<dots> \<longleftrightarrow> denotes e r"
  proof
    assume l: "join_with 44 (sort (map fst ps)) = js ''id,kind''
      \<and> selection_kind (map_of ps (js ''kind'')) = Some kind \<and> selection_id (map_of ps (js ''id'')) = Some k"
    then have "map_of ps (js ''kind'') \<noteq> None" "map_of ps (js ''id'') \<noteq> None"
      by (auto simp: selection_kind_Some selection_id_Some)
    then have "js ''kind'' \<in> set (map fst ps)" "js ''id'' \<in> set (map fst ps)"
      by (simp_all add: map_of_eq_None_iff)
    then show "denotes e r"
      using l two_keys [of "map fst ps"] unfolding denotes_def EntryObject r selection_kind_Some selection_id_Some by simp
  next
    assume d: "denotes e r"
    then have "map fst ps = [js ''id'', js ''kind''] \<or> map fst ps = [js ''kind'', js ''id'']"
      by (auto simp: denotes_def EntryObject)
    then have "join_with 44 (sort (map fst ps)) = js ''id,kind''" by auto
    then show "join_with 44 (sort (map fst ps)) = js ''id,kind''
      \<and> selection_kind (map_of ps (js ''kind'')) = Some kind \<and> selection_id (map_of ps (js ''id'')) = Some k"
      using d unfolding denotes_def EntryObject r selection_kind_Some selection_id_Some by simp
  qed
  finally show ?thesis .
qed (simp add: selection_entry_def denotes_def)

lemma selection_loop_iff:
  "selection_loop seen es = Inr roots \<longleftrightarrow> list_all2 denotes es roots \<and> distinct roots \<and> set roots \<inter> set seen = {}"
proof (induction es arbitrary: seen roots)
  case (Cons e es)
  show ?case by (cases roots) (auto simp: err_simps Cons selection_entry_iff)
qed auto

text \<open>
  C38: \<open>parseSelection\<close> accepts exactly the arrays of 1 to 32 objects that have the two keys \<open>id\<close> and
  \<open>kind\<close> and nothing else, a known kind, an id that fits an \<open>integer\<close> column, and no duplicate, and
  returns their typed values.
\<close>

theorem parseSelection_exact:
  "parseSelection input = Inr roots \<longleftrightarrow>
     (\<exists>es. input = InputArray es \<and> 1 \<le> length es \<and> length es \<le> 32 \<and> list_all2 denotes es roots \<and> distinct roots)"
  by (cases input) (auto simp: parseSelection_def selection_loop_iff MAX_ROOTS_def Suc_le_eq)

end
