(* ===== verification/ArchivePlan.thy ===== *)
theory ArchivePlan
  imports ArchiveClaims
begin

text \<open>
  The manifest planned for a selection: which rows become members, and where their paths come from.
\<close>

section \<open>The tree below a folder\<close>

definition live_dir :: "db \<Rightarrow> nat \<Rightarrow> folder_row \<Rightarrow> bool" where
  "live_dir s user d \<longleftrightarrow> d \<in> set (folders s) \<and> d_userId d = user \<and> \<not> d_isDeleted d"

inductive below_root :: "db \<Rightarrow> nat \<Rightarrow> nat \<Rightarrow> nat \<Rightarrow> bool" for s user root where
  root: "live_dir s user d \<Longrightarrow> d_id d = root \<Longrightarrow> below_root s user root root"
| child: "below_root s user root p \<Longrightarrow> live_dir s user d \<Longrightarrow> d_parentId d = Some p \<Longrightarrow> below_root s user root (d_id d)"

lemma below_root_trans: "below_root s user k j \<Longrightarrow> below_root s user root k \<Longrightarrow> below_root s user root j"
  by (induction rule: below_root.induct) (auto intro: below_root.child)

lemma tree_sound:
  assumes "(d, j) \<in> set (tree_rows s user n k level)"
    and "\<forall>(d, v) \<in> set level. below_root s user root (d_id d) \<and> live_dir s user d"
  shows "below_root s user root (d_id d) \<and> live_dir s user d"
  using assms
proof (induction n arbitrary: k level)
  case (Suc n)
  have next_level: "\<forall>(d, v) \<in> set (concat (map (tree_children s user) level)). below_root s user root (d_id d) \<and> live_dir s user d"
    using Suc.prems(2) by (auto simp: tree_children_def live_dir_def intro: below_root.child)
  show ?case using Suc.prems Suc.IH [OF _ next_level] by auto
qed auto

lemma tree_level: "(\<lambda>(d, v). (d, k)) ` set level \<subseteq> set (tree_rows s user n k level)"
  by (cases n) auto

lemma tree_closed:
  assumes "(d, j) \<in> set (tree_rows s user n k level)" "j < k + n"
    and "live_dir s user c" "d_parentId c = Some (d_id d)" "\<forall>(d, v) \<in> set level. set v \<subseteq> A"
  shows "d_id c \<in> A \<union> d_id ` fst ` set (tree_rows s user n k level)"
  using assms
proof (induction n arbitrary: k level A)
  case (Suc n)
  let ?next = "concat (map (tree_children s user) level)"
  let ?B = "A \<union> d_id ` fst ` set ?next"
  have B: "?B \<subseteq> A \<union> d_id ` fst ` set (tree_rows s user (Suc n) k level)"
    using tree_level [of "Suc k" ?next s user n] by (force simp: image_image)
  have vis: "\<forall>(d, v) \<in> set ?next. set v \<subseteq> ?B"
  proof -
    have "set w \<subseteq> ?B" if e: "(e, w) \<in> set ?next" for e w
    proof -
      obtain dv where dv: "dv \<in> set level" "(e, w) \<in> set (tree_children s user dv)" using e by auto
      then have "w = d_id e # snd dv" by (auto simp: tree_children_def)
      moreover have "set (snd dv) \<subseteq> A" using dv(1) Suc.prems(5) by (metis (mono_tags, lifting) case_prod_unfold)
      moreover have "d_id e \<in> d_id ` fst ` set ?next" using e by (metis fst_conv image_eqI)
      ultimately show ?thesis by auto
    qed
    then show ?thesis by blast
  qed
  show ?case
  proof (cases "(d, j) \<in> set (tree_rows s user n (Suc k) ?next)")
    case True
    then have "d_id c \<in> ?B \<union> d_id ` fst ` set (tree_rows s user n (Suc k) ?next)"
      using Suc.IH [OF True _ Suc.prems(3,4) vis] Suc.prems(2) by simp
    then show ?thesis using B by auto
  next
    case False
    then obtain v where v: "(d, v) \<in> set level" using Suc.prems(1) by auto
    show ?thesis
    proof (cases "d_id c \<in> set v")
      case True
      then show ?thesis using v Suc.prems(5) by blast
    next
      case False
      then have "(c, d_id c # v) \<in> set (tree_children s user (d, v))"
        using Suc.prems(3,4) by (auto simp: tree_children_def live_dir_def)
      then have "(c, d_id c # v) \<in> set ?next" using v by auto
      then have "d_id c \<in> ?B" by force
      then show ?thesis using B by blast
    qed
  qed
qed auto

lemma fst_mirror_join: "fst ` set (mirror_join s user g d) = {g d}"
proof -
  have "ms \<noteq> [] \<Longrightarrow> fst ` set (map (\<lambda>f. (g d, Some (f_id f))) ms) = {g d}" for ms by (cases ms) auto
  then show ?thesis unfolding mirror_join_def Let_def
    by (cases "filter (\<lambda>f. f_folderId f = Some (d_id d) \<and> f_userId f = user
      \<and> f_isFolder f \<and> \<not> f_isDeleted f) (files s) = []") (simp_all only: if_True if_False refl, simp)
qed

lemma fst_joined: "fst ` set (concat (map (\<lambda>(d, k). mirror_join s user (\<lambda>d. (d, k)) d) rows)) = set rows"
proof -
  have "fst ` set (concat (map (\<lambda>(d, k). mirror_join s user (\<lambda>d. (d, k)) d) rows))
      = (\<Union>(d, k) \<in> set rows. fst ` set (mirror_join s user (\<lambda>d. (d, k)) d))" by auto
  then show ?thesis by (simp add: fst_mirror_join)
qed

lemma take_short: "length (take (Suc n) xs) \<le> n \<Longrightarrow> take (Suc n) xs = xs"
  by simp

definition live_in :: "db \<Rightarrow> nat \<Rightarrow> nat set \<Rightarrow> file_row \<Rightarrow> bool" where
  "live_in s user ks f \<longleftrightarrow> f \<in> set (files s) \<and> f_parentId f \<in> Some ` ks \<and> f_userId f = user \<and> \<not> f_isDeleted f \<and> \<not> f_isFolder f"

lemma folderTree_exact:
  assumes "folderTree s user root = Inr (ds, fs)"
  shows "d_id ` set ds = {k. below_root s user root k}" "\<forall>d \<in> set ds. live_dir s user d"
    "set fs = {f. live_in s user {k. below_root s user root k} f}"
proof -
  define start where "start = map (\<lambda>d. (d, [root])) (filter (\<lambda>d. d_id d = root \<and> d_userId d = user \<and> \<not> d_isDeleted d) (folders s))"
  define rows where "rows = tree_rows s user (MAX_DEPTH + 1) 0 start"
  define joined where "joined = concat (map (\<lambda>(d, k). mirror_join s user (\<lambda>d. (d, k)) d) rows)"
  define picked where "picked = filter (\<lambda>f. f_parentId f \<in> Some ` d_id ` set ds \<and> f_userId f = user
                      \<and> \<not> f_isDeleted f \<and> \<not> f_isFolder f) (files s)"
  have run: "take (MAX_MEMBERS + 1) joined \<noteq> []" "length (take (MAX_MEMBERS + 1) joined) \<le> MAX_MEMBERS"
    "\<not> (\<exists>((d, k), m) \<in> set (take (MAX_MEMBERS + 1) joined). MAX_DEPTH < k \<or> m = None)"
    "ds = map fst (sort_key (\<lambda>(d, k). (k, d_id d)) (map fst (take (MAX_MEMBERS + 1) joined)))"
    "length (take (MAX_MEMBERS + 1) picked) \<le> MAX_MEMBERS" "fs = sort_key f_id (take (MAX_MEMBERS + 1) picked)"
    using assms unfolding folderTree_def Let_def start_def [symmetric] rows_def [symmetric] joined_def [symmetric]
      bindE_eq_Inr ensure_eq_Inr sum.inject prod.inject picked_def by (elim exE conjE; simp only: simp_thms not_less de_Morgan_disj set_map)+
  have j: "take (MAX_MEMBERS + 1) joined = joined" using take_short [of MAX_MEMBERS joined] run(2) by simp
  have p: "take (MAX_MEMBERS + 1) picked = picked" using take_short [of MAX_MEMBERS picked] run(5) by simp
  have fj: "fst ` set joined = set rows" unfolding joined_def by (rule fst_joined)
  have ds: "set ds = fst ` set rows" unfolding run(4) j by (simp add: fj image_image [symmetric])
  have shallow: "k < 0 + (MAX_DEPTH + 1)" if "(d, k) \<in> set rows" for d k
  proof -
    have "(d, k) \<in> fst ` set joined" using that fj by simp
    then obtain e where "e \<in> set joined" "fst e = (d, k)" by auto
    then show ?thesis using run(3) unfolding j by (cases e) auto
  qed
  have start: "\<forall>(d, v) \<in> set start. below_root s user root (d_id d) \<and> live_dir s user d"
    by (auto simp: start_def live_dir_def intro: below_root.root)
  have sound: "below_root s user root (d_id d) \<and> live_dir s user d" if "(d, k) \<in> set rows" for d k
    using tree_sound [OF _ start] that unfolding rows_def by blast
  have "rows \<noteq> []" using run(1) by (auto simp: joined_def j)
  then have nonempty: "start \<noteq> []"
  proof -
    have "tree_rows s user n k [] = []" for n k by (induction n arbitrary: k) auto
    then show "rows \<noteq> [] \<Longrightarrow> start \<noteq> []" unfolding rows_def by metis
  qed
  have root_in: "root \<in> d_id ` fst ` set rows"
  proof -
    obtain d where d: "(d, [root]) \<in> set start" "d_id d = root"
      using nonempty unfolding start_def by (cases "filter (\<lambda>d. d_id d = root \<and> d_userId d = user \<and> \<not> d_isDeleted d) (folders s)")
        (auto simp: filter_eq_Cons_iff)
    then have "(d, 0) \<in> set rows" using tree_level [of 0 start s user "MAX_DEPTH + 1"] unfolding rows_def by force
    then show ?thesis using d(2) by force
  qed
  have vis: "\<forall>(d, v) \<in> set start. set v \<subseteq> {root}" by (auto simp: start_def)
  have complete: "k \<in> d_id ` fst ` set rows" if "below_root s user root k" for k
    using that
  proof (induction rule: below_root.induct)
    case (child p c)
    then obtain d j where d: "(d, j) \<in> set rows" "d_id d = p" by auto
    then have "d_id c \<in> {root} \<union> d_id ` fst ` set rows"
      using tree_closed [OF _ shallow [OF d(1)] child(2) _ vis] child(3) unfolding rows_def by blast
    then show ?case using root_in by auto
  qed (rule root_in)
  show ids: "d_id ` set ds = {k. below_root s user root k}" unfolding ds using sound complete by auto
  show "\<forall>d \<in> set ds. live_dir s user d" unfolding ds using sound by auto
  show "set fs = {f. live_in s user {k. below_root s user root k} f}"
    unfolding run(6) p set_sort unfolding picked_def ids by (auto simp: live_in_def)
qed


section \<open>Members\<close>

text \<open>The members and the keys seen agree, and no key is there twice.\<close>

definition draft_ok :: "draft \<Rightarrow> bool" where
  "draft_ok st \<longleftrightarrow> set (snd st) = am_key ` set (fst st) \<and> distinct (map am_key (fst st)) \<and> length (fst st) \<le> MAX_MEMBERS"

lemma draft_ok_Nil: "draft_ok ([], [])"
  by (simp add: draft_ok_def)

lemma add_member_cases:
  assumes "add_member m st = Inr st'"
  shows "(am_key m \<in> set (snd st) \<and> st' = st) \<or>
    (am_key m \<notin> set (snd st) \<and> length (fst st) < MAX_MEMBERS \<and> st' = (fst st @ [m], am_key m # snd st))"
  using assms by (auto simp: add_member_def Let_def split: if_splits)

lemma add_member_ok:
  assumes "add_member m st = Inr st'" "draft_ok st"
  shows "draft_ok st' \<and> set (snd st') = insert (am_key m) (set (snd st))
    \<and> set (fst st) \<subseteq> set (fst st') \<and> set (fst st') \<subseteq> insert m (set (fst st))"
  using add_member_cases [OF assms(1)] assms(2) by (auto simp: draft_ok_def)

text \<open>
  What holds of every member, whatever it is, as long as the operations that add one establish it.
\<close>

lemma add_member_all:
  "add_member m st = Inr st' \<Longrightarrow> P m \<Longrightarrow> \<forall>x \<in> set (fst st). P x \<Longrightarrow> \<forall>x \<in> set (fst st'). P x"
  by (drule add_member_cases) auto

lemma file_member_Inr:
  "file_member f path = Inr m \<Longrightarrow> am_key m = (AFile, f_id f) \<and> am_path m = path \<and> am_parentId m = f_parentId f
     \<and> am_name m = f_name f \<and> \<not> am_isFolder m \<and> am_kind m = AFile"
  by (auto simp: file_member_def am_key_def err_simps)

lemma folder_member_simps [simp]:
  "am_key (folder_member d path) = (AFolder, d_id d)" "am_path (folder_member d path) = path"
  "am_isFolder (folder_member d path)" "am_kind (folder_member d path) = AFolder" "am_id (folder_member d path) = d_id d"
  "am_name (folder_member d path) = d_name d" "am_parentId (folder_member d path) = d_parentId d"
  by (simp_all add: folder_member_def am_key_def)

text \<open>
  The segments of the path of a folder: a free top name for a selected folder, then the normalised name
  of every folder on the way down.
\<close>

inductive located :: "(ustring \<Rightarrow> ustring) \<Rightarrow> db \<Rightarrow> selection list \<Rightarrow> nat \<Rightarrow> ustring list \<Rightarrow> bool" for nfc s roots where
  base: "(AFolder, k) \<in> set roots \<Longrightarrow> segment_ok t \<Longrightarrow> located nfc s roots k [t]"
| down: "located nfc s roots p ps \<Longrightarrow> d \<in> set (folders s) \<Longrightarrow> d_parentId d = Some p \<Longrightarrow> segment_ok (nfc (d_name d))
    \<Longrightarrow> located nfc s roots (d_id d) (ps @ [nfc (d_name d)])"

definition member_at :: "(ustring \<Rightarrow> ustring) \<Rightarrow> db \<Rightarrow> selection list \<Rightarrow> archive_member \<Rightarrow> ustring list \<Rightarrow> bool" where
  "member_at nfc s roots m ps \<longleftrightarrow>
     (case am_kind m of
        AFolder \<Rightarrow> am_isFolder m \<and> located nfc s roots (am_id m) ps
      | AFile \<Rightarrow> \<not> am_isFolder m \<and>
          ((am_key m \<in> set roots \<and> (\<exists>t. ps = [t] \<and> segment_ok t)) \<or>
           (\<exists>p qs. am_parentId m = Some p \<and> located nfc s roots p qs \<and> segment_ok (nfc (am_name m)) \<and> ps = qs @ [nfc (am_name m)])))"

definition well_placed :: "(ustring \<Rightarrow> ustring) \<Rightarrow> db \<Rightarrow> selection list \<Rightarrow> archive_member \<Rightarrow> bool" where
  "well_placed nfc s roots m \<longleftrightarrow> (\<exists>ps. member_at nfc s roots m ps \<and> am_path m = join_with 47 ps)"

definition paths_ok :: "(ustring \<Rightarrow> ustring) \<Rightarrow> db \<Rightarrow> selection list \<Rightarrow> (nat \<rightharpoonup> ustring) \<Rightarrow> bool" where
  "paths_ok nfc s roots paths \<longleftrightarrow> (\<forall>k path. paths k = Some path \<longrightarrow> (\<exists>ps. located nfc s roots k ps \<and> path = join_with 47 ps))"

lemma located_ok: "located nfc s roots k ps \<Longrightarrow> ps \<noteq> [] \<and> (\<forall>p \<in> set ps. segment_ok p)"
  by (induction rule: located.induct) auto

lemma member_at_ok: "member_at nfc s roots m ps \<Longrightarrow> ps \<noteq> [] \<and> (\<forall>p \<in> set ps. segment_ok p)"
proof -
  have "ps \<noteq> [] \<and> (\<forall>p \<in> set ps. segment_ok p)" if "located nfc s roots k qs" "segment_ok q" "ps = qs @ [q]" for k qs q
    using located_ok [OF that(1)] that(2,3) by auto
  moreover assume "member_at nfc s roots m ps"
  moreover have "ps \<noteq> [] \<and> (\<forall>p \<in> set ps. segment_ok p)" if "located nfc s roots (am_id m) ps" using located_ok [OF that] .
  ultimately show ?thesis unfolding member_at_def by (cases "am_kind m") auto
qed

lemma segment_no_slash: "segment_ok p \<Longrightarrow> 47 \<notin> set p"
  by (auto simp: segment_ok_def)

lemma join_snoc: "ps \<noteq> [] \<Longrightarrow> join_with c ps @ [c] @ q = join_with c (ps @ [q])"
  by (induction c ps rule: join_with.induct) auto

lemma archive_segment_Inr: "archive_segment nfc name = Inr x \<longleftrightarrow> x = nfc name \<and> segment_ok (nfc name)"
  by (auto simp: archive_segment_def err_simps)

lemma reserve_loop_ok:
  "reserve_loop nfc lower names name i cand = Inr c \<Longrightarrow> segment_ok cand \<Longrightarrow> segment_ok c"
proof (induction nfc lower names name i cand rule: reserve_loop.induct)
  case (1 nfc lower names name i cand)
  show ?case
  proof (cases "lower cand \<in> set names")
    case True
    then obtain x where "\<not> MAX_ROOTS + 1 < i" "archive_segment nfc (name @ suffix i) = Inr x"
        "reserve_loop nfc lower names name (Suc i) x = Inr c"
      using "1.prems"(1) by (auto simp: reserve_loop.simps [of nfc lower names name i cand] err_simps split: if_splits)
    then show ?thesis using "1.IH" True by (auto simp: archive_segment_Inr)
  next
    case False
    then show ?thesis using "1.prems" by (simp add: reserve_loop.simps [of nfc lower names name i cand])
  qed
qed

lemma reserveRootName_ok: "reserveRootName nfc lower raw names = Inr (c, names') \<Longrightarrow> segment_ok c"
  using reserve_loop_ok by (auto simp: reserveRootName_def err_simps archive_segment_Inr)


section \<open>The loops\<close>

text \<open>What one pass adds: the keys \<open>K\<close>, with every new member well placed.\<close>

definition extends :: "(ustring \<Rightarrow> ustring) \<Rightarrow> db \<Rightarrow> selection list \<Rightarrow> selection set \<Rightarrow> draft \<Rightarrow> draft \<Rightarrow> bool" where
  "extends nfc s roots K st st' \<longleftrightarrow>
     (draft_ok st \<longrightarrow> draft_ok st' \<and> set (snd st') = set (snd st) \<union> K)
     \<and> ((\<forall>m \<in> set (fst st). well_placed nfc s roots m) \<longrightarrow> (\<forall>m \<in> set (fst st'). well_placed nfc s roots m))"

lemma extends_refl [simp]: "extends nfc s roots {} st st"
  by (simp add: extends_def)

lemma extends_trans: "extends nfc s roots K st st1 \<Longrightarrow> extends nfc s roots L st1 st2 \<Longrightarrow> extends nfc s roots (K \<union> L) st st2"
  unfolding extends_def by (elim conjE) (intro conjI impI; simp add: Un_assoc)

lemma extends_add:
  "add_member m st = Inr st' \<Longrightarrow> well_placed nfc s roots m \<Longrightarrow> extends nfc s roots {am_key m} st st'"
  using add_member_ok [of m st st'] add_member_all [of m st st' "well_placed nfc s roots"] by (auto simp: extends_def)

lemma place_folders_extends:
  assumes "place_folders nfc root base ds paths st = Inr (paths', st')"
    and "(AFolder, root) \<in> set roots" "segment_ok base" "set ds \<subseteq> set (folders s)" "paths_ok nfc s roots paths"
  shows "paths_ok nfc s roots paths' \<and> extends nfc s roots (Pair AFolder ` d_id ` set ds) st st'"
  using assms
proof (induction ds arbitrary: paths st)
  case (Cons d ds)
  let ?K = "Pair AFolder ` d_id ` set ds"
  obtain path st1 where step:
      "(if d_id d = root then Inr base
        else bindE (require (Option.bind (d_parentId d) paths) (Conflict ''Folder tree changed'')) (\<lambda>parent.
             bindE (archive_segment nfc (d_name d)) (\<lambda>seg. Inr (parent @ [47] @ seg)))) = Inr path"
      "add_member (folder_member d path) st = Inr st1" "place_folders nfc root base ds (paths(d_id d \<mapsto> path)) st1 = Inr (paths', st')"
    using Cons.prems(1) by (auto simp: bindE_eq_Inr simp del: bindE_def)
  have "\<exists>ps. located nfc s roots (d_id d) ps \<and> path = join_with 47 ps"
  proof (cases "d_id d = root")
    case True
    then have "path = base" using step(1) by simp
    then have "located nfc s roots (d_id d) [base] \<and> path = join_with 47 [base]"
      using located.base [OF _ Cons.prems(3)] Cons.prems(2) True by simp
    then show ?thesis by blast
  next
    case False
    then obtain p parent where p: "d_parentId d = Some p" "paths p = Some parent" "segment_ok (nfc (d_name d))"
        "path = parent @ [47] @ nfc (d_name d)"
      using step(1) by (cases "d_parentId d") (auto simp: err_simps archive_segment_Inr)
    then obtain qs where qs: "located nfc s roots p qs" "parent = join_with 47 qs"
      using Cons.prems(5) unfolding paths_ok_def by blast
    have "located nfc s roots (d_id d) (qs @ [nfc (d_name d)])"
      using located.down [OF qs(1) _ p(1,3)] Cons.prems(4) by simp
    moreover have "path = join_with 47 (qs @ [nfc (d_name d)])"
      using p(4) qs(2) join_snoc [of qs 47] located_ok [OF qs(1)] by metis
    ultimately show ?thesis by blast
  qed
  then have wp: "well_placed nfc s roots (folder_member d path)" and po: "paths_ok nfc s roots (paths(d_id d \<mapsto> path))"
    using Cons.prems(5) by (auto simp: well_placed_def member_at_def paths_ok_def)
  have one: "extends nfc s roots {(AFolder, d_id d)} st st1" using extends_add [OF step(2) wp] by simp
  have "set ds \<subseteq> set (folders s)" using Cons.prems(4) by simp
  note tail = Cons.IH [OF step(3) Cons.prems(2,3) this po]
  have "{(AFolder, d_id d)} \<union> ?K = Pair AFolder ` d_id ` set (d # ds)" by simp
  then show ?case using extends_trans [OF one tail [THEN conjunct2]] tail by simp
qed simp

lemma place_files_extends:
  assumes "place_files nfc paths fs st = Inr st'" "paths_ok nfc s roots paths"
  shows "extends nfc s roots (Pair AFile ` f_id ` set fs) st st'"
  using assms(1)
proof (induction fs arbitrary: st)
  case (Cons f fs)
  obtain parent p m st1 where step: "f_parentId f = Some p" "paths p = Some parent" "segment_ok (nfc (f_name f))"
      "file_member f (parent @ [47] @ nfc (f_name f)) = Inr m" "add_member m st = Inr st1" "place_files nfc paths fs st1 = Inr st'"
    using Cons.prems by (cases "f_parentId f") (auto simp: err_simps archive_segment_Inr)
  obtain qs where qs: "located nfc s roots p qs" "parent = join_with 47 qs"
    using step(2) assms(2) unfolding paths_ok_def by blast
  note m = file_member_Inr [OF step(4)]
  have "am_path m = join_with 47 (qs @ [nfc (f_name f)])"
    using m qs(2) join_snoc [of qs 47] located_ok [OF qs(1)] by metis
  moreover have "member_at nfc s roots m (qs @ [nfc (f_name f)])"
    using m step(1,3) qs(1) by (simp add: member_at_def)
  ultimately have "well_placed nfc s roots m" unfolding well_placed_def by blast
  then have "extends nfc s roots {(AFile, f_id f)} st st1" using extends_add [OF step(5)] m by metis
  from extends_trans [OF this Cons.IH [OF step(6)]] show ?case by simp
qed simp


text \<open>Everything a selected folder brings in.\<close>

definition span_of :: "db \<Rightarrow> nat \<Rightarrow> nat \<Rightarrow> selection set" where
  "span_of s user k =
     Pair AFolder ` {j. below_root s user k j} \<union> Pair AFile ` f_id ` {f. live_in s user {j. below_root s user k j} f}"

lemma span_mono: "below_root s user root k \<Longrightarrow> span_of s user k \<subseteq> span_of s user root"
proof -
  assume "below_root s user root k"
  then have "{j. below_root s user k j} \<subseteq> {j. below_root s user root j}" using below_root_trans by blast
  moreover from this have "{f. live_in s user {j. below_root s user k j} f} \<subseteq> {f. live_in s user {j. below_root s user root j} f}"
    unfolding live_in_def by (intro Collect_mono) (meson image_mono subsetD)
  ultimately show ?thesis unfolding span_of_def by (intro Un_mono image_mono)
qed

definition spans_closed :: "db \<Rightarrow> nat \<Rightarrow> selection set \<Rightarrow> bool" where
  "spans_closed s user K \<longleftrightarrow> (\<forall>k. (AFolder, k) \<in> K \<longrightarrow> span_of s user k \<subseteq> K)"

lemma spans_closed_Un: "spans_closed s user K \<Longrightarrow> spans_closed s user (K \<union> span_of s user root)"
  unfolding spans_closed_def
proof (intro allI impI)
  fix k assume a: "\<forall>k. (AFolder, k) \<in> K \<longrightarrow> span_of s user k \<subseteq> K" and "(AFolder, k) \<in> K \<union> span_of s user root"
  then consider "(AFolder, k) \<in> K" | "below_root s user root k" by (auto simp: span_of_def)
  then show "span_of s user k \<subseteq> K \<union> span_of s user root"
  proof cases
    case 1
    then show ?thesis using a by blast
  next
    case 2
    then show ?thesis using span_mono by blast
  qed
qed

lemma place_folder_roots_extends:
  assumes "place_folder_roots nfc lower s user rs names st = Inr (names', st')"
    and "\<forall>(d, depth, k) \<in> set rs. (AFolder, k) \<in> set roots" "draft_ok st" "spans_closed s user (set (snd st))"
  shows "extends nfc s roots (\<Union>(d, depth, k) \<in> set rs. span_of s user k) st st'"
  using assms
proof (induction rs arbitrary: names st)
  case (Cons r rs)
  obtain d depth root where r: "r = (d, depth, root)" by (cases r)
  let ?rest = "\<Union>(d, depth, k) \<in> set rs. span_of s user k"
  show ?case
  proof (cases "(AFolder, root) \<in> set (snd st)")
    case True
    then have "extends nfc s roots ?rest st st'" using Cons r by simp
    moreover have "span_of s user root \<subseteq> set (snd st)" using True Cons.prems(4) by (simp add: spans_closed_def)
    ultimately show ?thesis unfolding r extends_def by auto
  next
    case False
    obtain base names1 ds fs paths st1 st2 where step: "reserveRootName nfc lower (d_name d) names = Inr (base, names1)"
        "folderTree s user root = Inr (ds, fs)" "place_folders nfc root base ds (\<lambda>_. None) st = Inr (paths, st1)"
        "place_files nfc paths fs st1 = Inr st2" "place_folder_roots nfc lower s user rs names1 st2 = Inr (names', st')"
      using Cons.prems(1) False unfolding r by (auto simp: err_simps)
    note tree = folderTree_exact [OF step(2)]
    have ds: "set ds \<subseteq> set (folders s)" using tree(2) by (auto simp: live_dir_def)
    have none: "paths_ok nfc s roots (\<lambda>_. None)" by (simp add: paths_ok_def)
    have sel: "(AFolder, root) \<in> set roots" using Cons.prems(2) r by simp
    note placed = place_folders_extends [OF step(3) sel reserveRootName_ok [OF step(1)] ds none]
    have "extends nfc s roots (Pair AFolder ` d_id ` set ds \<union> Pair AFile ` f_id ` set fs) st st2"
      using extends_trans [OF conjunct2 [OF placed] place_files_extends [OF step(4) conjunct1 [OF placed]]] .
    then have e: "extends nfc s roots (span_of s user root) st st2" using tree(1,3) by (simp add: span_of_def)
    then have st2: "draft_ok st2" "set (snd st2) = set (snd st) \<union> span_of s user root"
      using Cons.prems(3) by (simp_all add: extends_def)
    have "extends nfc s roots ?rest st2 st'"
      using Cons.IH [OF step(5) _ st2(1)] Cons.prems(2) spans_closed_Un [OF Cons.prems(4)] st2(2) by simp
    then show ?thesis using extends_trans [OF e] r by simp
  qed
qed simp

lemma place_file_roots_extends:
  assumes "place_file_roots nfc lower fs names st = Inr st'" "\<forall>f \<in> set fs. (AFile, f_id f) \<in> set roots"
  shows "extends nfc s roots (Pair AFile ` f_id ` set fs) st st'"
  using assms
proof (induction fs arbitrary: names st)
  case (Cons f fs)
  show ?case
  proof (cases "(AFile, f_id f) \<in> set (snd st)")
    case True
    then have "extends nfc s roots (Pair AFile ` f_id ` set fs) st st'" using Cons by simp
    then show ?thesis using True unfolding extends_def by auto
  next
    case False
    obtain name names1 m st1 where step: "reserveRootName nfc lower (f_name f) names = Inr (name, names1)"
        "file_member f name = Inr m" "add_member m st = Inr st1" "place_file_roots nfc lower fs names1 st1 = Inr st'"
      using Cons.prems(1) False by (auto simp: err_simps)
    note m = file_member_Inr [OF step(2)]
    have "member_at nfc s roots m [name]"
      using m reserveRootName_ok [OF step(1)] Cons.prems(2) by (simp add: member_at_def)
    then have "well_placed nfc s roots m" using m unfolding well_placed_def by (metis join_with.simps(2))
    then have "extends nfc s roots {(AFile, f_id f)} st st1" using extends_add [OF step(3)] m by metis
    from extends_trans [OF this Cons.IH [OF step(4)]] Cons.prems(2) show ?thesis by simp
  qed
qed simp

lemma root_rows_exact:
  assumes "root_rows s user roots = Inr (folder_roots, file_roots)"
  shows "map (\<lambda>(d, depth, k). (AFolder, k)) folder_roots = filter (\<lambda>r. fst r = AFolder) roots"
    "map (\<lambda>f. (AFile, f_id f)) file_roots = filter (\<lambda>r. fst r = AFile) roots"
    "\<forall>(kind, k) \<in> set roots. (case kind of AFolder \<Rightarrow> is_ok (archive_ancestors s user k)
       | AFile \<Rightarrow> \<exists>f. archive_file s user k = Inr f \<and> (\<forall>p. f_parentId f = Some p \<longrightarrow> is_ok (archive_ancestors s user p)))"
proof -
  have "map (\<lambda>(d, depth, k). (AFolder, k)) folder_roots = filter (\<lambda>r. fst r = AFolder) roots \<and>
    map (\<lambda>f. (AFile, f_id f)) file_roots = filter (\<lambda>r. fst r = AFile) roots \<and>
    (\<forall>(kind, k) \<in> set roots. (case kind of AFolder \<Rightarrow> is_ok (archive_ancestors s user k)
       | AFile \<Rightarrow> \<exists>f. archive_file s user k = Inr f \<and> (\<forall>p. f_parentId f = Some p \<longrightarrow> is_ok (archive_ancestors s user p))))"
    using assms
  proof (induction s user roots arbitrary: folder_roots file_roots rule: root_rows.induct)
    case (2 s user k roots)
    then show ?case by (fastforce simp: err_simps)
  next
    case (3 s user k roots)
    obtain f fs where f: "archive_file s user k = Inr f" "is_ok (case f_parentId f of None \<Rightarrow> Inr [] | Some p \<Rightarrow> archive_ancestors s user p)"
        "root_rows s user roots = Inr (folder_roots, fs)" "file_roots = f # fs"
      using 3(2) by (auto simp: err_simps)
    have "f_id f = k" using f(1) by (auto simp: archive_file_def err_simps dest: find_SomeD)
    moreover have "is_ok (archive_ancestors s user p)" if "f_parentId f = Some p" for p using f(2) that by simp
    moreover have "map (\<lambda>(d, depth, k). (AFolder, k)) folder_roots = filter (\<lambda>r. fst r = AFolder) roots \<and>
      map (\<lambda>f. (AFile, f_id f)) fs = filter (\<lambda>r. fst r = AFile) roots \<and>
      (\<forall>(kind, k) \<in> set roots. (case kind of AFolder \<Rightarrow> is_ok (archive_ancestors s user k)
       | AFile \<Rightarrow> \<exists>f. archive_file s user k = Inr f \<and> (\<forall>p. f_parentId f = Some p \<longrightarrow> is_ok (archive_ancestors s user p))))"
      by (rule 3(1)) (rule f(3))
    ultimately show ?case using f(1,4) by auto
  qed simp
  then show "map (\<lambda>(d, depth, k). (AFolder, k)) folder_roots = filter (\<lambda>r. fst r = AFolder) roots"
    "map (\<lambda>f. (AFile, f_id f)) file_roots = filter (\<lambda>r. fst r = AFile) roots"
    "\<forall>(kind, k) \<in> set roots. (case kind of AFolder \<Rightarrow> is_ok (archive_ancestors s user k)
       | AFile \<Rightarrow> \<exists>f. archive_file s user k = Inr f \<and> (\<forall>p. f_parentId f = Some p \<longrightarrow> is_ok (archive_ancestors s user p)))"
    by blast+
qed


section \<open>The manifest\<close>

lemma manifest_loop_ok:
  assumes "manifest_loop nfc lower paths bytes ms = Inr ()" "bytes \<le> MAX_BYTES"
  shows "distinct (map (\<lambda>m. lower (nfc (am_path m))) ms) \<and> set (map (\<lambda>m. lower (nfc (am_path m))) ms) \<inter> set paths = {}
    \<and> (\<forall>m \<in> set ms. length (am_path m) \<le> 1024 \<and> length (split_on 47 (am_path m)) \<le> MAX_DEPTH + 1)
    \<and> bytes + total am_size (filter (\<lambda>m. \<not> am_isFolder m) ms) \<le> MAX_BYTES"
  using assms
proof (induction nfc lower paths bytes ms rule: manifest_loop.induct)
  case (2 nfc lower paths bytes m ms)
  show ?case
  proof (cases "am_isFolder m")
    case True
    then show ?thesis using 2(1) [OF refl refl] 2(3,4) by (auto simp: Let_def split: if_splits)
  next
    case False
    then show ?thesis using 2(2) [OF refl refl] 2(3,4) by (auto simp: Let_def split: if_splits)
  qed
qed simp

lemma plan_run:
  assumes "plan nfc lower s user roots = Inr mf"
  obtains folder_roots file_roots names st st' where
    "root_rows s user roots = Inr (folder_roots, file_roots)"
    "place_folder_roots nfc lower s user (sort_key snd folder_roots) [] ([], []) = Inr (names, st)"
    "place_file_roots nfc lower (sort_key f_id file_roots) names st = Inr st'"
    "fst st' \<noteq> []" "manifest_loop nfc lower [] 0 (fst st') = Inr ()" "mf = \<lparr>mf_roots = roots, mf_members = fst st'\<rparr>"
  using assms by (auto simp: plan_def validateManifest_def err_simps split: if_splits)

lemma plan_draft:
  assumes "plan nfc lower s user roots = Inr mf"
  shows "\<exists>seen. draft_ok (mf_members mf, seen) \<and> (\<forall>m \<in> set (mf_members mf). well_placed nfc s roots m) \<and>
    set seen = (\<Union>(kind, k) \<in> {r \<in> set roots. fst r = AFolder}. span_of s user k) \<union> {r \<in> set roots. fst r = AFile}"
proof -
  obtain folder_roots file_roots names st st' where run:
    "root_rows s user roots = Inr (folder_roots, file_roots)"
    "place_folder_roots nfc lower s user (sort_key snd folder_roots) [] ([], []) = Inr (names, st)"
    "place_file_roots nfc lower (sort_key f_id file_roots) names st = Inr st'"
    "mf_members mf = fst st'"
    using plan_run [OF assms] by (metis manifest.select_convs(2))
  have dirs: "(\<lambda>(d, depth, k). (AFolder, k)) ` set folder_roots = {r \<in> set roots. fst r = AFolder}"
    using arg_cong [OF root_rows_exact(1) [OF run(1)], of set] by simp
  have docs: "(\<lambda>f. (AFile, f_id f)) ` set file_roots = {r \<in> set roots. fst r = AFile}"
    using arg_cong [OF root_rows_exact(2) [OF run(1)], of set] by simp
  have "(AFolder, k) \<in> set roots" if "(d, depth, k) \<in> set folder_roots" for d depth k
  proof -
    have "(AFolder, k) \<in> (\<lambda>(d, depth, k). (AFolder, k)) ` set folder_roots"
      using that by (intro image_eqI [of _ _ "(d, depth, k)"]) simp_all
    then show ?thesis unfolding dirs by simp
  qed
  then have "\<forall>(d, depth, k) \<in> set (sort_key snd folder_roots). (AFolder, k) \<in> set roots" by auto
  then have e: "extends nfc s roots (\<Union>(d, depth, k) \<in> set folder_roots. span_of s user k) ([], []) st"
    using place_folder_roots_extends [OF run(2)] by (simp add: draft_ok_def spans_closed_def)
  have "\<forall>f \<in> set (sort_key f_id file_roots). (AFile, f_id f) \<in> set roots" using docs by auto
  then have "extends nfc s roots (Pair AFile ` f_id ` set file_roots) st st'"
    using place_file_roots_extends [OF run(3)] by simp
  from extends_trans [OF e this] have "draft_ok st'" "\<forall>m \<in> set (fst st'). well_placed nfc s roots m"
      "set (snd st') = (\<Union>(d, depth, k) \<in> set folder_roots. span_of s user k) \<union> Pair AFile ` f_id ` set file_roots"
    using draft_ok_Nil by (simp_all add: extends_def)
  moreover have "(\<Union>(d, depth, k) \<in> set folder_roots. span_of s user k)
      = (\<Union>(kind, k) \<in> {r \<in> set roots. fst r = AFolder}. span_of s user k)"
    unfolding dirs [symmetric] by (simp add: case_prod_unfold)
  moreover have "Pair AFile ` f_id ` set file_roots = {r \<in> set roots. fst r = AFile}"
    using docs by (simp add: image_image)
  ultimately show ?thesis using run(4) by (intro exI [of _ "snd st'"]) simp
qed

definition authorised_root :: "db \<Rightarrow> nat \<Rightarrow> selection \<Rightarrow> bool" where
  "authorised_root s user r \<longleftrightarrow>
     (case r of
        (AFolder, k) \<Rightarrow> is_ok (archive_ancestors s user k)
      | (AFile, k) \<Rightarrow> \<exists>f. archive_file s user k = Inr f \<and> (case f_parentId f of None \<Rightarrow> True | Some p \<Rightarrow> is_ok (archive_ancestors s user p)))"

text \<open>
  C9: the manifest of a plan has every selected file and, for every selected folder, exactly the live
  folders and files of the user below it, each of them once, whatever the overlaps of the selection; and
  every selected root was reachable through live folders of the user.
\<close>

theorem plan_selects_exactly:
  assumes "plan nfc lower s user roots = Inr mf"
  shows "mf_roots mf = roots \<and> distinct (map am_key (mf_members mf)) \<and> length (mf_members mf) \<le> 5000
    \<and> set (map am_key (mf_members mf)) =
        (\<Union>(kind, k) \<in> {r \<in> set roots. fst r = AFolder}. span_of s user k) \<union> {r \<in> set roots. fst r = AFile}
    \<and> list_all (authorised_root s user) roots"
proof (intro conjI)
  show "mf_roots mf = roots" using plan_run [OF assms] by (metis manifest.select_convs(1))
  obtain seen where "draft_ok (mf_members mf, seen)"
      "set seen = (\<Union>(kind, k) \<in> {r \<in> set roots. fst r = AFolder}. span_of s user k) \<union> {r \<in> set roots. fst r = AFile}"
    using plan_draft [OF assms] by blast
  then show "distinct (map am_key (mf_members mf))" "length (mf_members mf) \<le> 5000"
    "set (map am_key (mf_members mf)) =
        (\<Union>(kind, k) \<in> {r \<in> set roots. fst r = AFolder}. span_of s user k) \<union> {r \<in> set roots. fst r = AFile}"
    by (simp_all add: draft_ok_def MAX_MEMBERS_def)
  obtain folder_roots file_roots where "root_rows s user roots = Inr (folder_roots, file_roots)"
    using plan_run [OF assms] by blast
  from root_rows_exact(3) [OF this] show "list_all (authorised_root s user) roots"
    unfolding list_all_iff authorised_root_def by (fastforce split: archive_kind.splits option.splits)
qed

text \<open>
  C15: every path of a planned archive is relative and made of at most 33 portable names without
  separators, dots or device names, which spell the folders on the way from a selected root to the
  member; no two paths are equal up to case and normalisation, and the files sum up to at most 100 GiB.
\<close>

theorem plan_paths_safe:
  assumes "plan nfc lower s user roots = Inr mf"
  shows "list_all (\<lambda>m. \<exists>ps. member_at nfc s roots m ps \<and> am_path m = join_with 47 ps \<and> length ps \<le> 33
      \<and> list_all segment_ok ps \<and> length (am_path m) \<le> 1024) (mf_members mf)
    \<and> distinct (map (\<lambda>m. lower (nfc (am_path m))) (mf_members mf))
    \<and> total am_size (filter (\<lambda>m. \<not> am_isFolder m) (mf_members mf)) \<le> 100 * 1024 ^ 3"
proof -
  have loop: "manifest_loop nfc lower [] 0 (mf_members mf) = Inr ()"
    using plan_run [OF assms] by (metis manifest.select_convs(2))
  note ok = manifest_loop_ok [OF loop]
  have "\<exists>ps. member_at nfc s roots m ps \<and> am_path m = join_with 47 ps \<and> length ps \<le> 33
      \<and> list_all segment_ok ps \<and> length (am_path m) \<le> 1024" if m: "m \<in> set (mf_members mf)" for m
  proof -
    obtain ps where ps: "member_at nfc s roots m ps" "am_path m = join_with 47 ps"
      using plan_draft [OF assms] m unfolding well_placed_def by blast
    note segs = member_at_ok [OF ps(1)]
    then have "split_on 47 (am_path m) = ps" using join_with_no_sep [of ps 47] segment_no_slash ps(2) by auto
    then have "length ps \<le> 33" "length (am_path m) \<le> 1024" using ok m by (auto simp: MAX_DEPTH_def MAX_BYTES_def)
    then show ?thesis using ps segs by (auto simp: list_all_iff)
  qed
  then show ?thesis using ok by (simp add: list_all_iff MAX_BYTES_def)
qed

definition archive_demo :: db where
  "archive_demo = \<lparr>users = [\<lparr>u_id = 1, u_email = [], u_password = [], u_isActive = True, u_storageQuota = 9, u_storageUsed = 3\<rparr>],
     files =
       [(new_file (js ''docs'') \<lparr>pl_storagePath = [], pl_storageLocationId = [], pl_relativeObjectKey = []\<rparr> 0 None None 1)
          \<lparr>f_id := 1, f_isFolder := True, f_folderId := Some 1\<rparr>,
        (new_file (js ''sub'') \<lparr>pl_storagePath = [], pl_storageLocationId = [], pl_relativeObjectKey = []\<rparr> 0 None (Some 1) 1)
          \<lparr>f_id := 2, f_isFolder := True, f_folderId := Some 2\<rparr>,
        (new_file (js ''a'') \<lparr>pl_storagePath = js ''/s/a'', pl_storageLocationId = [], pl_relativeObjectKey = []\<rparr> 3 None (Some 2) 1)
          \<lparr>f_id := 3\<rparr>,
        (new_file (js ''docs'') \<lparr>pl_storagePath = js ''/s/b'', pl_storageLocationId = [], pl_relativeObjectKey = []\<rparr> 4 None None 1)
          \<lparr>f_id := 4\<rparr>],
     folders = [\<lparr>d_id = 2, d_name = js ''sub'', d_isDeleted = False, d_deletedAt = None, d_parentId = Some 1, d_userId = 1\<rparr>,
       \<lparr>d_id = 1, d_name = js ''docs'', d_isDeleted = False, d_deletedAt = None, d_parentId = None, d_userId = 1\<rparr>],
     next_file = 5, next_folder = 3\<rparr>"

definition archive_demo_plan :: "manifest res" where
  "archive_demo_plan = plan id id archive_demo 1 [(AFolder, 2), (AFile, 4), (AFolder, 1)]"

lemma archive_demo_ok:
  "case archive_demo_plan of Inl _ \<Rightarrow> False
     | Inr mf \<Rightarrow> length (mf_members mf) = 4 \<and> js ''docs/sub/a'' \<in> set (map am_path (mf_members mf))"
  by code_simp

lemma archive_demo_Inr:
  "\<exists>mf. plan id id archive_demo 1 [(AFolder, 2), (AFile, 4), (AFolder, 1)] = Inr mf \<and> archive_demo_plan = Inr mf
     \<and> length (mf_members mf) = 4 \<and> js ''docs/sub/a'' \<in> set (map am_path (mf_members mf))"
  using archive_demo_ok unfolding archive_demo_plan_def by (auto split: sum.splits)

theorem plan_selects_exactly_witness:
  "\<exists>mf. archive_demo_plan = Inr mf \<and> length (mf_members mf) = 4 \<and> distinct (map am_key (mf_members mf))"
  using archive_demo_Inr plan_selects_exactly by blast

theorem plan_paths_safe_witness:
  "\<exists>mf. archive_demo_plan = Inr mf \<and> js ''docs/sub/a'' \<in> set (map am_path (mf_members mf))
     \<and> distinct (map (\<lambda>m. id (id (am_path m))) (mf_members mf))"
  using archive_demo_Inr plan_paths_safe by blast

end
