(* ===== verification/ArchiveStreamClaims.thy ===== *)
theory ArchiveStreamClaims
  imports ArchivePlan
begin

text \<open>What a stream of an archive hands out, entry by entry.\<close>

definition entry_length :: "zip_entry \<Rightarrow> int" where
  "entry_length e = (case e of ZipFolder _ \<Rightarrow> 0 | ZipFile _ content \<Rightarrow> int (length content))"

text \<open>Entry \<open>e\<close> is the member \<open>m\<close>, still what it was planned as when it was checked.\<close>

definition entry_ok :: "nat \<Rightarrow> db \<Rightarrow> db \<Rightarrow> archive_member \<Rightarrow> zip_entry \<Rightarrow> bool" where
  "entry_ok user before after m e \<longleftrightarrow> revalidateEntry before user m = Inr () \<and>
     (if am_isFolder m then e = ZipFolder (if am_path m = [] then [46, 47] else am_path m @ [47])
      else revalidateEntry after user m = Inr () \<and>
        (case e of ZipFolder _ \<Rightarrow> False | ZipFile name content \<Rightarrow> name = am_path m \<and> int (length content) = am_size m))"

lemma stream_member_ok:
  assumes "stream_member (archive_options user before after) trusted root disk i bytes m = Inr (e, bytes')" "bytes \<le> MAX_BYTES"
  shows "entry_ok user (before i) (after i) m e \<and> bytes' = bytes + entry_length e \<and> bytes' \<le> MAX_BYTES"
  using assms
  by (auto simp: stream_member_def archive_options_def entry_ok_def entry_length_def over_def err_simps Let_def split: if_splits)

lemma stream_members_ok:
  assumes "streamArchiveMembers (archive_options user before after) trusted root disk i bytes ms = (es, r)" "bytes \<le> MAX_BYTES"
  shows "length es \<le> length ms \<and> (\<forall>j < length es. entry_ok user (before (i + j)) (after (i + j)) (ms ! j) (es ! j))
    \<and> bytes + total entry_length es \<le> MAX_BYTES \<and> (is_ok r \<longrightarrow> length es = length ms)"
  using assms
proof (induction ms arbitrary: i bytes es)
  case (Cons m ms)
  show ?case
  proof (cases "stream_member (archive_options user before after) trusted root disk i bytes m")
    case (Inr p)
    obtain e bytes' where p: "p = (e, bytes')" by (cases p)
    obtain es' where es': "streamArchiveMembers (archive_options user before after) trusted root disk (Suc i) bytes' ms = (es', r)" "es = e # es'"
      using Cons.prems(1) Inr p by (auto split: prod.splits)
    note one = stream_member_ok [OF Inr [unfolded p] Cons.prems(2)]
    then have bound: "bytes' \<le> MAX_BYTES" by simp
    note tail = Cons.IH [OF es'(1) bound]
    have "entry_ok user (before (i + j)) (after (i + j)) ((m # ms) ! j) (es ! j)" if "j < length es" for j
      using that tail one es'(2) by (cases j) auto
    then show ?thesis using tail one es'(2) by auto
  qed (use Cons.prems in auto)
qed auto

text \<open>
  C14: the entries of an archive are the first members of the manifest that the capability carries, in
  order; at the moment of each entry the row, its name and its place in the tree were still those of the
  manifest and every folder above it was still a live folder of the user, so that a change or a deletion
  stops the stream at the next entry; a stream that ends well has every member, and together they never
  exceed 100 GiB.
\<close>

theorem stream_is_authorised:
  assumes "stream_archive env s user original before after disk = (es, r)"
  shows "length es \<le> length (mf_members original)
    \<and> (\<forall>i < length es. entry_ok user (before i) (after i) (mf_members original ! i) (es ! i))
    \<and> total entry_length es \<le> 100 * 1024 ^ 3
    \<and> (is_ok r \<longrightarrow> length es = length (mf_members original)
         \<and> plan (ae_nfc env) (ae_lower env) s user (mf_roots original) = Inr original)"
proof (cases "streamArchiveMembers (archive_options user before after) (ae_trusted env) (ae_root env) disk 0 0 (mf_members original) = (es, r)
    \<and> plan (ae_nfc env) (ae_lower env) s user (mf_roots original) = Inr original")
  case True
  then show ?thesis
    using stream_members_ok [of user before after "ae_trusted env" "ae_root env" disk 0 0 "mf_members original" es r]
    by (simp add: MAX_BYTES_def)
next
  case False
  have "es = [] \<and> \<not> is_ok r"
  proof (cases "2 \<le> ae_active env \<or> plan (ae_nfc env) (ae_lower env) s user (mf_roots original) \<noteq> Inr original")
    case True
    then show ?thesis using assms unfolding stream_archive_def by (auto split: if_splits sum.splits)
  next
    case plan: False
    then obtain e where e: "preflight (ae_trusted env) (ae_root env) (ae_disk env) original = Inl e"
      using assms False unfolding stream_archive_def
      by (cases "preflight (ae_trusted env) (ae_root env) (ae_disk env) original") simp_all
    have "(es, r) = ([], Inl e)" using assms plan unfolding stream_archive_def by (simp add: e)
    then show ?thesis by simp
  qed
  then show ?thesis by simp
qed

definition stream_demo :: "file_row list \<Rightarrow> db" where
  "stream_demo fs = \<lparr>users = [\<lparr>u_id = 1, u_email = [], u_password = [], u_isActive = True, u_storageQuota = 9, u_storageUsed = 3\<rparr>],
     files = fs, folders = [], next_file = 5, next_folder = 3\<rparr>"

definition stream_demo_file :: file_row where
  "stream_demo_file = (new_file (js ''a'') \<lparr>pl_storagePath = js ''/s/a'', pl_storageLocationId = LEGACY_STORAGE_ID,
     pl_relativeObjectKey = js ''a''\<rparr> 3 None None 1)\<lparr>f_id := 3\<rparr>"

definition stream_demo_env :: archive_env where
  "stream_demo_env = \<lparr>ae_nfc = id, ae_lower = id, ae_trusted = \<lambda>_. True, ae_root = js ''/s'', ae_disk = \<lambda>_. Some [1, 2, 3], ae_active = 0\<rparr>"

definition stream_demo_plan :: manifest where
  "stream_demo_plan = \<lparr>mf_roots = [(AFile, 3)], mf_members = [\<lparr>am_kind = AFile, am_id = 3, am_parentId = None,
     am_name = js ''a'', am_path = js ''a'', am_isFolder = False, am_storagePath = Some (js ''/s/a''),
     am_storageLocationId = Some LEGACY_STORAGE_ID, am_relativeObjectKey = Some (js ''a''), am_size = 3\<rparr>]\<rparr>"

text \<open>The file is in the archive while it lives, and the stream stops when it is in the trash.\<close>

theorem stream_is_authorised_witness:
  "(let live = stream_demo [stream_demo_file]; trashed = stream_demo [stream_demo_file\<lparr>f_isDeleted := True\<rparr>];
        run = (\<lambda>s. stream_archive stream_demo_env live 1 stream_demo_plan (\<lambda>_. live) (\<lambda>_. s) (\<lambda>_ _. Some [1, 2, 3]))
    in run live = ([ZipFile (js ''a'') [1, 2, 3]], Inr ()) \<and> fst (run trashed) = []
       \<and> plan id id live 1 [(AFile, 3)] = Inr stream_demo_plan)"
proof -
  let ?live = "stream_demo [stream_demo_file]" and ?trashed = "stream_demo [stream_demo_file\<lparr>f_isDeleted := True\<rparr>]"
  let ?run = "\<lambda>s. stream_archive stream_demo_env ?live 1 stream_demo_plan (\<lambda>_. ?live) (\<lambda>_. s) (\<lambda>_ _. Some [1, 2, 3])"
  have run: "?run ?live = ([ZipFile (js ''a'') [1, 2, 3]], Inr ())" "fst (?run ?trashed) = []" by code_simp+
  show ?thesis using run stream_is_authorised [OF run(1)] by (simp add: Let_def stream_demo_env_def stream_demo_plan_def)
qed

end
