(* ===== verification/SsdJournal.thy ===== *)
theory SsdJournal
  imports Uploads
begin

text \<open>
  The journal of finalizations from the SSD to the disk (backend/src/uploads/ssd-finalization-store.ts,
  ssd-finalization-contract.ts, ssd-recovery-contract.ts) with the triggers that guard it
  (backend/src/migrations/1746825190000-SsdFinalizationRecovery.ts and the later journal guard).  Every
  operation is one transaction: an exception leaves the database as it was.  The payload is on a
  modelled pair of file systems; \<open>Ssd\<close> is the production mode of the store.
\<close>

datatype journal_state = Assembling | Verified | Publishing | Published | Committed
datatype ssd_mode = Isolated | Ssd

record binding =
  b_sourceWorkspaceId :: ustring
  b_sourceRoot :: ustring
  b_sourcePath :: ustring
  b_sourceDevice :: ustring
  b_sourceInode :: ustring
  b_sourceDirectoryDevice :: ustring
  b_sourceDirectoryInode :: ustring
  b_targetStorageId :: ustring
  b_targetRoot :: ustring
  b_targetDevice :: ustring
  b_targetInode :: ustring
  b_targetDirectoryDevice :: ustring
  b_targetDirectoryInode :: ustring
  b_temporaryPath :: ustring
  b_storagePath :: ustring
  b_relativeObjectKey :: ustring

text \<open>A device and an inode.\<close>

type_synonym identity = "ustring \<times> ustring"

record ssd_op =
  op_id :: ustring
  op_sessionId :: nat
  op_userId :: nat
  op_uploadId :: ustring
  op_filename :: ustring
  op_parentId :: "nat option"
  op_totalSize :: int
  op_chunkSize :: int
  op_totalChunks :: nat
  op_expectedSha256 :: ustring
  op_binding :: binding
  op_mimeType :: ustring
  op_mimeCheckpointed :: bool
  op_state :: journal_state
  op_fileId :: "nat option"
  op_target :: "identity option"
  op_cleaned :: bool

type_synonym ssd_session = upload_row

record fin_chunk =
  fc_operation :: ustring
  fc_index :: nat
  fc_byteSize :: int
  fc_sha256 :: ustring

record artifact =
  ar_identity :: identity
  ar_bytes :: bytes

text \<open>
  \<open>sw_checksums\<close> is the column \<open>checksum\<close> of the files; \<open>sw_target\<close> has the artifacts on the disk by path,
  \<open>sw_source\<close> the chunks on the SSD by directory and index; \<open>sw_inode\<close> numbers new files.
\<close>

record ssd_world =
  sw_db :: db
  sw_checksums :: "(nat \<times> ustring) list"
  sw_sessions :: "ssd_session list"
  sw_chunks :: "chunk_row list"
  sw_ops :: "ssd_op list"
  sw_manifest :: "fin_chunk list"
  sw_target :: "(ustring \<times> artifact) list"
  sw_source :: "((ustring \<times> nat) \<times> artifact) list"
  sw_inode :: nat


section \<open>Bindings\<close>

definition SSD_UPLOAD_WORKSPACE_ID :: ustring where
  "SSD_UPLOAD_WORKSPACE_ID = js ''99ca4521-b94d-4d54-94a8-7c207af52202''"

definition hex_digit :: "nat \<Rightarrow> bool" where
  "hex_digit c \<longleftrightarrow> lower_hex c \<or> 65 \<le> c \<and> c \<le> 70"

definition uuid_text :: "ustring \<Rightarrow> bool" where
  "uuid_text t \<longleftrightarrow> map length (split_on 45 t) = [8, 4, 4, 4, 12] \<and> (\<forall>c \<in> set t. hex_digit c \<or> c = 45)"

text \<open>\<open>/^(0|[1-9][0-9]*)$/\<close>\<close>

definition fs_number :: "ustring \<Rightarrow> bool" where
  "fs_number t \<longleftrightarrow> t \<noteq> [] \<and> (\<forall>c \<in> set t. digit c) \<and> (hd t = 48 \<longrightarrow> t = [48])"

text \<open>An absolute path that \<open>path.normalize\<close> keeps; a trailing slash is kept.\<close>

definition strip_slash :: "ustring \<Rightarrow> ustring" where
  "strip_slash p = (if p \<noteq> [] \<and> p \<noteq> [47] \<and> last p = 47 then butlast p else p)"

definition normal_path :: "ustring \<Rightarrow> bool" where
  "normal_path p \<longleftrightarrow> is_resolved p \<or> (is_resolved (strip_slash p) \<and> strip_slash p \<noteq> [47])"

definition dirname :: "ustring \<Rightarrow> ustring" where
  "dirname p = (case last_index 47 (strip_slash p) of None \<Rightarrow> [46] | Some i \<Rightarrow> if i = 0 then [47] else take i p)"

definition binding_paths :: "binding \<Rightarrow> ustring list" where
  "binding_paths b = [b_sourceRoot b, b_sourcePath b, b_targetRoot b, b_temporaryPath b, b_storagePath b]"

definition binding_numbers :: "binding \<Rightarrow> ustring list" where
  "binding_numbers b = [b_sourceDevice b, b_sourceInode b, b_targetDevice b, b_targetInode b, b_sourceDirectoryDevice b,
     b_sourceDirectoryInode b, b_targetDirectoryDevice b, b_targetDirectoryInode b]"

definition validateBinding :: "binding \<Rightarrow> unit res" where
  "validateBinding b =
     bindE (ensure (b_sourceWorkspaceId b = SSD_UPLOAD_WORKSPACE_ID \<and> b_targetStorageId b = LEGACY_STORAGE_ID)
       (PlainError ''Invalid finalization identities'')) (\<lambda>_.
     bindE (ensure (list_all (\<lambda>p. normal_path p \<and> 0 \<notin> set p \<and> length p \<le> 500) (binding_paths b))
       (PlainError ''Invalid finalization path'')) (\<lambda>_.
     bindE (ensure (list_all fs_number (binding_numbers b)) (PlainError ''Invalid filesystem identity'')) (\<lambda>_.
     ensure (b_sourceDevice b \<noteq> b_targetDevice b \<and> b_sourceDirectoryDevice b = b_sourceDevice b
         \<and> b_targetDirectoryDevice b = b_targetDevice b \<and> b_sourceRoot b \<noteq> b_targetRoot b
         \<and> starts_with (b_sourceRoot b @ [47]) (b_sourcePath b) \<and> starts_with (b_targetRoot b @ [47]) (b_storagePath b)
         \<and> starts_with (b_targetRoot b @ [47]) (b_temporaryPath b)
         \<and> dirname (b_temporaryPath b) = dirname (b_storagePath b) \<and> b_temporaryPath b \<noteq> b_storagePath b
         \<and> strip_slash (relative (b_targetRoot b) (b_storagePath b)) = b_relativeObjectKey b
         \<and> (\<forall>part \<in> set (split_on 47 (b_relativeObjectKey b)). part \<noteq> [] \<and> part \<noteq> [46] \<and> part \<noteq> [46, 46])
         \<and> \<not> starts_with (js ''.tmp/'') (b_relativeObjectKey b) \<and> \<not> starts_with (js ''.restore-'') (b_relativeObjectKey b))
       (PlainError ''Invalid finalization placement''))))"

definition matchesSessionBinding :: "ssd_mode \<Rightarrow> ssd_session \<Rightarrow> ustring \<Rightarrow> binding \<Rightarrow> bool" where
  "matchesSessionBinding mode u expected b \<longleftrightarrow>
     (case mode of
        Isolated \<Rightarrow> up_workspaceId u = LEGACY_UPLOAD_WORKSPACE_ID
      | Ssd \<Rightarrow> up_workspaceId u = SSD_UPLOAD_WORKSPACE_ID \<and> up_expectedSha256 u = Some expected
               \<and> up_tempPath u = b_sourcePath b)"


section \<open>Outcomes\<close>

definition find_op :: "ustring \<Rightarrow> ssd_world \<Rightarrow> ssd_op option" where
  "find_op k w = find (\<lambda>r. op_id r = k) (sw_ops w)"

definition find_session :: "nat \<Rightarrow> ssd_world \<Rightarrow> ssd_session option" where
  "find_session k w = find (\<lambda>u. up_id u = k) (sw_sessions w)"

definition active_status :: "ssd_session \<Rightarrow> bool" where
  "active_status u \<longleftrightarrow> up_status u = Pending \<or> up_status u = Uploading"

text \<open>The columns of the session that the journal froze.\<close>

definition session_agrees :: "ssd_mode \<Rightarrow> ssd_op \<Rightarrow> ssd_session \<Rightarrow> bool" where
  "session_agrees mode r u \<longleftrightarrow> up_userId u = op_userId r \<and> up_uploadId u = op_uploadId r \<and> up_filename u = op_filename r
     \<and> up_parentId u = op_parentId r \<and> up_totalSize u = op_totalSize r \<and> up_chunkSize u = op_chunkSize r
     \<and> up_totalChunks u = op_totalChunks r \<and> up_uploadedCount u = op_totalChunks r \<and> up_uploadedSize u = op_totalSize r
     \<and> up_accountingInitialized u \<and> matchesSessionBinding mode u (op_expectedSha256 r) (op_binding r)"

definition op_files :: "ssd_op \<Rightarrow> ssd_world \<Rightarrow> file_row list" where
  "op_files r w = filter (\<lambda>f. op_fileId r = Some (f_id f) \<or> (f_userId f = op_userId r \<and> f_uploadId f = Some (op_uploadId r)))
     (files (sw_db w))"

definition journal_file :: "ssd_op \<Rightarrow> ssd_world \<Rightarrow> file_row \<Rightarrow> bool" where
  "journal_file r w f \<longleftrightarrow> op_fileId r = Some (f_id f) \<and> f_userId f = op_userId r \<and> f_uploadId f = Some (op_uploadId r)
     \<and> f_name f = op_filename r \<and> f_size f = op_totalSize r \<and> map_of (sw_checksums w) (f_id f) = Some (op_expectedSha256 r)
     \<and> f_parentId f = op_parentId r \<and> \<not> f_isFolder f \<and> \<not> f_isDeleted f
     \<and> f_storageLocationId f = Some (b_targetStorageId (op_binding r))
     \<and> f_relativeObjectKey f = Some (b_relativeObjectKey (op_binding r))
     \<and> f_storagePath f = Some (b_storagePath (op_binding r)) \<and> f_mimeType f = Some (op_mimeType r)"

definition journal_ok :: "ssd_op \<Rightarrow> unit res" where
  "journal_ok r =
     bindE (ensure (safe_integer (op_totalSize r)) (PlainError ''Unsafe finalization size'')) (\<lambda>_.
     bindE (validateBinding (op_binding r)) (\<lambda>_.
     bindE (ensure (\<not> ((op_state r = Committed) \<noteq> (op_fileId r \<noteq> None) \<or> (op_cleaned r \<and> op_state r \<noteq> Committed)))
       (PlainError ''Ambiguous finalization journal'')) (\<lambda>_.
     ensure (\<not> ((case op_target r of None \<Rightarrow> False
                  | Some (device, inode) \<Rightarrow> \<not> fs_number device \<or> \<not> fs_number inode \<or> device \<noteq> b_targetDevice (op_binding r))
                \<or> (op_state r \<noteq> Assembling \<and> op_target r = None)))
       (PlainError ''Ambiguous finalization target identity''))))"

definition outcome :: "ssd_mode \<Rightarrow> ssd_op \<Rightarrow> ssd_world \<Rightarrow> file_row option res" where
  "outcome mode r w =
     bindE (journal_ok r) (\<lambda>_.
     if op_cleaned r then Inr (find (\<lambda>f. op_fileId r = Some (f_id f)) (op_files r w))
     else
       bindE (ensure (case filter (\<lambda>u. up_id u = op_sessionId r) (sw_sessions w) of
                 [u] \<Rightarrow> session_agrees mode r u \<and> (if op_state r = Committed then up_status u = Completed else active_status u)
               | _ \<Rightarrow> False)
         (PlainError ''Ambiguous finalization session outcome'')) (\<lambda>_.
       if op_state r \<noteq> Committed
       then bindE (ensure (op_files r w = []) (PlainError ''Ambiguous uncommitted File outcome'')) (\<lambda>_. Inr None)
       else (case op_files r w of
               [f] \<Rightarrow> if journal_file r w f then Inr (Some f) else Inl (PlainError ''Ambiguous committed File outcome'')
             | _ \<Rightarrow> Inl (PlainError ''Ambiguous committed File outcome''))))"

definition lookup_op :: "ssd_mode \<Rightarrow> ustring \<Rightarrow> ssd_world \<Rightarrow> (ssd_op \<times> file_row option) res" where
  "lookup_op mode k w =
     bindE (ensure (uuid_text k) (PlainError ''Invalid operation identity'')) (\<lambda>_.
     bindE (require (find_op k w) (PlainError ''Unknown finalization operation'')) (\<lambda>r.
     bindE (outcome mode r w) (\<lambda>f. Inr (r, f))))"

definition put_op :: "ssd_op \<Rightarrow> ssd_world \<Rightarrow> ssd_world" where
  "put_op r w = w\<lparr>sw_ops := map (\<lambda>x. if op_id x = op_id r then r else x) (sw_ops w)\<rparr>"

definition recordTarget :: "ustring \<Rightarrow> identity \<Rightarrow> ssd_world \<Rightarrow> ssd_world res" where
  "recordTarget k i w =
     bindE (ensure (uuid_text k \<and> fs_number (fst i) \<and> fs_number (snd i)) (PlainError ''Invalid target identity checkpoint'')) (\<lambda>_.
     bindE (require (find_op k w) (PlainError ''Target identity checkpoint requires assembling operation'')) (\<lambda>r.
     bindE (ensure (op_state r = Assembling \<and> fst i = b_targetDevice (op_binding r))
       (PlainError ''Target identity checkpoint requires assembling operation'')) (\<lambda>_.
     case op_target r of
       Some j \<Rightarrow> bindE (ensure (j = i) (PlainError ''Target identity checkpoint is immutable'')) (\<lambda>_. Inr w)
     | None \<Rightarrow> Inr (put_op (r\<lparr>op_target := Some i\<rparr>) w))))"

text \<open>\<open>/^[a-z0-9][a-z0-9!#$&^_.+-]*\/[a-z0-9][a-z0-9!#$&^_.+-]*$/\<close>\<close>

definition mime_part :: "ustring \<Rightarrow> bool" where
  "mime_part t \<longleftrightarrow> t \<noteq> [] \<and> (\<forall>c \<in> set t. digit c \<or> (97 \<le> c \<and> c \<le> 122) \<or> c \<in> set (js ''!#$&^_.+-''))
     \<and> (digit (hd t) \<or> (97 \<le> hd t \<and> hd t \<le> 122))"

definition mime_ok :: "ustring \<Rightarrow> bool" where
  "mime_ok t \<longleftrightarrow> length t \<le> 255 \<and> trim t = t \<and> length (split_on 47 t) = 2 \<and> list_all mime_part (split_on 47 t)"

definition recordMimeType :: "ssd_mode \<Rightarrow> ustring \<Rightarrow> ustring \<Rightarrow> ssd_world \<Rightarrow> ssd_world res" where
  "recordMimeType mode k mime w =
     bindE (ensure (uuid_text k \<and> mime_ok mime) (PlainError ''Invalid MIME checkpoint'')) (\<lambda>_.
     bindE (require (find_op k w) (PlainError ''MIME checkpoint requires verified operation'')) (\<lambda>r.
     bindE (ensure (op_state r = Verified) (PlainError ''MIME checkpoint requires verified operation'')) (\<lambda>_.
     bindE (outcome mode r w) (\<lambda>_.
     if op_mimeCheckpointed r
     then bindE (ensure (op_mimeType r = mime) (PlainError ''Finalization MIME checkpoint is immutable'')) (\<lambda>_. Inr w)
     else Inr (put_op (r\<lparr>op_mimeType := mime, op_mimeCheckpointed := True\<rparr>) w)))))"

text \<open>A state change passes the trigger only with a recorded target, and for an SSD session with a type.\<close>

definition session_is_ssd :: "ssd_op \<Rightarrow> ssd_world \<Rightarrow> bool" where
  "session_is_ssd r w \<longleftrightarrow> (\<exists>u \<in> set (sw_sessions w). up_id u = op_sessionId r \<and> up_workspaceId u = SSD_UPLOAD_WORKSPACE_ID)"

definition guard_transition :: "ssd_op \<Rightarrow> journal_state \<Rightarrow> ssd_world \<Rightarrow> unit res" where
  "guard_transition r to w =
     bindE (ensure (\<not> (to = Publishing \<and> \<not> op_mimeCheckpointed r \<and> session_is_ssd r w))
       (DbError ''SSD publishing requires MIME checkpoint'')) (\<lambda>_.
     bindE (ensure ((op_state r, to) \<in> set [(Assembling, Verified), (Verified, Publishing), (Publishing, Published), (Published, Committed)])
       (DbError ''Invalid finalization transition'')) (\<lambda>_.
     ensure (op_target r \<noteq> None) (DbError ''Finalization requires target identity checkpoint'')))"

definition transition :: "ustring \<Rightarrow> journal_state \<Rightarrow> journal_state \<Rightarrow> ssd_world \<Rightarrow> ssd_world res" where
  "transition k from to w =
     (case find_op k w of
        None \<Rightarrow> Inl (PlainError ''Finalization state conflict'')
      | Some r \<Rightarrow>
          if op_state r \<noteq> from then Inl (PlainError ''Finalization state conflict'')
          else bindE (guard_transition r to w) (\<lambda>_. Inr (put_op (r\<lparr>op_state := to\<rparr>) w)))"

definition finishCleanup :: "ssd_mode \<Rightarrow> ustring \<Rightarrow> ssd_world \<Rightarrow> ssd_world res" where
  "finishCleanup mode k w =
     bindE (ensure (uuid_text k) (PlainError ''Invalid operation identity'')) (\<lambda>_.
     bindE (require (find_op k w) (PlainError ''Cleanup requires authoritative committed outcome'')) (\<lambda>r.
     bindE (ensure (op_state r = Committed) (PlainError ''Cleanup requires authoritative committed outcome'')) (\<lambda>_.
     if op_cleaned r then Inr w
     else bindE (outcome mode r w) (\<lambda>_.
       Inr ((put_op (r\<lparr>op_cleaned := True\<rparr>) w)\<lparr>sw_chunks := filter (\<lambda>c. ch_session c \<noteq> op_sessionId r) (sw_chunks w)\<rparr>)))))"


section \<open>Reservation and commit\<close>

definition validateOwnerAndParent :: "nat \<Rightarrow> nat option \<Rightarrow> ssd_world \<Rightarrow> user_row res" where
  "validateOwnerAndParent user parent w =
     bindE (require (find (\<lambda>u. u_id u = user) (users (sw_db w))) (PlainError ''Finalization owner unavailable'')) (\<lambda>owner.
     bindE (ensure (u_isActive owner) (PlainError ''Finalization owner unavailable'')) (\<lambda>_.
     bindE (ensure (case parent of None \<Rightarrow> True | Some p \<Rightarrow> live_folder (sw_db w) user p)
       (PlainError ''Finalization parent unavailable'')) (\<lambda>_. Inr owner)))"

record begin_input =
  bi_id :: ustring
  bi_userId :: nat
  bi_uploadId :: ustring
  bi_expectedSha256 :: ustring
  bi_binding :: binding

definition chunk_layout_ok :: "ssd_session \<Rightarrow> chunk_row list \<Rightarrow> bool" where
  "chunk_layout_ok u rows \<longleftrightarrow> length rows = up_totalChunks u \<and> rows \<noteq> [] \<and> Min (set (map ch_index rows)) = 0
     \<and> Suc (Max (set (map ch_index rows))) = up_totalChunks u \<and> total ch_byteSize rows = up_totalSize u
     \<and> (\<forall>c \<in> set rows. sha_text (ch_sha256 c) \<and> ch_index c < up_totalChunks u
          \<and> ch_byteSize c = (if Suc (ch_index c) = up_totalChunks u then up_totalSize u - int (ch_index c) * up_chunkSize u
                             else up_chunkSize u))"

definition begin_request :: "begin_input \<Rightarrow> unit res" where
  "begin_request i =
     bindE (ensure (uuid_text (bi_id i) \<and> uuid_text (bi_uploadId i) \<and> 0 < bi_userId i \<and> sha_text (bi_expectedSha256 i))
       (PlainError ''Invalid finalization request'')) (\<lambda>_.
     bindE (validateBinding (bi_binding i)) (\<lambda>_.
     ensure (b_sourcePath (bi_binding i) = b_sourceRoot (bi_binding i) @ [47] @ bi_uploadId i
         \<and> b_relativeObjectKey (bi_binding i) = dec (bi_userId i) @ [47] @ bi_id i @ js ''.ssd-finalized''
         \<and> b_temporaryPath (bi_binding i) = b_targetRoot (bi_binding i) @ [47] @ dec (bi_userId i) @ js ''/.'' @ bi_id i @ js ''.assembling'')
       (PlainError ''Invalid isolated finalization paths'')))"

definition session_complete :: "ssd_mode \<Rightarrow> int \<Rightarrow> begin_input \<Rightarrow> ssd_session \<Rightarrow> bool" where
  "session_complete mode now i u \<longleftrightarrow> matchesSessionBinding mode u (bi_expectedSha256 i) (bi_binding i) \<and> active_status u
     \<and> up_accountingInitialized u \<and> safe_integer (up_totalSize u) \<and> 0 < up_totalSize u \<and> 0 < up_chunkSize u
     \<and> 0 < up_totalChunks u \<and> int (up_totalChunks u) = ceil_div (up_totalSize u) (up_chunkSize u)
     \<and> up_uploadedCount u = up_totalChunks u \<and> up_uploadedSize u = up_totalSize u
     \<and> (case up_expiresAt u of None \<Rightarrow> True | Some t \<Rightarrow> now < t)"

text \<open>
  The unique constraints of the journal: its key, one operation for a session and for an upload, and one
  operation with pending clean-up in the whole table.
\<close>

definition journal_unique :: "begin_input \<Rightarrow> ssd_session \<Rightarrow> ssd_world \<Rightarrow> bool" where
  "journal_unique i u w \<longleftrightarrow> (\<forall>r \<in> set (sw_ops w). op_id r \<noteq> bi_id i \<and> op_sessionId r \<noteq> up_id u
     \<and> \<not> (op_userId r = bi_userId i \<and> op_uploadId r = bi_uploadId i) \<and> op_cleaned r)"

definition new_op :: "begin_input \<Rightarrow> ssd_session \<Rightarrow> ssd_op" where
  "new_op i u = \<lparr>op_id = bi_id i, op_sessionId = up_id u, op_userId = bi_userId i, op_uploadId = up_uploadId u,
     op_filename = up_filename u, op_parentId = up_parentId u, op_totalSize = up_totalSize u, op_chunkSize = up_chunkSize u,
     op_totalChunks = up_totalChunks u, op_expectedSha256 = bi_expectedSha256 i, op_binding = bi_binding i,
     op_mimeType = js ''application/octet-stream'', op_mimeCheckpointed = False, op_state = Assembling, op_fileId = None,
     op_target = None, op_cleaned = False\<rparr>"

definition begin_op :: "ssd_mode \<Rightarrow> int \<Rightarrow> begin_input \<Rightarrow> ssd_world \<Rightarrow> (ssd_world \<times> ssd_op) res" where
  "begin_op mode now i w =
     bindE (begin_request i) (\<lambda>_.
     case filter (\<lambda>u. up_userId u = bi_userId i \<and> up_uploadId u = bi_uploadId i \<and> up_origin u = OwnerOrigin) (sw_sessions w) of
       [u] \<Rightarrow>
         bindE (ensure (session_complete mode now i u) (PlainError ''Upload manifest metadata is not complete'')) (\<lambda>_.
         bindE (ensure (\<not> (\<exists>f \<in> set (files (sw_db w)). f_userId f = bi_userId i \<and> f_uploadId f = Some (bi_uploadId i)))
           (PlainError ''Upload already has a File'')) (\<lambda>_.
         let rows = filter (\<lambda>c. ch_session c = up_id u) (sw_chunks w) in
         bindE (ensure (chunk_layout_ok u rows) (PlainError ''Upload chunk manifest is invalid'')) (\<lambda>_.
         bindE (validateOwnerAndParent (bi_userId i) (up_parentId u) w) (\<lambda>_.
         bindE (ensure (journal_unique i u w) (DbError ''duplicate key'')) (\<lambda>_.
         Inr (w\<lparr>sw_ops := sw_ops w @ [new_op i u],
                sw_manifest := sw_manifest w @ map (\<lambda>c. \<lparr>fc_operation = bi_id i, fc_index = ch_index c,
                  fc_byteSize = ch_byteSize c, fc_sha256 = ch_sha256 c\<rparr>) rows\<rparr>, new_op i u))))))
     | _ \<Rightarrow> Inl (PlainError ''Unique owned upload session required''))"

definition op_chunks :: "ustring \<Rightarrow> ssd_world \<Rightarrow> fin_chunk list" where
  "op_chunks k w = sort_key fc_index (filter (\<lambda>c. fc_operation c = k) (sw_manifest w))"

text \<open>The row of the file, and the trigger that compares it with the reservation of its upload.\<close>

definition final_file :: "ssd_op \<Rightarrow> nat \<Rightarrow> ustring \<Rightarrow> file_row" where
  "final_file r k name = \<lparr>f_id = k, f_name = name, f_storagePath = Some (b_storagePath (op_binding r)),
     f_storageLocationId = Some (b_targetStorageId (op_binding r)),
     f_relativeObjectKey = Some (b_relativeObjectKey (op_binding r)), f_size = op_totalSize r,
     f_mimeType = Some (op_mimeType r), f_isFolder = False, f_isDeleted = False, f_deletedAt = None,
     f_parentId = op_parentId r, f_folderId = None, f_version = 0, f_uploadId = Some (op_uploadId r), f_userId = op_userId r\<rparr>"

definition guard_reserved_file :: "ssd_op \<Rightarrow> file_row \<Rightarrow> unit res" where
  "guard_reserved_file r f =
     ensure (op_state r = Committed \<and> op_fileId r = Some (f_id f) \<and> f_name f = op_filename r \<and> f_size f = op_totalSize r
         \<and> f_parentId f = op_parentId r \<and> \<not> f_isFolder f \<and> \<not> f_isDeleted f
         \<and> f_storageLocationId f = Some (b_targetStorageId (op_binding r))
         \<and> f_relativeObjectKey f = Some (b_relativeObjectKey (op_binding r))
         \<and> f_storagePath f = Some (b_storagePath (op_binding r)))
       (DbError ''File upload reserved by finalization'')"

definition publish_rows :: "ssd_op \<Rightarrow> ustring \<Rightarrow> ssd_world \<Rightarrow> (ssd_world \<times> file_row) res" where
  "publish_rows r name w =
     (let s = sw_db w; k = next_file s; r' = r\<lparr>op_state := Committed, op_fileId := Some k\<rparr>; f = final_file r k name in
      bindE (guard_transition r Committed w) (\<lambda>_.
      bindE (guard_reserved_file r' f) (\<lambda>_.
      Inr ((put_op r' w)\<lparr>
             sw_db := s\<lparr>files := files s @ [f], next_file := Suc k,
               users := map (\<lambda>u. if u_id u = op_userId r then u\<lparr>u_storageUsed := u_storageUsed u + op_totalSize r\<rparr> else u) (users s)\<rparr>,
             sw_checksums := (k, op_expectedSha256 r) # sw_checksums w,
             sw_sessions := map (\<lambda>u. if up_id u = op_sessionId r then u\<lparr>up_status := Completed\<rparr> else u) (sw_sessions w)\<rparr>, f))))"

definition commit_op :: "ssd_mode \<Rightarrow> ustring \<Rightarrow> ssd_world \<Rightarrow> (ssd_world \<times> file_row) res" where
  "commit_op mode k w =
     bindE (require (find_op k w) (PlainError ''Finalization requires published operation'')) (\<lambda>r.
     if op_state r = Committed then
       bindE (outcome mode r w) (\<lambda>f. bindE (require f (PlainError ''Committed File no longer available'')) (\<lambda>f. Inr (w, f)))
     else
       bindE (ensure (op_state r = Published) (PlainError ''Finalization requires published operation'')) (\<lambda>_.
       bindE (ensure (\<not> (mode = Ssd \<and> \<not> op_mimeCheckpointed r)) (PlainError ''SSD commit requires durable MIME checkpoint'')) (\<lambda>_.
       bindE (outcome mode r w) (\<lambda>_.
       bindE (ensure (case find_session (op_sessionId r) w of None \<Rightarrow> False | Some u \<Rightarrow> active_status u \<and> session_agrees mode r u)
         (PlainError ''Finalization session changed'')) (\<lambda>_.
       bindE (validateOwnerAndParent (op_userId r) (op_parentId r) w) (\<lambda>owner.
       bindE (ensure (\<not> u_storageQuota owner < u_storageUsed owner + op_totalSize r) (PlainError ''Finalization quota exceeded'')) (\<lambda>_.
       bindE (ensure (\<not> (\<exists>f \<in> set (files (sw_db w)). f_userId f = op_userId r \<and> f_uploadId f = Some (op_uploadId r)))
         (PlainError ''Upload already has a File'')) (\<lambda>_.
       bindE (allocateNamespaceName (sw_db w) (op_userId r) (op_parentId r) (op_filename r) KFile None None) (\<lambda>name.
       publish_rows r name w)))))))))"

end
