(* ===== verification/SsdRecovery.thy ===== *)
theory SsdRecovery
  imports SsdJournal
begin

text \<open>
  Finalization and its recovery (backend/src/uploads/ssd-cross-fs-finalizer.ts, ssd-finalization-stream.ts,
  ssd-finalization-recovery.ts, and the effects of ssd-finalization-filesystem.ts on the two file systems).

  An attempt is a sequence of effects: transactions of the journal and calls of the file system.  Its
  budget says how many of them take place before the process is killed, loses a connection or a call
  fails; \<open>None\<close> is an attempt that nothing interrupts.  The descriptors of one attempt (the pinned
  directories, the lock) hold: nobody else writes below them.  \<open>re_hash\<close> is SHA-256 of the platform,
  \<open>re_mime\<close> the detected type of a content.
\<close>

record recovery_env =
  re_mode :: ssd_mode
  re_hash :: "bytes \<Rightarrow> ustring"
  re_mime :: "bytes \<Rightarrow> ustring"

section \<open>Effects\<close>

type_synonym 'a run = "nat option \<times> ssd_world \<Rightarrow> (nat option \<times> ssd_world) \<times> 'a res"

definition retR :: "'a \<Rightarrow> 'a run" where
  "retR x s = (s, Inr x)"

definition bindR :: "'a run \<Rightarrow> ('a \<Rightarrow> 'b run) \<Rightarrow> 'b run" where
  "bindR m f s = (case m s of (s1, r) \<Rightarrow> (case r of Inl e \<Rightarrow> (s1, Inl e) | Inr x \<Rightarrow> f x s1))"

definition ensureR :: "bool \<Rightarrow> string \<Rightarrow> unit run" where
  "ensureR b msg s = (s, ensure b (PlainError msg))"

definition stepR :: "(ssd_world \<Rightarrow> ssd_world \<times> 'a res) \<Rightarrow> 'a run" where
  "stepR f s =
     (case s of (n, w) \<Rightarrow>
        if n = Some 0 then (s, Inl (PlainError ''interrupted''))
        else (case f w of (w', r) \<Rightarrow> ((map_option (\<lambda>k. k - 1) n, w'), r)))"

definition queryR :: "(ssd_world \<Rightarrow> 'a res) \<Rightarrow> 'a run" where
  "queryR f = stepR (\<lambda>w. (w, f w))"

definition txR :: "(ssd_world \<Rightarrow> (ssd_world \<times> 'a) res) \<Rightarrow> 'a run" where
  "txR f = stepR (\<lambda>w. case f w of Inl e \<Rightarrow> (w, Inl e) | Inr (w', x) \<Rightarrow> (w', Inr x))"

definition updateR :: "(ssd_world \<Rightarrow> ssd_world res) \<Rightarrow> unit run" where
  "updateR f = stepR (\<lambda>w. case f w of Inl e \<Rightarrow> (w, Inl e) | Inr w' \<Rightarrow> (w', Inr ()))"

fun eachR :: "('a \<Rightarrow> unit run) \<Rightarrow> 'a list \<Rightarrow> unit run" where
  "eachR f [] = retR ()"
| "eachR f (x # xs) = bindR (f x) (\<lambda>_. eachR f xs)"


section \<open>The file systems\<close>

definition target_path :: "binding \<Rightarrow> bool \<Rightarrow> ustring" where
  "target_path b final = (if final then b_storagePath b else b_temporaryPath b)"

definition target_at :: "binding \<Rightarrow> bool \<Rightarrow> ssd_world \<Rightarrow> artifact option" where
  "target_at b final w = map_of (sw_target w) (target_path b final)"

text \<open>\<open>own\<close> is the identity that the recovery may touch.\<close>

definition inspectTarget :: "binding \<Rightarrow> bool \<Rightarrow> identity option \<Rightarrow> ssd_world \<Rightarrow> artifact option res" where
  "inspectTarget b final own w =
     (case target_at b final w of
        None \<Rightarrow> Inr None
      | Some a \<Rightarrow> bindE (ensure (own = Some (ar_identity a)) (PlainError ''Unowned recovery target artifact'')) (\<lambda>_. Inr (Some a)))"

definition createTemporary :: "binding \<Rightarrow> ssd_world \<Rightarrow> (ssd_world \<times> identity) res" where
  "createTemporary b w =
     bindE (ensure (target_at b False w = None) (PlainError ''EEXIST'')) (\<lambda>_.
     let i = (b_targetDevice b, dec (sw_inode w)) in
     Inr (w\<lparr>sw_target := (b_temporaryPath b, \<lparr>ar_identity = i, ar_bytes = []\<rparr>) # sw_target w, sw_inode := Suc (sw_inode w)\<rparr>, i))"

definition resetTemporary :: "binding \<Rightarrow> identity option \<Rightarrow> identity \<Rightarrow> ssd_world \<Rightarrow> (ssd_world \<times> identity) res" where
  "resetTemporary b own i w =
     bindE (ensure (own = Some i) (PlainError ''Recovery temporary identity unavailable'')) (\<lambda>_.
     bindE (require (target_at b False w) (PlainError ''ENOENT'')) (\<lambda>a.
     bindE (ensure (ar_identity a = i) (PlainError ''Recovery temporary identity changed'')) (\<lambda>_.
     Inr (w\<lparr>sw_target := AList.update (b_temporaryPath b) (a\<lparr>ar_bytes := []\<rparr>) (sw_target w)\<rparr>, i))))"

definition write_block :: "binding \<Rightarrow> bytes \<Rightarrow> ssd_world \<Rightarrow> ssd_world res" where
  "write_block b block w =
     bindE (require (target_at b False w) (PlainError ''EBADF'')) (\<lambda>a.
     Inr (w\<lparr>sw_target := AList.update (b_temporaryPath b) (a\<lparr>ar_bytes := ar_bytes a @ block\<rparr>) (sw_target w)\<rparr>))"

text \<open>\<open>RENAME_NOREPLACE\<close>\<close>

definition publish_target :: "binding \<Rightarrow> ssd_world \<Rightarrow> ssd_world res" where
  "publish_target b w =
     bindE (require (target_at b False w) (PlainError ''Finalization temporary unavailable or already published'')) (\<lambda>a.
     bindE (ensure (target_at b True w = None) (PlainError ''EEXIST'')) (\<lambda>_.
     Inr (w\<lparr>sw_target := (b_storagePath b, a) # AList.delete (b_temporaryPath b) (sw_target w)\<rparr>)))"

definition chunk_at :: "binding \<Rightarrow> nat \<Rightarrow> ssd_world \<Rightarrow> artifact option" where
  "chunk_at b i w = map_of (sw_source w) (b_sourcePath b, i)"

definition removeChunk :: "binding \<Rightarrow> fin_chunk \<Rightarrow> identity \<Rightarrow> ssd_world \<Rightarrow> ssd_world res" where
  "removeChunk b part i w =
     (case chunk_at b (fc_index part) w of
        None \<Rightarrow> Inr w
      | Some a \<Rightarrow>
          bindE (ensure (ar_identity a = i \<and> int (length (ar_bytes a)) = fc_byteSize part)
            (PlainError ''Cleanup own chunk identity changed'')) (\<lambda>_.
          Inr (w\<lparr>sw_source := AList.delete (b_sourcePath b, fc_index part) (sw_source w)\<rparr>)))"

text \<open>\<open>fsync\<close> and the checks of the binding change nothing that is modelled, but can fail.\<close>

definition syncR :: "unit run" where
  "syncR = updateR Inr"

definition verify_artifact :: "recovery_env \<Rightarrow> artifact \<Rightarrow> int \<Rightarrow> ustring \<Rightarrow> identity res" where
  "verify_artifact env a n expected =
     bindE (ensure (int (length (ar_bytes a)) = n) (PlainError ''Untrusted recovery artifact'')) (\<lambda>_.
     bindE (ensure (re_hash env (ar_bytes a) = expected) (PlainError ''Recovery artifact integrity mismatch'')) (\<lambda>_.
     Inr (ar_identity a)))"


section \<open>Assembly\<close>

definition FINALIZER_BUFFER_BYTES :: nat where
  "FINALIZER_BUFFER_BYTES = 65536"

function blocks_of :: "bytes \<Rightarrow> bytes list" where
  "blocks_of xs = (if xs = [] then [] else take FINALIZER_BUFFER_BYTES xs # blocks_of (drop FINALIZER_BUFFER_BYTES xs))"
  by pat_completeness auto
termination
  by (relation "measure length") (auto simp: FINALIZER_BUFFER_BYTES_def)

declare blocks_of.simps [simp del]

lemma concat_blocks_of [simp]: "concat (blocks_of xs) = xs"
  by (induction xs rule: blocks_of.induct) (subst blocks_of.simps, simp)

definition validateLayout :: "ssd_op \<Rightarrow> bool" where
  "validateLayout r \<longleftrightarrow> safe_integer (op_totalSize r) \<and> 0 < op_totalSize r \<and> 0 < op_chunkSize r \<and> 0 < op_totalChunks r
     \<and> int (op_totalChunks r) = ceil_div (op_totalSize r) (op_chunkSize r) \<and> sha_text (op_expectedSha256 r)"

definition part_size :: "ssd_op \<Rightarrow> nat \<Rightarrow> int" where
  "part_size r i = (if Suc i = op_totalChunks r then op_totalSize r - int i * op_chunkSize r else op_chunkSize r)"

definition part_ok :: "ssd_op \<Rightarrow> nat \<Rightarrow> fin_chunk \<Rightarrow> bool" where
  "part_ok r i c \<longleftrightarrow> i < op_totalChunks r \<and> fc_index c = i \<and> fc_byteSize c = part_size r i \<and> sha_text (fc_sha256 c)"

definition assemble_part :: "recovery_env \<Rightarrow> ssd_op \<Rightarrow> nat \<Rightarrow> fin_chunk \<Rightarrow> bytes run" where
  "assemble_part env r i c =
     bindR (ensureR (part_ok r i c) ''Invalid finalization manifest'') (\<lambda>_.
     bindR (queryR (\<lambda>w. require (chunk_at (op_binding r) i w) (PlainError ''ENOENT''))) (\<lambda>a.
     bindR (ensureR (int (length (ar_bytes a)) = part_size r i) ''Chunk size or type mismatch'') (\<lambda>_.
     bindR (eachR (\<lambda>block. updateR (write_block (op_binding r) block)) (blocks_of (ar_bytes a))) (\<lambda>_.
     bindR (ensureR (re_hash env (ar_bytes a) = fc_sha256 c) ''Chunk integrity mismatch'') (\<lambda>_.
     retR (ar_bytes a))))))"

fun assemble_loop :: "recovery_env \<Rightarrow> ssd_op \<Rightarrow> nat \<Rightarrow> bytes \<Rightarrow> fin_chunk list \<Rightarrow> bytes run" where
  "assemble_loop env r i read [] =
     bindR (ensureR (i = op_totalChunks r) ''Incomplete finalization manifest'') (\<lambda>_. retR read)"
| "assemble_loop env r i read (c # cs) =
     bindR (assemble_part env r i c) (\<lambda>xs. assemble_loop env r (Suc i) (read @ xs) cs)"

definition assembleR :: "recovery_env \<Rightarrow> ssd_op \<Rightarrow> unit run" where
  "assembleR env r =
     bindR (queryR (\<lambda>w. Inr (op_chunks (op_id r) w))) (\<lambda>parts.
     bindR (assemble_loop env r 0 [] parts) (\<lambda>read.
     bindR (queryR (\<lambda>w. require (target_at (op_binding r) False w) (PlainError ''EBADF''))) (\<lambda>a.
     bindR (ensureR (int (length read) = op_totalSize r \<and> int (length (ar_bytes a)) = op_totalSize r
         \<and> re_hash env read = op_expectedSha256 r) ''Whole-file integrity mismatch'') (\<lambda>_.
     syncR))))"


section \<open>Recovery\<close>

definition lookupR :: "recovery_env \<Rightarrow> ustring \<Rightarrow> (ssd_op \<times> file_row option) run" where
  "lookupR env k = queryR (lookup_op (re_mode env) k)"

definition transitionR :: "ustring \<Rightarrow> journal_state \<Rightarrow> journal_state \<Rightarrow> unit run" where
  "transitionR k from to = updateR (transition k from to)"

definition requireIdentity :: "ssd_op \<Rightarrow> artifact \<Rightarrow> unit run" where
  "requireIdentity r a = ensureR (op_target r = Some (ar_identity a)) ''Recovery target identity is not journal-own''"

text \<open>The parts of the manifest one after the other, each checked before it is used.\<close>

fun recovery_manifest :: "ssd_op \<Rightarrow> (fin_chunk \<Rightarrow> unit run) \<Rightarrow> nat \<Rightarrow> fin_chunk list \<Rightarrow> unit run" where
  "recovery_manifest r f i [] = ensureR (i = op_totalChunks r) ''Incomplete recovery manifest''"
| "recovery_manifest r f i (c # cs) =
     bindR (ensureR (part_ok r i c) ''Invalid recovery manifest'') (\<lambda>_.
     bindR (f c) (\<lambda>_. recovery_manifest r f (Suc i) cs))"

definition manifestR :: "ssd_op \<Rightarrow> (fin_chunk \<Rightarrow> unit run) \<Rightarrow> unit run" where
  "manifestR r f = bindR (queryR (\<lambda>w. Inr (op_chunks (op_id r) w))) (\<lambda>parts. recovery_manifest r f 0 parts)"

definition verifyChunk :: "recovery_env \<Rightarrow> ssd_op \<Rightarrow> fin_chunk \<Rightarrow> ssd_world \<Rightarrow> identity option res" where
  "verifyChunk env r c w =
     (case chunk_at (op_binding r) (fc_index c) w of
        None \<Rightarrow> Inr None
      | Some a \<Rightarrow> bindE (verify_artifact env a (fc_byteSize c) (fc_sha256 c)) (\<lambda>i. Inr (Some i)))"

definition reopen :: "ssd_op \<Rightarrow> unit run" where
  "reopen r =
     queryR (\<lambda>w.
       bindE (inspectTarget (op_binding r) False (op_target r) w) (\<lambda>t.
       bindE (inspectTarget (op_binding r) True (op_target r) w) (\<lambda>f.
       ensure (t = None \<or> f = None) (PlainError ''Ambiguous recovery target artifacts''))))"

text \<open>Whether the temporary is already the whole content.\<close>

definition temporary_complete :: "recovery_env \<Rightarrow> ssd_op \<Rightarrow> artifact option \<Rightarrow> bool run" where
  "temporary_complete env r temporary =
     (case temporary of
        Some a \<Rightarrow>
          bindR (requireIdentity r a) (\<lambda>_.
          bindR (ensureR (\<not> op_totalSize r < int (length (ar_bytes a))) ''Oversized recovery temporary'') (\<lambda>_.
          if int (length (ar_bytes a)) = op_totalSize r
          then bindR (queryR (\<lambda>_. verify_artifact env a (op_totalSize r) (op_expectedSha256 r))) (\<lambda>_. retR True)
          else retR False))
      | None \<Rightarrow> bindR (ensureR (op_target r = None) ''Recorded target artifact is missing'') (\<lambda>_. retR False))"

definition rebuild_temporary :: "recovery_env \<Rightarrow> ssd_op \<Rightarrow> artifact option \<Rightarrow> unit run" where
  "rebuild_temporary env r temporary =
     bindR (manifestR r (\<lambda>c. bindR (queryR (verifyChunk env r c)) (\<lambda>i. ensureR (i \<noteq> None) ''Missing recovery source chunk''))) (\<lambda>_.
     bindR (case temporary of
              Some a \<Rightarrow> txR (resetTemporary (op_binding r) (op_target r) (ar_identity a))
            | None \<Rightarrow> txR (createTemporary (op_binding r))) (\<lambda>i.
     bindR (updateR (recordTarget (op_id r) i)) (\<lambda>_.
     assembleR env r)))"

definition recover_assembling :: "recovery_env \<Rightarrow> ssd_op \<Rightarrow> ssd_op run" where
  "recover_assembling env r =
     bindR (queryR (inspectTarget (op_binding r) True (op_target r))) (\<lambda>final.
     bindR (ensureR (final = None) ''Unexpected assembled final artifact'') (\<lambda>_.
     bindR (queryR (inspectTarget (op_binding r) False (op_target r))) (\<lambda>temporary.
     bindR (temporary_complete env r temporary) (\<lambda>complete.
     bindR (if complete then retR () else rebuild_temporary env r temporary) (\<lambda>_.
     bindR syncR (\<lambda>_.
     bindR (transitionR (op_id r) Assembling Verified) (\<lambda>_.
     bindR (lookupR env (op_id r)) (\<lambda>(r', _). retR r'))))))))"

definition recover_publication :: "recovery_env \<Rightarrow> ssd_op \<Rightarrow> ssd_op run" where
  "recover_publication env r =
     bindR (queryR (inspectTarget (op_binding r) False (op_target r))) (\<lambda>temporary.
     bindR (queryR (inspectTarget (op_binding r) True (op_target r))) (\<lambda>final.
     bindR (ensureR ((temporary = None) \<noteq> (final = None)) ''Ambiguous publication artifacts'') (\<lambda>_.
     bindR (ensureR (\<not> (op_state r = Verified \<and> final \<noteq> None)) ''Final artifact without publication intent'') (\<lambda>_.
     let a = (case temporary of Some a \<Rightarrow> a | None \<Rightarrow> the final) in
     bindR (requireIdentity r a) (\<lambda>_.
     bindR (queryR (\<lambda>_. verify_artifact env a (op_totalSize r) (op_expectedSha256 r))) (\<lambda>_.
     bindR syncR (\<lambda>_.
     bindR (if op_state r = Verified \<and> \<not> op_mimeCheckpointed r
            then updateR (recordMimeType (re_mode env) (op_id r) (re_mime env (ar_bytes a))) else retR ()) (\<lambda>_.
     bindR (if op_state r = Verified then transitionR (op_id r) Verified Publishing else retR ()) (\<lambda>_.
     bindR (if temporary \<noteq> None then updateR (publish_target (op_binding r)) else retR ()) (\<lambda>_.
     bindR syncR (\<lambda>_.
     bindR (transitionR (op_id r) Publishing Published) (\<lambda>_.
     bindR (lookupR env (op_id r)) (\<lambda>(r', _). retR r')))))))))))))"

definition verifyFinal :: "recovery_env \<Rightarrow> ssd_op \<Rightarrow> unit run" where
  "verifyFinal env r =
     bindR (queryR (inspectTarget (op_binding r) False (op_target r))) (\<lambda>temporary.
     bindR (ensureR (temporary = None) ''Unexpected temporary after publication'') (\<lambda>_.
     bindR (queryR (inspectTarget (op_binding r) True (op_target r))) (\<lambda>final.
     bindR (ensureR (final \<noteq> None) ''Published target is missing'') (\<lambda>_.
     bindR (requireIdentity r (the final)) (\<lambda>_.
     bindR (queryR (\<lambda>_. verify_artifact env (the final) (op_totalSize r) (op_expectedSha256 r))) (\<lambda>_.
     syncR))))))"

definition remove_verified :: "recovery_env \<Rightarrow> ssd_op \<Rightarrow> fin_chunk \<Rightarrow> unit run" where
  "remove_verified env r c =
     bindR (queryR (verifyChunk env r c)) (\<lambda>observed.
     case observed of None \<Rightarrow> retR () | Some i \<Rightarrow> updateR (removeChunk (op_binding r) c i))"

definition clean_source :: "recovery_env \<Rightarrow> ssd_op \<Rightarrow> unit run" where
  "clean_source env r =
     bindR (manifestR r (\<lambda>c. bindR (queryR (verifyChunk env r c)) (\<lambda>_. retR ()))) (\<lambda>_.
     bindR (manifestR r (remove_verified env r)) (\<lambda>_.
     bindR syncR (\<lambda>_.
     updateR (finishCleanup (re_mode env) (op_id r)))))"

definition recover_commit :: "recovery_env \<Rightarrow> ssd_op \<Rightarrow> file_row option run" where
  "recover_commit env r =
     bindR (ensureR (op_state r = Published \<or> op_state r = Committed) ''Unsupported recovery outcome'') (\<lambda>_.
     bindR (verifyFinal env r) (\<lambda>_.
     bindR (if op_state r = Published then bindR (txR (commit_op (re_mode env) (op_id r))) (\<lambda>_. retR ()) else retR ()) (\<lambda>_.
     bindR (lookupR env (op_id r)) (\<lambda>(r', file).
     bindR (ensureR (op_state r' = Committed \<and> file \<noteq> None) ''Authoritative committed outcome required for cleanup'') (\<lambda>_.
     bindR (verifyFinal env r') (\<lambda>_.
     bindR (clean_source env r') (\<lambda>_. retR file)))))))"

definition recover :: "recovery_env \<Rightarrow> ustring \<Rightarrow> file_row option run" where
  "recover env k =
     bindR (ensureR (uuid_text k) ''Invalid recovery operation identity'') (\<lambda>_.
     bindR (lookupR env k) (\<lambda>(r, file).
     bindR (ensureR (validateLayout r) ''Invalid finalization layout'') (\<lambda>_.
     if op_cleaned r then retR file
     else
       bindR (reopen r) (\<lambda>_.
       bindR (lookupR env k) (\<lambda>(current, _).
       bindR (ensureR (current = r) ''Recovery journal changed during acquisition'') (\<lambda>_.
       bindR (if op_state r = Assembling then recover_assembling env r else retR r) (\<lambda>r1.
       bindR (if op_state r1 = Verified \<or> op_state r1 = Publishing then recover_publication env r1 else retR r1) (\<lambda>r2.
       recover_commit env r2))))))))"


section \<open>The first attempt\<close>

text \<open>\<open>prepare\<close> made the binding; the rows the journal returns are those it was given.\<close>

definition finalize_reserved :: "recovery_env \<Rightarrow> ssd_op \<Rightarrow> file_row run" where
  "finalize_reserved env r =
     bindR (ensureR (validateLayout r) ''Invalid finalization layout'') (\<lambda>_.
     bindR (txR (createTemporary (op_binding r))) (\<lambda>j.
     bindR (updateR (recordTarget (op_id r) j)) (\<lambda>_.
     bindR (assembleR env r) (\<lambda>_.
     bindR (transitionR (op_id r) Assembling Verified) (\<lambda>_.
     bindR (queryR (\<lambda>w. require (target_at (op_binding r) False w) (PlainError ''ENOENT''))) (\<lambda>a.
     bindR (updateR (recordMimeType (re_mode env) (op_id r) (re_mime env (ar_bytes a)))) (\<lambda>_.
     bindR (transitionR (op_id r) Verified Publishing) (\<lambda>_.
     bindR (updateR (publish_target (op_binding r))) (\<lambda>_.
     bindR (transitionR (op_id r) Publishing Published) (\<lambda>_.
     txR (commit_op (re_mode env) (op_id r))))))))))))"

definition finalize :: "recovery_env \<Rightarrow> int \<Rightarrow> begin_input \<Rightarrow> file_row run" where
  "finalize env now i = bindR (txR (begin_op (re_mode env) now i)) (finalize_reserved env)"

end
