(* ===== verification/SsdSafety.thy ===== *)
theory SsdSafety
  imports SsdRecovery
begin

text \<open>
  What every effect of an attempt preserves, wherever it is interrupted: until the commit the chunks on
  the SSD are intact and the database is untouched; from the verification on, the whole content is on the
  disk; the commit adds one file and charges its owner once.
\<close>

named_theorems run_rules \<open>rules for attempts\<close>

section \<open>Reasoning about attempts\<close>

text \<open>The invariant \<open>I\<close> holds after every prefix of the effects; \<open>Q\<close> when the attempt gets through.\<close>

definition holds :: "(ssd_world \<Rightarrow> bool) \<Rightarrow> (ssd_world \<Rightarrow> bool) \<Rightarrow> 'a run \<Rightarrow> ('a \<Rightarrow> ssd_world \<Rightarrow> bool) \<Rightarrow> bool" where
  "holds I P m Q \<longleftrightarrow> (\<forall>n w. I w \<and> P w \<longrightarrow> I (snd (fst (m (n, w)))) \<and> (\<forall>x. snd (m (n, w)) = Inr x \<longrightarrow> Q x (snd (fst (m (n, w))))))"

lemma holds_ret [run_rules]: "(\<And>w. I w \<Longrightarrow> P w \<Longrightarrow> Q x w) \<Longrightarrow> holds I P (retR x) Q"
  by (simp add: holds_def retR_def)

lemma holds_bind [run_rules]:
  assumes "holds I P m Q" "\<And>x. holds I (Q x) (f x) R"
  shows "holds I P (bindR m f) R"
  unfolding holds_def
proof (intro allI impI)
  fix n w assume pre: "I w \<and> P w"
  obtain n1 w1 r where m: "m (n, w) = ((n1, w1), r)" by (metis prod.collapse)
  have w1: "I w1" "\<And>x. r = Inr x \<Longrightarrow> Q x w1" using assms(1) pre m unfolding holds_def by (metis fst_conv snd_conv)+
  show "I (snd (fst (bindR m f (n, w)))) \<and> (\<forall>x. snd (bindR m f (n, w)) = Inr x \<longrightarrow> R x (snd (fst (bindR m f (n, w)))))"
  proof (cases r)
    case (Inl e)
    then show ?thesis using m w1(1) by (simp add: bindR_def)
  next
    case (Inr x)
    have "bindR m f (n, w) = f x (n1, w1)" using m Inr by (simp add: bindR_def)
    then show ?thesis using assms(2) [of x] w1(1) w1(2) [OF Inr] unfolding holds_def by simp
  qed
qed

lemma holds_ensure: "(\<And>w. I w \<Longrightarrow> P w \<Longrightarrow> b \<Longrightarrow> Q () w) \<Longrightarrow> holds I P (ensureR b msg) Q"
  by (simp add: holds_def ensureR_def ensure_def)

lemma holds_ensure_bind: "(b \<Longrightarrow> holds I P (m ()) Q) \<Longrightarrow> holds I P (bindR (ensureR b msg) m) Q"
  by (cases b) (simp_all add: holds_def bindR_def ensureR_def)

lemma holds_step:
  assumes "\<And>w. I w \<Longrightarrow> P w \<Longrightarrow> I (fst (f w)) \<and> (\<forall>x. snd (f w) = Inr x \<longrightarrow> Q x (fst (f w)))"
  shows "holds I P (stepR f) Q"
  unfolding holds_def
proof (intro allI impI)
  fix n w assume pre: "I w \<and> P w"
  obtain w' r where f: "f w = (w', r)" by (cases "f w")
  then have "I w' \<and> (\<forall>x. r = Inr x \<longrightarrow> Q x w')" using assms [of w] pre by simp
  then show "I (snd (fst (stepR f (n, w)))) \<and> (\<forall>x. snd (stepR f (n, w)) = Inr x \<longrightarrow> Q x (snd (fst (stepR f (n, w)))))"
    using pre f by (simp add: stepR_def)
qed

lemma holds_query: "(\<And>w x. I w \<Longrightarrow> P w \<Longrightarrow> f w = Inr x \<Longrightarrow> Q x w) \<Longrightarrow> holds I P (queryR f) Q"
  unfolding queryR_def by (rule holds_step) simp

lemma holds_tx: "(\<And>w w' x. I w \<Longrightarrow> P w \<Longrightarrow> f w = Inr (w', x) \<Longrightarrow> I w' \<and> Q x w') \<Longrightarrow> holds I P (txR f) Q"
  unfolding txR_def by (rule holds_step) (auto split: sum.split prod.split)

lemma holds_update: "(\<And>w w'. I w \<Longrightarrow> P w \<Longrightarrow> f w = Inr w' \<Longrightarrow> I w' \<and> Q () w') \<Longrightarrow> holds I P (updateR f) Q"
  unfolding updateR_def by (rule holds_step) (auto split: sum.split)

lemma holds_weaken: "holds I P m Q \<Longrightarrow> (\<And>w. I w \<Longrightarrow> P' w \<Longrightarrow> P w) \<Longrightarrow> (\<And>x w. I w \<Longrightarrow> Q x w \<Longrightarrow> Q' x w) \<Longrightarrow> holds I P' m Q'"
  unfolding holds_def by blast

lemma holds_sync: "holds I P syncR (\<lambda>_. P)"
  unfolding syncR_def by (rule holds_update) simp

lemma holds_each:
  "(\<And>x. x \<in> set xs \<Longrightarrow> holds I P (f x) (\<lambda>_. P)) \<Longrightarrow> holds I P (eachR f xs) (\<lambda>_. P)"
  by (induction xs) (auto intro!: holds_ret intro: holds_bind)

lemma holds_recovery_manifest:
  "(\<And>c. c \<in> set cs \<Longrightarrow> holds I P (f c) (\<lambda>_. P)) \<Longrightarrow> holds I P (recovery_manifest r f i cs) (\<lambda>_. P)"
proof (induction cs arbitrary: i)
  case (Cons c cs)
  have "holds I P (f c) (\<lambda>_. P)" "holds I P (recovery_manifest r f (Suc i) cs) (\<lambda>_. P)" using Cons by simp_all
  then have "holds I P (bindR (f c) (\<lambda>_. recovery_manifest r f (Suc i) cs)) (\<lambda>_. P)" by (rule holds_bind)
  then show ?case by (simp add: holds_ensure_bind)
qed (auto intro!: holds_ensure)

lemma holds_manifest:
  "(\<And>c. holds I P (f c) (\<lambda>_. P)) \<Longrightarrow> holds I P (manifestR r f) (\<lambda>_. P)"
  unfolding manifestR_def by (rule holds_bind [OF holds_query [where Q = "\<lambda>_. P"]]) (auto intro: holds_recovery_manifest)

lemma holds_if: "(b \<Longrightarrow> holds I P m Q) \<Longrightarrow> (\<not> b \<Longrightarrow> holds I P m' Q) \<Longrightarrow> holds I P (if b then m else m') Q"
  by simp


section \<open>The invariant\<close>

definition whole :: "recovery_env \<Rightarrow> ssd_op \<Rightarrow> artifact \<Rightarrow> bool" where
  "whole env r a \<longleftrightarrow> int (length (ar_bytes a)) = op_totalSize r \<and> re_hash env (ar_bytes a) = op_expectedSha256 r"

definition intact :: "recovery_env \<Rightarrow> ssd_op \<Rightarrow> ssd_world \<Rightarrow> bool" where
  "intact env r w \<longleftrightarrow> (\<forall>c \<in> set (op_chunks (op_id r) w). \<exists>a. chunk_at (op_binding r) (fc_index c) w = Some a
     \<and> int (length (ar_bytes a)) = fc_byteSize c \<and> re_hash env (ar_bytes a) = fc_sha256 c)"

definition at_rest :: "recovery_env \<Rightarrow> ssd_op \<Rightarrow> bool \<Rightarrow> ssd_world \<Rightarrow> bool" where
  "at_rest env r final w \<longleftrightarrow> target_at (op_binding r) (\<not> final) w = None
     \<and> (\<exists>a. target_at (op_binding r) final w = Some a \<and> op_target r = Some (ar_identity a) \<and> whole env r a)"

definition phase :: "recovery_env \<Rightarrow> ssd_op \<Rightarrow> ssd_world \<Rightarrow> bool" where
  "phase env r w \<longleftrightarrow>
     (case op_state r of
        Assembling \<Rightarrow> target_at (op_binding r) True w = None \<and>
          (\<forall>i. op_target r = Some i \<longrightarrow> (\<exists>a. target_at (op_binding r) False w = Some a \<and> ar_identity a = i))
      | Verified \<Rightarrow> at_rest env r False w
      | Publishing \<Rightarrow> at_rest env r False w \<or> at_rest env r True w
      | Published \<Rightarrow> at_rest env r True w
      | Committed \<Rightarrow> at_rest env r True w)
     \<and> (op_state r \<noteq> Committed \<longrightarrow> intact env r w)"

text \<open>The database with the file of \<open>r\<close> and its charge.\<close>

definition charged_db :: "ssd_op \<Rightarrow> db \<Rightarrow> db" where
  "charged_db r s = s\<lparr>files := files s @ [final_file r (next_file s) (op_filename r)], next_file := Suc (next_file s),
     users := map (\<lambda>u. if u_id u = op_userId r then u\<lparr>u_storageUsed := u_storageUsed u + op_totalSize r\<rparr> else u) (users s)\<rparr>"

definition booked :: "ssd_world \<Rightarrow> ssd_op \<Rightarrow> ssd_world \<Rightarrow> bool" where
  "booked w0 r w \<longleftrightarrow>
     (if op_state r = Committed then sw_db w = charged_db r (sw_db w0)
      else sw_db w = sw_db w0 \<and> \<not> op_cleaned r)"

definition frozen :: "ssd_op \<Rightarrow> ssd_op" where
  "frozen r = r\<lparr>op_mimeType := [], op_mimeCheckpointed := False, op_state := Assembling, op_fileId := None, op_target := None,
     op_cleaned := False\<rparr>"

definition sound :: "recovery_env \<Rightarrow> ssd_world \<Rightarrow> ssd_op \<Rightarrow> ssd_world \<Rightarrow> bool" where
  "sound env w0 r0 w \<longleftrightarrow> sw_manifest w = sw_manifest w0 \<and>
     (\<exists>r. find_op (op_id r0) w = Some r \<and> frozen r = frozen r0 \<and> phase env r w \<and> booked w0 r w)"

definition cur :: "ssd_op \<Rightarrow> ssd_world \<Rightarrow> bool" where
  "cur r w \<longleftrightarrow> find_op (op_id r) w = Some r"

lemma frozen_eqs:
  assumes "frozen r = frozen r0"
  shows "op_id r = op_id r0" "op_binding r = op_binding r0" "op_totalSize r = op_totalSize r0" "op_userId r = op_userId r0"
    "op_expectedSha256 r = op_expectedSha256 r0" "op_totalChunks r = op_totalChunks r0" "op_sessionId r = op_sessionId r0"
    "op_filename r = op_filename r0" "op_uploadId r = op_uploadId r0" "op_chunkSize r = op_chunkSize r0" "op_parentId r = op_parentId r0"
proof -
  have a: "op_id (frozen x) = op_id x" "op_binding (frozen x) = op_binding x" "op_totalSize (frozen x) = op_totalSize x"
    "op_userId (frozen x) = op_userId x" "op_expectedSha256 (frozen x) = op_expectedSha256 x" "op_totalChunks (frozen x) = op_totalChunks x"
    "op_sessionId (frozen x) = op_sessionId x" "op_filename (frozen x) = op_filename x" "op_uploadId (frozen x) = op_uploadId x"
    "op_chunkSize (frozen x) = op_chunkSize x" "op_parentId (frozen x) = op_parentId x" for x
    by (simp_all add: frozen_def)
  show "op_id r = op_id r0" "op_binding r = op_binding r0" "op_totalSize r = op_totalSize r0" "op_userId r = op_userId r0"
    "op_expectedSha256 r = op_expectedSha256 r0" "op_totalChunks r = op_totalChunks r0" "op_sessionId r = op_sessionId r0"
    "op_filename r = op_filename r0" "op_uploadId r = op_uploadId r0" "op_chunkSize r = op_chunkSize r0" "op_parentId r = op_parentId r0"
    using a assms by metis+
qed

lemma find_op_id: "find_op k w = Some r \<Longrightarrow> op_id r = k"
  unfolding find_op_def using find_SomeD by fastforce

lemma find_put_op: "find_op (op_id r) w = Some x \<Longrightarrow> find_op (op_id r) (put_op r w) = Some r"
proof -
  have "find (\<lambda>y. op_id y = op_id r) xs = Some x \<Longrightarrow>
      find (\<lambda>y. op_id y = op_id r) (map (\<lambda>y. if op_id y = op_id r then r else y) xs) = Some r" for xs
    by (induction xs) (auto split: if_splits)
  then show "find_op (op_id r) w = Some x \<Longrightarrow> find_op (op_id r) (put_op r w) = Some r" by (simp add: find_op_def put_op_def)
qed

lemma put_op_simps [simp]:
  "sw_db (put_op r w) = sw_db w" "sw_target (put_op r w) = sw_target w" "sw_source (put_op r w) = sw_source w"
  "sw_manifest (put_op r w) = sw_manifest w" "sw_sessions (put_op r w) = sw_sessions w" "sw_chunks (put_op r w) = sw_chunks w"
  "sw_checksums (put_op r w) = sw_checksums w" "sw_inode (put_op r w) = sw_inode w"
  by (simp_all add: put_op_def)

text \<open>A world whose journal and file systems are the same; a change of the journal row alone.\<close>

lemma fs_cong:
  assumes "sw_target w' = sw_target w" "sw_source w' = sw_source w" "sw_manifest w' = sw_manifest w"
  shows "target_at b f w' = target_at b f w" "chunk_at b i w' = chunk_at b i w" "op_chunks k w' = op_chunks k w"
    "intact env r w' = intact env r w" "at_rest env r f w' = at_rest env r f w" "phase env r w' = phase env r w"
proof -
  show a: "target_at b f w' = target_at b f w" "chunk_at b i w' = chunk_at b i w" "op_chunks k w' = op_chunks k w" for b f i k
    using assms by (simp_all add: target_at_def chunk_at_def op_chunks_def)
  show b: "intact env r w' = intact env r w" "at_rest env r f w' = at_rest env r f w" for r f by (simp_all add: intact_def at_rest_def a)
  show "phase env r w' = phase env r w" by (simp only: phase_def a b)
qed

lemma soundE:
  assumes "sound env w0 r0 w" "cur r w" "op_id r = op_id r0"
  shows "frozen r = frozen r0" "phase env r w" "booked w0 r w" "sw_manifest w = sw_manifest w0"
  using assms by (auto simp: sound_def cur_def)

lemma soundI:
  assumes "cur r w" "frozen r = frozen r0" "phase env r w" "booked w0 r w" "sw_manifest w = sw_manifest w0"
  shows "sound env w0 r0 w"
  using assms frozen_eqs(1) [OF assms(2)] unfolding sound_def cur_def by auto

text \<open>Updating the row.\<close>

lemma sound_put_op:
  assumes "sound env w0 r0 w" "cur r w" "op_id r = op_id r0" "frozen r' = frozen r"
    and "phase env r' w" "booked w0 r' w"
  shows "sound env w0 r0 (put_op r' w) \<and> cur r' (put_op r' w)"
proof -
  note s = soundE [OF assms(1-3)]
  have "op_id r' = op_id r" using frozen_eqs(1) [OF assms(4)] .
  then have c: "cur r' (put_op r' w)" using find_put_op assms(2) unfolding cur_def by metis
  have "phase env r' (put_op r' w)" using assms(5) fs_cong(6) [of "put_op r' w" w] by simp
  moreover have "booked w0 r' (put_op r' w)" using assms(6) by (simp add: booked_def)
  ultimately show ?thesis using soundI [OF c] assms(4) s(1,4) c by simp
qed


section \<open>The journal\<close>

lemma at_rest_cong: "frozen r' = frozen r \<Longrightarrow> op_target r' = op_target r \<Longrightarrow> at_rest env r' f w = at_rest env r f w"
proof -
  assume a: "frozen r' = frozen r" and t: "op_target r' = op_target r"
  note e = frozen_eqs(2,3,5) [OF a]
  show ?thesis unfolding at_rest_def whole_def e t ..
qed

lemma intact_cong: "frozen r' = frozen r \<Longrightarrow> intact env r' w = intact env r w"
proof -
  assume a: "frozen r' = frozen r"
  note e = frozen_eqs(1,2) [OF a]
  show ?thesis unfolding intact_def e ..
qed

lemma frozen_updates [simp]:
  "frozen (r\<lparr>op_state := x\<rparr>) = frozen r" "frozen (r\<lparr>op_target := t\<rparr>) = frozen r" "frozen (r\<lparr>op_cleaned := c\<rparr>) = frozen r"
  "frozen (r\<lparr>op_mimeType := m, op_mimeCheckpointed := q\<rparr>) = frozen r" "frozen (r\<lparr>op_state := x, op_fileId := k\<rparr>) = frozen r"
  by (simp_all add: frozen_def)

text \<open>The row is in state \<open>st\<close> and the verified content under one of the two names.\<close>

definition row :: "recovery_env \<Rightarrow> journal_state \<Rightarrow> bool \<Rightarrow> ssd_op \<Rightarrow> ssd_world \<Rightarrow> bool" where
  "row env st f r0 w \<longleftrightarrow> (\<exists>r. cur r w \<and> frozen r = frozen r0 \<and> op_state r = st \<and> at_rest env r f w)"

lemma rowE:
  assumes "row env st f r0 w" "sound env w0 r0 w"
  obtains r where "cur r w" "frozen r = frozen r0" "op_state r = st" "at_rest env r f w" "op_id r = op_id r0"
    "phase env r w" "booked w0 r w" "find_op (op_id r0) w = Some r"
proof -
  obtain r where r: "cur r w" "frozen r = frozen r0" "op_state r = st" "at_rest env r f w" using assms(1) by (auto simp: row_def)
  have "op_id r = op_id r0" using frozen_eqs(1) [OF r(2)] .
  then show ?thesis using that r soundE [OF assms(2) r(1)] unfolding cur_def by metis
qed

lemma holds_transition:
  assumes "st \<noteq> Committed" "(to, f) \<in> {(Verified, False), (Publishing, False), (Publishing, True), (Published, True)}"
  shows "holds (sound env w0 r0) (row env st f r0) (transitionR (op_id r0) st to) (\<lambda>_. row env to f r0)"
  unfolding transitionR_def
proof (rule holds_update)
  fix w w' assume s: "sound env w0 r0 w" and P: "row env st f r0 w" and run: "transition (op_id r0) st to w = Inr w'"
  obtain r where r: "cur r w" "frozen r = frozen r0" "op_state r = st" "at_rest env r f w" "op_id r = op_id r0"
    "phase env r w" "booked w0 r w" "find_op (op_id r0) w = Some r" using rowE [OF P s] by blast
  let ?r = "r\<lparr>op_state := to\<rparr>"
  have w': "w' = put_op ?r w" using run r(3,8) by (auto simp: transition_def err_simps)
  have rest: "at_rest env ?r f w" using r(4) at_rest_cong [of ?r r] by simp
  have "intact env ?r w" using r(3,6) assms(1) intact_cong [of ?r r env w] by (simp add: phase_def)
  then have "phase env ?r w" using rest assms(2) by (auto simp: phase_def)
  moreover have "booked w0 ?r w" using r(3,7) assms by (auto simp: booked_def)
  ultimately have "sound env w0 r0 w' \<and> cur ?r w'" using sound_put_op [OF s r(1,5)] w' by simp
  moreover have "at_rest env ?r f w'" using rest fs_cong(5) [of w' w] w' by simp
  ultimately show "sound env w0 r0 w' \<and> row env to f r0 w'" using r(2) unfolding row_def by (intro conjI exI [of _ ?r]) simp_all
qed

lemma holds_mime:
  "holds (sound env w0 r0) (row env Verified f r0) (updateR (recordMimeType mode (op_id r0) mime)) (\<lambda>_. row env Verified f r0)"
proof (rule holds_update)
  fix w w' assume s: "sound env w0 r0 w" and P: "row env Verified f r0 w" and run: "recordMimeType mode (op_id r0) mime w = Inr w'"
  obtain r where r: "cur r w" "frozen r = frozen r0" "op_state r = Verified" "at_rest env r f w" "op_id r = op_id r0"
    "phase env r w" "booked w0 r w" "find_op (op_id r0) w = Some r" using rowE [OF P s] by blast
  let ?r = "r\<lparr>op_mimeType := mime, op_mimeCheckpointed := True\<rparr>"
  consider "w' = w" | "w' = put_op ?r w" using run r(8) by (auto simp: recordMimeType_def err_simps split: if_splits)
  then show "sound env w0 r0 w' \<and> row env Verified f r0 w'"
  proof cases
    case 2
    have rest: "at_rest env ?r f w" using r(4) at_rest_cong [of ?r r] by simp
    have "at_rest env ?r False w" using r(3,6) at_rest_cong [of ?r r] by (simp add: phase_def)
    then have "phase env ?r w" using r(3,6) intact_cong [of ?r r env w] by (simp add: phase_def)
    moreover have "booked w0 ?r w" using r(3,7) by (simp add: booked_def)
    ultimately have "sound env w0 r0 w' \<and> cur ?r w'" using sound_put_op [OF s r(1,5)] 2 by simp
    moreover have "at_rest env ?r f w'" using rest fs_cong(5) [of w' w] 2 by simp
    moreover have "op_state ?r = Verified" "frozen ?r = frozen r0" using r(2,3) by simp_all
    ultimately show ?thesis unfolding row_def by blast
  qed (use s P in simp)
qed

lemma lookup_cur: "lookup_op mode k w = Inr (r, x) \<Longrightarrow> cur r w \<and> op_id r = k"
  using find_op_id by (fastforce simp: lookup_op_def cur_def err_simps)

lemma holds_lookup:
  "holds (sound env w0 r0) (row env st f r0) (lookupR env (op_id r0))
     (\<lambda>(r, x) w. cur r w \<and> frozen r = frozen r0 \<and> op_state r = st \<and> at_rest env r f w)"
  unfolding lookupR_def
proof (rule holds_query)
  fix w x assume s: "sound env w0 r0 w" and P: "row env st f r0 w" and run: "lookup_op (re_mode env) (op_id r0) w = Inr x"
  obtain r y where x: "x = (r, y)" by (cases x)
  obtain r' where r': "cur r' w" "frozen r' = frozen r0" "op_state r' = st" "at_rest env r' f w" "find_op (op_id r0) w = Some r'"
    using rowE [OF P s] by blast
  have "r = r'" using lookup_cur run r'(5) unfolding x cur_def by fastforce
  then show "(case x of (r, x) \<Rightarrow> \<lambda>w. cur r w \<and> frozen r = frozen r0 \<and> op_state r = st \<and> at_rest env r f w) w" using r' x by simp
qed


section \<open>Publication\<close>

lemma target_publish:
  assumes "publish_target b w = Inr w'" "b_temporaryPath b \<noteq> b_storagePath b"
  shows "target_at b False w' = None \<and> target_at b True w' = target_at b False w \<and> sw_ops w' = sw_ops w \<and> sw_db w' = sw_db w
    \<and> sw_manifest w' = sw_manifest w \<and> sw_source w' = sw_source w"
  using assms by (auto simp: publish_target_def target_at_def target_path_def err_simps delete_conv)

lemma source_cong:
  "sw_source w' = sw_source w \<Longrightarrow> sw_manifest w' = sw_manifest w \<Longrightarrow> intact env r w' = intact env r w"
  by (simp add: intact_def op_chunks_def chunk_at_def)

lemma find_op_cong: "sw_ops w' = sw_ops w \<Longrightarrow> cur r w' = cur r w"
  by (simp add: cur_def find_op_def)

lemma holds_publish:
  assumes "b_temporaryPath (op_binding r0) \<noteq> b_storagePath (op_binding r0)"
  shows "holds (sound env w0 r0) (row env Publishing False r0) (updateR (publish_target (op_binding r0))) (\<lambda>_. row env Publishing True r0)"
proof (rule holds_update)
  fix w w' assume s: "sound env w0 r0 w" and P: "row env Publishing False r0 w" and run: "publish_target (op_binding r0) w = Inr w'"
  obtain r where r: "cur r w" "frozen r = frozen r0" "op_state r = Publishing" "at_rest env r False w" "op_id r = op_id r0"
    "phase env r w" "booked w0 r w" "find_op (op_id r0) w = Some r" using rowE [OF P s] by blast
  note t = target_publish [OF run assms]
  have rest: "at_rest env r True w'" using r(4) t frozen_eqs(2) [OF r(2)] by (simp add: at_rest_def)
  have "intact env r w'" using r(3,6) source_cong [of w' w env r] t by (simp add: phase_def)
  then have "phase env r w'" using rest r(3) by (simp add: phase_def)
  moreover have "booked w0 r w'" "sw_manifest w' = sw_manifest w0" "cur r w'"
    using r(1,7) t soundE(4) [OF s r(1,5)] find_op_cong [of w' w r] by (simp_all add: booked_def)
  ultimately show "sound env w0 r0 w' \<and> row env Publishing True r0 w'"
    using soundI [OF _ r(2)] rest r(2,3) unfolding row_def by blast
qed

lemma inspect_Inr: "inspectTarget b f own w = Inr x \<Longrightarrow> x = target_at b f w"
  by (auto simp: inspectTarget_def err_simps split: option.splits)

lemma holds_publication_tail:
  assumes "b_temporaryPath (op_binding r0) \<noteq> b_storagePath (op_binding r0)"
    and "op_state r = Verified \<or> op_state r = Publishing" "frozen r = frozen r0" "f = (temporary = None)"
  shows "holds (sound env w0 r0) (row env (op_state r) f r0)
      (bindR (requireIdentity r a) (\<lambda>_.
       bindR (queryR (\<lambda>_. verify_artifact env a (op_totalSize r) (op_expectedSha256 r))) (\<lambda>_.
       bindR syncR (\<lambda>_.
       bindR (if op_state r = Verified \<and> \<not> op_mimeCheckpointed r
              then updateR (recordMimeType (re_mode env) (op_id r) (re_mime env (ar_bytes a))) else retR ()) (\<lambda>_.
       bindR (if op_state r = Verified then transitionR (op_id r) Verified Publishing else retR ()) (\<lambda>_.
       bindR (if temporary \<noteq> None then updateR (publish_target (op_binding r)) else retR ()) (\<lambda>_.
       bindR syncR (\<lambda>_.
       bindR (transitionR (op_id r) Publishing Published) (\<lambda>_.
       bindR (lookupR env (op_id r)) (\<lambda>(r', _). retR r')))))))))) (\<lambda>r' w. cur r' w \<and> frozen r' = frozen r0)"
  unfolding frozen_eqs(1,2) [OF assms(3)] requireIdentity_def
proof (rule holds_ensure_bind, rule holds_bind [where Q = "\<lambda>_. row env (op_state r) f r0"],
    goal_cases)
  case 1 show ?case by (rule holds_query)
next
  case (2 i)
  show ?case
  proof (rule holds_bind [OF holds_sync], rule holds_bind [where Q = "\<lambda>_. row env (op_state r) f r0"], goal_cases)
    case 1 show ?case by (auto intro: holds_mime holds_ret)
  next
    case 2 show ?case
    proof (rule holds_bind [where Q = "\<lambda>_. row env Publishing f r0"], goal_cases)
      case 1 show ?case using assms(2) by (cases f) (auto intro!: holds_transition holds_ret)
    next
      case 2 show ?case
      proof (rule holds_bind [where Q = "\<lambda>_. row env Publishing True r0"], goal_cases)
        case 1 show ?case using assms(4) holds_publish [OF assms(1)] by (auto intro!: holds_ret)
      next
        case 2 show ?case
        proof (rule holds_bind [OF holds_sync], rule holds_bind [where Q = "\<lambda>_. row env Published True r0"], goal_cases)
          case 1 show ?case by (rule holds_transition) simp_all
        next
          case 2 show ?case by (rule holds_bind [OF holds_lookup]) (auto intro!: holds_ret split: prod.split)
        qed
      qed
    qed
  qed
qed

lemma holds_recover_publication:
  assumes "b_temporaryPath (op_binding r0) \<noteq> b_storagePath (op_binding r0)"
    and "op_state r = Verified \<or> op_state r = Publishing" "frozen r = frozen r0"
  shows "holds (sound env w0 r0) (cur r) (recover_publication env r) (\<lambda>r' w. cur r' w \<and> frozen r' = frozen r0)"
proof -
  have ids: "op_id r = op_id r0" "op_binding r = op_binding r0" using frozen_eqs [OF assms(3)] by simp_all
  let ?S = "sound env w0 r0"
  show ?thesis
    unfolding recover_publication_def Let_def
  proof (rule holds_bind [where Q = "\<lambda>t w. cur r w \<and> t = target_at (op_binding r) False w"], goal_cases)
    case 1 show ?case by (rule holds_query) (simp add: inspect_Inr)
  next
    case (2 temporary) show ?case
    proof (rule holds_bind [where Q = "\<lambda>f w. cur r w \<and> temporary = target_at (op_binding r) False w \<and> f = target_at (op_binding r) True w"],
        goal_cases)
      case 1 show ?case by (rule holds_query) (simp add: inspect_Inr)
    next
      case (2 final)
      have pre: "row env (op_state r) (temporary = None) r0 w"
        if "?S w" "cur r w \<and> temporary = target_at (op_binding r) False w \<and> final = target_at (op_binding r) True w" for w
      proof -
        have "phase env r w" using soundE [OF that(1)] that(2) ids(1) by simp
        then have "at_rest env r (temporary = None) w" using that(2) assms(2) by (auto simp: phase_def at_rest_def)
        then show ?thesis using that(2) assms(3) unfolding row_def by blast
      qed
      show ?case
        by (rule holds_ensure_bind, rule holds_ensure_bind, rule holds_weaken [OF holds_publication_tail [OF assms refl] pre]) simp_all
    qed
  qed
qed


section \<open>Assembly\<close>

text \<open>The content \<open>xs\<close> so far is in the temporary \<open>i\<close>, which the journal knows.\<close>

definition writing :: "identity \<Rightarrow> ssd_op \<Rightarrow> bytes \<Rightarrow> ssd_world \<Rightarrow> bool" where
  "writing i r xs w \<longleftrightarrow> cur (r\<lparr>op_target := Some i\<rparr>) w
     \<and> (\<exists>a. target_at (op_binding r) False w = Some a \<and> ar_identity a = i \<and> ar_bytes a = xs)"

text \<open>A change of the temporary alone, while the operation assembles.\<close>

lemma sound_temporary:
  assumes "sound env w0 r0 w" "cur r w" "op_id r = op_id r0" "op_state r = Assembling"
    and "sw_ops w' = sw_ops w" "sw_db w' = sw_db w" "sw_manifest w' = sw_manifest w" "sw_source w' = sw_source w"
    and "target_at (op_binding r) True w' = target_at (op_binding r) True w"
    and "\<And>i. op_target r = Some i \<Longrightarrow> \<exists>a. target_at (op_binding r) False w' = Some a \<and> ar_identity a = i"
  shows "sound env w0 r0 w' \<and> cur r w'"
proof -
  note s = soundE [OF assms(1-3)]
  have "intact env r w'" using s(2) assms(4) source_cong [OF assms(8,7), of env r] by (simp add: phase_def)
  then have "phase env r w'" using s(2) assms(4,9,10) by (simp add: phase_def)
  moreover have "booked w0 r w'" using s(3) assms(6) by (simp add: booked_def)
  moreover have "cur r w'" using assms(2,5) find_op_cong by blast
  ultimately show ?thesis using soundI [OF _ s(1)] s(4) assms(7) by simp
qed

lemma target_update:
  assumes "b_temporaryPath b \<noteq> b_storagePath b" "w' = w\<lparr>sw_target := AList.update (b_temporaryPath b) x (sw_target w)\<rparr>"
  shows "target_at b False w' = Some x" "target_at b True w' = target_at b True w"
  using assms by (simp_all add: target_at_def target_path_def update_conv)

lemma holds_write_block:
  assumes "b_temporaryPath (op_binding r) \<noteq> b_storagePath (op_binding r)" "op_id r = op_id r0" "op_state r = Assembling"
  shows "holds (sound env w0 r0) (writing i r xs) (updateR (write_block (op_binding r) block)) (\<lambda>_. writing i r (xs @ block))"
proof (rule holds_update)
  fix w w' assume s: "sound env w0 r0 w" and P: "writing i r xs w" and run: "write_block (op_binding r) block w = Inr w'"
  let ?r = "r\<lparr>op_target := Some i\<rparr>"
  obtain a where a: "target_at (op_binding r) False w = Some a" "ar_identity a = i" "ar_bytes a = xs" "cur ?r w"
    using P by (auto simp: writing_def)
  have w': "w' = w\<lparr>sw_target := AList.update (b_temporaryPath (op_binding r)) (a\<lparr>ar_bytes := ar_bytes a @ block\<rparr>) (sw_target w)\<rparr>"
    using run a(1) by (simp add: write_block_def)
  note t = target_update [OF assms(1) w']
  have "sound env w0 r0 w' \<and> cur ?r w'"
    by (rule sound_temporary [OF s a(4)]) (use assms(2,3) t a(2) in \<open>simp_all add: w'\<close>)
  then show "sound env w0 r0 w' \<and> writing i r (xs @ block) w'" using t(1) a(2,3) by (simp add: writing_def)
qed

lemma holds_write_blocks:
  assumes "b_temporaryPath (op_binding r) \<noteq> b_storagePath (op_binding r)" "op_id r = op_id r0" "op_state r = Assembling"
  shows "holds (sound env w0 r0) (writing i r xs) (eachR (\<lambda>block. updateR (write_block (op_binding r) block)) bs)
    (\<lambda>_. writing i r (xs @ concat bs))"
proof (induction bs arbitrary: xs)
  case (Cons b bs)
  have "holds (sound env w0 r0) (writing i r (xs @ b)) (eachR (\<lambda>block. updateR (write_block (op_binding r) block)) bs)
    (\<lambda>_. writing i r (xs @ concat (b # bs)))" using Cons [of "xs @ b"] by simp
  then show ?case unfolding eachR.simps by (rule holds_bind [OF holds_write_block [OF assms]])
qed (simp add: holds_ret)

lemma holds_assemble_part:
  assumes "b_temporaryPath (op_binding r) \<noteq> b_storagePath (op_binding r)" "op_id r = op_id r0" "op_state r = Assembling"
  shows "holds (sound env w0 r0) (writing i r xs) (assemble_part env r k c) (\<lambda>ys. writing i r (xs @ ys))"
  unfolding assemble_part_def
proof (rule holds_ensure_bind, rule holds_bind [where Q = "\<lambda>_. writing i r xs"], goal_cases)
  case 1 show ?case by (rule holds_query)
next
  case (2 a)
  have "holds (sound env w0 r0) (writing i r (xs @ concat (blocks_of (ar_bytes a))))
      (bindR (ensureR (re_hash env (ar_bytes a) = fc_sha256 c) ''Chunk integrity mismatch'') (\<lambda>_. retR (ar_bytes a)))
      (\<lambda>ys. writing i r (xs @ ys))"
    by (rule holds_ensure_bind, rule holds_ret) simp
  then show ?case by (rule holds_ensure_bind [OF holds_bind [OF holds_write_blocks [OF assms]]])
qed

lemma holds_assemble_loop:
  assumes "b_temporaryPath (op_binding r) \<noteq> b_storagePath (op_binding r)" "op_id r = op_id r0" "op_state r = Assembling"
  shows "holds (sound env w0 r0) (writing i r xs) (assemble_loop env r k xs cs) (\<lambda>ys. writing i r ys)"
proof (induction cs arbitrary: k xs)
  case (Cons c cs)
  show ?case unfolding assemble_loop.simps by (rule holds_bind [OF holds_assemble_part [OF assms] Cons])
qed (simp add: holds_ensure_bind holds_ret)

lemma holds_assembleR:
  assumes "b_temporaryPath (op_binding r) \<noteq> b_storagePath (op_binding r)" "frozen r = frozen r0" "op_state r = Assembling"
  shows "holds (sound env w0 r0) (writing i r []) (assembleR env r) (\<lambda>_. row env Assembling False r0)"
  unfolding assembleR_def
proof (rule holds_bind [where Q = "\<lambda>_. writing i r []"], goal_cases)
  case 1 show ?case by (rule holds_query)
next
  case (2 parts) show ?case
  proof (rule holds_bind [OF holds_assemble_loop [OF assms(1) frozen_eqs(1) [OF assms(2)] assms(3)]], goal_cases)
    case (1 read) show ?case
    proof (rule holds_bind [where Q = "\<lambda>a w. writing i r read w \<and> target_at (op_binding r) False w = Some a"], goal_cases)
      case 1 show ?case by (rule holds_query) (simp add: err_simps)
    next
      case (2 a)
      have post: "row env Assembling False r0 w"
        if s: "sound env w0 r0 w" and P: "writing i r read w \<and> target_at (op_binding r) False w = Some a"
          and b: "int (length read) = op_totalSize r \<and> int (length (ar_bytes a)) = op_totalSize r \<and> re_hash env read = op_expectedSha256 r" for w
      proof -
        let ?r = "r\<lparr>op_target := Some i\<rparr>"
        have a: "ar_identity a = i" "ar_bytes a = read" "cur ?r w" using P by (auto simp: writing_def)
        have "phase env ?r w" using soundE [OF s a(3)] frozen_eqs(1) [OF assms(2)] by simp
        then have "at_rest env ?r False w" using P a b assms(3) by (simp add: phase_def at_rest_def whole_def)
        then show ?thesis using a(3) assms(2,3) unfolding row_def by (intro exI [of _ ?r]) simp
      qed
      show ?case
        by (rule holds_ensure_bind, rule holds_weaken [OF holds_sync [where P = "row env Assembling False r0"]]) (use post in auto)
    qed
  qed
qed

text \<open>The empty temporary \<open>i\<close>, new or reset, before the journal records it.\<close>

definition fresh_temporary :: "ssd_op \<Rightarrow> identity \<Rightarrow> ssd_world \<Rightarrow> bool" where
  "fresh_temporary r i w \<longleftrightarrow> cur r w \<and> target_at (op_binding r) False w = Some \<lparr>ar_identity = i, ar_bytes = []\<rparr>
     \<and> (op_target r = None \<or> op_target r = Some i)"

lemma holds_create_temporary:
  assumes "b_temporaryPath (op_binding r) \<noteq> b_storagePath (op_binding r)" "op_id r = op_id r0" "op_state r = Assembling" "op_target r = None"
  shows "holds (sound env w0 r0) (cur r) (txR (createTemporary (op_binding r))) (fresh_temporary r)"
proof (rule holds_tx)
  fix w w' i assume s: "sound env w0 r0 w" and c: "cur r w" and run: "createTemporary (op_binding r) w = Inr (w', i)"
  have w': "w' = w\<lparr>sw_target := (b_temporaryPath (op_binding r), \<lparr>ar_identity = i, ar_bytes = []\<rparr>) # sw_target w, sw_inode := Suc (sw_inode w)\<rparr>"
    using run by (auto simp: createTemporary_def Let_def err_simps)
  have "sound env w0 r0 w' \<and> cur r w'"
    by (rule sound_temporary [OF s c assms(2,3)]) (use assms(1,4) in \<open>auto simp: w' target_at_def target_path_def\<close>)
  then show "sound env w0 r0 w' \<and> fresh_temporary r i w'" using assms(4) by (simp add: fresh_temporary_def w' target_at_def target_path_def)
qed

lemma holds_reset_temporary:
  assumes "b_temporaryPath (op_binding r) \<noteq> b_storagePath (op_binding r)" "op_id r = op_id r0" "op_state r = Assembling"
  shows "holds (sound env w0 r0) (cur r) (txR (resetTemporary (op_binding r) (op_target r) j)) (fresh_temporary r)"
proof (rule holds_tx)
  fix w w' i assume s: "sound env w0 r0 w" and c: "cur r w" and run: "resetTemporary (op_binding r) (op_target r) j w = Inr (w', i)"
  obtain x where x: "op_target r = Some i" "target_at (op_binding r) False w = Some x" "ar_identity x = i"
      "w' = w\<lparr>sw_target := AList.update (b_temporaryPath (op_binding r)) (x\<lparr>ar_bytes := []\<rparr>) (sw_target w)\<rparr>"
    using run by (auto simp: resetTemporary_def err_simps)
  note t = target_update [OF assms(1) x(4)]
  have "sound env w0 r0 w' \<and> cur r w'" by (rule sound_temporary [OF s c assms(2,3)]) (use x t in \<open>auto\<close>)
  then show "sound env w0 r0 w' \<and> fresh_temporary r i w'" using t(1) x(1,3) by (cases x) (simp add: fresh_temporary_def)
qed

lemma holds_record_target:
  assumes "op_id r = op_id r0" "op_state r = Assembling"
  shows "holds (sound env w0 r0) (fresh_temporary r i) (updateR (recordTarget (op_id r) i)) (\<lambda>_. writing i r [])"
proof (rule holds_update)
  fix w w' assume s: "sound env w0 r0 w" and fresh: "fresh_temporary r i w" and run: "recordTarget (op_id r) i w = Inr w'"
  let ?r = "r\<lparr>op_target := Some i\<rparr>"
  have c: "cur r w" and t: "target_at (op_binding r) False w = Some \<lparr>ar_identity = i, ar_bytes = []\<rparr>"
    using fresh by (simp_all add: fresh_temporary_def)
  have find: "find_op (op_id r) w = Some r" using c by (simp add: cur_def)
  consider "op_target r = Some i" "w' = w" | "op_target r = None" "w' = put_op ?r w"
    using run find fresh by (auto simp: recordTarget_def fresh_temporary_def err_simps)
  then show "sound env w0 r0 w' \<and> writing i r [] w'"
  proof cases
    case 1
    then have same: "?r = r" by (cases r) simp
    show ?thesis using 1(2) s c t unfolding writing_def same by simp
  next
    case 2
    note so = soundE [OF s c assms(1)]
    have "phase env ?r w" using so(2) t assms(2) intact_cong [of ?r r env w] by (simp add: phase_def)
    moreover have "booked w0 ?r w" using so(3) assms(2) by (simp add: booked_def)
    ultimately have "sound env w0 r0 w' \<and> cur ?r w'" using sound_put_op [OF s c assms(1)] 2(2) by simp
    then show ?thesis using t 2(2) fs_cong(1) [of w' w] by (simp add: writing_def)
  qed
qed

lemma holds_rebuild:
  assumes "b_temporaryPath (op_binding r) \<noteq> b_storagePath (op_binding r)" "frozen r = frozen r0" "op_state r = Assembling"
    and "temporary = None \<longrightarrow> op_target r = None"
  shows "holds (sound env w0 r0) (cur r) (rebuild_temporary env r temporary) (\<lambda>_. row env Assembling False r0)"
proof -
  have k: "op_id r = op_id r0" using frozen_eqs(1) [OF assms(2)] .
  have verify: "holds (sound env w0 r0) (cur r)
      (manifestR r (\<lambda>c. bindR (queryR (verifyChunk env r c)) (\<lambda>i. ensureR (i \<noteq> None) ''Missing recovery source chunk''))) (\<lambda>_. cur r)"
    by (rule holds_manifest, rule holds_bind [OF holds_query [where Q = "\<lambda>_. cur r"]]) (auto intro: holds_ensure)
  have opened: "holds (sound env w0 r0) (cur r)
      (case temporary of Some a \<Rightarrow> txR (resetTemporary (op_binding r) (op_target r) (ar_identity a)) | None \<Rightarrow> txR (createTemporary (op_binding r)))
      (fresh_temporary r)"
    using holds_create_temporary [OF assms(1) k assms(3)] holds_reset_temporary [OF assms(1) k assms(3)] assms(4)
    by (cases temporary) simp_all
  show ?thesis
    unfolding rebuild_temporary_def
    by (rule holds_bind [OF verify], rule holds_bind [OF opened], rule holds_bind [OF holds_record_target [OF k assms(3)]],
        rule holds_assembleR [OF assms(1-3)])
qed

lemma holds_temporary_complete:
  assumes "frozen r = frozen r0" "op_state r = Assembling"
  shows "holds (sound env w0 r0) (\<lambda>w. cur r w \<and> temporary = target_at (op_binding r) False w) (temporary_complete env r temporary)
    (\<lambda>complete w. cur r w \<and> (complete \<longrightarrow> row env Assembling False r0 w) \<and> (temporary = None \<longrightarrow> op_target r = None))"
proof (cases temporary)
  case None
  then show ?thesis by (auto simp: temporary_complete_def intro!: holds_ensure_bind holds_ret)
next
  case (Some a)
  have whole_row: "row env Assembling False r0 w"
    if "sound env w0 r0 w" "cur r w" "target_at (op_binding r) False w = Some a" "op_target r = Some (ar_identity a)" "whole env r a" for w
  proof -
    have "phase env r w" using soundE [OF that(1,2) frozen_eqs(1) [OF assms(1)]] by simp
    then have "at_rest env r False w" using that(3-5) assms(2) by (simp add: phase_def at_rest_def)
    then show ?thesis using that(2) assms(1,2) unfolding row_def by blast
  qed
  let ?P = "\<lambda>w. cur r w \<and> target_at (op_binding r) False w = Some a"
  let ?Q = "\<lambda>complete w. cur r w \<and> (complete \<longrightarrow> row env Assembling False r0 w) \<and> (temporary = None \<longrightarrow> op_target r = None)"
  have got: "?Q True w" if o: "op_target r = Some (ar_identity a)" and P: "sound env w0 r0 w" "?P w \<and> whole env r a" for w
    using whole_row [OF P(1) _ _ o] P(2) Some by blast
  have checked: "holds (sound env w0 r0) ?P (bindR (queryR (\<lambda>_. verify_artifact env a (op_totalSize r) (op_expectedSha256 r))) (\<lambda>_. retR True)) ?Q"
    if o: "op_target r = Some (ar_identity a)"
  proof (rule holds_bind)
    show "holds (sound env w0 r0) ?P (queryR (\<lambda>_. verify_artifact env a (op_totalSize r) (op_expectedSha256 r))) (\<lambda>_ w. ?P w \<and> whole env r a)"
      by (rule holds_query) (simp add: verify_artifact_def whole_def err_simps)
    show "holds (sound env w0 r0) (\<lambda>w. ?P w \<and> whole env r a) (retR True) ?Q" for x by (rule holds_ret) (rule got [OF o])
  qed
  have partial: "holds (sound env w0 r0) ?P (retR False) ?Q" by (rule holds_ret) (simp add: Some)
  have "holds (sound env w0 r0) ?P (temporary_complete env r temporary) ?Q"
    unfolding Some temporary_complete_def option.case requireIdentity_def
    by (rule holds_ensure_bind, rule holds_ensure_bind, rule holds_if [OF checked [unfolded Some] partial [unfolded Some]])
  then show ?thesis by (rule holds_weaken) (simp_all add: Some)
qed

lemma holds_recover_assembling:
  assumes "b_temporaryPath (op_binding r0) \<noteq> b_storagePath (op_binding r0)" "frozen r = frozen r0" "op_state r = Assembling"
  shows "holds (sound env w0 r0) (cur r) (recover_assembling env r) (\<lambda>r' w. cur r' w \<and> frozen r' = frozen r0)"
proof -
  let ?S = "sound env w0 r0"
  have ids: "op_id r = op_id r0" "op_binding r = op_binding r0" using frozen_eqs [OF assms(2)] by simp_all
  have build: "holds ?S (\<lambda>w. cur r w \<and> temporary = target_at (op_binding r) False w)
      (bindR (temporary_complete env r temporary) (\<lambda>complete. if complete then retR () else rebuild_temporary env r temporary))
      (\<lambda>_. row env Assembling False r0)" for temporary
  proof (rule holds_bind [where Q = "\<lambda>complete w. cur r w \<and> (complete \<longrightarrow> row env Assembling False r0 w) \<and> (temporary = None \<longrightarrow> op_target r = None)"],
      goal_cases)
    case 1 show ?case by (rule holds_temporary_complete [OF assms(2,3)])
  next
    case (2 complete)
    show ?case
    proof (cases "complete \<or> \<not> (temporary = None \<longrightarrow> op_target r = None)")
      case True
      then show ?thesis by (cases complete) (auto simp: holds_def retR_def)
    next
      case False
      have path: "b_temporaryPath (op_binding r) \<noteq> b_storagePath (op_binding r)" using assms(1) ids by simp
      have missing: "temporary = None \<longrightarrow> op_target r = None" using False by blast
      have plain: "complete = False" using False by blast
      show ?thesis unfolding plain if_False
        by (rule holds_weaken [OF holds_rebuild [OF path assms(2,3) missing]]) simp_all
    qed
  qed
  have tail: "holds ?S (row env Assembling False r0)
      (bindR syncR (\<lambda>_. bindR (transitionR (op_id r) Assembling Verified) (\<lambda>_. bindR (lookupR env (op_id r)) (\<lambda>(r', _). retR r'))))
      (\<lambda>r' w. cur r' w \<and> frozen r' = frozen r0)"
    unfolding ids
    by (rule holds_bind [OF holds_sync], rule holds_bind [OF holds_transition [where to = Verified and f = False]], simp, simp,
        rule holds_bind [OF holds_lookup]) (auto intro!: holds_ret split: prod.split)
  have assoc: "bindR (bindR m f) g = bindR m (\<lambda>x. bindR (f x) g)" for m :: "'a run" and f :: "'a \<Rightarrow> 'b run" and g :: "'b \<Rightarrow> 'c run"
    by (rule ext) (simp add: bindR_def split: prod.split sum.split)
  show ?thesis
    unfolding recover_assembling_def
  proof (rule holds_bind [where Q = "\<lambda>_. cur r"], goal_cases)
    case 1 show ?case by (rule holds_query)
  next
    case (2 final) show ?case
    proof (rule holds_ensure_bind, rule holds_bind [where Q = "\<lambda>t w. cur r w \<and> t = target_at (op_binding r) False w"], goal_cases)
      case 1 show ?case by (rule holds_query) (simp add: inspect_Inr)
    next
      case (2 temporary) show ?case
        unfolding assoc [of "temporary_complete env r temporary"
          "\<lambda>complete. if complete then retR () else rebuild_temporary env r temporary", symmetric]
        by (rule holds_bind [OF build tail])
    qed
  qed
qed

end
