(* ===== verification/SsdClaims.thy ===== *)
theory SsdClaims
  imports SsdSafety
begin

text \<open>Properties of the finalization from the SSD to the disk.\<close>

section \<open>The commit\<close>

lemma holds_any_query: "holds I P (queryR f) (\<lambda>_. P)"
  by (rule holds_query)

lemma holds_verify_final: "holds I P (verifyFinal env r) (\<lambda>_. P)"
  unfolding verifyFinal_def requireIdentity_def
  by (rule holds_bind [OF holds_any_query], rule holds_ensure_bind, rule holds_bind [OF holds_any_query], rule holds_ensure_bind,
      rule holds_ensure_bind, rule holds_bind [OF holds_any_query], rule holds_sync)

lemma publish_rows_Inr:
  assumes "publish_rows r name w = Inr (w', f)"
  shows "sw_db w' = charged_db r (sw_db w) \<and> sw_target w' = sw_target w \<and> sw_source w' = sw_source w
    \<and> sw_manifest w' = sw_manifest w \<and> sw_ops w' = sw_ops (put_op (r\<lparr>op_state := Committed, op_fileId := Some (next_file (sw_db w))\<rparr>) w)
    \<and> op_target r \<noteq> None \<and> f = final_file r (next_file (sw_db w)) (op_filename r) \<and> name = op_filename r"
proof -
  have g: "guard_transition r Committed w = Inr ()"
    "guard_reserved_file (r\<lparr>op_state := Committed, op_fileId := Some (next_file (sw_db w))\<rparr>) (final_file r (next_file (sw_db w)) name) = Inr ()"
    using assms unfolding publish_rows_def Let_def by (auto simp: bindE_eq_Inr)
  then have n: "name = op_filename r" by (simp add: guard_reserved_file_def err_simps final_file_def)
  have "op_target r \<noteq> None" using g(1) by (auto simp: guard_transition_def err_simps)
  then show ?thesis using assms g unfolding publish_rows_def Let_def by (auto simp: n charged_db_def final_file_def)
qed

lemma holds_commit:
  "holds (sound env w0 r0) (row env Published True r0) (txR (commit_op mode (op_id r0))) (\<lambda>f w. row env Committed True r0 w)"
proof (rule holds_tx)
  fix w w' f assume s: "sound env w0 r0 w" and P: "row env Published True r0 w" and run: "commit_op mode (op_id r0) w = Inr (w', f)"
  obtain r where r: "cur r w" "frozen r = frozen r0" "op_state r = Published" "at_rest env r True w" "op_id r = op_id r0"
    "phase env r w" "booked w0 r w" "find_op (op_id r0) w = Some r" using rowE [OF P s] by blast
  obtain name where "publish_rows r name w = Inr (w', f)" using run r(3,8) by (auto simp: commit_op_def bindE_eq_Inr require_eq_Inr)
  note p = publish_rows_Inr [OF this]
  let ?r = "r\<lparr>op_state := Committed, op_fileId := Some (next_file (sw_db w))\<rparr>"
  have fs: "sw_target w' = sw_target w" "sw_source w' = sw_source w" "sw_manifest w' = sw_manifest w" using p by simp_all
  have "at_rest env ?r True w" using r(4) at_rest_cong [of ?r r] by simp
  then have rest: "at_rest env ?r True w'" using fs_cong(5) [OF fs] by blast
  then have "phase env ?r w'" by (simp add: phase_def)
  moreover have "charged_db ?r (sw_db w0) = charged_db r (sw_db w0)" by (simp add: charged_db_def final_file_def)
  then have "booked w0 ?r w'" using r(3,7) p by (simp add: booked_def)
  moreover have "find_op (op_id r) (put_op ?r w) = Some ?r" using find_put_op [of ?r w r] r(1) by (simp add: cur_def)
  then have "cur ?r w'" using p by (simp add: cur_def find_op_def)
  moreover have "sw_manifest w' = sw_manifest w0" using fs(3) soundE(4) [OF s r(1,5)] by simp
  ultimately have "sound env w0 r0 w'" using soundI [of ?r w' r0] r(2) by simp
  then show "sound env w0 r0 w' \<and> row env Committed True r0 w'"
    using \<open>cur ?r w'\<close> rest r(2) unfolding row_def by (intro conjI exI [of _ ?r]) simp_all
qed


section \<open>Clean-up\<close>

lemma holds_remove_verified:
  assumes "frozen r = frozen r0"
  shows "holds (sound env w0 r0) (row env Committed True r0) (remove_verified env r c) (\<lambda>_. row env Committed True r0)"
  unfolding remove_verified_def
proof (rule holds_bind [OF holds_any_query], goal_cases)
  case (1 observed)
  have "sound env w0 r0 w' \<and> row env Committed True r0 w'"
    if s: "sound env w0 r0 w" and P: "row env Committed True r0 w" and run: "removeChunk (op_binding r) c i w = Inr w'" for w w' i
  proof -
    obtain q where q: "cur q w" "frozen q = frozen r0" "op_state q = Committed" "at_rest env q True w" "op_id q = op_id r0"
      "phase env q w" "booked w0 q w" "find_op (op_id r0) w = Some q" using rowE [OF P s] by blast
    have w': "sw_ops w' = sw_ops w \<and> sw_db w' = sw_db w \<and> sw_target w' = sw_target w \<and> sw_manifest w' = sw_manifest w"
      using run by (auto simp: removeChunk_def err_simps split: option.splits)
    then have rest: "at_rest env q True w'" using q(4) by (simp add: at_rest_def target_at_def)
    then have "phase env q w'" using q(3) by (simp add: phase_def)
    moreover have "booked w0 q w'" "cur q w'" "sw_manifest w' = sw_manifest w0"
      using q(1,7) w' find_op_cong [of w' w] soundE(4) [OF s q(1,5)] by (simp_all add: booked_def)
    ultimately show ?thesis using soundI [OF _ q(2)] rest q(2,3) unfolding row_def by blast
  qed
  then show ?case by (cases observed) (auto intro!: holds_ret holds_update)
qed

lemma holds_finish_cleanup:
  "holds (sound env w0 r0) (row env Committed True r0) (updateR (finishCleanup mode (op_id r0))) (\<lambda>_. row env Committed True r0)"
proof (rule holds_update)
  fix w w' assume s: "sound env w0 r0 w" and P: "row env Committed True r0 w" and run: "finishCleanup mode (op_id r0) w = Inr w'"
  obtain r where r: "cur r w" "frozen r = frozen r0" "op_state r = Committed" "at_rest env r True w" "op_id r = op_id r0"
    "phase env r w" "booked w0 r w" "find_op (op_id r0) w = Some r" using rowE [OF P s] by blast
  let ?r = "r\<lparr>op_cleaned := True\<rparr>"
  let ?v = "(put_op ?r w)\<lparr>sw_chunks := filter (\<lambda>c. ch_session c \<noteq> op_sessionId r) (sw_chunks w)\<rparr>"
  consider "w' = w" | "w' = ?v" using run r(8) by (auto simp: finishCleanup_def bindE_eq_Inr require_eq_Inr split: if_splits)
  then show "sound env w0 r0 w' \<and> row env Committed True r0 w'"
  proof cases
    case 2
    have fs: "sw_target w' = sw_target w" "sw_source w' = sw_source w" "sw_manifest w' = sw_manifest w" "sw_db w' = sw_db w"
      using 2 by simp_all
    have "at_rest env ?r True w" using r(4) at_rest_cong [of ?r r] by simp
    then have rest: "at_rest env ?r True w'" using fs_cong(5) [OF fs(1-3)] by blast
    then have "phase env ?r w'" using r(3) by (simp add: phase_def)
    moreover have "charged_db ?r (sw_db w0) = charged_db r (sw_db w0)" by (simp add: charged_db_def final_file_def)
    then have "booked w0 ?r w'" using r(3,7) fs(4) by (simp add: booked_def)
    moreover have "find_op (op_id r) (put_op ?r w) = Some ?r" using find_put_op [of ?r w r] r(1) by (simp add: cur_def)
    then have c: "cur ?r w'" using 2 by (simp add: cur_def find_op_def)
    moreover have "sw_manifest w' = sw_manifest w0" using fs(3) soundE(4) [OF s r(1,5)] by simp
    ultimately have "sound env w0 r0 w'" using soundI [of ?r w' r0] r(2) by simp
    then show ?thesis using c rest r(2,3) unfolding row_def by (intro conjI exI [of _ ?r]) simp_all
  qed (use s P in simp)
qed

lemma holds_clean_source:
  assumes "frozen r = frozen r0"
  shows "holds (sound env w0 r0) (row env Committed True r0) (clean_source env r) (\<lambda>_. row env Committed True r0)"
  unfolding clean_source_def frozen_eqs(1) [OF assms]
  by (rule holds_bind [OF holds_manifest [OF holds_bind [OF holds_any_query holds_ret]]], assumption,
      rule holds_bind [OF holds_manifest [OF holds_remove_verified [OF assms]]], rule holds_bind [OF holds_sync], rule holds_finish_cleanup)

section \<open>The attempts\<close>

lemma holds_recover_commit:
  assumes "frozen r = frozen r0"
  shows "holds (sound env w0 r0) (cur r) (recover_commit env r) (\<lambda>_. row env Committed True r0)"
proof -
  have k: "op_id r = op_id r0" using frozen_eqs(1) [OF assms] .
  have start: "row env (op_state r) True r0 w" if "op_state r = Published \<or> op_state r = Committed" "sound env w0 r0 w" "cur r w" for w
  proof -
    have "at_rest env r True w" using soundE(2) [OF that(2,3) k] that(1) by (auto simp: phase_def)
    then show ?thesis using that(3) assms unfolding row_def by blast
  qed
  have commit: "holds (sound env w0 r0) (row env (op_state r) True r0)
      (if op_state r = Published then bindR (txR (commit_op (re_mode env) (op_id r))) (\<lambda>_. retR ()) else retR ())
      (\<lambda>_. row env Committed True r0)" if "op_state r = Published \<or> op_state r = Committed"
  proof (cases "op_state r = Published")
    case True
    then show ?thesis unfolding k by (simp, intro holds_bind [OF holds_commit] holds_ret)
  next
    case False
    then show ?thesis using that by (auto intro: holds_ret)
  qed
  have finish: "holds (sound env w0 r0) (row env Committed True r0)
      (bindR (lookupR env (op_id r)) (\<lambda>(r', file).
       bindR (ensureR (op_state r' = Committed \<and> file \<noteq> None) ''Authoritative committed outcome required for cleanup'') (\<lambda>_.
       bindR (verifyFinal env r') (\<lambda>_. bindR (clean_source env r') (\<lambda>_. retR file))))) (\<lambda>_. row env Committed True r0)"
    unfolding k
  proof (rule holds_bind [OF holds_lookup], clarsimp, goal_cases)
    case (1 r' x)
    have "holds (sound env w0 r0) (row env Committed True r0)
        (bindR (verifyFinal env r') (\<lambda>_. bindR (clean_source env r') (\<lambda>_. retR x))) (\<lambda>_. row env Committed True r0)"
      if "frozen r' = frozen r0"
      by (rule holds_bind [OF holds_verify_final], rule holds_bind [OF holds_clean_source [OF that]], rule holds_ret)
    then show ?case
      by (cases "frozen r' = frozen r0") (rule holds_ensure_bind, rule holds_weaken, blast, auto simp: row_def holds_def)
  qed
  show ?thesis
    unfolding recover_commit_def
    by (rule holds_ensure_bind, rule holds_bind [OF holds_weaken [OF holds_verify_final start]], assumption+,
        rule holds_bind [OF commit], assumption, rule finish)
qed

lemma holds_recover:
  assumes "b_temporaryPath (op_binding r0) \<noteq> b_storagePath (op_binding r0)"
  shows "holds (sound env w0 r0) (\<lambda>_. True) (recover env (op_id r0)) (\<lambda>_ _. True)"
proof -
  let ?S = "sound env w0 r0"
  have look: "cur r w \<and> frozen r = frozen r0" if "lookup_op (re_mode env) (op_id r0) w = Inr (r, x)" "?S w" for r x w
    using lookup_cur [OF that(1)] soundE(1) [OF that(2)] by blast
  have lookup: "holds ?S (\<lambda>_. True) (lookupR env (op_id r0)) (\<lambda>(r, x) w. cur r w \<and> frozen r = frozen r0)"
    unfolding lookupR_def by (rule holds_query) (use look in \<open>auto split: prod.split\<close>)
  have main: "holds ?S (cur r)
      (bindR (reopen r) (\<lambda>_. bindR (lookupR env (op_id r0)) (\<lambda>(current, _).
       bindR (ensureR (current = r) ''Recovery journal changed during acquisition'') (\<lambda>_.
       bindR (if op_state r = Assembling then recover_assembling env r else retR r) (\<lambda>r1.
       bindR (if op_state r1 = Verified \<or> op_state r1 = Publishing then recover_publication env r1 else retR r1) (\<lambda>r2.
       recover_commit env r2)))))) (\<lambda>_ _. True)" if fr: "frozen r = frozen r0" for r
  proof (unfold reopen_def lookupR_def split_beta, rule holds_bind [OF holds_any_query], rule holds_bind [OF holds_any_query],
      rule holds_ensure_bind, rule holds_bind [where Q = "\<lambda>r1 w. cur r1 w \<and> frozen r1 = frozen r0"], goal_cases)
    case 1 show ?case using holds_recover_assembling [OF assms fr] fr by (auto intro: holds_ret)
  next
    case (2 _ _ r1) show ?case
    proof (rule holds_bind [where Q = "\<lambda>r2 w. cur r2 w \<and> frozen r2 = frozen r0"], goal_cases)
      case 1 show ?case
      proof (cases "frozen r1 = frozen r0")
        case True
        then show ?thesis using holds_recover_publication [OF assms _ True] by (auto intro: holds_ret)
      qed (simp add: holds_def)
    next
      case (2 r2) show ?case
      proof (cases "frozen r2 = frozen r0")
        case True
        then show ?thesis by (auto intro: holds_weaken [OF holds_recover_commit])
      qed (simp add: holds_def)
    qed
  qed
  show ?thesis
    unfolding recover_def
  proof (rule holds_ensure_bind, rule holds_bind [OF lookup], clarsimp, goal_cases)
    case (1 r x) show ?case
    proof (cases "frozen r = frozen r0")
      case True
      then show ?thesis using main [OF True] by (auto intro!: holds_ensure_bind intro: holds_ret)
    qed (simp add: holds_def)
  qed
qed

text \<open>Any number of recoveries, each with its own budget.\<close>

fun attempts :: "recovery_env \<Rightarrow> ustring \<Rightarrow> nat option list \<Rightarrow> ssd_world \<Rightarrow> ssd_world" where
  "attempts env k [] w = w"
| "attempts env k (n # ns) w = attempts env k ns (snd (fst (recover env k (n, w))))"

lemma attempts_keep:
  assumes "holds I (\<lambda>_. True) (recover env k) (\<lambda>_ _. True)"
  shows "I w \<Longrightarrow> I (attempts env k ns w)"
proof (induction ns arbitrary: w)
  case (Cons n ns)
  have "I (snd (fst (recover env k (n, w))))" using assms Cons.prems by (simp add: holds_def)
  then show ?case using Cons.IH by simp
qed simp

text \<open>The chunks that the rows of the session promise are on the SSD.\<close>

definition staged :: "recovery_env \<Rightarrow> binding \<Rightarrow> nat \<Rightarrow> ssd_world \<Rightarrow> ssd_world \<Rightarrow> bool" where
  "staged env b k w w' \<longleftrightarrow> (\<forall>c \<in> set (sw_chunks w). ch_session c = k \<longrightarrow>
     (case chunk_at b (ch_index c) w' of None \<Rightarrow> False
      | Some a \<Rightarrow> int (length (ar_bytes a)) = ch_byteSize c \<and> re_hash env (ar_bytes a) = ch_sha256 c))"

lemma find_append_new: "find P xs = None \<Longrightarrow> P y \<Longrightarrow> find P (xs @ [y]) = Some y"
  by (induction xs) (auto split: if_splits)

lemma begin_op_Inr:
  assumes "begin_op mode now i w = Inr (w1, r)"
  obtains u rows where "r = new_op i u" "rows = filter (\<lambda>c. ch_session c = up_id u) (sw_chunks w)" "journal_unique i u w"
    "validateBinding (bi_binding i) = Inr ()"
    "w1 = w\<lparr>sw_ops := sw_ops w @ [r], sw_manifest := sw_manifest w @ map (\<lambda>c. \<lparr>fc_operation = bi_id i, fc_index = ch_index c,
       fc_byteSize = ch_byteSize c, fc_sha256 = ch_sha256 c\<rparr>) rows\<rparr>"
  using assms by (auto simp: begin_op_def Let_def begin_request_def err_simps split: list.splits)

lemma begin_sound:
  assumes run: "begin_op mode now i w = Inr (w1, r)"
    and staged: "staged env (bi_binding i) (op_sessionId r) w w"
    and free: "target_at (bi_binding i) True w = None"
    and fk: "list_all (\<lambda>c. fc_operation c \<noteq> bi_id i) (sw_manifest w)"
  shows "sound env w1 r w1" "cur r w1" "op_id r = bi_id i" "op_binding r = bi_binding i" "op_state r = Assembling" "op_target r = None"
    "b_temporaryPath (bi_binding i) \<noteq> b_storagePath (bi_binding i)" "sw_db w1 = sw_db w"
    "\<And>w'. intact env r w' \<Longrightarrow> sw_manifest w' = sw_manifest w1 \<Longrightarrow> staged env (bi_binding i) (op_sessionId r) w w'"
proof -
  obtain u rows where b: "r = new_op i u" "rows = filter (\<lambda>c. ch_session c = up_id u) (sw_chunks w)" "journal_unique i u w"
    "validateBinding (bi_binding i) = Inr ()"
    "w1 = w\<lparr>sw_ops := sw_ops w @ [r], sw_manifest := sw_manifest w @ map (\<lambda>c. \<lparr>fc_operation = bi_id i, fc_index = ch_index c,
       fc_byteSize = ch_byteSize c, fc_sha256 = ch_sha256 c\<rparr>) rows\<rparr>"
    by (rule begin_op_Inr [OF run])
  show k: "op_id r = bi_id i" "op_binding r = bi_binding i" "op_state r = Assembling" "op_target r = None" using b(1) by (simp_all add: new_op_def)
  show "b_temporaryPath (bi_binding i) \<noteq> b_storagePath (bi_binding i)" using b(4) by (simp add: validateBinding_def err_simps)
  show db: "sw_db w1 = sw_db w" using b(5) by simp
  have "find (\<lambda>x. op_id x = bi_id i) (sw_ops w) = None" using b(3) by (simp add: find_None_iff journal_unique_def)
  then have "find (\<lambda>x. op_id x = bi_id i) (sw_ops w @ [r]) = Some r" using k(1) using find_append_new k(1) by metis
  then show c: "cur r w1" using b(5) k(1) by (simp add: cur_def find_op_def)
  have "filter (\<lambda>c. fc_operation c = bi_id i) (sw_manifest w) = []" using fk by (simp add: list_all_iff filter_empty_conv)
  then have chunks: "set (op_chunks (bi_id i) w1) = (\<lambda>c. \<lparr>fc_operation = bi_id i, fc_index = ch_index c, fc_byteSize = ch_byteSize c,
      fc_sha256 = ch_sha256 c\<rparr>) ` set rows" using b(5) by (auto simp: op_chunks_def)
  have id: "op_sessionId r = up_id u" using b(1) by (simp add: new_op_def)
  have same: "intact env r w' \<longleftrightarrow> staged env (bi_binding i) (op_sessionId r) w w'" if "sw_manifest w' = sw_manifest w1" for w'
  proof -
    have "op_chunks (bi_id i) w' = op_chunks (bi_id i) w1" using that by (simp add: op_chunks_def)
    then show ?thesis unfolding intact_def staged_def k using chunks b(2) id by (fastforce split: option.splits)
  qed
  then show "\<And>w'. intact env r w' \<Longrightarrow> sw_manifest w' = sw_manifest w1 \<Longrightarrow> staged env (bi_binding i) (op_sessionId r) w w'" by blast
  have "staged env (bi_binding i) (op_sessionId r) w w1" using staged b(5) by (simp add: staged_def chunk_at_def)
  then have "phase env r w1" using same k free b(5) by (simp add: phase_def target_at_def)
  then show "sound env w1 r w1" using soundI [OF c refl] b(1) by (simp add: booked_def new_op_def)
qed

text \<open>What follows the reservation.\<close>

lemma holds_finalize_reserved:
  assumes "b_temporaryPath (op_binding r) \<noteq> b_storagePath (op_binding r)" "op_state r = Assembling" "op_target r = None"
  shows "holds (sound env w0 r) (cur r) (finalize_reserved env r) (\<lambda>_ _. True)"
  unfolding finalize_reserved_def
proof (rule holds_ensure_bind, rule holds_bind [OF holds_create_temporary [OF assms(1) refl assms(2,3)]],
    rule holds_bind [OF holds_record_target [OF refl assms(2)]], rule holds_bind [OF holds_assembleR [OF assms(1) refl assms(2)]], goal_cases)
  case (1 j x y)
  note move = holds_bind [OF holds_transition [of Assembling Verified False env w0 r]]
    holds_bind [OF holds_transition [of Verified Publishing False env w0 r]] holds_bind [OF holds_transition [of Publishing Published True env w0 r]]
  show ?case
    by (rule move(1), simp, simp, rule holds_bind [OF holds_any_query], rule holds_bind [OF holds_mime], rule move(2), simp, simp,
        rule holds_bind [OF holds_publish [OF assms(1)]], rule move(3), simp, simp, rule holds_weaken [OF holds_commit]) simp_all
qed

lemma finalize_step:
  assumes "begin_op (re_mode env) now i w = Inr (w1, r)" "n \<noteq> Some 0"
    "holds I (cur r) (finalize_reserved env r) (\<lambda>_ _. True)" "I w1" "cur r w1"
  shows "I (snd (fst (finalize env now i (n, w))))"
proof -
  have "txR (begin_op (re_mode env) now i) (n, w) = ((map_option (\<lambda>k. k - 1) n, w1), Inr r)"
    using assms(1,2) by (simp add: txR_def stepR_def)
  then show ?thesis using assms(3-5) by (simp add: finalize_def bindR_def holds_def)
qed


section \<open>A small installation\<close>

definition demo_op_id :: ustring where "demo_op_id = js ''00000000-0000-0000-0000-00000000000a''"
definition demo_upload_id :: ustring where "demo_upload_id = js ''00000000-0000-0000-0000-00000000000b''"

definition demo_binding :: binding where
  "demo_binding = \<lparr>b_sourceWorkspaceId = SSD_UPLOAD_WORKSPACE_ID, b_sourceRoot = js ''/s'', b_sourcePath = js ''/s/'' @ demo_upload_id,
     b_sourceDevice = js ''1'', b_sourceInode = js ''2'', b_sourceDirectoryDevice = js ''1'', b_sourceDirectoryInode = js ''3'',
     b_targetStorageId = LEGACY_STORAGE_ID, b_targetRoot = js ''/t'', b_targetDevice = js ''9'', b_targetInode = js ''2'',
     b_targetDirectoryDevice = js ''9'', b_targetDirectoryInode = js ''3'',
     b_temporaryPath = js ''/t/7/.'' @ demo_op_id @ js ''.assembling'', b_storagePath = js ''/t/7/'' @ demo_op_id @ js ''.ssd-finalized'',
     b_relativeObjectKey = js ''7/'' @ demo_op_id @ js ''.ssd-finalized''\<rparr>"

definition demo_hash :: "bytes \<Rightarrow> ustring" where
  "demo_hash xs = replicate 64 (48 + length xs mod 10)"

definition demo_recovery :: recovery_env where
  "demo_recovery = \<lparr>re_mode = Ssd, re_hash = demo_hash, re_mime = (\<lambda>_. js ''a/b'')\<rparr>"

definition demo_input :: begin_input where
  "demo_input = \<lparr>bi_id = demo_op_id, bi_userId = 7, bi_uploadId = demo_upload_id, bi_expectedSha256 = demo_hash [1, 2, 3],
     bi_binding = demo_binding\<rparr>"

definition demo_session :: ssd_session where
  "demo_session = \<lparr>up_id = 4, up_uploadId = demo_upload_id, up_filename = js ''f'', up_expectedSha256 = Some (demo_hash [1, 2, 3]),
     up_totalSize = 3, up_uploadedSize = 3, up_chunkSize = 2, up_totalChunks = 2, up_uploadedCount = 2, up_accountingInitialized = True,
     up_tempPath = js ''/s/'' @ demo_upload_id, up_parentId = None, up_origin = OwnerOrigin, up_shareLinkId = None,
     up_shareRootFolderId = None, up_status = Uploading, up_expiresAt = None, up_userId = 7, up_workspaceId = SSD_UPLOAD_WORKSPACE_ID\<rparr>"

definition demo_file :: file_row where
  "demo_file = \<lparr>f_id = 1, f_name = js ''f'', f_storagePath = None, f_storageLocationId = None, f_relativeObjectKey = None, f_size = 0,
     f_mimeType = None, f_isFolder = False, f_isDeleted = False, f_deletedAt = None, f_parentId = None, f_folderId = None, f_version = 0,
     f_uploadId = None, f_userId = 7\<rparr>"

definition demo_world :: "file_row list \<Rightarrow> ssd_world" where
  "demo_world fs = \<lparr>sw_db = \<lparr>users = [\<lparr>u_id = 7, u_email = [], u_password = [], u_isActive = True, u_storageQuota = 10, u_storageUsed = 0\<rparr>],
       files = fs, folders = [], next_file = 2, next_folder = 1\<rparr>,
     sw_checksums = [], sw_sessions = [demo_session],
     sw_chunks = [\<lparr>ch_session = 4, ch_index = 0, ch_byteSize = 2, ch_sha256 = demo_hash [1, 2]\<rparr>,
                  \<lparr>ch_session = 4, ch_index = 1, ch_byteSize = 1, ch_sha256 = demo_hash [3]\<rparr>],
     sw_ops = [], sw_manifest = [], sw_target = [],
     sw_source = [((js ''/s/'' @ demo_upload_id, 0), \<lparr>ar_identity = (js ''1'', js ''4''), ar_bytes = [1, 2]\<rparr>),
                  ((js ''/s/'' @ demo_upload_id, 1), \<lparr>ar_identity = (js ''1'', js ''5''), ar_bytes = [3]\<rparr>)],
     sw_inode = 6\<rparr>"

definition demo_row :: ssd_op where
  "demo_row = new_op demo_input demo_session"

definition demo_reserved :: ssd_world where
  "demo_reserved = (demo_world [])\<lparr>sw_ops := [demo_row],
     sw_manifest := [\<lparr>fc_operation = demo_op_id, fc_index = 0, fc_byteSize = 2, fc_sha256 = demo_hash [1, 2]\<rparr>,
                     \<lparr>fc_operation = demo_op_id, fc_index = 1, fc_byteSize = 1, fc_sha256 = demo_hash [3]\<rparr>]\<rparr>"

lemma demo_begin: "begin_op Ssd 0 demo_input (demo_world []) = Inr (demo_reserved, demo_row)"
  by code_simp

lemma demo_finalize:
  "snd (finalize demo_recovery 0 demo_input (None, demo_world [])) = Inr (final_file (demo_row\<lparr>op_mimeType := js ''a/b''\<rparr>) 2 (js ''f''))"
  by code_simp

text \<open>The process dies after six effects; the recovery after five and again after twelve.\<close>

definition demo_crashed :: ssd_world where
  "demo_crashed = attempts demo_recovery (bi_id demo_input) [Some 5, Some 12]
     (snd (fst (finalize demo_recovery 0 demo_input (Some 6, demo_world []))))"


section \<open>A name taken before the commit\<close>

lemma commit_blocked:
  assumes "find_op k w = Some r" "op_state r = Published"
    and "f \<in> set (files (sw_db w))" "f_userId f = op_userId r" "f_parentId f = op_parentId r" "\<not> f_isDeleted f" "f_name f = op_filename r"
  shows "commit_op mode k w \<noteq> Inr x"
proof
  assume "commit_op mode k w = Inr x"
  then obtain name where n: "allocateNamespaceName (sw_db w) (op_userId r) (op_parentId r) (op_filename r) KFile None None = Inr name"
      "publish_rows r name w = Inr x" using assms(1,2) by (auto simp: commit_op_def bindE_eq_Inr require_eq_Inr)
  have "name = op_filename r" using n(2) publish_rows_Inr by (metis prod.collapse)
  moreover have "name \<notin> set (occupied_names (sw_db w) (op_userId r) (op_parentId r) None None)"
    using n(1) choose_name_free by (auto simp: allocateNamespaceName_def err_simps)
  moreover have "op_filename r \<in> set (occupied_names (sw_db w) (op_userId r) (op_parentId r) None None)"
    using assms(3-7) by (auto simp: occupied_names_def intro: image_eqI [of _ f_name f])
  ultimately show False by blast
qed

lemma recover_blocked:
  assumes "find_op k w = Some r" "op_state r = Published" "\<not> op_cleaned r" "\<And>w' x mode. I w' \<Longrightarrow> find_op k w' = Some r \<and> commit_op mode k w' \<noteq> Inr x"
  shows "holds I (\<lambda>_. True) (recover env k) (\<lambda>_ _. False)"
proof -
  have tail: "holds I (\<lambda>_. True) (recover_commit env r) (\<lambda>_ _. False)" if "op_id r = k"
    unfolding recover_commit_def
  proof (rule holds_ensure_bind, rule holds_bind [OF holds_verify_final], rule holds_bind [where Q = "\<lambda>_ _. False"], goal_cases)
    case 1
    have "holds I (\<lambda>_. True) (txR (commit_op (re_mode env) k)) (\<lambda>_ _. False)" by (rule holds_tx) (use assms(4) in blast)
    then have "holds I (\<lambda>_. True) (bindR (txR (commit_op (re_mode env) k)) (\<lambda>_. retR ())) (\<lambda>_ _. False)"
      by (rule holds_bind) (simp add: holds_def)
    then show ?case using assms(2) that by simp
  qed (simp add: holds_def)
  have look: "holds I (\<lambda>_. True) (lookupR env k) (\<lambda>(q, _) _. q = r \<and> op_id r = k)"
    unfolding lookupR_def by (rule holds_query) (use assms(4) lookup_cur in \<open>fastforce simp: cur_def\<close>)
  show ?thesis
    unfolding recover_def split_beta
  proof (rule holds_ensure_bind, rule holds_bind [OF look], rule holds_ensure_bind, goal_cases)
    case (1 p)
    show ?case
    proof (cases "fst p = r \<and> op_id r = k")
      case True
      have "holds I (\<lambda>_. True) (bindR (reopen r) (\<lambda>_. bindR (lookupR env k) (\<lambda>q.
          bindR (ensureR (fst q = r) ''Recovery journal changed during acquisition'') (\<lambda>_. recover_commit env r)))) (\<lambda>_ _. False)"
        unfolding reopen_def lookupR_def
        by (rule holds_bind [OF holds_any_query], rule holds_bind [OF holds_any_query], rule holds_ensure_bind, rule tail) (use True in simp)
      moreover have "bindR (retR r) g = g r" for g :: "ssd_op \<Rightarrow> file_row option run" by (rule ext) (simp add: bindR_def retR_def)
      ultimately show ?thesis using True assms(2,3) by (simp add: holds_weaken)
    qed (auto simp: holds_def split_beta)
  qed
qed

section \<open>Properties\<close>

text \<open>
  C4: a finalization and any number of recoveries, each interrupted anywhere.
\<close>

theorem interrupted_finalization_is_safe:
  assumes "begin_op (re_mode env) now i w = Inr (w1, r0)" "n \<noteq> Some 0"
    and "staged env (bi_binding i) (op_sessionId r0) w w"
    and "target_at (bi_binding i) True w = None"
    and "list_all (\<lambda>c. fc_operation c \<noteq> bi_id i) (sw_manifest w)"
    and w': "w' = attempts env (bi_id i) ns (snd (fst (finalize env now i (n, w))))"
  shows "\<exists>r. find_op (bi_id i) w' = Some r \<and> frozen r = frozen r0 \<and>
    (if op_state r = Committed
     then sw_db w' = charged_db r (sw_db w) \<and> (\<exists>a. target_at (bi_binding i) True w' = Some a \<and> whole env r0 a)
     else sw_db w' = sw_db w \<and> staged env (bi_binding i) (op_sessionId r0) w w')"
proof -
  note b = begin_sound [OF assms(1,3-5)]
  have path: "b_temporaryPath (op_binding r0) \<noteq> b_storagePath (op_binding r0)" using b(4,7) by simp
  have "sound env w1 r0 (snd (fst (finalize env now i (n, w))))"
    by (rule finalize_step [OF assms(1,2) holds_finalize_reserved [OF path b(5,6)] b(1,2)])
  then have "sound env w1 r0 w'" unfolding w' b(3) [symmetric] by (rule attempts_keep [OF holds_recover [OF path]])
  then obtain r where r: "find_op (bi_id i) w' = Some r" "frozen r = frozen r0" "phase env r w'" "booked w1 r w'" "sw_manifest w' = sw_manifest w1"
    using b(3) by (auto simp: sound_def)
  note e = frozen_eqs(2,3,5) [OF r(2)]
  show ?thesis
  proof (cases "op_state r = Committed")
    case True
    then have "at_rest env r True w'" using r(3) by (simp add: phase_def)
    then have "\<exists>a. target_at (bi_binding i) True w' = Some a \<and> whole env r0 a" using e b(4) by (auto simp: at_rest_def whole_def)
    moreover have "sw_db w' = charged_db r (sw_db w)" using True r(4) b(8) by (simp add: booked_def)
    ultimately show ?thesis using True r(1,2) by (intro exI [of _ r]) simp
  next
    case False
    have "intact env r0 w'" using False r(3) intact_cong [OF r(2)] by (simp add: phase_def)
    then show ?thesis using False r(1,2,4,5) b(8,9) by (intro exI [of _ r]) (simp add: booked_def)
  qed
qed

theorem interrupted_finalization_is_safe_witness:
  "\<exists>r. find_op (bi_id demo_input) demo_crashed = Some r \<and> frozen r = frozen demo_row \<and>
    (if op_state r = Committed
     then sw_db demo_crashed = charged_db r (sw_db (demo_world [])) \<and>
       (\<exists>a. target_at (bi_binding demo_input) True demo_crashed = Some a \<and> whole demo_recovery demo_row a)
     else sw_db demo_crashed = sw_db (demo_world []) \<and>
       staged demo_recovery (bi_binding demo_input) (op_sessionId demo_row) (demo_world []) demo_crashed)"
proof (rule interrupted_finalization_is_safe [OF _ _ _ _ _ demo_crashed_def])
  show "begin_op (re_mode demo_recovery) 0 demo_input (demo_world []) = Inr (demo_reserved, demo_row)"
    using demo_begin by (simp add: demo_recovery_def)
  show "staged demo_recovery (bi_binding demo_input) (op_sessionId demo_row) (demo_world []) (demo_world [])" by code_simp
  show "target_at (bi_binding demo_input) True (demo_world []) = None" by code_simp
  show "list_all (\<lambda>c. fc_operation c \<noteq> bi_id demo_input) (sw_manifest (demo_world []))" by code_simp
qed simp

text \<open>
  C19: as soon as another entry of the folder has the name of a published upload.
\<close>

theorem taken_name_blocks_finalizations:
  assumes "find_op k w = Some r" "op_state r = Published" "\<not> op_cleaned r"
    and taken: "list_ex (\<lambda>f. f_userId f = op_userId r \<and> f_parentId f = op_parentId r \<and> \<not> f_isDeleted f \<and> f_name f = op_filename r)
      (files (sw_db w))"
    and w': "w' = attempts env k ns w"
  shows "sw_db w' = sw_db w \<and> (\<exists>e. snd (recover env k (n, w')) = Inl e) \<and> (\<exists>e. begin_op mode now i w' = Inl e)"
proof -
  obtain f where f: "f \<in> set (files (sw_db w))" "f_userId f = op_userId r" "f_parentId f = op_parentId r" "\<not> f_isDeleted f" "f_name f = op_filename r"
    using taken by (auto simp: list_ex_iff)
  let ?I = "\<lambda>v::ssd_world. sw_db v = sw_db w \<and> sw_ops v = sw_ops w"
  have blocked: "holds ?I (\<lambda>_. True) (recover env k) (\<lambda>_ _. False)"
  proof (rule recover_blocked [OF assms(1-3)])
    fix v :: ssd_world and x and mode :: ssd_mode assume v: "?I v"
    then have "find_op k v = Some r" using assms(1) by (simp add: find_op_def)
    then show "find_op k v = Some r \<and> commit_op mode k v \<noteq> Inr x" using commit_blocked [of k v r f mode x] assms(2) f v by simp
  qed
  then have v: "?I w'" unfolding w' by (intro attempts_keep [where I = ?I]) (auto intro: holds_weaken)
  then have "\<nexists>x. snd (recover env k (n, w')) = Inr x" using blocked unfolding holds_def by blast
  then have "\<exists>e. snd (recover env k (n, w')) = Inl e" by (cases "snd (recover env k (n, w'))") auto
  moreover have "\<not> journal_unique i u w'" for u
    using v assms(1,3) find_SomeD [of _ "sw_ops w" r] by (auto simp: journal_unique_def find_op_def)
  then have "\<nexists>x. begin_op mode now i w' = Inr x" using begin_op_Inr by (metis prod.collapse)
  then have "\<exists>e. begin_op mode now i w' = Inl e" by (cases "begin_op mode now i w'") auto
  ultimately show ?thesis using v by simp
qed

definition demo_blocked :: ssd_world where
  "demo_blocked = (demo_world [demo_file])\<lparr>sw_ops := [demo_row\<lparr>op_state := Published, op_target := Some (js ''9'', js ''6'')\<rparr>]\<rparr>"

theorem taken_name_blocks_finalizations_witness:
  "sw_db (attempts demo_recovery demo_op_id [None] demo_blocked) = sw_db demo_blocked
   \<and> (\<exists>e. snd (recover demo_recovery demo_op_id (None, attempts demo_recovery demo_op_id [None] demo_blocked)) = Inl e)
   \<and> (\<exists>e. begin_op Ssd 0 demo_input (attempts demo_recovery demo_op_id [None] demo_blocked) = Inl e)"
proof (rule taken_name_blocks_finalizations [OF _ _ _ _ refl])
  show "find_op demo_op_id demo_blocked = Some (demo_row\<lparr>op_state := Published, op_target := Some (js ''9'', js ''6'')\<rparr>)" by code_simp
  show "list_ex (\<lambda>f. f_userId f = op_userId (demo_row\<lparr>op_state := Published, op_target := Some (js ''9'', js ''6'')\<rparr>)
      \<and> f_parentId f = op_parentId (demo_row\<lparr>op_state := Published, op_target := Some (js ''9'', js ''6'')\<rparr>) \<and> \<not> f_isDeleted f
      \<and> f_name f = op_filename (demo_row\<lparr>op_state := Published, op_target := Some (js ''9'', js ''6'')\<rparr>)) (files (sw_db demo_blocked))"
    by code_simp
qed (simp_all add: demo_row_def new_op_def)

end
