(* ===== verification/Retry.thy ===== *)
theory Retry
  imports Complex_Main Uploads
begin

text \<open>
  Errors of the client (frontend/src/api/errors.ts) and its bounded retries (frontend/src/files/upload.ts).
  Times and delays in milliseconds are exact rationals; \<open>Math.random\<close> and \<open>Date.parse\<close> are parameters.
\<close>

named_theorems retry_simps \<open>evaluation of retries\<close>

section \<open>Errors\<close>

datatype error_kind = Network | Validation | Authentication | Authorization | RateLimit | Server | Busy | StorageCapacity | Unknown

record api_error =
  ae_message :: ustring
  ae_kind :: error_kind
  ae_status :: "nat option"
  ae_retryAfter :: "ustring option"

datatype client_error = Api api_error | Aborted | Thrown string

text \<open>The tests \<open>/busy/i\<close> and \<open>/insufficient.*(?:ssd|hdd).*capacity/i\<close>.\<close>

definition ascii_lower :: "nat \<Rightarrow> nat" where
  "ascii_lower c = (if 65 \<le> c \<and> c \<le> 90 then c + 32 else c)"

fun behind :: "ustring \<Rightarrow> ustring \<Rightarrow> ustring list" where
  "behind w [] = (if w = [] then [[]] else [])"
| "behind w (c # s) = (if take (length w) (c # s) = w then [drop (length w) (c # s)] else []) @ behind w s"

fun text_lines :: "ustring \<Rightarrow> ustring list" where
  "text_lines [] = [[]]"
| "text_lines (c # s) = (if c \<in> {10, 13, 8232, 8233} then [] # text_lines s
     else (case text_lines s of [] \<Rightarrow> [[c]] | l # ls \<Rightarrow> (c # l) # ls))"

definition capacity_text :: "ustring \<Rightarrow> bool" where
  "capacity_text m \<longleftrightarrow> list_ex (\<lambda>l.
     list_ex (\<lambda>a. list_ex (\<lambda>b. behind (js ''capacity'') b \<noteq> []) (behind (js ''ssd'') a @ behind (js ''hdd'') a))
       (behind (js ''insufficient'') l)) (text_lines (map ascii_lower m))"

definition busy_text :: "ustring \<Rightarrow> bool" where
  "busy_text m \<longleftrightarrow> behind (js ''busy'') (map ascii_lower m) \<noteq> []"

definition isUploadCapacityError :: "client_error \<Rightarrow> bool" where
  "isUploadCapacityError e = (case e of
     Api a \<Rightarrow> ae_kind a = StorageCapacity \<or> (ae_status a = Some 503 \<and> capacity_text (ae_message a)) | _ \<Rightarrow> False)"

definition isUploadBusyError :: "client_error \<Rightarrow> bool" where
  "isUploadBusyError e = (case e of Api a \<Rightarrow> ae_status a = Some 503 \<and> busy_text (ae_message a) | _ \<Rightarrow> False)"

text \<open>A response of the server, or none; anything else is not an axios error.\<close>

definition defaultMessage :: "nat \<Rightarrow> ustring" where
  "defaultMessage status =
     (if status = 401 then js ''Your session has expired''
      else if status = 403 then js ''You do not have access to this resource''
      else if status = 429 then js ''Too many requests''
      else if 500 \<le> status then js ''The server could not complete the request''
      else js ''The request could not be completed'')"

datatype transport_error = Normalized api_error | NoResponse | Response nat "ustring option" "ustring option" | NotAxios

definition normalizeApiError :: "transport_error \<Rightarrow> api_error" where
  "normalizeApiError t =
     (case t of
        Normalized e \<Rightarrow> e
      | NotAxios \<Rightarrow> \<lparr>ae_message = js ''Unexpected application error'', ae_kind = Unknown, ae_status = None, ae_retryAfter = None\<rparr>
      | NoResponse \<Rightarrow> \<lparr>ae_message = js ''The server is unavailable'', ae_kind = Network, ae_status = None, ae_retryAfter = None\<rparr>
      | Response status body after \<Rightarrow>
          let message = (case body of None \<Rightarrow> defaultMessage status | Some m \<Rightarrow> if m = [] then defaultMessage status else m);
              error = (\<lambda>k a. \<lparr>ae_message = message, ae_kind = k, ae_status = Some status, ae_retryAfter = a\<rparr>)
          in if status = 400 \<or> status = 422 then error Validation None
             else if status = 401 then error Authentication None
             else if status = 403 then error Authorization None
             else if status = 429 then error RateLimit after
             else if status = 503 \<and> capacity_text message then error StorageCapacity after
             else if status = 503 \<and> busy_text message then error Busy after
             else if 500 \<le> status then error Server after
             else error Unknown None)"


section \<open>Retries\<close>

definition UPLOAD_CHUNK_SIZE :: int where "UPLOAD_CHUNK_SIZE = 10 * 1024 * 1024"
definition MAX_CHUNK_ATTEMPTS :: nat where "MAX_CHUNK_ATTEMPTS = 3"
definition DEFAULT_RETRY_DELAY_MS :: rat where "DEFAULT_RETRY_DELAY_MS = 250"
definition MAX_RETRY_WAIT_MS :: rat where "MAX_RETRY_WAIT_MS = 60000"
definition UPLOAD_RETRY_WAIT_BUDGET_MS :: rat where "UPLOAD_RETRY_WAIT_BUDGET_MS = 300000"

record retry_budget =
  rb_remaining :: rat
  rb_deadline :: "rat option"
  rb_notBefore :: "rat option"

record retry_env =
  rt_aborted :: "rat \<Rightarrow> bool"
  rt_random :: "nat \<Rightarrow> rat"
  rt_date :: "ustring \<Rightarrow> rat option"

definition isRetryable :: "client_error \<Rightarrow> bool" where
  "isRetryable e = (case e of
     Api a \<Rightarrow> \<not> isUploadCapacityError e \<and> (ae_kind a = Network \<or> ae_kind a = Server \<or> ae_kind a = Busy \<or> ae_kind a = RateLimit)
   | _ \<Rightarrow> False)"

definition RATE_LIMIT :: "nat option \<Rightarrow> ustring option \<Rightarrow> client_error" where
  "RATE_LIMIT status after = Api \<lparr>ae_message = js ''rate limited'', ae_kind = RateLimit, ae_status = status, ae_retryAfter = after\<rparr>"

definition retryFailure :: "client_error \<Rightarrow> client_error" where
  "retryFailure e = (case e of Api a \<Rightarrow> if ae_kind a = RateLimit then RATE_LIMIT (ae_status a) (ae_retryAfter a) else e | _ \<Rightarrow> e)"

text \<open>\<open>/^(Mon|Tue|Wed|Thu|Fri|Sat|Sun)(,|day,| )/i\<close>\<close>

definition http_date :: "ustring \<Rightarrow> bool" where
  "http_date h \<longleftrightarrow> map ascii_lower (take 3 h) \<in> set (map js [''mon'', ''tue'', ''wed'', ''thu'', ''fri'', ''sat'', ''sun''])
     \<and> (take 1 (drop 3 h) \<in> {[44], [32]} \<or> map ascii_lower (take 4 (drop 3 h)) = js ''day,'')"

definition retryAfterDelay :: "(ustring \<Rightarrow> rat option) \<Rightarrow> rat \<Rightarrow> ustring option \<Rightarrow> rat option" where
  "retryAfterDelay date now value =
     (case value of
        None \<Rightarrow> None
      | Some v \<Rightarrow>
          if v = [] then None
          else let h = trim v in
            if h \<noteq> [] \<and> list_all digit h then Some (of_nat (undec 0 h) * 1000)
            else if \<not> http_date h then None
            else map_option (\<lambda>t. max 0 (t - now)) (date h))"

datatype decision = GiveUp client_error | Again rat

definition failure_delay :: "retry_env \<Rightarrow> rat \<Rightarrow> nat \<Rightarrow> rat \<Rightarrow> api_error \<Rightarrow> rat" where
  "failure_delay env retryDelay attempt now a =
     (let fallback = max (if ae_kind a = RateLimit then DEFAULT_RETRY_DELAY_MS else 0) retryDelay * 2 ^ (attempt - 1);
          jittered = (if ae_status a = Some 503 then max DEFAULT_RETRY_DELAY_MS fallback * (1 + rt_random env attempt / 4) else fallback)
      in max jittered (case retryAfterDelay (rt_date env) now (ae_retryAfter a) of None \<Rightarrow> 0 | Some d \<Rightarrow> d))"

text \<open>What the loop does with the failure of an attempt; \<open>aborted\<close> is the state of the signal.\<close>

definition after_failure :: "retry_env \<Rightarrow> rat \<Rightarrow> nat \<Rightarrow> bool \<Rightarrow> rat \<Rightarrow> client_error \<Rightarrow> retry_budget \<Rightarrow> retry_budget \<times> decision" where
  "after_failure env retryDelay attempt aborted now e b =
     (case e of
        Api a \<Rightarrow>
          if \<not> isRetryable e then (b, GiveUp e)
          else
            let delay = failure_delay env retryDelay attempt now a;
                b1 = b\<lparr>rb_notBefore := Some (max (case rb_notBefore b of None \<Rightarrow> 0 | Some t \<Rightarrow> t) (now + delay))\<rparr>;
                available = (case rb_deadline b of None \<Rightarrow> rb_remaining b | Some d \<Rightarrow> min (rb_remaining b) (d - now))
            in if aborted then (b1, GiveUp e)
               else if attempt = MAX_CHUNK_ATTEMPTS then (b1, GiveUp (retryFailure e))
               else if MAX_RETRY_WAIT_MS < delay \<or> available < delay then (b1, GiveUp (retryFailure e))
               else (b1\<lparr>rb_remaining := rb_remaining b - delay\<rparr>, Again delay)
      | _ \<Rightarrow> (b, GiveUp e))"

definition remaining_backoff :: "rat \<Rightarrow> retry_budget \<Rightarrow> rat" where
  "remaining_backoff now b = max 0 ((case rb_notBefore b of None \<Rightarrow> 0 | Some t \<Rightarrow> t) - now)"

definition abortableDelay :: "retry_env \<Rightarrow> rat \<Rightarrow> rat \<Rightarrow> client_error + rat" where
  "abortableDelay env now ms =
     (if rt_aborted env now then Inl Aborted
      else if ms \<le> 0 then Inr now
      else if rt_aborted env (now + ms) then Inl Aborted else Inr (now + ms))"

text \<open>
  A sender answers an attempt made at a time with a result and the time of the answer.  The run collects
  the wait before the first attempt, the times of the attempts and the waits between them.
\<close>

type_synonym 'a sender = "nat \<Rightarrow> rat \<Rightarrow> (client_error + 'a) \<times> rat"

record 'a retry_run =
  rr_result :: "client_error + 'a"
  rr_budget :: retry_budget
  rr_now :: rat
  rr_backoff :: rat
  rr_sends :: "rat list"
  rr_waits :: "rat list"

definition out_of_time :: "rat \<Rightarrow> retry_budget \<Rightarrow> bool" where
  "out_of_time now b \<longleftrightarrow> (case rb_deadline b of None \<Rightarrow> False | Some d \<Rightarrow> d \<le> now)"

function retry_attempts :: "retry_env \<Rightarrow> rat \<Rightarrow> 'a sender \<Rightarrow> nat \<Rightarrow> rat \<Rightarrow> retry_budget \<Rightarrow> rat list \<Rightarrow> rat list \<Rightarrow> 'a retry_run" where
  "retry_attempts env retryDelay send attempt now b sends waits =
     (let result = (\<lambda>r b now sends waits. \<lparr>rr_result = r, rr_budget = b, rr_now = now, rr_backoff = 0, rr_sends = sends, rr_waits = waits\<rparr>) in
      if MAX_CHUNK_ATTEMPTS < attempt then result (Inl (Thrown ''Retry attempts exhausted'')) b now sends waits
      else if rt_aborted env now then result (Inl Aborted) b now sends waits
      else if out_of_time now b
      then result (Inl (Api \<lparr>ae_message = js ''Upload cleanup retry budget exhausted'', ae_kind = Network, ae_status = None,
             ae_retryAfter = None\<rparr>)) b now sends waits
      else
        (case send attempt now of
           (Inr x, t) \<Rightarrow> result (Inr x) (b\<lparr>rb_notBefore := None\<rparr>) t (sends @ [now]) waits
         | (Inl e, t) \<Rightarrow>
             (case after_failure env retryDelay attempt (rt_aborted env t) t e b of
                (b1, GiveUp e1) \<Rightarrow> result (Inl e1) b1 t (sends @ [now]) waits
              | (b1, Again d) \<Rightarrow>
                  (case abortableDelay env t d of
                     Inl e1 \<Rightarrow> result (Inl e1) b1 t (sends @ [now]) waits
                   | Inr t1 \<Rightarrow> retry_attempts env retryDelay send (Suc attempt) t1 b1 (sends @ [now]) (waits @ [d])))))"
  by pat_completeness auto
termination
  by (relation "measure (\<lambda>(env, retryDelay, send, attempt, now, b, sends, waits). Suc MAX_CHUNK_ATTEMPTS - attempt)")
     (auto simp: MAX_CHUNK_ATTEMPTS_def)

declare retry_attempts.simps [simp del]

definition withChunkRetry :: "retry_env \<Rightarrow> rat \<Rightarrow> 'a sender \<Rightarrow> rat \<Rightarrow> retry_budget \<Rightarrow> 'a retry_run" where
  "withChunkRetry env retryDelay send now b =
     (let r = remaining_backoff now b;
          result = (\<lambda>e. \<lparr>rr_result = Inl e, rr_budget = b, rr_now = now, rr_backoff = 0, rr_sends = [], rr_waits = []\<rparr>) in
      if MAX_RETRY_WAIT_MS < r then result (RATE_LIMIT None None)
      else if 0 < r then
        (case abortableDelay env now r of
           Inl e \<Rightarrow> result e
         | Inr t \<Rightarrow> (retry_attempts env retryDelay send 1 t b [] [])\<lparr>rr_backoff := r\<rparr>)
      else retry_attempts env retryDelay send 1 now b [] [])"

text \<open>Only a busy server and a rate limit are retried; any other failure is the result of the call.\<close>

definition admission_error :: "client_error \<Rightarrow> bool" where
  "admission_error e \<longleftrightarrow> isUploadBusyError e \<or> (case e of Api a \<Rightarrow> ae_kind a = RateLimit | _ \<Rightarrow> False)"

definition withAdmissionRetry :: "retry_env \<Rightarrow> rat \<Rightarrow> 'a sender \<Rightarrow> rat \<Rightarrow> retry_budget \<Rightarrow> 'a retry_run" where
  "withAdmissionRetry env retryDelay send now b =
     (let run = withChunkRetry env retryDelay (\<lambda>k t.
            case send k t of
              (Inr x, t') \<Rightarrow> (Inr (Inr x), t')
            | (Inl e, t') \<Rightarrow> if admission_error e then (Inl e, t') else (Inr (Inl e), t')) now b
      in \<lparr>rr_result = (case rr_result run of Inl e \<Rightarrow> Inl e | Inr r \<Rightarrow> r), rr_budget = rr_budget run, rr_now = rr_now run, rr_backoff = rr_backoff run,
          rr_sends = rr_sends run, rr_waits = rr_waits run\<rparr>)"

end
