(* ===== verification/RetryProps.thy ===== *)
theory RetryProps
  imports Retry
begin

text \<open>The bounds of the retries.\<close>

lemma failure_delay_nonneg: "0 \<le> failure_delay env d k now a"
proof -
  have "0 \<le> (case retryAfterDelay (rt_date env) now (ae_retryAfter a) of None \<Rightarrow> 0 | Some d \<Rightarrow> d)"
    by (auto simp: retryAfterDelay_def Let_def split: option.splits if_splits)
  then show ?thesis by (simp add: failure_delay_def Let_def le_max_iff_disj)
qed

lemma failure_delay_retry_after:
  "retryAfterDelay (rt_date env) now (ae_retryAfter a) = Some r \<Longrightarrow> r \<le> failure_delay env d k now a"
  by (simp add: failure_delay_def Let_def)

lemma after_failure_Again:
  assumes "after_failure env d k ab now e b = (b1, Again w)"
  obtains a where "e = Api a" "isRetryable e" "\<not> ab" "w = failure_delay env d k now a" "k \<noteq> MAX_CHUNK_ATTEMPTS" "w \<le> MAX_RETRY_WAIT_MS"
    "w \<le> rb_remaining b" "rb_remaining b1 = rb_remaining b - w" "rb_deadline b1 = rb_deadline b"
    "\<And>t. rb_deadline b = Some t \<Longrightarrow> now + w \<le> t"
proof (cases e)
  case (Api a)
  show ?thesis
    by (rule that [of a]) (use assms Api in \<open>auto simp: after_failure_def Let_def split: if_splits option.splits\<close>)
qed (use assms in \<open>simp_all add: after_failure_def\<close>)

lemma after_failure_remaining: "after_failure env d k ab now e b = (b1, GiveUp e1) \<Longrightarrow> rb_remaining b1 = rb_remaining b"
  by (auto simp: after_failure_def Let_def split: if_splits client_error.splits)

text \<open>The attempts so far: each was followed by the wait that its failure asked for.\<close>

definition spaced :: "retry_env \<Rightarrow> 'a sender \<Rightarrow> rat list \<Rightarrow> rat list \<Rightarrow> bool" where
  "spaced env send sends waits \<longleftrightarrow> (\<forall>k. Suc k < length sends \<longrightarrow>
     (\<exists>a t. send (Suc k) (sends ! k) = (Inl (Api a), t) \<and> isRetryable (Api a) \<and> sends ! Suc k = t + waits ! k
        \<and> (case retryAfterDelay (rt_date env) t (ae_retryAfter a) of None \<Rightarrow> True | Some r \<Rightarrow> r \<le> waits ! k)))"

lemma spaced_snoc:
  assumes "spaced env send (sends @ [now]) waits" "length waits = length sends" "send (Suc (length sends)) now = (Inl (Api a), t)"
    "isRetryable (Api a)" "case retryAfterDelay (rt_date env) t (ae_retryAfter a) of None \<Rightarrow> True | Some r \<Rightarrow> r \<le> w"
  shows "spaced env send ((sends @ [now]) @ [t + w]) (waits @ [w])"
  unfolding spaced_def
proof (intro allI impI)
  fix k assume k: "Suc k < length ((sends @ [now]) @ [t + w])"
  let ?xs = "(sends @ [now]) @ [t + w]"
  show "\<exists>a t. send (Suc k) (?xs ! k) = (Inl (Api a), t) \<and> isRetryable (Api a) \<and> ?xs ! Suc k = t + (waits @ [w]) ! k
      \<and> (case retryAfterDelay (rt_date env) t (ae_retryAfter a) of None \<Rightarrow> True | Some r \<Rightarrow> r \<le> (waits @ [w]) ! k)"
  proof (cases "k < length sends")
    case True
    then have same: "?xs ! k = (sends @ [now]) ! k" "?xs ! Suc k = (sends @ [now]) ! Suc k" "(waits @ [w]) ! k = waits ! k"
      using assms(2) by (simp_all only: nth_append length_append) simp_all
    show ?thesis unfolding same using assms(1) True unfolding spaced_def by simp
  next
    case False
    then have last: "k = length sends" using k by simp
    have e: "(waits @ [w]) ! length sends = w" using assms(2) by (metis nth_append_length)
    show ?thesis unfolding last e using assms(3-5) by (intro exI [of _ a] exI [of _ t]) (simp add: nth_append)
  qed
qed

definition run_bounds :: "retry_env \<Rightarrow> 'a sender \<Rightarrow> rat \<Rightarrow> 'a retry_run \<Rightarrow> bool" where
  "run_bounds env send remaining r \<longleftrightarrow> length (rr_sends r) \<le> MAX_CHUNK_ATTEMPTS \<and> spaced env send (rr_sends r) (rr_waits r)
     \<and> (\<forall>w \<in> set (rr_waits r). 0 \<le> w \<and> w \<le> MAX_RETRY_WAIT_MS)
     \<and> (0 \<le> remaining \<longrightarrow> 0 \<le> rb_remaining (rr_budget r)) \<and> sum_list (rr_waits r) + rb_remaining (rr_budget r) \<le> remaining"

lemma abortableDelay_Inr: "abortableDelay env t d = Inr t1 \<Longrightarrow> 0 \<le> d \<Longrightarrow> t1 = t + d"
  by (auto simp: abortableDelay_def split: if_splits)

lemma attempts_bounds:
  assumes "length sends = attempt - 1" "length waits = attempt - 1" "1 \<le> attempt" "attempt \<le> Suc MAX_CHUNK_ATTEMPTS"
    and "spaced env send (sends @ [now]) waits" "\<forall>w \<in> set waits. 0 \<le> w \<and> w \<le> MAX_RETRY_WAIT_MS"
    and "sum_list waits + rb_remaining b \<le> remaining" "0 \<le> remaining \<longrightarrow> 0 \<le> rb_remaining b"
  shows "run_bounds env send remaining (retry_attempts env d send attempt now b sends waits)"
  using assms
proof (induction "Suc MAX_CHUNK_ATTEMPTS - attempt" arbitrary: attempt now b sends waits)
  case 0
  then have "length sends \<le> MAX_CHUNK_ATTEMPTS" "MAX_CHUNK_ATTEMPTS < attempt" by simp_all
  moreover have "spaced env send sends waits" using 0(6) unfolding spaced_def
    by (metis Suc_lessD length_append_singleton less_SucI nth_append)
  ultimately show ?case using 0 by (subst retry_attempts.simps) (simp add: run_bounds_def Let_def)
next
  case (Suc n)
  have len: "length sends < MAX_CHUNK_ATTEMPTS" "attempt \<le> MAX_CHUNK_ATTEMPTS" using Suc(2,3,5,6) by simp_all
  have old: "spaced env send sends waits" using Suc(7) unfolding spaced_def
    by (metis Suc_lessD length_append_singleton less_SucI nth_append)
  obtain r t where answer: "send attempt now = (r, t)" by fastforce
  show ?case
  proof (cases "rt_aborted env now \<or> out_of_time now b")
    case True
    then show ?thesis using len old Suc(8-10) by (subst retry_attempts.simps) (auto simp: run_bounds_def Let_def)
  next
    case False
    note step = retry_attempts.simps [of env d send attempt now b sends waits]
    show ?thesis
    proof (cases r)
      case (Inr x)
      then show ?thesis using len False Suc(7-10) answer by (subst step) (simp add: run_bounds_def Let_def)
    next
      case (Inl e)
      obtain b1 dec where f: "after_failure env d attempt (rt_aborted env t) t e b = (b1, dec)" by fastforce
      show ?thesis
      proof (cases dec)
        case (GiveUp e1)
        then show ?thesis using len False Suc(7-10) answer Inl f after_failure_remaining [of env d attempt "rt_aborted env t" t e b b1 e1]
          by (subst step) (simp add: run_bounds_def Let_def)
      next
        case (Again w)
        obtain a where a: "e = Api a" "isRetryable e" "w = failure_delay env d attempt t a" "w \<le> MAX_RETRY_WAIT_MS"
          "w \<le> rb_remaining b" "rb_remaining b1 = rb_remaining b - w"
          using after_failure_Again f unfolding Again by metis
        have w0: "0 \<le> w" using failure_delay_nonneg a(3) by simp
        show ?thesis
        proof (cases "abortableDelay env t w")
          case (Inl e1)
          then show ?thesis using len False Suc(7-10) answer \<open>r = Inl e\<close> f Again a(5,6) w0
            by (subst step) (simp add: run_bounds_def Let_def)
        next
          case (Inr t1)
          have t1: "t1 = t + w" using abortableDelay_Inr [OF Inr w0] .
          have "spaced env send ((sends @ [now]) @ [t1]) (waits @ [w])"
            unfolding t1 by (rule spaced_snoc [where a = a])
              (use Suc(3-5,7) answer \<open>r = Inl e\<close> a(1-3) failure_delay_retry_after [of env t a _ d attempt] in \<open>auto split: option.split\<close>)
          then have "run_bounds env send remaining (retry_attempts env d send (Suc attempt) t1 b1 (sends @ [now]) (waits @ [w]))"
            using Suc(2-10) len a(4-6) w0 by (intro Suc(1)) simp_all
          then show ?thesis using len False answer \<open>r = Inl e\<close> f Again Inr by (subst step) (simp add: Let_def)
        qed
      qed
    qed
  qed
qed

lemma attempts_start:
  "\<exists>more. rr_sends (retry_attempts env d send attempt now b sends waits) = sends @ more \<and> (more \<noteq> [] \<longrightarrow> hd more = now)
    \<and> rr_backoff (retry_attempts env d send attempt now b sends waits) = 0"
proof (induction "Suc MAX_CHUNK_ATTEMPTS - attempt" arbitrary: attempt now b sends waits)
  case 0
  then show ?case by (subst (1 2) retry_attempts.simps) (simp add: Let_def)
next
  case (Suc n)
  note step = retry_attempts.simps [of env d send attempt now b sends waits]
  obtain r t where answer: "send attempt now = (r, t)" by fastforce
  show ?case
  proof (cases "MAX_CHUNK_ATTEMPTS < attempt \<or> rt_aborted env now \<or> out_of_time now b")
    case True
    then show ?thesis unfolding step by (auto simp: Let_def)
  next
    case False
    have one: "\<exists>more. sends @ [now] @ ys = sends @ more \<and> (more \<noteq> [] \<longrightarrow> hd more = now)" for ys :: "rat list"
      by (intro exI [of _ "[now] @ ys"]) simp
    show ?thesis
    proof (cases r)
      case (Inr x)
      then show ?thesis unfolding step using False answer one [of "[]"] by (simp add: Let_def)
    next
      case (Inl e)
      obtain b1 dec where f: "after_failure env d attempt (rt_aborted env t) t e b = (b1, dec)" by fastforce
      show ?thesis
      proof (cases "\<exists>w t1. dec = Again w \<and> abortableDelay env t w = Inr t1")
        case True
        then obtain w t1 where w: "dec = Again w" "abortableDelay env t w = Inr t1" by blast
        have n: "n = Suc MAX_CHUNK_ATTEMPTS - Suc attempt" using Suc(2) by arith
        obtain more where "rr_sends (retry_attempts env d send (Suc attempt) t1 b1 (sends @ [now]) (waits @ [w])) = (sends @ [now]) @ more"
          "rr_backoff (retry_attempts env d send (Suc attempt) t1 b1 (sends @ [now]) (waits @ [w])) = 0"
          using Suc(1) [of "Suc attempt" t1 b1 "sends @ [now]" "waits @ [w]"] n by auto
        then show ?thesis unfolding step using False answer Inl f w one [of more] by (simp add: Let_def)
      next
        case none: False
        then show ?thesis unfolding step using False answer Inl f one [of "[]"]
          by (cases dec) (auto simp: Let_def split: sum.split)
      qed
    qed
  qed
qed

text \<open>
  C18: a request is sent at most three times; a repetition follows a failure that allows one, exactly the
  computed wait later and never before the server's \<open>Retry-After\<close>.  No wait is longer than a minute, and the
  waits between the attempts together stay within the budget of the upload, which never becomes negative.
  Before the first attempt the call waits for what is left of an earlier back-off, at most a minute, which
  the budget is not charged for; so it never sends before the time that an earlier answer asked for.
\<close>

theorem retries_are_bounded:
  assumes "withChunkRetry env retryDelay send now b = r"
  shows "run_bounds env send (rb_remaining b) r \<and> 0 \<le> rr_backoff r \<and> rr_backoff r \<le> MAX_RETRY_WAIT_MS
    \<and> (rr_sends r \<noteq> [] \<longrightarrow> hd (rr_sends r) = now + rr_backoff r \<and> rr_backoff r = remaining_backoff now b
         \<and> (case rb_notBefore b of None \<Rightarrow> True | Some t \<Rightarrow> t \<le> hd (rr_sends r)))"
proof -
  let ?w = "remaining_backoff now b"
  have nonneg: "0 \<le> ?w" and reach: "case rb_notBefore b of None \<Rightarrow> True | Some t \<Rightarrow> t \<le> now + ?w"
    by (auto simp: remaining_backoff_def split: option.split)
  have start: "run_bounds env send (rb_remaining b) (retry_attempts env retryDelay send 1 t b [] [])" for t
    by (rule attempts_bounds) (simp_all add: spaced_def MAX_CHUNK_ATTEMPTS_def)
  have first: "rr_sends (retry_attempts env retryDelay send 1 t b [] []) \<noteq> []
      \<Longrightarrow> hd (rr_sends (retry_attempts env retryDelay send 1 t b [] [])) = t"
    "rr_backoff (retry_attempts env retryDelay send 1 t b [] []) = 0" for t
    using attempts_start [of env retryDelay send 1 t b "[]" "[]"] by auto
  consider (refused) e where "r = \<lparr>rr_result = Inl e, rr_budget = b, rr_now = now, rr_backoff = 0, rr_sends = [], rr_waits = []\<rparr>"
    | (waited) "?w \<le> MAX_RETRY_WAIT_MS" "r = (retry_attempts env retryDelay send 1 (now + ?w) b [] [])\<lparr>rr_backoff := ?w\<rparr>"
    | (free) "?w = 0" "r = retry_attempts env retryDelay send 1 now b [] []"
    using assms nonneg abortableDelay_Inr [OF _ nonneg, of env now]
    unfolding withChunkRetry_def Let_def by (auto split: if_splits sum.splits)
  then show ?thesis
  proof cases
    case refused
    then show ?thesis by (simp add: run_bounds_def spaced_def MAX_RETRY_WAIT_MS_def)
  next
    case waited
    have "run_bounds env send (rb_remaining b) r" using start [of "now + ?w"] unfolding waited(2) by (simp add: run_bounds_def)
    moreover have "rr_sends r \<noteq> [] \<Longrightarrow> hd (rr_sends r) = now + ?w" using first(1) [of "now + ?w"] waited(2) by simp
    moreover have "rr_backoff r = ?w" using waited(2) by simp
    ultimately show ?thesis using waited(1) nonneg reach by (simp split: option.splits)
  next
    case free
    moreover have "rr_sends r \<noteq> [] \<Longrightarrow> hd (rr_sends r) = now" "rr_backoff r = 0" using first [of now] free(2) by simp_all
    moreover have "run_bounds env send (rb_remaining b) r" using start [of now] free(2) by simp
    ultimately show ?thesis using reach by (simp add: MAX_RETRY_WAIT_MS_def split: option.splits)
  qed
qed

definition calm_env :: retry_env where
  "calm_env = \<lparr>rt_aborted = \<lambda>_. False, rt_random = \<lambda>_. 0, rt_date = \<lambda>_. None\<rparr>"

definition spent_budget :: retry_budget where
  "spent_budget = \<lparr>rb_remaining = 0, rb_deadline = None, rb_notBefore = Some 6000\<rparr>"

text \<open>With an empty budget the call still waits a second for the time that an earlier answer asked for.\<close>

theorem retries_are_bounded_witness:
  "hd (rr_sends (withChunkRetry calm_env 250 (\<lambda>k t. (Inr (), t)) 5000 spent_budget)) = 6000
    \<and> rr_backoff (withChunkRetry calm_env 250 (\<lambda>k t. (Inr (), t)) 5000 spent_budget) = 1000
    \<and> run_bounds calm_env (\<lambda>k t. (Inr (), t)) 0 (withChunkRetry calm_env 250 (\<lambda>k t. (Inr (), t)) 5000 spent_budget)"
proof -
  have b: "remaining_backoff 5000 spent_budget = 1000" by (simp add: remaining_backoff_def spent_budget_def)
  have "rr_sends (withChunkRetry calm_env 250 (\<lambda>k t. (Inr (), t)) 5000 spent_budget) \<noteq> []"
    unfolding withChunkRetry_def b Let_def
    by (subst retry_attempts.simps)
      (simp add: MAX_RETRY_WAIT_MS_def abortableDelay_def calm_env_def spent_budget_def Let_def MAX_CHUNK_ATTEMPTS_def out_of_time_def)
  then show ?thesis
    using retries_are_bounded [OF refl, where env = calm_env and retryDelay = 250 and send = "\<lambda>k t. (Inr (), t)" and now = 5000 and b = spent_budget] b by (simp add: spent_budget_def)
qed

end
