(* ===== verification/QueueJob.thy ===== *)
theory QueueJob
  imports Retry
begin

text \<open>
  One upload of the browser's queue (frontend/src/files/uploadQueue.ts), as the coroutine that \<open>run\<close>,
  \<open>reconcile\<close>, \<open>hashWholeFile\<close> and \<open>finishCancellation\<close> are: the job with the place where it awaits, and
  a step from an answer to the next place with the requests it sends on the way.  The queue of an owner
  is modelled; a transport of its own, progress callbacks and the texts of errors are not.
\<close>

section \<open>Data\<close>

datatype queue_state = QSelected | QQueued | QPreparing | QHashing | QUploading | QPausing | QPaused | QRetrying
  | QCompleting | QCompleted | QError | QCancelling | QCancelled | QNeedsFile

text \<open>A \<open>File\<close> of the browser; the handle is its identity.\<close>

record client_file =
  cf_handle :: nat
  cf_name :: ustring
  cf_bytes :: bytes

definition cf_size :: "client_file \<Rightarrow> int" where
  "cf_size f = int (length (cf_bytes f))"

record server_chunk =
  sc_index :: int
  sc_byteSize :: int
  sc_sha256 :: ustring

record client_session =
  cs_uploadId :: ustring
  cs_filename :: ustring
  cs_totalSize :: int
  cs_chunkSize :: int
  cs_totalChunks :: int
  cs_uploadedSize :: int
  cs_parentId :: "nat option"
  cs_status :: ustring
  cs_chunks :: "server_chunk list option"
  cs_file :: "nat option"

record client_limits =
  cl_effectiveMaxFileBytes :: int
  cl_maxChunkBytes :: int
  cl_maxChunks :: int
  cl_wholeSha256Required :: bool
  cl_ssd :: bool

datatype request =
    GetLimits
  | PostSession ustring int int "ustring option" "nat option"
  | PostChunk ustring int bytes
  | PostComplete ustring
  | GetSession ustring
  | DeleteSession ustring
  | ListSessions

text \<open>The calls under a retry, and the places where a job awaits.\<close>

datatype call = CallLimits | CallCreate int | CallChunk int | CallComplete | CallReplay ustring
datatype hash_place = BeforeCreate int | AfterReconcile
datatype await = Idle | AtFingerprint | AtHash hash_place client_file | AtReconcile | AtDigest "server_chunk list"
  | Flight call nat | Waiting call nat rat | Ended | AtDelete | AtCancelReconcile | AtCancelReplay

record job =
  j_id :: ustring
  j_name :: ustring
  j_size :: int
  j_parentId :: "nat option"
  j_state :: queue_state
  j_committed :: int
  j_needsFile :: bool
  j_error :: bool
  j_uploadId :: "ustring option"
  j_completedFile :: "nat option"
  j_file :: "client_file option"
  j_session :: "client_session option"
  j_expectedSha256 :: "ustring option"
  j_fingerprint :: "ustring option"
  j_budget :: retry_budget
  j_aborted :: bool
  j_pauseRequested :: bool
  j_cancellationPending :: bool
  j_cancelling :: bool
  j_verifyCommitted :: bool
  j_busy :: bool
  j_creationUncertain :: bool
  j_hashVerifiedFile :: "client_file option"
  j_runFile :: client_file
  j_accepted :: "int list"
  j_pumpAfter :: bool
  j_await :: await

text \<open>SHA-256 as a hexadecimal text, whether the browser has it, and the randomness and dates of the retries.\<close>

record queue_env =
  qe_sha :: "bytes \<Rightarrow> ustring"
  qe_subtle :: bool
  qe_retry :: retry_env

datatype answer = ADone | AOk | AFile nat | ALimits client_limits | ASession client_session | AFailed client_error "nat option"

text \<open>The job, the requests of the step, and whether it asks for a discovery.\<close>

type_synonym job_step = "job \<times> request list \<times> bool"

definition WAIT_BUDGET_MS :: rat where "WAIT_BUDGET_MS = 300000"
definition SAMPLE_SIZE :: nat where "SAMPLE_SIZE = 65536"
definition RETRY_DELAY :: rat where "RETRY_DELAY = 250"

definition terminal :: "job \<Rightarrow> bool" where
  "terminal j \<longleftrightarrow> j_state j = QCompleted \<or> j_state j = QCancelled"


section \<open>The bytes of a file\<close>

definition file_slice :: "client_file \<Rightarrow> int \<Rightarrow> int \<Rightarrow> bytes" where
  "file_slice f start stop = take (nat (stop - start)) (drop (nat start) (cf_bytes f))"

definition chunk_bytes_of :: "client_session \<Rightarrow> client_file \<Rightarrow> int \<Rightarrow> bytes" where
  "chunk_bytes_of s f i =
     (let start = i * cs_chunkSize s in file_slice f start (min (start + cs_chunkSize s) (cf_size f)))"

definition sampleFingerprint :: "queue_env \<Rightarrow> client_file \<Rightarrow> ustring option" where
  "sampleFingerprint env f =
     (if \<not> qe_subtle env then None
      else let n = length (cf_bytes f);
               starts = rev (remdups (rev [0, n div 2 - SAMPLE_SIZE div 2, n - SAMPLE_SIZE]))
           in Some (qe_sha env (concat (map (\<lambda>s. take SAMPLE_SIZE (drop s (cf_bytes f))) starts))))"


section \<open>The end of a run\<close>

definition stopping :: "bool \<Rightarrow> job \<Rightarrow> bool" where
  "stopping disposed j \<longleftrightarrow> j_pauseRequested j \<or> j_cancellationPending j \<or> disposed"

definition stop_state :: "job \<Rightarrow> job" where
  "stop_state j = j\<lparr>j_state := (if j_cancellationPending j then QCancelling else if j_file j \<noteq> None then QPaused else QNeedsFile)\<rparr>"

definition halt :: "job \<Rightarrow> job_step" where
  "halt j = ((stop_state j)\<lparr>j_await := Ended\<rparr>, [], False)"

text \<open>The server has certainly not created a session.\<close>

definition definite_rejection :: "client_error \<Rightarrow> bool" where
  "definite_rejection e \<longleftrightarrow> (case e of
     Api a \<Rightarrow> isUploadBusyError e \<or> isUploadCapacityError e \<or> \<not> (ae_kind a = Network \<or> ae_kind a = Server) | _ \<Rightarrow> False)"

definition fail_run :: "bool \<Rightarrow> client_error \<Rightarrow> job \<Rightarrow> job_step" where
  "fail_run disposed e j =
     (let j1 = j\<lparr>j_verifyCommitted := j_uploadId j \<noteq> None,
                 j_creationUncertain := j_creationUncertain j \<and> \<not> definite_rejection e, j_await := Ended\<rparr>;
          discover = j_creationUncertain j1 \<and> \<not> disposed
      in if j_cancellationPending j1 then (j1, [], discover)
         else if j_pauseRequested j1 \<or> disposed
         then (j1\<lparr>j_state := (if j_file j1 \<noteq> None then QPaused else QNeedsFile)\<rparr>, [], discover)
         else (j1\<lparr>j_state := (if j_file j1 \<noteq> None then QError else QNeedsFile), j_error := True\<rparr>, [], discover))"

definition complete_job :: "nat \<Rightarrow> int \<Rightarrow> job \<Rightarrow> job" where
  "complete_job f n j = j\<lparr>j_cancellationPending := False, j_state := QCompleted, j_completedFile := Some f, j_committed := n,
     j_file := None, j_needsFile := False\<rparr>"


section \<open>Calls\<close>

text \<open>The completion and its replay are not interrupted by the signal of the job.\<close>

definition signalled :: "call \<Rightarrow> job \<Rightarrow> bool" where
  "signalled c j = (case c of CallComplete \<Rightarrow> False | CallReplay _ \<Rightarrow> False | _ \<Rightarrow> j_aborted j)"

definition retry_state :: "call \<Rightarrow> job \<Rightarrow> job" where
  "retry_state c j = (case c of CallCreate _ \<Rightarrow> j\<lparr>j_state := QRetrying\<rparr> | CallChunk _ \<Rightarrow> j\<lparr>j_state := QRetrying\<rparr>
     | CallComplete \<Rightarrow> j\<lparr>j_state := QCompleting\<rparr> | _ \<Rightarrow> j)"

definition session_upload :: "job \<Rightarrow> ustring" where
  "session_upload j = (case j_session j of None \<Rightarrow> [] | Some s \<Rightarrow> cs_uploadId s)"

definition attempt_call :: "bool \<Rightarrow> call \<Rightarrow> nat \<Rightarrow> job \<Rightarrow> job_step" where
  "attempt_call disposed c n j =
     (if signalled c j then fail_run disposed Aborted j
      else
        (let j1 = j\<lparr>j_await := Flight c n\<rparr> in
         case c of
           CallLimits \<Rightarrow> (j1, [GetLimits], False)
         | CallCreate sz \<Rightarrow>
             (j1\<lparr>j_creationUncertain := True\<rparr>,
              [PostSession (cf_name (j_runFile j)) (cf_size (j_runFile j)) sz (j_expectedSha256 j) (j_parentId j)], False)
         | CallChunk i \<Rightarrow>
             if stopping disposed j then fail_run disposed Aborted (stop_state j)
             else (j1\<lparr>j_state := QUploading\<rparr>,
                   (case j_session j of None \<Rightarrow> [] | Some s \<Rightarrow> [PostChunk (cs_uploadId s) i (chunk_bytes_of s (j_runFile j) i)]), False)
         | CallComplete \<Rightarrow> (j1, [PostComplete (session_upload j)], False)
         | CallReplay u \<Rightarrow> (j1, [PostComplete u], False)))"

definition begin_call :: "bool \<Rightarrow> rat \<Rightarrow> call \<Rightarrow> job \<Rightarrow> job_step" where
  "begin_call disposed now c j =
     (let r = remaining_backoff now (j_budget j) in
      if MAX_RETRY_WAIT_MS < r then fail_run disposed (RATE_LIMIT None None) j
      else if 0 < r then
        (let j1 = retry_state c j
         in if signalled c j then fail_run disposed Aborted j1 else (j1\<lparr>j_await := Waiting c 1 (now + r)\<rparr>, [], False))
      else attempt_call disposed c 1 j)"


section \<open>The steps of a run\<close>

function next_index :: "int list \<Rightarrow> int \<Rightarrow> int \<Rightarrow> int option" where
  "next_index accepted i n = (if n \<le> i then None else if i \<in> set accepted then next_index accepted (i + 1) n else Some i)"
  by pat_completeness auto
termination by (relation "measure (\<lambda>(accepted, i, n). nat (n - i))") auto

declare next_index.simps [simp del]

definition send_from :: "bool \<Rightarrow> rat \<Rightarrow> int \<Rightarrow> job \<Rightarrow> job_step" where
  "send_from disposed now i j =
     (if stopping disposed j then halt j
      else case next_index (j_accepted j) i (case j_session j of None \<Rightarrow> 0 | Some s \<Rightarrow> cs_totalChunks s) of
             Some k \<Rightarrow> begin_call disposed now (CallChunk k) (j\<lparr>j_state := QUploading\<rparr>)
           | None \<Rightarrow> begin_call disposed now CallComplete (j\<lparr>j_state := QCompleting\<rparr>))"

definition session_parts :: "job \<Rightarrow> server_chunk list" where
  "session_parts j = (case j_session j of None \<Rightarrow> [] | Some s \<Rightarrow> (case cs_chunks s of None \<Rightarrow> [] | Some cs \<Rightarrow> cs))"

definition start_sending :: "bool \<Rightarrow> rat \<Rightarrow> job \<Rightarrow> job_step" where
  "start_sending disposed now j = send_from disposed now 0 (j\<lparr>j_accepted := map sc_index (session_parts j)\<rparr>)"

definition verify_from :: "bool \<Rightarrow> rat \<Rightarrow> server_chunk list \<Rightarrow> job \<Rightarrow> job_step" where
  "verify_from disposed now cs j =
     (case cs of
        [] \<Rightarrow> start_sending disposed now (j\<lparr>j_verifyCommitted := False\<rparr>)
      | _ \<Rightarrow> if stopping disposed j then halt j else (j\<lparr>j_await := AtDigest cs\<rparr>, [], False))"

definition after_hash :: "bool \<Rightarrow> rat \<Rightarrow> job \<Rightarrow> job_step" where
  "after_hash disposed now j =
     (if j_verifyCommitted j then verify_from disposed now (session_parts j) j else start_sending disposed now j)"

definition begin_hash :: "bool \<Rightarrow> hash_place \<Rightarrow> job \<Rightarrow> job_step" where
  "begin_hash disposed place j =
     (case j_file j of
        None \<Rightarrow> fail_run disposed (Thrown ''TypeError'') (j\<lparr>j_state := QHashing\<rparr>)
      | Some f \<Rightarrow> (j\<lparr>j_state := QHashing, j_await := AtHash place f\<rparr>, [], False))"

definition after_reconcile :: "bool \<Rightarrow> rat \<Rightarrow> job \<Rightarrow> job_step" where
  "after_reconcile disposed now j =
     (if stopping disposed j then halt j
      else if j_expectedSha256 j \<noteq> None \<and> j_hashVerifiedFile j \<noteq> Some (j_runFile j) then begin_hash disposed AfterReconcile j
      else after_hash disposed now j)"

definition hash_done :: "queue_env \<Rightarrow> bool \<Rightarrow> rat \<Rightarrow> hash_place \<Rightarrow> client_file \<Rightarrow> job \<Rightarrow> job_step" where
  "hash_done env disposed now place f j =
     (if j_aborted j then fail_run disposed Aborted j
      else let h = qe_sha env (cf_bytes f) in
        if j_expectedSha256 j \<noteq> None \<and> j_expectedSha256 j \<noteq> Some h
        then fail_run disposed (Thrown ''Checksum differs'') (j\<lparr>j_file := None, j_needsFile := True\<rparr>)
        else
          (let j1 = j\<lparr>j_expectedSha256 := Some h, j_hashVerifiedFile := Some f\<rparr> in
           if stopping disposed j1 then halt j1
           else (case place of
                   BeforeCreate sz \<Rightarrow> begin_call disposed now (CallCreate sz) j1
                 | AfterReconcile \<Rightarrow> after_hash disposed now j1)))"

definition enter_session :: "bool \<Rightarrow> rat \<Rightarrow> job \<Rightarrow> job_step" where
  "enter_session disposed now j =
     (if stopping disposed j then halt j
      else if j_verifyCommitted j \<or> (case j_session j of None \<Rightarrow> True | Some s \<Rightarrow> cs_chunks s = None)
      then (j\<lparr>j_await := AtReconcile\<rparr>, [GetSession (the (j_uploadId j))], False)
      else start_sending disposed now j)"

definition begin_run :: "bool \<Rightarrow> rat \<Rightarrow> client_file \<Rightarrow> job \<Rightarrow> job_step" where
  "begin_run disposed now f j =
     (let j1 = j\<lparr>j_state := QPreparing, j_runFile := f\<rparr> in
      if j_uploadId j = None then (j1\<lparr>j_await := AtFingerprint\<rparr>, [], False) else enter_session disposed now j1)"

definition fingerprint_done :: "queue_env \<Rightarrow> bool \<Rightarrow> rat \<Rightarrow> job \<Rightarrow> job_step" where
  "fingerprint_done env disposed now j =
     (let j1 = j\<lparr>j_fingerprint := sampleFingerprint env (j_runFile j)\<rparr>
      in if stopping disposed j1 then halt j1 else begin_call disposed now CallLimits j1)"

definition limits_done :: "bool \<Rightarrow> rat \<Rightarrow> client_limits \<Rightarrow> job \<Rightarrow> job_step" where
  "limits_done disposed now l j =
     (let fsize = cf_size (j_runFile j) in
      if stopping disposed j then halt j
      else if \<not> safe_integer (cl_effectiveMaxFileBytes l) \<or> cl_effectiveMaxFileBytes l < fsize
      then fail_run disposed (Thrown ''File exceeds the quota or the limit'') j
      else if \<not> safe_integer (cl_maxChunkBytes l) \<or> cl_maxChunkBytes l \<le> 0 \<or> \<not> safe_integer (cl_maxChunks l) \<or> cl_maxChunks l \<le> 0
      then fail_run disposed (Thrown ''Invalid limits'') j
      else
        let chunkSize = min (cl_maxChunkBytes l) (max UPLOAD_CHUNK_SIZE (ceil_div fsize (cl_maxChunks l))) in
        if cl_maxChunks l < ceil_div fsize chunkSize then fail_run disposed (Thrown ''Too many chunks'') j
        else if cl_wholeSha256Required l \<or> cl_ssd l then begin_hash disposed (BeforeCreate chunkSize) j
        else begin_call disposed now (CallCreate chunkSize) j)"

definition create_done :: "bool \<Rightarrow> rat \<Rightarrow> int \<Rightarrow> client_session \<Rightarrow> job \<Rightarrow> job_step" where
  "create_done disposed now sz s j =
     (let f = j_runFile j in
      enter_session disposed now (j\<lparr>j_creationUncertain := False, j_uploadId := Some (cs_uploadId s),
        j_session := Some (s\<lparr>cs_filename := cf_name f, cs_totalSize := cf_size f, cs_chunkSize := sz,
          cs_totalChunks := ceil_div (cf_size f) sz, cs_uploadedSize := 0, cs_chunks := Some [], cs_parentId := j_parentId j\<rparr>)\<rparr>))"


section \<open>Reconciliation\<close>

definition validSession :: "client_session \<Rightarrow> bool" where
  "validSession s \<longleftrightarrow> safe_integer (cs_totalSize s) \<and> 0 < cs_totalSize s \<and> safe_integer (cs_chunkSize s) \<and> 0 < cs_chunkSize s
     \<and> cs_totalChunks s = ceil_div (cs_totalSize s) (cs_chunkSize s)
     \<and> safe_integer (cs_uploadedSize s) \<and> 0 \<le> cs_uploadedSize s \<and> cs_uploadedSize s \<le> cs_totalSize s"

text \<open>\<open>/^[a-f\d]{64}$/i\<close>\<close>

definition sha_text_i :: "ustring \<Rightarrow> bool" where
  "sha_text_i h \<longleftrightarrow> sha_text (map ascii_lower h)"

fun committed_bytes :: "client_session \<Rightarrow> int list \<Rightarrow> server_chunk list \<Rightarrow> int option" where
  "committed_bytes s seen [] = Some 0"
| "committed_bytes s seen (c # cs) =
     (if safe_integer (sc_index c) \<and> 0 \<le> sc_index c \<and> sc_index c < cs_totalChunks s \<and> sc_index c \<notin> set seen
         \<and> sc_byteSize c = min (cs_chunkSize s) (cs_totalSize s - sc_index c * cs_chunkSize s) \<and> sha_text_i (sc_sha256 c)
      then map_option (\<lambda>n. sc_byteSize c + n) (committed_bytes s (sc_index c # seen) cs)
      else None)"

datatype reconciled = Refused | Finished ustring nat | Progress int

definition reconciled_session :: "job \<Rightarrow> client_session \<Rightarrow> reconciled" where
  "reconciled_session j s =
     (if \<not> validSession s \<or> cs_filename s \<noteq> j_name j \<or> cs_totalSize s \<noteq> j_size j \<or> cs_parentId s \<noteq> j_parentId j then Refused
      else if cs_status s = js ''completed'' \<and> cs_file s \<noteq> None then Finished (cs_uploadId s) (the (cs_file s))
      else if cs_status s \<noteq> js ''pending'' \<and> cs_status s \<noteq> js ''uploading'' then Refused
      else case cs_chunks s of
             None \<Rightarrow> Refused
           | Some cs \<Rightarrow> (case committed_bytes s [] cs of
                 None \<Rightarrow> Refused
               | Some n \<Rightarrow> if n \<noteq> cs_uploadedSize s then Refused else Progress n))"

definition reconcile_done :: "bool \<Rightarrow> rat \<Rightarrow> client_session \<Rightarrow> job \<Rightarrow> job_step" where
  "reconcile_done disposed now s j =
     (case reconciled_session j s of
        Refused \<Rightarrow> fail_run disposed (Thrown ''Session does not match'') j
      | Finished u f \<Rightarrow> begin_call disposed now (CallReplay u) (j\<lparr>j_completedFile := Some f, j_state := QCompleting\<rparr>)
      | Progress n \<Rightarrow> after_reconcile disposed now (j\<lparr>j_session := Some s, j_committed := n\<rparr>))"

text \<open>The digest of the first of the parts that are left to verify.\<close>

definition digest_done :: "queue_env \<Rightarrow> bool \<Rightarrow> rat \<Rightarrow> server_chunk list \<Rightarrow> job \<Rightarrow> job_step" where
  "digest_done env disposed now cs j =
     (if \<not> qe_subtle env then fail_run disposed (Thrown ''No digest'') j
      else case (cs, j_session j) of
        (c # rest', Some s) \<Rightarrow>
          if qe_sha env (chunk_bytes_of s (j_runFile j) (sc_index c)) \<noteq> map ascii_lower (sc_sha256 c)
          then fail_run disposed (Thrown ''Stored chunks differ'') (j\<lparr>j_file := None, j_needsFile := True\<rparr>)
          else verify_from disposed now rest' j
      | _ \<Rightarrow> start_sending disposed now (j\<lparr>j_verifyCommitted := False\<rparr>))"


section \<open>Answers of calls\<close>

definition forget_backoff :: "job \<Rightarrow> job" where
  "forget_backoff j = j\<lparr>j_budget := (j_budget j)\<lparr>rb_notBefore := None\<rparr>\<rparr>"

definition call_done :: "bool \<Rightarrow> rat \<Rightarrow> call \<Rightarrow> answer \<Rightarrow> job \<Rightarrow> job_step" where
  "call_done disposed now c a j0 =
     (let j = forget_backoff j0 in
      case (c, a) of
        (CallLimits, ALimits l) \<Rightarrow> limits_done disposed now l j
      | (CallCreate sz, ASession s) \<Rightarrow> create_done disposed now sz s j
      | (CallChunk i, AOk) \<Rightarrow>
          send_from disposed now (i + 1) (j\<lparr>j_accepted := i # j_accepted j,
            j_committed := j_committed j + (case j_session j of None \<Rightarrow> 0 | Some s \<Rightarrow> int (length (chunk_bytes_of s (j_runFile j) i)))\<rparr>)
      | (CallComplete, AFile f) \<Rightarrow> ((complete_job f (cf_size (j_runFile j)) j)\<lparr>j_await := Ended\<rparr>, [], False)
      | (CallReplay u, AFile f) \<Rightarrow> ((complete_job f (j_size j) j)\<lparr>j_await := Ended\<rparr>, [], False)
      | _ \<Rightarrow> (j0, [], False))"

text \<open>\<open>completeUploadSession\<close> reads a receipt after a failure that leaves the outcome open.\<close>

definition take_receipt :: "client_error \<Rightarrow> nat option \<Rightarrow> job \<Rightarrow> job" where
  "take_receipt e receipt j =
     (case (e, receipt) of
        (Api a, Some f) \<Rightarrow> if ae_kind a = Network \<or> ae_kind a = Server \<or> ae_kind a = Busy then j\<lparr>j_completedFile := Some f\<rparr> else j
      | _ \<Rightarrow> j)"

definition call_failed :: "queue_env \<Rightarrow> bool \<Rightarrow> rat \<Rightarrow> call \<Rightarrow> nat \<Rightarrow> client_error \<Rightarrow> nat option \<Rightarrow> job \<Rightarrow> job_step" where
  "call_failed env disposed now c n e receipt j =
     (let j1 = (case c of
                  CallCreate _ \<Rightarrow> j\<lparr>j_creationUncertain := j_creationUncertain j \<and> \<not> definite_rejection e\<rparr>
                | CallComplete \<Rightarrow> take_receipt e receipt j
                | _ \<Rightarrow> j)
      in if (case c of CallCreate _ \<Rightarrow> \<not> admission_error e | _ \<Rightarrow> False) then fail_run disposed e (forget_backoff j1)
         else (case after_failure (qe_retry env) RETRY_DELAY n (signalled c j1) now e (j_budget j1) of
                 (b, GiveUp e1) \<Rightarrow> fail_run disposed e1 (j1\<lparr>j_budget := b\<rparr>)
               | (b, Again d) \<Rightarrow> ((retry_state c (j1\<lparr>j_budget := b\<rparr>))\<lparr>j_await := Waiting c (Suc n) (now + d)\<rparr>, [], False)))"


section \<open>Cancellation\<close>

definition cancel_confirmed :: "job \<Rightarrow> job" where
  "cancel_confirmed j = j\<lparr>j_state := QCancelled, j_committed := 0, j_needsFile := False, j_file := None,
     j_cancellationPending := False, j_error := False, j_cancelling := False, j_await := Idle\<rparr>"

definition cancel_failed :: "job \<Rightarrow> job" where
  "cancel_failed j = j\<lparr>j_state := QError, j_error := True, j_cancellationPending := True, j_cancelling := False, j_await := Idle\<rparr>"

definition finishCancellation :: "job \<Rightarrow> job_step" where
  "finishCancellation j =
     (if j_cancelling j \<or> terminal j then (j, [], False)
      else case j_uploadId j of
             None \<Rightarrow> (cancel_confirmed j, [], False)
           | Some u \<Rightarrow> (j\<lparr>j_cancelling := True, j_await := AtDelete\<rparr>, [DeleteSession u], False))"

definition cancel_reconciled :: "client_session \<Rightarrow> job \<Rightarrow> job_step" where
  "cancel_reconciled s j =
     (case reconciled_session j s of
        Refused \<Rightarrow> (cancel_failed j, [], False)
      | Finished u f \<Rightarrow> (j\<lparr>j_completedFile := Some f, j_state := QCompleting, j_await := AtCancelReplay\<rparr>, [PostComplete u], False)
      | Progress n \<Rightarrow> (cancel_failed (j\<lparr>j_session := Some s, j_committed := n\<rparr>), [], False))"


section \<open>The coroutine\<close>

text \<open>An answer that does not belong to the place changes nothing.\<close>

definition job_answer :: "queue_env \<Rightarrow> bool \<Rightarrow> rat \<Rightarrow> answer \<Rightarrow> job \<Rightarrow> job_step" where
  "job_answer env disposed now a j =
     (case (j_await j, a) of
        (AtFingerprint, ADone) \<Rightarrow> fingerprint_done env disposed now j
      | (AtFingerprint, AFailed e r) \<Rightarrow> fail_run disposed e j
      | (AtHash place f, ADone) \<Rightarrow> hash_done env disposed now place f j
      | (AtHash place f, AFailed e r) \<Rightarrow> fail_run disposed e j
      | (AtReconcile, ASession s) \<Rightarrow> reconcile_done disposed now s j
      | (AtReconcile, AFailed e r) \<Rightarrow> fail_run disposed e j
      | (AtDigest cs, ADone) \<Rightarrow> digest_done env disposed now cs j
      | (AtDigest cs, AFailed e r) \<Rightarrow> fail_run disposed e j
      | (Flight c n, AFailed e r) \<Rightarrow> call_failed env disposed now c n e r j
      | (Flight c n, _) \<Rightarrow> call_done disposed now c a j
      | (Waiting c n due, ADone) \<Rightarrow> if due \<le> now \<or> signalled c j then attempt_call disposed c n j else (j, [], False)
      | (AtDelete, AOk) \<Rightarrow> (cancel_confirmed j, [], False)
      | (AtDelete, AFailed e r) \<Rightarrow> (j\<lparr>j_await := AtCancelReconcile\<rparr>, [GetSession (the (j_uploadId j))], False)
      | (AtCancelReconcile, ASession s) \<Rightarrow> cancel_reconciled s j
      | (AtCancelReconcile, AFailed e r) \<Rightarrow> (cancel_failed j, [], False)
      | (AtCancelReplay, AFile f) \<Rightarrow>
          ((complete_job f (j_size j) j)\<lparr>j_cancelling := False, j_await := Idle\<rparr>, [], False)
      | (AtCancelReplay, AFailed e r) \<Rightarrow> (cancel_failed j, [], False)
      | _ \<Rightarrow> (j, [], False))"

end
