(* ===== verification/UploadQueue.thy ===== *)
theory UploadQueue
  imports QueueJob
begin

text \<open>
  The queue of uploads of the browser (frontend/src/files/uploadQueue.ts): the jobs in the order of their
  \<open>Map\<close>, the two slots, the operations of the page and the continuations of the jobs as events.  A
  continuation runs until its next await, as in the browser; everything else happens between.  The log has
  every request with the job it was sent for.
\<close>

record queue =
  q_jobs :: "job list"
  q_disposed :: bool
  q_active :: nat
  q_sequence :: nat
  q_discovering :: bool
  q_reselecting :: "(ustring \<times> client_file) list"
  q_log :: "(ustring \<times> request) list"
  q_detached :: nat

definition CONCURRENT_FILES :: nat where "CONCURRENT_FILES = 2"

definition get_job :: "ustring \<Rightarrow> queue \<Rightarrow> job option" where
  "get_job k q = find (\<lambda>j. j_id j = k) (q_jobs q)"

definition put_job :: "job \<Rightarrow> queue \<Rightarrow> queue" where
  "put_job j q = q\<lparr>q_jobs := map (\<lambda>x. if j_id x = j_id j then j else x) (q_jobs q)\<rparr>"

text \<open>\<open>Map.set\<close>\<close>

definition set_job :: "job \<Rightarrow> queue \<Rightarrow> queue" where
  "set_job j q = (if get_job (j_id j) q = None then q\<lparr>q_jobs := q_jobs q @ [j]\<rparr> else put_job j q)"

definition send_requests :: "ustring \<Rightarrow> request list \<Rightarrow> queue \<Rightarrow> queue" where
  "send_requests k rs q = q\<lparr>q_log := q_log q @ map (Pair k) rs\<rparr>"

definition discover :: "queue \<Rightarrow> queue" where
  "discover q =
     (let q1 = q\<lparr>q_disposed := False\<rparr>
      in if q_discovering q then q1 else send_requests [] [ListSessions] (q1\<lparr>q_discovering := True\<rparr>))"

definition apply_step :: "job_step \<Rightarrow> queue \<Rightarrow> queue" where
  "apply_step r q =
     (case r of (j, rs, d) \<Rightarrow>
        let q1 = send_requests (j_id j) rs (put_job j q) in if d then discover q1 else q1)"


section \<open>The slots\<close>

definition startable :: "job \<Rightarrow> bool" where
  "startable j \<longleftrightarrow> j_state j = QQueued \<and> \<not> j_busy j \<and> j_file j \<noteq> None"

definition start_job :: "rat \<Rightarrow> job \<Rightarrow> queue \<Rightarrow> queue" where
  "start_job now j q =
     (case j_file j of
        None \<Rightarrow> q
      | Some f \<Rightarrow> apply_step (begin_run (q_disposed q) now f (j\<lparr>j_busy := True, j_aborted := False\<rparr>)) (q\<lparr>q_active := Suc (q_active q)\<rparr>))"

fun pump_over :: "rat \<Rightarrow> ustring list \<Rightarrow> queue \<Rightarrow> queue" where
  "pump_over now [] q = q"
| "pump_over now (k # ks) q =
     (if CONCURRENT_FILES \<le> q_active q then q
      else case get_job k q of
             None \<Rightarrow> pump_over now ks q
           | Some j \<Rightarrow> pump_over now ks (if startable j then start_job now j q else q))"

definition pump :: "rat \<Rightarrow> queue \<Rightarrow> queue" where
  "pump now q = (if q_disposed q then q else pump_over now (map j_id (q_jobs q)) q)"

text \<open>The \<open>finally\<close> of a run; the slot is free before a cancellation that was waiting for the run.\<close>

definition finish_run :: "rat \<Rightarrow> job \<Rightarrow> queue \<Rightarrow> queue" where
  "finish_run now j q =
     (let j1 = j\<lparr>j_busy := False, j_aborted := False, j_await := Idle\<rparr>; q1 = q\<lparr>q_active := q_active q - 1\<rparr> in
      if j_cancellationPending j1 \<and> j_state j1 \<noteq> QCompleted then
        (case finishCancellation j1 of (j2, rs, d) \<Rightarrow>
           if j_await j2 = AtDelete then apply_step (j2\<lparr>j_pumpAfter := True\<rparr>, rs, d) q1
           else pump now (apply_step (j2, rs, d) q1))
      else pump now (put_job j1 q1))"

definition job_answered :: "queue_env \<Rightarrow> rat \<Rightarrow> answer \<Rightarrow> job \<Rightarrow> queue \<Rightarrow> queue" where
  "job_answered env now a j q =
     (case job_answer env (q_disposed q) now a j of (j1, rs, d) \<Rightarrow>
        if j_pumpAfter j1 \<and> j_await j1 = Idle then pump now (apply_step (j1\<lparr>j_pumpAfter := False\<rparr>, rs, d) q)
        else apply_step (j1, rs, d) q)"


section \<open>Operations\<close>

definition local_id :: "rat \<Rightarrow> nat \<Rightarrow> ustring" where
  "local_id now n = js ''local-'' @ dec (nat \<lfloor>now\<rfloor>) @ [45] @ dec n"

definition new_job :: "ustring \<Rightarrow> nat option \<Rightarrow> bool \<Rightarrow> client_file \<Rightarrow> job" where
  "new_job k parent start f =
     (let valid = safe_integer (cf_size f) \<and> 0 < cf_size f in
      \<lparr>j_id = k, j_name = cf_name f, j_size = cf_size f, j_parentId = parent,
       j_state = (if valid then (if start then QQueued else QSelected) else QError), j_committed = 0, j_needsFile = False,
       j_error = (\<not> valid), j_uploadId = None, j_completedFile = None, j_file = Some f, j_session = None, j_expectedSha256 = None,
       j_fingerprint = None, j_budget = \<lparr>rb_remaining = WAIT_BUDGET_MS, rb_deadline = None, rb_notBefore = None\<rparr>, j_aborted = False,
       j_pauseRequested = False, j_cancellationPending = False, j_cancelling = False, j_verifyCommitted = False, j_busy = False,
       j_creationUncertain = False, j_hashVerifiedFile = None, j_runFile = f, j_accepted = [], j_pumpAfter = False, j_await = Idle\<rparr>)"

fun enqueue_files :: "rat \<Rightarrow> nat option \<Rightarrow> bool \<Rightarrow> client_file list \<Rightarrow> queue \<Rightarrow> queue" where
  "enqueue_files now parent start [] q = q"
| "enqueue_files now parent start (f # fs) q =
     enqueue_files now parent start fs
       (set_job (new_job (local_id now (Suc (q_sequence q))) parent start f) (q\<lparr>q_sequence := Suc (q_sequence q)\<rparr>))"

definition enqueue :: "rat \<Rightarrow> client_file list \<Rightarrow> nat option \<Rightarrow> bool \<Rightarrow> queue \<Rightarrow> queue" where
  "enqueue now fs parent start q = (if q_disposed q then q else pump now (enqueue_files now parent start fs q))"

definition startAll :: "rat \<Rightarrow> queue \<Rightarrow> queue" where
  "startAll now q =
     (if q_disposed q then q
      else pump now (q\<lparr>q_jobs := map (\<lambda>j. if j_state j = QSelected then j\<lparr>j_state := QQueued\<rparr> else j) (q_jobs q)\<rparr>))"

text \<open>A run that has just completed keeps its slot until its \<open>finally\<close>, also when its row is dismissed.\<close>

definition dismissCompleted :: "queue \<Rightarrow> queue" where
  "dismissCompleted q =
     (if list_ex (\<lambda>j. j_state j \<noteq> QCompleted) (q_jobs q) then q
      else q\<lparr>q_jobs := [], q_detached := q_detached q + length (filter j_busy (q_jobs q))\<rparr>)"

definition abort_job :: "job \<Rightarrow> job" where
  "abort_job j = (if j_busy j then j\<lparr>j_aborted := True\<rparr> else j)"

definition pause_job :: "job \<Rightarrow> job" where
  "pause_job j = (abort_job (j\<lparr>j_pauseRequested := True\<rparr>))\<lparr>j_state := (if j_busy j then QPausing else QPaused)\<rparr>"

definition pause :: "ustring \<Rightarrow> queue \<Rightarrow> queue" where
  "pause k q =
     (case get_job k q of
        None \<Rightarrow> q
      | Some j \<Rightarrow> if terminal j \<or> j_cancellationPending j \<or> j_state j = QCompleting then q else put_job (pause_job j) q)"

definition cancel_job :: "job \<Rightarrow> job" where
  "cancel_job j = abort_job (j\<lparr>j_cancellationPending := True, j_pauseRequested := False, j_error := False, j_state := QCancelling\<rparr>)"

definition cancel :: "ustring \<Rightarrow> queue \<Rightarrow> queue" where
  "cancel k q =
     (case get_job k q of
        None \<Rightarrow> q
      | Some j \<Rightarrow>
          if q_disposed q \<or> terminal j \<or> j_cancelling j then q
          else if j_busy j then put_job (cancel_job j) q
          else apply_step (finishCancellation (cancel_job j)) q)"

definition requeue_job :: "job \<Rightarrow> job" where
  "requeue_job j = j\<lparr>j_pauseRequested := False, j_error := False, j_state := QQueued, j_verifyCommitted := j_uploadId j \<noteq> None,
     j_budget := (j_budget j)\<lparr>rb_remaining := WAIT_BUDGET_MS\<rparr>\<rparr>"

definition resume :: "rat \<Rightarrow> ustring \<Rightarrow> queue \<Rightarrow> queue" where
  "resume now k q =
     (case get_job k q of
        None \<Rightarrow> q
      | Some j \<Rightarrow>
          if q_disposed q \<or> terminal j \<or> j_busy j then q
          else if j_cancellationPending j then cancel k q
          else if j_creationUncertain j then discover (put_job (j\<lparr>j_error := True\<rparr>) q)
          else case j_file j of
                 None \<Rightarrow> put_job (j\<lparr>j_state := QNeedsFile, j_needsFile := True\<rparr>) q
               | Some f \<Rightarrow>
                   if \<not> safe_integer (cf_size f) \<or> cf_size f \<le> 0 then q else pump now (put_job (requeue_job j) q))"

text \<open>A file is chosen again: the tests before the fingerprint is computed, and those behind it.\<close>

definition reselect :: "ustring \<Rightarrow> client_file \<Rightarrow> queue \<Rightarrow> queue" where
  "reselect k f q =
     (case get_job k q of
        None \<Rightarrow> q
      | Some j \<Rightarrow>
          if q_disposed q \<or> j_busy j \<or> terminal j \<or> j_cancellationPending j then q
          else if cf_name f \<noteq> j_name j \<or> cf_size f \<noteq> j_size j then put_job (j\<lparr>j_error := True\<rparr>) q
          else q\<lparr>q_reselecting := q_reselecting q @ [(k, f)]\<rparr>)"

definition reselected :: "queue_env \<Rightarrow> rat \<Rightarrow> ustring \<Rightarrow> client_file \<Rightarrow> queue \<Rightarrow> queue" where
  "reselected env now k f q0 =
     (if (k, f) \<notin> set (q_reselecting q0) then q0
      else let q = q0\<lparr>q_reselecting := remove1 (k, f) (q_reselecting q0)\<rparr>; fp = sampleFingerprint env f in
        case get_job k q of
          None \<Rightarrow> q
        | Some j \<Rightarrow>
            if j_fingerprint j \<noteq> None \<and> fp \<noteq> j_fingerprint j then put_job (j\<lparr>j_error := True\<rparr>) q
            else if q_disposed q \<or> j_cancellationPending j \<or> terminal j then q
            else resume now k (put_job (j\<lparr>j_file := Some f, j_fingerprint := fp, j_needsFile := False, j_verifyCommitted := True\<rparr>) q))"

definition dispose :: "queue \<Rightarrow> queue" where
  "dispose q = q\<lparr>q_disposed := True,
     q_jobs := map (\<lambda>j. if terminal j \<or> j_cancellationPending j then j else pause_job j) (q_jobs q)\<rparr>"


section \<open>Stored uploads and discovery\<close>

record saved_upload =
  sv_id :: ustring
  sv_name :: ustring
  sv_size :: int
  sv_parentId :: "nat option"
  sv_uploadId :: ustring
  sv_committedBytes :: int
  sv_expectedSha256 :: "ustring option"
  sv_fingerprint :: "ustring option"
  sv_notBefore :: "rat option"
  sv_cancellationPending :: bool

definition saved_of :: "job \<Rightarrow> saved_upload" where
  "saved_of j = \<lparr>sv_id = j_id j, sv_name = j_name j, sv_size = j_size j, sv_parentId = j_parentId j, sv_uploadId = the (j_uploadId j),
     sv_committedBytes = j_committed j, sv_expectedSha256 = j_expectedSha256 j, sv_fingerprint = j_fingerprint j,
     sv_notBefore = rb_notBefore (j_budget j), sv_cancellationPending = j_cancellationPending j\<rparr>"

text \<open>What \<open>publish\<close> puts into the storage.\<close>

definition saved_uploads :: "queue \<Rightarrow> saved_upload list" where
  "saved_uploads q = map saved_of (filter (\<lambda>j. j_uploadId j \<noteq> None \<and> \<not> terminal j) (q_jobs q))"

definition validSaved :: "saved_upload \<Rightarrow> bool" where
  "validSaved v \<longleftrightarrow> safe_integer (sv_size v) \<and> 0 < sv_size v \<and> safe_integer (sv_committedBytes v) \<and> 0 \<le> sv_committedBytes v
     \<and> sv_committedBytes v \<le> sv_size v
     \<and> (case sv_parentId v of None \<Rightarrow> True | Some p \<Rightarrow> safe_integer (int p) \<and> 0 < p)
     \<and> (case sv_expectedSha256 v of None \<Rightarrow> True | Some h \<Rightarrow> sha_text h)
     \<and> (case sv_fingerprint v of None \<Rightarrow> True | Some h \<Rightarrow> sha_text_i h)"

definition no_file :: client_file where
  "no_file = \<lparr>cf_handle = 0, cf_name = [], cf_bytes = []\<rparr>"

definition restoredJob :: "saved_upload \<Rightarrow> job" where
  "restoredJob v = \<lparr>j_id = sv_id v, j_name = sv_name v, j_size = sv_size v, j_parentId = sv_parentId v,
     j_state = (if sv_cancellationPending v then QError else QNeedsFile), j_committed = sv_committedBytes v, j_needsFile = True,
     j_error = sv_cancellationPending v, j_uploadId = Some (sv_uploadId v), j_completedFile = None, j_file = None, j_session = None,
     j_expectedSha256 = sv_expectedSha256 v, j_fingerprint = sv_fingerprint v,
     j_budget = \<lparr>rb_remaining = WAIT_BUDGET_MS, rb_deadline = None, rb_notBefore = sv_notBefore v\<rparr>, j_aborted = False,
     j_pauseRequested = True, j_cancellationPending = sv_cancellationPending v, j_cancelling = False, j_verifyCommitted = True,
     j_busy = False, j_creationUncertain = False, j_hashVerifiedFile = None, j_runFile = no_file, j_accepted = [], j_pumpAfter = False,
     j_await = Idle\<rparr>"

definition empty_queue :: queue where
  "empty_queue = \<lparr>q_jobs = [], q_disposed = False, q_active = 0, q_sequence = 0, q_discovering = False, q_reselecting = [], q_log = [], q_detached = 0\<rparr>"

definition restore :: "saved_upload list \<Rightarrow> queue" where
  "restore vs = foldl (\<lambda>q v. if validSaved v then set_job (restoredJob v) q else q) empty_queue vs"

definition import_session :: "client_session \<Rightarrow> queue \<Rightarrow> queue" where
  "import_session s q =
     (if \<not> validSession s \<or> list_ex (\<lambda>j. j_uploadId j = Some (cs_uploadId s)) (q_jobs q) then q
      else set_job ((restoredJob \<lparr>sv_id = js ''server-'' @ cs_uploadId s, sv_name = cs_filename s, sv_size = cs_totalSize s,
          sv_parentId = cs_parentId s, sv_uploadId = cs_uploadId s, sv_committedBytes = cs_uploadedSize s, sv_expectedSha256 = None,
          sv_fingerprint = None, sv_notBefore = None, sv_cancellationPending = False\<rparr>)\<lparr>j_session := Some s\<rparr>) q)"

definition discovered :: "client_session list option \<Rightarrow> queue \<Rightarrow> queue" where
  "discovered result q =
     (if \<not> q_discovering q then q
      else let q1 = q\<lparr>q_discovering := False\<rparr> in
        case result of
          None \<Rightarrow> q1
        | Some ss \<Rightarrow> if q_disposed q then q1 else foldl (\<lambda>q s. import_session s q) q1 ss)"


section \<open>Histories\<close>

datatype queue_event =
    Enqueue "client_file list" "nat option" bool
  | StartAll
  | Pause ustring
  | Resume ustring
  | Cancel ustring
  | Reselect ustring client_file
  | Reselected ustring client_file
  | Discover
  | Discovered "client_session list option"
  | Dispose
  | DismissCompleted
  | Answer ustring answer
  | Finally ustring
  | FinallyDetached

fun queue_step :: "queue_env \<Rightarrow> rat \<times> queue_event \<Rightarrow> queue \<Rightarrow> queue" where
  "queue_step env (now, Enqueue fs parent start) q = enqueue now fs parent start q"
| "queue_step env (now, StartAll) q = startAll now q"
| "queue_step env (now, Pause k) q = pause k q"
| "queue_step env (now, Resume k) q = resume now k q"
| "queue_step env (now, Cancel k) q = cancel k q"
| "queue_step env (now, Reselect k f) q = reselect k f q"
| "queue_step env (now, Reselected k f) q = reselected env now k f q"
| "queue_step env (now, Discover) q = discover q"
| "queue_step env (now, Discovered r) q = discovered r q"
| "queue_step env (now, Dispose) q = dispose q"
| "queue_step env (now, DismissCompleted) q = dismissCompleted q"
| "queue_step env (now, Answer k a) q = (case get_job k q of None \<Rightarrow> q | Some j \<Rightarrow> job_answered env now a j q)"
| "queue_step env (now, Finally k) q =
     (case get_job k q of None \<Rightarrow> q | Some j \<Rightarrow> if j_await j = Ended then finish_run now j q else q)"
| "queue_step env (now, FinallyDetached) q =
     (if q_detached q = 0 then q else pump now (q\<lparr>q_detached := q_detached q - 1, q_active := q_active q - 1\<rparr>))"

definition queue_run :: "queue_env \<Rightarrow> (rat \<times> queue_event) list \<Rightarrow> queue \<Rightarrow> queue" where
  "queue_run env evs q = foldl (\<lambda>q e. queue_step env e q) q evs"

end
