(* ===== verification/QueueProps.thy ===== *)
theory QueueProps
  imports UploadQueue
begin

text \<open>What every step of a job and of the queue keeps.\<close>

section \<open>Places\<close>

definition run_place :: "await \<Rightarrow> bool" where
  "run_place a \<longleftrightarrow> (case a of Idle \<Rightarrow> False | AtDelete \<Rightarrow> False | AtCancelReconcile \<Rightarrow> False | AtCancelReplay \<Rightarrow> False | _ \<Rightarrow> True)"

definition cancel_place :: "await \<Rightarrow> bool" where
  "cancel_place a \<longleftrightarrow> a = AtDelete \<or> a = AtCancelReconcile \<or> a = AtCancelReplay"

text \<open>The stored parts \<open>cs\<close> of the session are those of the file of the run.\<close>

definition verified :: "queue_env \<Rightarrow> job \<Rightarrow> server_chunk list \<Rightarrow> bool" where
  "verified env j cs \<longleftrightarrow> (case j_session j of None \<Rightarrow> True
     | Some s \<Rightarrow> (\<forall>c \<in> set cs. qe_sha env (chunk_bytes_of s (j_runFile j) (sc_index c)) = map ascii_lower (sc_sha256 c)))"

definition sending :: "queue_env \<Rightarrow> job \<Rightarrow> bool" where
  "sending env j \<longleftrightarrow> j_session j \<noteq> None \<and> j_uploadId j \<noteq> None \<and> \<not> j_creationUncertain j \<and> verified env j (session_parts j)
     \<and> sc_index ` set (session_parts j) \<subseteq> set (j_accepted j)"

definition fresh_job :: "job \<Rightarrow> bool" where
  "fresh_job j \<longleftrightarrow> j_uploadId j = None \<and> \<not> j_creationUncertain j"

definition late_job :: "job \<Rightarrow> bool" where
  "late_job j \<longleftrightarrow> j_uploadId j \<noteq> None \<and> \<not> j_creationUncertain j \<and> j_verifyCommitted j"

definition call_inv :: "queue_env \<Rightarrow> bool \<Rightarrow> call \<Rightarrow> job \<Rightarrow> bool" where
  "call_inv env flight c j \<longleftrightarrow>
     (case c of
        CallLimits \<Rightarrow> fresh_job j
      | CallCreate sz \<Rightarrow> j_uploadId j = None \<and> j_creationUncertain j = flight
      | CallChunk i \<Rightarrow> sending env j \<and> i \<notin> set (j_accepted j)
      | CallComplete \<Rightarrow> sending env j
      | CallReplay u \<Rightarrow> j_uploadId j \<noteq> None \<and> \<not> j_creationUncertain j)"

definition place_inv :: "queue_env \<Rightarrow> job \<Rightarrow> bool" where
  "place_inv env j \<longleftrightarrow>
     (case j_await j of
        AtFingerprint \<Rightarrow> fresh_job j
      | AtHash (BeforeCreate sz) f \<Rightarrow> fresh_job j
      | AtHash AfterReconcile f \<Rightarrow> late_job j \<and> j_session j \<noteq> None
      | AtReconcile \<Rightarrow> late_job j
      | AtDigest cs \<Rightarrow> late_job j \<and> j_session j \<noteq> None \<and> cs \<noteq> [] \<and> (\<exists>pre. session_parts j = pre @ cs \<and> verified env j pre)
      | Flight c n \<Rightarrow> call_inv env True c j
      | Waiting c n t \<Rightarrow> call_inv env False c j
      | _ \<Rightarrow> True)"

definition working :: "job \<Rightarrow> bool" where
  "working j \<longleftrightarrow> j_state j \<noteq> QQueued \<and> j_state j \<noteq> QSelected \<and> j_state j \<noteq> QCompleted \<and> j_state j \<noteq> QCancelled"

text \<open>The signal of a run is set when it is to stop.\<close>

definition run_inv :: "bool \<Rightarrow> job \<Rightarrow> bool" where
  "run_inv d j \<longleftrightarrow> j_busy j \<and> \<not> j_cancelling j \<and> working j \<and> (stopping d j \<longrightarrow> j_aborted j)"

definition same_frame :: "job \<Rightarrow> job \<Rightarrow> bool" where
  "same_frame j j' \<longleftrightarrow> j_id j' = j_id j \<and> j_pauseRequested j' = j_pauseRequested j \<and> j_aborted j' = j_aborted j \<and> j_busy j' = j_busy j
     \<and> j_cancelling j' = j_cancelling j \<and> j_pumpAfter j' = j_pumpAfter j \<and> j_runFile j' = j_runFile j
     \<and> (j_cancellationPending j' = j_cancellationPending j \<or> j_state j' = QCompleted)"

fun is_create :: "request \<Rightarrow> bool" where
  "is_create (PostSession n s c h p) = True"
| "is_create _ = False"

fun is_chunk :: "request \<Rightarrow> bool" where
  "is_chunk (PostChunk u i b) = True"
| "is_chunk _ = False"

text \<open>A creation whose outcome is a session or is not known.\<close>

definition claim :: "job \<Rightarrow> nat" where
  "claim j = (if j_uploadId j \<noteq> None \<or> j_creationUncertain j then 1 else 0)"

definition resting :: "job \<Rightarrow> bool" where
  "resting j \<longleftrightarrow> working j \<or> (j_state j = QCompleted \<and> j_await j = Ended \<and> \<not> j_cancellationPending j)"

definition in_flight :: "job \<Rightarrow> request list \<Rightarrow> bool" where
  "in_flight j rs \<longleftrightarrow> (\<forall>i n s. j_await j = Flight (CallChunk i) n \<longrightarrow> j_session j = Some s \<longrightarrow>
     PostChunk (cs_uploadId s) i (chunk_bytes_of s (j_runFile j) i) \<in> set rs)
   \<and> (\<forall>u i b. PostChunk u i b \<in> set rs \<longrightarrow> (\<exists>n s. j_await j = Flight (CallChunk i) n \<and> j_session j = Some s
          \<and> u = cs_uploadId s \<and> b = chunk_bytes_of s (j_runFile j) i))"

definition run_post :: "queue_env \<Rightarrow> bool \<Rightarrow> job \<Rightarrow> job_step \<Rightarrow> bool" where
  "run_post env d j r \<longleftrightarrow>
     (case r of (j', rs, disc) \<Rightarrow> same_frame j j' \<and> run_place (j_await j') \<and> place_inv env j' \<and> resting j' \<and> in_flight j' rs
        \<and> (\<forall>r \<in> set rs. is_create r \<or> is_chunk r \<longrightarrow> \<not> stopping d j)
        \<and> length (filter is_create rs) + claim j \<le> claim j'
        \<and> (j_uploadId j \<noteq> None \<longrightarrow> j_uploadId j' = j_uploadId j) \<and> (disc \<longrightarrow> \<not> d))"

lemma run_postI:
  assumes "same_frame j j'" "run_place (j_await j')" "place_inv env j'" "resting j'" "in_flight j' rs"
    "\<And>r. r \<in> set rs \<Longrightarrow> is_create r \<or> is_chunk r \<Longrightarrow> \<not> stopping d j" "length (filter is_create rs) + claim j \<le> claim j'"
    "j_uploadId j \<noteq> None \<Longrightarrow> j_uploadId j' = j_uploadId j" "disc \<Longrightarrow> \<not> d"
  shows "run_post env d j (j', rs, disc)"
  using assms by (simp add: run_post_def)

text \<open>The job before the call of a step may differ in what the frame does not fix.\<close>

lemma run_post_from:
  assumes "run_post env d j1 r" "same_frame j j1" "j_cancellationPending j1 = j_cancellationPending j" "claim j \<le> claim j1"
    "j_uploadId j \<noteq> None \<Longrightarrow> j_uploadId j1 = j_uploadId j"
  shows "run_post env d j r"
proof -
  obtain j' rs disc where r: "r = (j', rs, disc)" by (cases r)
  show ?thesis using assms unfolding run_post_def r by (auto simp: same_frame_def stopping_def)
qed


section \<open>The steps of a run\<close>

lemmas post_defs = same_frame_def run_place_def place_inv_def resting_def working_def in_flight_def claim_def

lemma halt_post: "run_post env d j (halt j)"
  unfolding halt_def by (rule run_postI) (simp_all add: stop_state_def post_defs)

lemma fail_run_post:
  assumes "\<not> j_creationUncertain j \<or> \<not> definite_rejection e" "working j"
  shows "run_post env d j (fail_run d e j)"
proof -
  have c: "(j_creationUncertain j \<and> \<not> definite_rejection e) = j_creationUncertain j" using assms by blast
  show ?thesis
    unfolding fail_run_def Let_def c
    by (auto intro!: run_postI simp: post_defs) (use assms(2) in \<open>auto simp: working_def\<close>)
qed

lemma verified_cong: "j_session j' = j_session j \<Longrightarrow> j_runFile j' = j_runFile j \<Longrightarrow> verified env j' cs = verified env j cs"
  by (cases "j_session j") (simp_all add: verified_def)

lemma parts_cong: "j_session j' = j_session j \<Longrightarrow> session_parts j' = session_parts j"
  by (simp add: session_parts_def)

lemma sending_cong:
  assumes "j_session j' = j_session j" "j_runFile j' = j_runFile j" "j_uploadId j' = j_uploadId j"
    "j_creationUncertain j' = j_creationUncertain j" "j_accepted j' = j_accepted j"
  shows "sending env j' = sending env j"
  using assms verified_cong [of j' j] parts_cong [of j' j] by (simp add: sending_def)

lemma call_inv_cong:
  assumes "j_session j' = j_session j" "j_runFile j' = j_runFile j" "j_uploadId j' = j_uploadId j"
    "j_creationUncertain j' = j_creationUncertain j" "j_accepted j' = j_accepted j"
  shows "call_inv env f c j' = call_inv env f c j"
  using assms sending_cong [OF assms] by (simp add: call_inv_def fresh_job_def split: call.split)

lemma call_certain: "call_inv env False c j \<Longrightarrow> \<not> j_creationUncertain j"
  by (auto simp: call_inv_def fresh_job_def sending_def split: call.splits)

lemma attempt_post:
  assumes "run_inv d j" "call_inv env False c j"
  shows "run_post env d j (attempt_call d c n j)"
proof (cases "signalled c j")
  case True
  then show ?thesis using assms call_certain [OF assms(2)] fail_run_post [of j Aborted] by (simp add: attempt_call_def run_inv_def)
next
  case False
  have certain: "\<not> j_creationUncertain j" using call_certain [OF assms(2)] .
  show ?thesis
  proof (cases c)
    case CallLimits
    then show ?thesis using False assms
      by (auto intro!: run_postI simp: attempt_call_def post_defs call_inv_def run_inv_def fresh_job_def)
  next
    case (CallCreate sz)
    then have "\<not> stopping d j" using False assms(1) by (auto simp: run_inv_def signalled_def)
    then show ?thesis using CallCreate False assms
      by (auto intro!: run_postI simp: attempt_call_def post_defs call_inv_def run_inv_def)
  next
    case (CallChunk i)
    then have go: "\<not> stopping d j" using False assms(1) by (auto simp: run_inv_def signalled_def)
    obtain s where s: "j_session j = Some s" "sending env j" "i \<notin> set (j_accepted j)"
      using assms(2) CallChunk by (auto simp: call_inv_def sending_def)
    have "call_inv env True c (j\<lparr>j_await := Flight c n, j_state := QUploading\<rparr>)"
      using s CallChunk sending_cong [of "j\<lparr>j_await := Flight c n, j_state := QUploading\<rparr>" j] by (simp add: call_inv_def)
    then show ?thesis using CallChunk False assms(1) go s
      by (auto intro!: run_postI simp: attempt_call_def post_defs run_inv_def)
  next
    case CallComplete
    have "call_inv env True c (j\<lparr>j_await := Flight c n\<rparr>)"
      using assms(2) CallComplete sending_cong [of "j\<lparr>j_await := Flight c n\<rparr>" j] by (simp add: call_inv_def)
    then show ?thesis using CallComplete False assms(1)
      by (auto intro!: run_postI simp: attempt_call_def post_defs run_inv_def)
  next
    case (CallReplay u)
    then show ?thesis using False assms
      by (auto intro!: run_postI simp: attempt_call_def post_defs call_inv_def run_inv_def)
  qed
qed

lemma retry_state_fields [simp]:
  "j_await (retry_state c j) = j_await j" "j_session (retry_state c j) = j_session j" "j_runFile (retry_state c j) = j_runFile j"
  "j_uploadId (retry_state c j) = j_uploadId j" "j_creationUncertain (retry_state c j) = j_creationUncertain j"
  "j_accepted (retry_state c j) = j_accepted j" "j_busy (retry_state c j) = j_busy j" "j_id (retry_state c j) = j_id j"
  "j_pauseRequested (retry_state c j) = j_pauseRequested j" "j_aborted (retry_state c j) = j_aborted j"
  "j_cancelling (retry_state c j) = j_cancelling j" "j_pumpAfter (retry_state c j) = j_pumpAfter j"
  "j_cancellationPending (retry_state c j) = j_cancellationPending j" "j_verifyCommitted (retry_state c j) = j_verifyCommitted j"
  by (simp_all add: retry_state_def split: call.split)

lemma retry_state_working: "working j \<Longrightarrow> working (retry_state c j)"
  by (simp add: retry_state_def working_def split: call.split)

lemma waiting_post:
  assumes "working j" "call_inv env False c j"
  shows "run_post env d j ((retry_state c j)\<lparr>j_await := Waiting c n t\<rparr>, [], False)"
proof (rule run_postI)
  let ?j = "(retry_state c j)\<lparr>j_await := Waiting c n t\<rparr>"
  have "call_inv env False c ?j" using assms(2) call_inv_cong [of ?j j] by simp
  then show "place_inv env ?j" by (simp add: place_inv_def)
  show "resting ?j" using retry_state_working [OF assms(1)] by (simp add: resting_def working_def)
qed (simp_all add: same_frame_def run_place_def in_flight_def claim_def)

lemma begin_call_post:
  assumes "run_inv d j" "call_inv env False c j"
  shows "run_post env d j (begin_call d now c j)"
proof -
  have w: "working j" using assms(1) by (simp add: run_inv_def)
  have certain: "\<not> j_creationUncertain j" using call_certain [OF assms(2)] .
  have early: "run_post env d j (fail_run d e j)" for e using certain w by (simp add: fail_run_post)
  have "run_post env d (retry_state c j) (fail_run d Aborted (retry_state c j))"
    using certain w by (intro fail_run_post) (simp_all add: retry_state_working)
  then have late: "run_post env d j (fail_run d Aborted (retry_state c j))"
    by (rule run_post_from) (simp_all add: same_frame_def claim_def)
  show ?thesis
    unfolding begin_call_def Let_def
    using early late waiting_post [OF w assms(2)] attempt_post [OF assms] by auto
qed

lemma run_inv_cong:
  assumes "run_inv d j" "j_busy j' = j_busy j" "j_cancelling j' = j_cancelling j" "j_pauseRequested j' = j_pauseRequested j"
    "j_cancellationPending j' = j_cancellationPending j" "j_aborted j' = j_aborted j" "working j'"
  shows "run_inv d j'"
  using assms by (simp add: run_inv_def stopping_def)

lemma run_working: "run_inv d j \<Longrightarrow> working j"
  by (simp add: run_inv_def)

lemma next_index_Some: "next_index acc i n = Some k \<Longrightarrow> k \<notin> set acc \<and> i \<le> k \<and> k < n"
proof (induction acc i n rule: next_index.induct)
  case (1 acc i n)
  then show ?case by (subst (asm) (2) next_index.simps) (auto split: if_splits)
qed

lemma send_from_post:
  assumes "run_inv d j" "sending env j"
  shows "run_post env d j (send_from d now i j)"
proof (cases "stopping d j")
  case True
  then show ?thesis by (simp add: send_from_def halt_post)
next
  case False
  have up: "run_post env d j (begin_call d now (CallChunk k) (j\<lparr>j_state := QUploading\<rparr>))" if "k \<notin> set (j_accepted j)" for k
  proof -
    let ?j = "j\<lparr>j_state := QUploading\<rparr>"
    have "run_inv d ?j" using run_inv_cong [OF assms(1), of ?j] by (simp add: working_def)
    moreover have "call_inv env False (CallChunk k) ?j" using assms(2) that sending_cong [of ?j j] by (simp add: call_inv_def)
    ultimately have "run_post env d ?j (begin_call d now (CallChunk k) ?j)" by (rule begin_call_post)
    then show ?thesis by (rule run_post_from) (simp_all add: same_frame_def claim_def)
  qed
  have finish: "run_post env d j (begin_call d now CallComplete (j\<lparr>j_state := QCompleting\<rparr>))"
  proof -
    let ?j = "j\<lparr>j_state := QCompleting\<rparr>"
    have "run_inv d ?j" using run_inv_cong [OF assms(1), of ?j] by (simp add: working_def)
    moreover have "call_inv env False CallComplete ?j" using assms(2) sending_cong [of ?j j] by (simp add: call_inv_def)
    ultimately have "run_post env d ?j (begin_call d now CallComplete ?j)" by (rule begin_call_post)
    then show ?thesis by (rule run_post_from) (simp_all add: same_frame_def claim_def)
  qed
  show ?thesis unfolding send_from_def using False up finish next_index_Some by (auto split: option.split)
qed

definition ready :: "queue_env \<Rightarrow> job \<Rightarrow> bool" where
  "ready env j \<longleftrightarrow> j_session j \<noteq> None \<and> j_uploadId j \<noteq> None \<and> \<not> j_creationUncertain j \<and> verified env j (session_parts j)"

lemma start_sending_post:
  assumes "run_inv d j" "ready env j"
  shows "run_post env d j (start_sending d now j)"
proof -
  let ?j = "j\<lparr>j_accepted := map sc_index (session_parts j)\<rparr>"
  have "run_inv d ?j" using run_inv_cong [OF assms(1), of ?j] run_working [OF assms(1)] by (simp add: working_def)
  moreover have "sending env ?j" using assms(2) verified_cong [of ?j j] parts_cong [of ?j j] by (simp add: sending_def ready_def)
  ultimately have "run_post env d ?j (send_from d now 0 ?j)" by (rule send_from_post)
  then show ?thesis unfolding start_sending_def by (rule run_post_from) (simp_all add: same_frame_def claim_def)
qed

lemma verify_from_post:
  assumes "run_inv d j" "late_job j" "j_session j \<noteq> None" "session_parts j = pre @ cs" "verified env j pre"
  shows "run_post env d j (verify_from d now cs j)"
proof (cases cs)
  case Nil
  let ?j = "j\<lparr>j_verifyCommitted := False\<rparr>"
  have "run_inv d ?j" using run_inv_cong [OF assms(1), of ?j] run_working [OF assms(1)] by (simp add: working_def)
  moreover have "ready env ?j" using assms(2-5) Nil verified_cong [of ?j j] parts_cong [of ?j j] by (simp add: ready_def late_job_def)
  ultimately have "run_post env d ?j (start_sending d now ?j)" by (rule start_sending_post)
  then have "run_post env d j (start_sending d now ?j)" by (rule run_post_from) (simp_all add: same_frame_def claim_def)
  then show ?thesis using Nil by (simp add: verify_from_def)
next
  case (Cons c cs')
  let ?j = "j\<lparr>j_await := AtDigest cs\<rparr>"
  have "place_inv env ?j" using assms(2-5) Cons verified_cong [of ?j j] parts_cong [of ?j j]
    by (auto simp: place_inv_def late_job_def)
  then have "run_post env d j (?j, [], False)"
    using run_working [OF assms(1)]
    by (intro run_postI) (simp_all add: same_frame_def run_place_def resting_def working_def in_flight_def claim_def)
  then show ?thesis using Cons halt_post by (simp add: verify_from_def)
qed

lemma after_hash_post:
  assumes "run_inv d j" "late_job j" "j_session j \<noteq> None"
  shows "run_post env d j (after_hash d now j)"
  using verify_from_post [OF assms, of "[]" "session_parts j" env now] assms(2,3)
  by (auto simp: after_hash_def late_job_def verified_def split: option.split)

lemma begin_hash_post:
  assumes "run_inv d j" "\<not> j_creationUncertain j"
    "case place of BeforeCreate sz \<Rightarrow> fresh_job j | AfterReconcile \<Rightarrow> late_job j \<and> j_session j \<noteq> None"
  shows "run_post env d j (begin_hash d place j)"
proof (cases "j_file j")
  case None
  have "run_post env d (j\<lparr>j_state := QHashing\<rparr>) (fail_run d (Thrown ''TypeError'') (j\<lparr>j_state := QHashing\<rparr>))"
    by (rule fail_run_post) (simp_all add: assms(2) working_def)
  then have "run_post env d j (fail_run d (Thrown ''TypeError'') (j\<lparr>j_state := QHashing\<rparr>))"
    by (rule run_post_from) (simp_all add: same_frame_def claim_def)
  then show ?thesis using None by (simp add: begin_hash_def)
next
  case (Some f)
  show ?thesis unfolding begin_hash_def Some option.case
    by (rule run_postI) (use assms(3) in \<open>simp_all add: post_defs late_job_def fresh_job_def split: hash_place.splits\<close>)
qed

lemma after_reconcile_post:
  assumes "run_inv d j" "late_job j" "j_session j \<noteq> None"
  shows "run_post env d j (after_reconcile d now j)"
  using assms halt_post after_hash_post [OF assms] begin_hash_post [OF assms(1), of AfterReconcile]
  by (auto simp: after_reconcile_def late_job_def)

lemma certain_fail: "run_inv d j \<Longrightarrow> \<not> j_creationUncertain j \<Longrightarrow> run_post env d j (fail_run d e j)"
  by (rule fail_run_post) (simp_all add: run_working)

text \<open>A failure that also gives up the file.\<close>

lemma drop_file_post:
  assumes "run_inv d j" "\<not> j_creationUncertain j"
  shows "run_post env d j (fail_run d e (j\<lparr>j_file := None, j_needsFile := True\<rparr>))"
proof -
  have "run_post env d (j\<lparr>j_file := None, j_needsFile := True\<rparr>) (fail_run d e (j\<lparr>j_file := None, j_needsFile := True\<rparr>))"
    by (rule fail_run_post) (use assms in \<open>simp_all add: run_inv_def working_def\<close>)
  then show ?thesis by (rule run_post_from) (simp_all add: same_frame_def claim_def)
qed

lemma hash_done_post:
  assumes "run_inv d j" "\<not> j_creationUncertain j"
    "case place of BeforeCreate sz \<Rightarrow> fresh_job j | AfterReconcile \<Rightarrow> late_job j \<and> j_session j \<noteq> None"
  shows "run_post env d j (hash_done env d now place f j)"
proof -
  let ?j = "j\<lparr>j_expectedSha256 := Some (qe_sha env (cf_bytes f)), j_hashVerifiedFile := Some f\<rparr>"
  have inv: "run_inv d ?j" using run_inv_cong [OF assms(1), of ?j] run_working [OF assms(1)] by (simp add: working_def)
  have frame: "run_post env d ?j r \<Longrightarrow> run_post env d j r" for r
    by (erule run_post_from) (simp_all add: same_frame_def claim_def)
  have go: "run_post env d ?j (case place of BeforeCreate sz \<Rightarrow> begin_call d now (CallCreate sz) ?j | AfterReconcile \<Rightarrow> after_hash d now ?j)"
  proof (cases place)
    case (BeforeCreate sz)
    then show ?thesis using begin_call_post [OF inv, of env "CallCreate sz" now] assms(3) by (simp add: call_inv_def fresh_job_def)
  next
    case AfterReconcile
    then show ?thesis using after_hash_post [OF inv] assms(3) by (simp add: late_job_def)
  qed
  show ?thesis
    unfolding hash_done_def Let_def
    using certain_fail [OF assms(1,2)] drop_file_post [OF assms(1,2)] frame [OF halt_post] frame [OF go] by simp
qed

lemma enter_session_post:
  assumes "run_inv d j" "j_uploadId j \<noteq> None" "\<not> j_creationUncertain j"
    "\<not> j_verifyCommitted j \<Longrightarrow> j_session j \<noteq> None \<and> session_parts j = [] \<and> (case j_session j of None \<Rightarrow> True | Some s \<Rightarrow> cs_chunks s \<noteq> None)"
  shows "run_post env d j (enter_session d now j)"
proof (cases "stopping d j")
  case True
  then show ?thesis by (simp add: enter_session_def halt_post)
next
  case False
  show ?thesis
  proof (cases "j_verifyCommitted j")
    case True
    have "run_post env d j (j\<lparr>j_await := AtReconcile\<rparr>, [GetSession (the (j_uploadId j))], False)"
      by (rule run_postI) (use assms(1-3) True in \<open>simp_all add: post_defs late_job_def run_inv_def\<close>)
    then show ?thesis using False True by (simp add: enter_session_def)
  next
    case certain: False
    obtain s cs where s: "j_session j = Some s" "cs_chunks s = Some cs" "session_parts j = []" using assms(4) certain by auto
    have "ready env j" using s assms(2,3) by (simp add: ready_def verified_def)
    then show ?thesis using False certain s start_sending_post [OF assms(1)] by (simp add: enter_session_def)
  qed
qed

lemma begin_run_post:
  assumes "j_busy j" "\<not> j_cancelling j" "j_aborted j \<or> \<not> stopping d j" "\<not> j_creationUncertain j" "j_uploadId j \<noteq> None \<longrightarrow> j_verifyCommitted j"
  shows "run_post env d (j\<lparr>j_runFile := f\<rparr>) (begin_run d now f j)"
proof -
  let ?j = "j\<lparr>j_state := QPreparing, j_runFile := f\<rparr>"
  have inv: "run_inv d ?j" using assms(1-3) by (auto simp: run_inv_def working_def stopping_def)
  have frame: "run_post env d ?j r \<Longrightarrow> run_post env d (j\<lparr>j_runFile := f\<rparr>) r" for r
    by (erule run_post_from) (simp_all add: same_frame_def claim_def)
  have "run_post env d ?j (?j\<lparr>j_await := AtFingerprint\<rparr>, [], False)" if "j_uploadId j = None"
    by (rule run_postI) (use that assms(4) in \<open>simp_all add: post_defs fresh_job_def\<close>)
  moreover have "run_post env d ?j (enter_session d now ?j)" if "j_uploadId j \<noteq> None"
    by (rule enter_session_post [OF inv]) (use that assms(4,5) in simp_all)
  ultimately show ?thesis using frame by (simp add: begin_run_def Let_def)
qed

lemma fingerprint_done_post:
  assumes "run_inv d j" "fresh_job j"
  shows "run_post env d j (fingerprint_done env d now j)"
proof -
  let ?j = "j\<lparr>j_fingerprint := sampleFingerprint env (j_runFile j)\<rparr>"
  have inv: "run_inv d ?j" using run_inv_cong [OF assms(1), of ?j] run_working [OF assms(1)] by (simp add: working_def)
  have frame: "run_post env d ?j r \<Longrightarrow> run_post env d j r" for r
    by (erule run_post_from) (simp_all add: same_frame_def claim_def)
  have "run_post env d ?j (begin_call d now CallLimits ?j)"
    by (rule begin_call_post [OF inv]) (use assms(2) in \<open>simp add: call_inv_def fresh_job_def\<close>)
  then show ?thesis unfolding fingerprint_done_def Let_def using frame [OF halt_post] frame by simp
qed

lemma limits_done_post:
  assumes "run_inv d j" "fresh_job j"
  shows "run_post env d j (limits_done d now l j)"
proof -
  have certain: "\<not> j_creationUncertain j" using assms(2) by (simp add: fresh_job_def)
  have "run_post env d j (begin_call d now (CallCreate sz) j)" for sz
    by (rule begin_call_post [OF assms(1)]) (use assms(2) in \<open>simp add: call_inv_def fresh_job_def\<close>)
  moreover have "run_post env d j (begin_hash d (BeforeCreate sz) j)" for sz
    by (rule begin_hash_post [OF assms(1) certain]) (simp add: assms(2))
  ultimately show ?thesis unfolding limits_done_def Let_def using halt_post certain_fail [OF assms(1) certain] by simp
qed

lemma create_done_post:
  assumes "run_inv d j" "j_uploadId j = None"
  shows "run_post env d j (create_done d now sz s j)"
proof -
  let ?s = "s\<lparr>cs_filename := cf_name (j_runFile j), cs_totalSize := cf_size (j_runFile j), cs_chunkSize := sz,
    cs_totalChunks := ceil_div (cf_size (j_runFile j)) sz, cs_uploadedSize := 0, cs_chunks := Some [], cs_parentId := j_parentId j\<rparr>"
  let ?j = "j\<lparr>j_creationUncertain := False, j_uploadId := Some (cs_uploadId s), j_session := Some ?s\<rparr>"
  have inv: "run_inv d ?j" using run_inv_cong [OF assms(1), of ?j] run_working [OF assms(1)] by (simp add: working_def)
  have "run_post env d ?j (enter_session d now ?j)"
    by (rule enter_session_post [OF inv]) (simp_all add: session_parts_def)
  then show ?thesis unfolding create_done_def Let_def
    by (rule run_post_from) (use assms(2) in \<open>simp_all add: same_frame_def claim_def\<close>)
qed

lemma reconcile_done_post:
  assumes "run_inv d j" "late_job j"
  shows "run_post env d j (reconcile_done d now s j)"
proof (cases "reconciled_session j s")
  case Refused
  then show ?thesis using certain_fail [OF assms(1)] assms(2) by (simp add: reconcile_done_def late_job_def)
next
  case (Finished u f)
  let ?j = "j\<lparr>j_completedFile := Some f, j_state := QCompleting\<rparr>"
  have inv: "run_inv d ?j" using run_inv_cong [OF assms(1), of ?j] by (simp add: working_def)
  have "run_post env d ?j (begin_call d now (CallReplay u) ?j)"
    by (rule begin_call_post [OF inv]) (use assms(2) in \<open>simp add: call_inv_def late_job_def\<close>)
  then have "run_post env d j (begin_call d now (CallReplay u) ?j)" by (rule run_post_from) (simp_all add: same_frame_def claim_def)
  then show ?thesis using Finished by (simp add: reconcile_done_def)
next
  case (Progress n)
  let ?j = "j\<lparr>j_session := Some s, j_committed := n\<rparr>"
  have inv: "run_inv d ?j" using run_inv_cong [OF assms(1), of ?j] run_working [OF assms(1)] by (simp add: working_def)
  have "run_post env d ?j (after_reconcile d now ?j)"
    by (rule after_reconcile_post [OF inv]) (use assms(2) in \<open>simp_all add: late_job_def\<close>)
  then have "run_post env d j (after_reconcile d now ?j)" by (rule run_post_from) (simp_all add: same_frame_def claim_def)
  then show ?thesis using Progress by (simp add: reconcile_done_def)
qed

lemma digest_done_post:
  assumes "run_inv d j" "late_job j" "j_session j \<noteq> None" "cs \<noteq> []" "session_parts j = pre @ cs" "verified env j pre"
  shows "run_post env d j (digest_done env d now cs j)"
proof -
  obtain s where s: "j_session j = Some s" using assms(3) by auto
  obtain c cs' where cs: "cs = c # cs'" using assms(4) by (cases cs) auto
  have certain: "\<not> j_creationUncertain j" using assms(2) by (simp add: late_job_def)
  have next_part: "run_post env d j (verify_from d now cs' j)"
    if "qe_sha env (chunk_bytes_of s (j_runFile j) (sc_index c)) = map ascii_lower (sc_sha256 c)"
    by (rule verify_from_post [OF assms(1-3), where pre = "pre @ [c]"]) (use assms(5,6) cs s that in \<open>auto simp: verified_def\<close>)
  show ?thesis unfolding digest_done_def cs s
    using next_part certain_fail [OF assms(1) certain] drop_file_post [OF assms(1) certain] by simp
qed

text \<open>The end of a run by a completion.\<close>

lemma complete_post:
  assumes "\<not> j_creationUncertain j \<or> True"
  shows "run_post env d j ((complete_job f n j)\<lparr>j_await := Ended\<rparr>, [], False)"
  by (rule run_postI) (simp_all add: complete_job_def post_defs)

definition unchanged :: "job \<Rightarrow> job_step \<Rightarrow> bool" where
  "unchanged j r \<longleftrightarrow> r = (j, [], False)"

lemma call_done_post:
  assumes "run_inv d j" "call_inv env True c j"
  shows "unchanged j (call_done d now c a j) \<or> run_post env d j (call_done d now c a j)"
proof -
  let ?j = "forget_backoff j"
  have w: "working j" using run_working [OF assms(1)] .
  have inv: "run_inv d ?j" using run_inv_cong [OF assms(1), of ?j] w by (simp add: forget_backoff_def working_def)
  have call: "call_inv env True c ?j" using assms(2) call_inv_cong [of ?j j] by (simp add: forget_backoff_def)
  have frame: "run_post env d ?j r \<Longrightarrow> run_post env d j r" for r
    by (erule run_post_from) (simp_all add: same_frame_def claim_def forget_backoff_def)
  have chunk: "run_post env d ?j (send_from d now (i + 1) (?j\<lparr>j_accepted := i # j_accepted ?j, j_committed := m\<rparr>))"
    if "sending env ?j" for i m
  proof -
    let ?k = "?j\<lparr>j_accepted := i # j_accepted ?j, j_committed := m\<rparr>"
    have "run_inv d ?k" using run_inv_cong [OF inv, of ?k] run_working [OF inv] by (simp add: working_def)
    moreover have "sending env ?k" using that verified_cong [of ?k ?j] parts_cong [of ?k ?j] by (auto simp: sending_def)
    ultimately have "run_post env d ?k (send_from d now (i + 1) ?k)" by (rule send_from_post)
    then show ?thesis by (rule run_post_from) (simp_all add: same_frame_def claim_def)
  qed
  have "unchanged j (call_done d now c a j) \<or> run_post env d ?j (call_done d now c a j)"
    unfolding call_done_def Let_def unchanged_def
    using call limits_done_post [OF inv] create_done_post [OF inv] chunk complete_post
    by (cases c; cases a) (simp_all add: call_inv_def)
  then show ?thesis using frame by blast
qed

lemma admission_is_definite: "admission_error e \<Longrightarrow> definite_rejection e"
  by (cases e) (auto simp: admission_error_def definite_rejection_def isUploadBusyError_def)

text \<open>A definite rejection of a creation ends its claim.\<close>

definition rejected :: "call \<Rightarrow> client_error \<Rightarrow> job \<Rightarrow> job" where
  "rejected c e j = (case c of CallCreate sz \<Rightarrow> j\<lparr>j_creationUncertain := j_creationUncertain j \<and> \<not> definite_rejection e\<rparr> | _ \<Rightarrow> j)"

lemma call_inv_flag: "\<nexists>sz. c = CallCreate sz \<Longrightarrow> call_inv env True c j = call_inv env False c j"
  by (cases c) (simp_all add: call_inv_def)

lemma call_failed_post:
  assumes "run_inv d j" "call_inv env True c j"
  shows "run_post env d (rejected c e j) (call_failed env d now c n e receipt j)"
proof -
  let ?k = "rejected c e j"
  define J where "J = (case c of CallComplete \<Rightarrow> take_receipt e receipt ?k | _ \<Rightarrow> ?k)"
  have w: "working j" using run_working [OF assms(1)] .
  have fields: "j_session J = j_session j" "j_runFile J = j_runFile j" "j_uploadId J = j_uploadId j" "j_accepted J = j_accepted j"
    "j_state J = j_state j" "j_creationUncertain J = j_creationUncertain ?k"
    by (auto simp: J_def rejected_def take_receipt_def split: call.split client_error.split option.split)
  have k: "run_post env d J r \<Longrightarrow> run_post env d ?k r" for r
    by (erule run_post_from) (auto simp: J_def same_frame_def claim_def rejected_def take_receipt_def split: call.split client_error.split option.split)
  have step: "call_failed env d now c n e receipt j =
      (if (case c of CallCreate _ \<Rightarrow> \<not> admission_error e | _ \<Rightarrow> False) then fail_run d e (forget_backoff J)
       else (case after_failure (qe_retry env) RETRY_DELAY n (signalled c J) now e (j_budget J) of
               (b, GiveUp e1) \<Rightarrow> fail_run d e1 (J\<lparr>j_budget := b\<rparr>)
             | (b, Again t) \<Rightarrow> ((retry_state c (J\<lparr>j_budget := b\<rparr>))\<lparr>j_await := Waiting c (Suc n) (now + t)\<rparr>, [], False)))"
    unfolding call_failed_def Let_def by (cases c) (simp_all add: J_def rejected_def split: prod.split decision.split)
  have quit: "run_post env d J (fail_run d e1 x)"
    if "\<not> j_creationUncertain J \<or> \<not> definite_rejection e1" "x = forget_backoff J \<or> (\<exists>b. x = J\<lparr>j_budget := b\<rparr>)" for e1 x
  proof -
    have same: "j_creationUncertain x = j_creationUncertain J" "j_state x = j_state J" using that(2) by (auto simp: forget_backoff_def)
    have "run_post env d x (fail_run d e1 x)" using that(1) same fields(5) w by (intro fail_run_post) (simp_all add: working_def)
    then show ?thesis by (rule run_post_from) (use that(2) in \<open>auto simp: same_frame_def claim_def forget_backoff_def\<close>)
  qed
  show ?thesis
  proof (cases "case c of CallCreate _ \<Rightarrow> \<not> admission_error e | _ \<Rightarrow> False")
    case True
    then have "\<not> j_creationUncertain J \<or> \<not> definite_rejection e" using fields(6) by (auto simp: rejected_def split: call.splits)
    then show ?thesis unfolding step if_P [OF True] using quit k by blast
  next
    case False
    have certain: "\<not> j_creationUncertain J"
      using False assms(2) fields(6) admission_is_definite
      by (auto simp: rejected_def call_inv_def fresh_job_def sending_def split: call.splits)
    have wait: "run_post env d J ((retry_state c (J\<lparr>j_budget := b\<rparr>))\<lparr>j_await := Waiting c m t\<rparr>, [], False)" for b m t
    proof -
      let ?x = "J\<lparr>j_budget := b\<rparr>"
      have "call_inv env False c ?x"
      proof (cases "\<exists>sz. c = CallCreate sz")
        case True
        then show ?thesis using assms(2) certain fields(3) by (auto simp: call_inv_def)
      next
        case False
        then have c: "call_inv env False c j" using assms(2) call_inv_flag by blast
        have "call_inv env False c ?x = call_inv env False c j" using certain call_certain [OF c] fields by (intro call_inv_cong) simp_all
        then show ?thesis using c by simp
      qed
      moreover have "working ?x" using w fields(5) by (simp add: working_def)
      ultimately have "run_post env d ?x ((retry_state c ?x)\<lparr>j_await := Waiting c m t\<rparr>, [], False)" by (intro waiting_post)
      then show ?thesis by (rule run_post_from) (simp_all add: same_frame_def claim_def)
    qed
    obtain b dec where f: "after_failure (qe_retry env) RETRY_DELAY n (signalled c J) now e (j_budget J) = (b, dec)" by fastforce
    show ?thesis
    proof (cases dec)
      case (GiveUp e1)
      show ?thesis unfolding step if_not_P [OF False] f GiveUp prod.case decision.case by (rule k, rule quit) (use certain in auto)
    next
      case (Again t)
      show ?thesis unfolding step if_not_P [OF False] f Again prod.case decision.case by (rule k, rule wait)
    qed
  qed
qed


section \<open>The invariant of a job\<close>

definition queued :: "job \<Rightarrow> bool" where
  "queued j \<longleftrightarrow> j_state j = QQueued \<or> j_state j = QSelected"

definition job_inv :: "queue_env \<Rightarrow> bool \<Rightarrow> job \<Rightarrow> bool" where
  "job_inv env d j \<longleftrightarrow> (j_busy j \<longleftrightarrow> run_place (j_await j)) \<and> (j_cancelling j \<longleftrightarrow> cancel_place (j_await j)) \<and> place_inv env j
     \<and> (j_busy j \<and> j_await j \<noteq> Ended \<longrightarrow> run_inv d j) \<and> (j_await j = Ended \<longrightarrow> resting j)
     \<and> (j_cancelling j \<longrightarrow> working j \<and> j_uploadId j \<noteq> None \<and> j_cancellationPending j)
     \<and> (queued j \<longrightarrow> \<not> j_creationUncertain j \<and> (j_uploadId j \<noteq> None \<longrightarrow> j_verifyCommitted j) \<and> \<not> j_pauseRequested j
           \<and> \<not> j_cancellationPending j \<and> \<not> j_busy j)
     \<and> (d \<longrightarrow> terminal j \<or> j_pauseRequested j \<or> j_cancellationPending j)"

text \<open>A definite refusal of the creation that the row has in flight.\<close>

definition rejections :: "job \<Rightarrow> answer \<Rightarrow> nat" where
  "rejections j a = (case j_await j of
     Flight (CallCreate sz) n \<Rightarrow> (case a of AFailed e r \<Rightarrow> if definite_rejection e then 1 else 0 | _ \<Rightarrow> 0)
   | _ \<Rightarrow> 0)"

text \<open>The requests of a step, with \<open>extra\<close> rejections of creations.\<close>

definition step_post :: "queue_env \<Rightarrow> bool \<Rightarrow> nat \<Rightarrow> job \<Rightarrow> job_step \<Rightarrow> bool" where
  "step_post env d extra j r \<longleftrightarrow>
     (case r of (j', rs, disc) \<Rightarrow> j_id j' = j_id j \<and> j_busy j' = j_busy j \<and> job_inv env d j'
        \<and> (in_flight j' rs \<or> (j' = j \<and> rs = []))
        \<and> (\<forall>r \<in> set rs. is_create r \<or> is_chunk r \<longrightarrow> \<not> stopping d j)
        \<and> length (filter is_create rs) + claim j \<le> claim j' + extra \<and> (j_uploadId j \<noteq> None \<longrightarrow> filter is_create rs = [])
        \<and> (j_uploadId j \<noteq> None \<longrightarrow> j_uploadId j' = j_uploadId j) \<and> (disc \<longrightarrow> \<not> d))"

lemma run_place_not_cancel: "run_place a \<Longrightarrow> \<not> cancel_place a"
  by (auto simp: run_place_def cancel_place_def)

lemma run_post_step:
  assumes "run_post env d j0 r" "run_inv d j" "d \<longrightarrow> j_pauseRequested j \<or> j_cancellationPending j"
    and "j0 = j \<or> (j0 = j\<lparr>j_creationUncertain := False\<rparr> \<and> extra = 1)"
  shows "step_post env d extra j r"
proof -
  obtain j' rs disc where r: "r = (j', rs, disc)" by (cases r)
  have p: "same_frame j0 j'" "run_place (j_await j')" "place_inv env j'" "resting j'" "in_flight j' rs"
    "\<forall>r \<in> set rs. is_create r \<or> is_chunk r \<longrightarrow> \<not> stopping d j0" "length (filter is_create rs) + claim j0 \<le> claim j'"
    "j_uploadId j0 \<noteq> None \<longrightarrow> j_uploadId j' = j_uploadId j0" "disc \<longrightarrow> \<not> d"
    using assms(1) by (simp_all add: run_post_def r)
  have g: "j_id j0 = j_id j \<and> j_busy j0 = j_busy j \<and> j_cancelling j0 = j_cancelling j \<and> j_pauseRequested j0 = j_pauseRequested j
      \<and> j_aborted j0 = j_aborted j \<and> j_cancellationPending j0 = j_cancellationPending j \<and> j_uploadId j0 = j_uploadId j
      \<and> claim j \<le> claim j0 + extra"
    using assms(4) by (elim disjE conjE) (simp_all add: claim_def)
  have f: "j_id j' = j_id j" "j_busy j' = j_busy j" "j_cancelling j' = j_cancelling j" "j_pauseRequested j' = j_pauseRequested j"
    "j_aborted j' = j_aborted j" "j_cancellationPending j' = j_cancellationPending j \<or> j_state j' = QCompleted"
    "stopping d j0 = stopping d j" "j_uploadId j0 = j_uploadId j" "claim j \<le> claim j0 + extra"
    using p(1) g by (simp_all add: same_frame_def stopping_def)
  have busy: "j_busy j" "\<not> j_cancelling j" using assms(2) by (simp_all add: run_inv_def)
  have "run_inv d j'" if "j_await j' \<noteq> Ended"
  proof -
    have w: "working j'" using p(4) that by (simp add: resting_def)
    then have "j_cancellationPending j' = j_cancellationPending j" using f(6) by (auto simp: working_def)
    then show ?thesis using run_inv_cong [OF assms(2), of j'] f w by simp
  qed
  moreover have "d \<longrightarrow> terminal j' \<or> j_pauseRequested j' \<or> j_cancellationPending j'" using assms(3) f(4,6) by (auto simp: terminal_def)
  moreover have "\<not> queued j'" using p(4) by (auto simp: resting_def working_def queued_def)
  ultimately have "job_inv env d j'" using p(2-4) f(2,3) busy run_place_not_cancel [OF p(2)] by (simp add: job_inv_def)
  moreover have "length (filter is_create rs) + claim j \<le> claim j' + extra" using p(7) f(9) by linarith
  moreover have "\<forall>r \<in> set rs. is_create r \<or> is_chunk r \<longrightarrow> \<not> stopping d j" using p(6) f(7) by simp
  moreover have "j_uploadId j \<noteq> None \<longrightarrow> j_uploadId j' = j_uploadId j" using p(8) f(8) by simp
  moreover have "j_uploadId j \<noteq> None \<longrightarrow> filter is_create rs = []" using p(7) f(8) by (simp add: claim_def split: if_splits)
  ultimately show ?thesis using p(5,9) f(1,2) by (simp add: step_post_def r)
qed

lemma unchanged_step: "job_inv env d j \<Longrightarrow> unchanged j r \<Longrightarrow> step_post env d extra j r"
  by (simp add: step_post_def unchanged_def)

lemma cancel_confirmed_inv: "\<not> j_busy j \<Longrightarrow> job_inv env d (cancel_confirmed j)"
  by (simp add: job_inv_def cancel_confirmed_def run_place_def cancel_place_def place_inv_def queued_def terminal_def)

lemma cancel_failed_inv: "\<not> j_busy j \<Longrightarrow> job_inv env d (cancel_failed j)"
  by (simp add: job_inv_def cancel_failed_def run_place_def cancel_place_def place_inv_def queued_def)

lemma quiet_step:
  assumes "job_inv env d j'" "j_id j' = j_id j" "j_busy j' = j_busy j" "\<not> run_place (j_await j')"
    "list_all (\<lambda>r. \<not> is_create r \<and> \<not> is_chunk r) rs" "j_uploadId j' = j_uploadId j" "j_creationUncertain j' = j_creationUncertain j"
  shows "step_post env d extra j (j', rs, False)"
proof -
  have "filter is_create rs = []" using assms(5) by (induction rs) auto
  moreover have "in_flight j' rs" using assms(4,5) by (fastforce simp: in_flight_def run_place_def list_all_iff)
  moreover have "\<forall>r \<in> set rs. is_create r \<or> is_chunk r \<longrightarrow> \<not> stopping d j" using assms(5) by (auto simp: list_all_iff)
  ultimately show ?thesis using assms(1-3,6,7) by (simp add: step_post_def claim_def)
qed

lemma cancel_step:
  assumes "\<not> j_busy j" "j_cancelling j" "job_inv env d j"
  shows "step_post env d extra j (cancel_confirmed j, [], False)" "step_post env d extra j (cancel_failed j, [], False)"
    "step_post env d extra j (cancel_failed (j\<lparr>j_session := s, j_committed := n\<rparr>), [], False)"
    "step_post env d extra j (j\<lparr>j_await := AtCancelReconcile\<rparr>, [GetSession u], False)"
    "step_post env d extra j (j\<lparr>j_completedFile := x, j_state := QCompleting, j_await := AtCancelReplay\<rparr>, [PostComplete u], False)"
    "step_post env d extra j ((complete_job y z j)\<lparr>j_cancelling := False, j_await := Idle\<rparr>, [], False)"
proof -
  have c: "j_cancellationPending j" "working j" "j_uploadId j \<noteq> None" using assms(2,3) by (simp_all add: job_inv_def)
  have inv: "job_inv env d (j\<lparr>j_await := AtCancelReconcile\<rparr>)" "job_inv env d (j\<lparr>j_completedFile := x, j_state := QCompleting, j_await := AtCancelReplay\<rparr>)"
    "job_inv env d ((complete_job y z j)\<lparr>j_cancelling := False, j_await := Idle\<rparr>)"
    using assms(1,2) c by (simp_all add: job_inv_def complete_job_def run_place_def cancel_place_def place_inv_def queued_def working_def terminal_def)
  show "step_post env d extra j (cancel_confirmed j, [], False)"
    by (rule quiet_step [OF cancel_confirmed_inv [OF assms(1)]]) (simp_all add: cancel_confirmed_def run_place_def)
  show "step_post env d extra j (cancel_failed j, [], False)"
    by (rule quiet_step [OF cancel_failed_inv [OF assms(1)]]) (simp_all add: cancel_failed_def run_place_def)
  show "step_post env d extra j (cancel_failed (j\<lparr>j_session := s, j_committed := n\<rparr>), [], False)"
    by (rule quiet_step [OF cancel_failed_inv]) (simp_all add: cancel_failed_def run_place_def assms(1))
  show "step_post env d extra j (j\<lparr>j_await := AtCancelReconcile\<rparr>, [GetSession u], False)"
    by (rule quiet_step [OF inv(1)]) (simp_all add: run_place_def)
  show "step_post env d extra j (j\<lparr>j_completedFile := x, j_state := QCompleting, j_await := AtCancelReplay\<rparr>, [PostComplete u], False)"
    by (rule quiet_step [OF inv(2)]) (simp_all add: run_place_def)
  show "step_post env d extra j ((complete_job y z j)\<lparr>j_cancelling := False, j_await := Idle\<rparr>, [], False)"
    by (rule quiet_step [OF inv(3)]) (simp_all add: run_place_def complete_job_def)
qed

text \<open>Every answer.\<close>

lemma job_answer_post:
  assumes inv: "job_inv env d j"
  shows "step_post env d (rejections j a) j (job_answer env d now a j)"
proof -
  define extra where "extra = rejections j a"
  have place: "place_inv env j" using inv by (simp add: job_inv_def)
  have idle: "step_post env d extra j (j, [], False)" using unchanged_step [OF inv] by (simp add: unchanged_def)
  have "step_post env d extra j (job_answer env d now a j)"
  proof (cases "run_place (j_await j) \<and> j_await j \<noteq> Ended")
    case True
    then have run: "run_inv d j" using inv by (simp add: job_inv_def)
    have d: "d \<longrightarrow> j_pauseRequested j \<or> j_cancellationPending j" using inv run by (auto simp: job_inv_def run_inv_def working_def terminal_def)
    have post: "run_post env d j r \<Longrightarrow> step_post env d extra j r" for r by (erule run_post_step [OF _ run d]) (rule disjI1, rule refl)
    show ?thesis
    proof (cases "j_await j")
      case AtFingerprint
      then have "fresh_job j" using place by (simp add: place_inv_def)
      then show ?thesis using AtFingerprint idle post fingerprint_done_post [OF run] certain_fail [OF run]
        by (simp add: job_answer_def fresh_job_def split: answer.split)
    next
      case (AtHash p f)
      then have "case p of BeforeCreate sz \<Rightarrow> fresh_job j | AfterReconcile \<Rightarrow> late_job j \<and> j_session j \<noteq> None" "\<not> j_creationUncertain j"
        using place by (auto simp: place_inv_def fresh_job_def late_job_def split: hash_place.splits)
      then show ?thesis using AtHash idle post hash_done_post [OF run] certain_fail [OF run]
        by (simp add: job_answer_def split: answer.split)
    next
      case AtReconcile
      then have "late_job j" using place by (simp add: place_inv_def)
      then show ?thesis using AtReconcile idle post reconcile_done_post [OF run] certain_fail [OF run]
        by (simp add: job_answer_def late_job_def split: answer.split)
    next
      case (AtDigest cs)
      then obtain pre where "late_job j" "j_session j \<noteq> None" "cs \<noteq> []" "session_parts j = pre @ cs" "verified env j pre"
        using place by (auto simp: place_inv_def)
      then have "run_post env d j (digest_done env d now cs j)" "\<not> j_creationUncertain j"
        using digest_done_post [OF run] by (auto simp: late_job_def)
      then show ?thesis using AtDigest idle post certain_fail [OF run] by (simp add: job_answer_def split: answer.split)
    next
      case (Flight c n)
      then have call: "call_inv env True c j" using place by (simp add: place_inv_def)
      have good: "step_post env d extra j (call_done d now c a j)"
        using call_done_post [OF run call] post unchanged_step [OF inv] by blast
      have bad: "step_post env d extra j (call_failed env d now c n e r j)" if "a = AFailed e r" for e r
      proof (rule run_post_step [OF call_failed_post [OF run call] run d])
        show "rejected c e j = j \<or> rejected c e j = j\<lparr>j_creationUncertain := False\<rparr> \<and> extra = 1"
          using that Flight by (cases "definite_rejection e") (auto simp: rejected_def extra_def rejections_def split: call.split)
      qed
      show ?thesis using Flight good bad by (cases a) (simp_all add: job_answer_def)
    next
      case (Waiting c n t)
      then have "call_inv env False c j" using place by (simp add: place_inv_def)
      then show ?thesis using Waiting idle post attempt_post [OF run] by (simp add: job_answer_def split: answer.split)
    qed (use True in \<open>simp_all add: run_place_def\<close>)
  next
    case False
    show ?thesis
    proof (cases "cancel_place (j_await j)")
      case True
      then have c: "\<not> j_busy j" "j_cancelling j" using inv run_place_not_cancel by (auto simp: job_inv_def)
      note s = cancel_step [OF c inv]
      have "step_post env d extra j (cancel_reconciled x j)" for x
        using s(2,3,5) by (simp add: cancel_reconciled_def split: reconciled.split)
      then show ?thesis using True idle s by (auto simp: cancel_place_def job_answer_def split: answer.split)
    next
      case other: False
      then have "j_await j = Idle \<or> j_await j = Ended" using False by (cases "j_await j") (simp_all add: run_place_def cancel_place_def)
      then show ?thesis using idle by (auto simp: job_answer_def)
    qed
  qed
  then show ?thesis by (simp add: extra_def)
qed

end
