(* ===== verification/QueueInv.thy ===== *)
theory QueueInv
  imports QueueProps
begin

text \<open>Properties of the upload queue over every history of page events, answers and timers.\<close>

section \<open>Tables of jobs\<close>

lemma get_job_id: "get_job k q = Some j \<Longrightarrow> j_id j = k \<and> j \<in> set (q_jobs q)"
  unfolding get_job_def using find_SomeD by fastforce

lemma get_job_in: "distinct (map j_id (q_jobs q)) \<Longrightarrow> j \<in> set (q_jobs q) \<Longrightarrow> get_job (j_id j) q = Some j"
  unfolding get_job_def using find_key_Some_iff [of j_id] by blast

lemma put_job_ids [simp]: "map j_id (q_jobs (put_job j q)) = map j_id (q_jobs q)"
  by (simp add: put_job_def)

lemma put_job_fields [simp]:
  "q_disposed (put_job j q) = q_disposed q" "q_active (put_job j q) = q_active q" "q_sequence (put_job j q) = q_sequence q"
  "q_discovering (put_job j q) = q_discovering q" "q_log (put_job j q) = q_log q" "q_detached (put_job j q) = q_detached q"
  "q_reselecting (put_job j q) = q_reselecting q"
  by (simp_all add: put_job_def)

lemma find_replaced:
  "find (\<lambda>x. j_id x = k) (map (\<lambda>x. if j_id x = j_id j then j else x) xs)
     = (if k = j_id j then (case find (\<lambda>x. j_id x = k) xs of None \<Rightarrow> None | Some y \<Rightarrow> Some j) else find (\<lambda>x. j_id x = k) xs)"
  by (induction xs) auto

lemma get_put_job: "get_job k (put_job j q) = (if k = j_id j then map_option (\<lambda>_. j) (get_job k q) else get_job k q)"
  unfolding get_job_def put_job_def by (simp add: find_replaced split: option.split)

lemma set_put_job: "set (q_jobs (put_job j q)) \<subseteq> insert j {x \<in> set (q_jobs q). j_id x \<noteq> j_id j}"
  by (auto simp: put_job_def)

lemma busy_replaced:
  "distinct (map j_id xs) \<Longrightarrow> find (\<lambda>x. j_id x = j_id j) xs = Some j0 \<Longrightarrow>
     length (filter j_busy (map (\<lambda>x. if j_id x = j_id j then j else x) xs)) + of_bool (j_busy j0)
       = length (filter j_busy xs) + of_bool (j_busy j)"
proof (induction xs)
  case (Cons x xs)
  show ?case
  proof (cases "j_id x = j_id j")
    case True
    then have "\<forall>y \<in> set xs. j_id y \<noteq> j_id j" using Cons.prems(1) by (auto simp: image_iff)
    then have "map (\<lambda>x. if j_id x = j_id j then j else x) xs = xs" by (simp add: map_idI)
    then show ?thesis using True Cons.prems by auto
  qed (use Cons in auto)
qed simp


section \<open>The invariant of the queue\<close>

definition logged :: "(ustring \<times> request) list \<Rightarrow> job \<Rightarrow> bool" where
  "logged l j \<longleftrightarrow> (\<forall>i n s. j_await j = Flight (CallChunk i) n \<longrightarrow> j_session j = Some s \<longrightarrow>
     (j_id j, PostChunk (cs_uploadId s) i (chunk_bytes_of s (j_runFile j) i)) \<in> set l)"

text \<open>The rows of this page and those of the server.\<close>

definition known_id :: "nat \<Rightarrow> job \<Rightarrow> bool" where
  "known_id n j \<longleftrightarrow> (\<exists>t m. j_id j = local_id t m \<and> m \<le> n) \<or> (\<exists>u. j_id j = js ''server-'' @ u \<and> j_uploadId j = Some u)"

text \<open>The creations of a row that a log has.\<close>

definition creates :: "ustring \<Rightarrow> (ustring \<times> request) list \<Rightarrow> nat" where
  "creates k l = length (filter (\<lambda>p. fst p = k \<and> is_create (snd p)) l)"

lemma creates_Nil [simp]: "creates k [] = 0"
  by (simp add: creates_def)

lemma creates_append [simp]: "creates k (l @ l') = creates k l + creates k l'"
  by (simp add: creates_def)

lemma creates_map [simp]: "creates k (map (Pair k') rs) = (if k = k' then length (filter is_create rs) else 0)"
  by (induction rs) (auto simp: creates_def)

text \<open>The rows of this page and those of the server; only the former send a creation, at most one that is not
  refused.  The ghost \<open>g\<close> counts the refusals.\<close>

definition create_keys :: "queue \<Rightarrow> bool" where
  "create_keys q \<longleftrightarrow> (\<forall>p \<in> set (q_log q). is_create (snd p) \<longrightarrow> (\<exists>t m. fst p = local_id t m \<and> m \<le> q_sequence q))"

definition queue_inv :: "queue_env \<Rightarrow> (ustring \<Rightarrow> nat) \<Rightarrow> queue \<Rightarrow> bool" where
  "queue_inv env g q \<longleftrightarrow> distinct (map j_id (q_jobs q)) \<and> (\<forall>j \<in> set (q_jobs q). job_inv env (q_disposed q) j \<and> logged (q_log q) j)
     \<and> q_active q = length (filter j_busy (q_jobs q)) + q_detached q \<and> q_active q \<le> CONCURRENT_FILES
     \<and> (\<forall>j \<in> set (q_jobs q). known_id (q_sequence q) j)
     \<and> (\<forall>j \<in> set (q_jobs q). creates (j_id j) (q_log q) \<le> g (j_id j) + claim j) \<and> (\<forall>k. creates k (q_log q) \<le> Suc (g k))
     \<and> create_keys q"

lemma logged_more: "logged l j \<Longrightarrow> logged (l @ new) j"
  by (auto simp: logged_def)

lemma put_inv:
  assumes "queue_inv env g q" "get_job (j_id j) q = Some j0" "job_inv env (q_disposed q) j" "logged (q_log q @ map (Pair (j_id j)) rs) j"
    and "q_jobs q' = q_jobs (put_job j q)" "q_disposed q' = q_disposed q" "q_log q' = q_log q @ map (Pair (j_id j)) rs" "q_detached q' = q_detached q"
    and "q_active q' + of_bool (j_busy j0) = q_active q + of_bool (j_busy j)" "q_active q' \<le> CONCURRENT_FILES"
    and "j_uploadId j0 \<noteq> None \<longrightarrow> j_uploadId j = j_uploadId j0" "q_sequence q' = q_sequence q"
    and "length (filter is_create rs) + claim j0 \<le> claim j + extra" "j_uploadId j0 \<noteq> None \<longrightarrow> filter is_create rs = []"
  shows "queue_inv env (g(j_id j := g (j_id j) + extra)) q'"
proof -
  let ?g = "g(j_id j := g (j_id j) + extra)"
  have q: "distinct (map j_id (q_jobs q))" "\<forall>j \<in> set (q_jobs q). job_inv env (q_disposed q) j \<and> logged (q_log q) j"
    "q_active q = length (filter j_busy (q_jobs q)) + q_detached q" "create_keys q"
    "\<forall>j \<in> set (q_jobs q). creates (j_id j) (q_log q) \<le> g (j_id j) + claim j" "\<forall>k. creates k (q_log q) \<le> Suc (g k)"
    using assms(1) by (simp_all add: queue_inv_def)
  have j0: "j_id j0 = j_id j" "j0 \<in> set (q_jobs q)" using get_job_id [OF assms(2)] by simp_all
  have "length (filter j_busy (q_jobs q')) + of_bool (j_busy j0) = length (filter j_busy (q_jobs q)) + of_bool (j_busy j)"
    using busy_replaced [OF q(1)] assms(2,5) unfolding get_job_def put_job_def by simp
  then have "q_active q' = length (filter j_busy (q_jobs q')) + q_detached q'" using q(3) assms(8,9) by linarith
  moreover have "job_inv env (q_disposed q') x \<and> logged (q_log q') x" if "x \<in> set (q_jobs q')" for x
    using that q(2) assms(3-7) set_put_job [of j q] logged_more by auto
  moreover have k0: "known_id (q_sequence q) j0" using assms(1) j0 by (auto simp: queue_inv_def)
  then have "known_id (q_sequence q) j" using assms(11) j0 by (auto simp: known_id_def)
  then have "known_id (q_sequence q') x" if "x \<in> set (q_jobs q')" for x
    using that assms(1,5,12) set_put_job [of j q] by (auto simp: queue_inv_def)
  moreover have "creates (j_id j) (q_log q) \<le> g (j_id j) + claim j0" using q(5) j0 by auto
  then have c: "creates (j_id j) (q_log q') \<le> ?g (j_id j) + claim j" unfolding assms(7) using assms(13) by simp
  have "creates (j_id x) (q_log q') \<le> ?g (j_id x) + claim x" if "x \<in> set (q_jobs q')" for x
    using that c q(5) assms(5) set_put_job [of j q] by (auto simp: assms(7))
  moreover have "claim j \<le> 1" by (simp add: claim_def)
  then have "creates k (q_log q') \<le> Suc (?g k)" for k
    using c q(6) unfolding assms(7) by (cases "k = j_id j") auto
  moreover have "create_keys q'"
  proof (cases "j_uploadId j0")
    case None
    then obtain t m where "j_id j = local_id t m" "m \<le> q_sequence q" using k0 j0 by (auto simp: known_id_def)
    then show ?thesis using q(4) unfolding create_keys_def assms(7,12) by fastforce
  next
    case (Some u)
    then have "filter is_create rs = []" using assms(14) by simp
    then show ?thesis using q(4) unfolding create_keys_def assms(7,12) by (auto simp: filter_empty_conv)
  qed
  ultimately show ?thesis using q(1) assms(5,10) by (simp add: queue_inv_def)
qed

text \<open>A job is replaced by one that is as busy.\<close>

lemma put_job_inv:
  assumes "queue_inv env g q" "get_job (j_id j) q = Some j0" "job_inv env (q_disposed q) j" "logged (q_log q) j" "j_busy j = j_busy j0"
    "j_uploadId j0 \<noteq> None \<longrightarrow> j_uploadId j = j_uploadId j0" "claim j0 \<le> claim j"
  shows "queue_inv env g (put_job j q)"
  using put_inv [OF assms(1-3), of "[]" "put_job j q" 0] assms(1,4-7) by (simp add: queue_inv_def)

lemma job_inv_wake: "job_inv env d j \<Longrightarrow> job_inv env False j"
  by (auto simp: job_inv_def run_inv_def stopping_def)

lemma discover_inv: "queue_inv env g q \<Longrightarrow> queue_inv env g (discover q)"
  using job_inv_wake logged_more by (auto simp: queue_inv_def discover_def Let_def send_requests_def create_keys_def creates_def)

lemma apply_step_inv:
  assumes "queue_inv env g q" "get_job (j_id j) q = Some j" "step_post env (q_disposed q) extra j r"
  shows "queue_inv env (g(j_id j := g (j_id j) + extra)) (apply_step r q)"
proof -
  obtain j' rs disc where r: "r = (j', rs, disc)" by (cases r)
  have p: "j_id j' = j_id j" "j_busy j' = j_busy j" "job_inv env (q_disposed q) j'" "in_flight j' rs \<or> (j' = j \<and> rs = [])"
    "j_uploadId j \<noteq> None \<longrightarrow> j_uploadId j' = j_uploadId j"
    "length (filter is_create rs) + claim j \<le> claim j' + extra" "j_uploadId j \<noteq> None \<longrightarrow> filter is_create rs = []"
    using assms(3) by (simp_all add: step_post_def r)
  have old: "logged (q_log q) j" "q_active q \<le> CONCURRENT_FILES" using assms(1) get_job_id [OF assms(2)] by (auto simp: queue_inv_def)
  have l: "logged (q_log q @ map (Pair (j_id j)) rs) j'"
  proof (cases "j' = j \<and> rs = []")
    case True
    then show ?thesis using old(1) by simp
  next
    case False
    then have "in_flight j' rs" using p(4) by blast
    then show ?thesis unfolding in_flight_def logged_def p(1) by simp
  qed
  have "queue_inv env (g(j_id j' := g (j_id j') + extra)) (send_requests (j_id j') rs (put_job j' q))"
    by (rule put_inv [OF assms(1), of j' j rs])
      (use assms(2) p(1-3,5-7) old(2) l in \<open>simp_all add: send_requests_def\<close>)
  then show ?thesis using discover_inv p(1) by (simp add: apply_step_def r Let_def)
qed

text \<open>A step without a refusal.\<close>

lemma apply_step_quiet:
  assumes "queue_inv env g q" "get_job (j_id j) q = Some j" "step_post env (q_disposed q) 0 j r"
  shows "queue_inv env g (apply_step r q)"
  using apply_step_inv [OF assms] by simp


section \<open>The slots\<close>

text \<open>Neither a chunk nor a creation is sent.\<close>

definition no_work :: "queue \<Rightarrow> queue \<Rightarrow> bool" where
  "no_work q q' \<longleftrightarrow> (\<exists>new. q_log q' = q_log q @ new \<and> (\<forall>(k, r) \<in> set new. \<not> is_create r \<and> \<not> is_chunk r))"

lemma no_work_refl [simp]: "q_log q' = q_log q \<Longrightarrow> no_work q q'"
  by (simp add: no_work_def)

lemma no_work_trans: "no_work q q1 \<Longrightarrow> no_work q1 q2 \<Longrightarrow> no_work q q2"
  by (fastforce simp: no_work_def)

lemma no_work_discover: "no_work q (discover q)"
  by (auto simp: no_work_def discover_def Let_def send_requests_def)

lemma no_work_apply: "list_all (\<lambda>r. \<not> is_create r \<and> \<not> is_chunk r) rs \<Longrightarrow> no_work q (apply_step (j, rs, d) q)"
  by (cases d) (auto simp: no_work_def apply_step_def discover_def Let_def send_requests_def list_all_iff)

lemma begin_run_quiet:
  "j_uploadId j \<noteq> None \<longrightarrow> j_verifyCommitted j \<Longrightarrow> begin_run d now f j = (j', rs, disc) \<Longrightarrow> list_all (\<lambda>r. \<not> is_create r \<and> \<not> is_chunk r) rs"
  by (auto simp: begin_run_def enter_session_def halt_def Let_def split: if_splits)

lemma startable_job:
  assumes "job_inv env False j" "startable j"
  shows "step_post env False 0 (j\<lparr>j_busy := True, j_aborted := False, j_runFile := f\<rparr>) (begin_run False now f (j\<lparr>j_busy := True, j_aborted := False\<rparr>))"
    (is "step_post env False 0 ?k ?r")
proof -
  let ?j = "j\<lparr>j_busy := True, j_aborted := False\<rparr>"
  have q: "queued j" using assms(2) by (simp add: startable_def queued_def)
  then have i: "\<not> j_creationUncertain j" "j_uploadId j \<noteq> None \<longrightarrow> j_verifyCommitted j" "\<not> j_pauseRequested j" "\<not> j_cancellationPending j"
    "\<not> j_busy j" using assms(1) unfolding job_inv_def by blast+
  have "\<not> j_cancelling j" using assms(1) q unfolding job_inv_def working_def queued_def by blast
  then have p: "run_post env False ?k ?r"
    using begin_run_post [of ?j False env f now] i by (simp add: stopping_def)
  obtain j' rs disc where r: "?r = (j', rs, disc)" by (cases ?r)
  have f: "same_frame ?k j'" "run_place (j_await j')" "place_inv env j'" "resting j'" "in_flight j' rs"
    "length (filter is_create rs) + claim ?k \<le> claim j'" "j_uploadId ?k \<noteq> None \<longrightarrow> j_uploadId j' = j_uploadId ?k"
    using p by (simp_all add: run_post_def r)
  have s: "\<not> stopping False ?k" using i by (simp add: stopping_def)
  have "run_inv False j'" if "j_await j' \<noteq> Ended"
    using f(1,4) that \<open>\<not> j_cancelling j\<close> i by (auto simp: run_inv_def same_frame_def resting_def stopping_def working_def)
  moreover have "\<not> queued j'" using f(4) by (auto simp: resting_def working_def queued_def)
  ultimately have "job_inv env False j'"
    using f(1-4) run_place_not_cancel [OF f(2)] \<open>\<not> j_cancelling j\<close> by (simp add: job_inv_def same_frame_def)
  moreover have "j_uploadId j \<noteq> None \<longrightarrow> filter is_create rs = []" using f(6) by (simp add: claim_def split: if_splits)
  ultimately show ?thesis using f s by (simp add: step_post_def r same_frame_def)
qed

lemma start_job_inv:
  assumes "queue_inv env g q" "get_job k q = Some j" "startable j" "\<not> q_disposed q" "q_active q < CONCURRENT_FILES"
  shows "queue_inv env g (start_job now j q) \<and> no_work q (start_job now j q) \<and> q_disposed (start_job now j q) = False"
proof -
  obtain f where f: "j_file j = Some f" using assms(3) by (auto simp: startable_def)
  let ?k = "j\<lparr>j_busy := True, j_aborted := False, j_runFile := f\<rparr>"
  let ?r = "begin_run False now f (j\<lparr>j_busy := True, j_aborted := False\<rparr>)"
  obtain j' rs disc where r: "?r = (j', rs, disc)" by (cases ?r)
  have id: "j_id j = k" "j \<in> set (q_jobs q)" using get_job_id [OF assms(2)] by simp_all
  then have inv: "job_inv env False j" using assms(1,4) by (auto simp: queue_inv_def)
  have busy: "\<not> j_busy j" using assms(3) by (simp add: startable_def)
  have p: "j_id j' = k" "j_busy j'" "job_inv env False j'" "in_flight j' rs \<or> (j' = ?k \<and> rs = [])"
    "j_uploadId j \<noteq> None \<longrightarrow> j_uploadId j' = j_uploadId j"
    using startable_job [OF inv assms(3), of f now] id by (simp_all add: step_post_def r)
  have "\<not> run_place (j_await ?k)" using inv busy by (simp add: job_inv_def)
  then have "in_flight j' rs" using p(4) by (auto simp: in_flight_def run_place_def)
  then have l: "logged (q_log q @ map (Pair (j_id j')) rs) j'" by (simp add: in_flight_def logged_def)
  have c: "length (filter is_create rs) + claim j \<le> claim j'" "j_uploadId j \<noteq> None \<longrightarrow> filter is_create rs = []"
    using startable_job [OF inv assms(3), of f now] by (simp_all add: step_post_def r claim_def)
  have q: "queue_inv env g (send_requests (j_id j') rs (put_job j' (q\<lparr>q_active := Suc (q_active q)\<rparr>)))"
    using put_inv [OF assms(1), of j' j rs "send_requests (j_id j') rs (put_job j' (q\<lparr>q_active := Suc (q_active q)\<rparr>))" 0]
      assms(2,4,5) p(1-3,5) busy l c by (simp add: send_requests_def put_job_def)
  have start: "start_job now j q = apply_step (j', rs, disc) (q\<lparr>q_active := Suc (q_active q)\<rparr>)"
    using f r assms(4) by (simp add: start_job_def)
  have "queue_inv env g (start_job now j q)" unfolding start using q discover_inv by (simp add: apply_step_def Let_def)
  moreover have "list_all (\<lambda>r. \<not> is_create r \<and> \<not> is_chunk r) rs"
    by (rule begin_run_quiet [OF _ r]) (use inv assms(3) in \<open>auto simp: job_inv_def queued_def startable_def\<close>)
  then have "no_work q (start_job now j q)"
    unfolding start using no_work_apply [of rs "q\<lparr>q_active := Suc (q_active q)\<rparr>" j' disc] by (auto simp: no_work_def)
  moreover have "q_disposed (start_job now j q) = False"
    unfolding start using assms(4) by (simp add: apply_step_def discover_def send_requests_def Let_def)
  ultimately show ?thesis by simp
qed

lemma pump_over_inv:
  "queue_inv env g q \<Longrightarrow> \<not> q_disposed q \<Longrightarrow> queue_inv env g (pump_over now ks q) \<and> no_work q (pump_over now ks q)"
proof (induction ks arbitrary: q)
  case (Cons k ks)
  show ?case
  proof (cases "CONCURRENT_FILES \<le> q_active q \<or> get_job k q = None")
    case True
    then show ?thesis using Cons by auto
  next
    case False
    then obtain j where j: "get_job k q = Some j" "q_active q < CONCURRENT_FILES" by auto
    show ?thesis
    proof (cases "startable j")
      case True
      note s = start_job_inv [OF Cons.prems(1) j(1) True Cons.prems(2) j(2), of now]
      have "queue_inv env g (pump_over now ks (start_job now j q)) \<and> no_work (start_job now j q) (pump_over now ks (start_job now j q))"
        using Cons.IH [of "start_job now j q"] s by blast
      then show ?thesis using True False j no_work_trans s by auto
    next
      case idle: False
      then show ?thesis using Cons False j by auto
    qed
  qed
qed simp

lemma pump_inv: "queue_inv env g q \<Longrightarrow> queue_inv env g (pump now q) \<and> no_work q (pump now q)"
  using pump_over_inv by (simp add: pump_def)


section \<open>The ends of runs\<close>

lemma put_put_job: "j_id j' = j_id j \<Longrightarrow> put_job j' (put_job j q) = put_job j' q"
  by (simp add: put_job_def)

lemma finishCancellation_post:
  assumes "job_inv env d j" "\<not> j_busy j" "\<not> j_cancelling j" "working j" "j_cancellationPending j"
  shows "step_post env d extra j (finishCancellation j)"
proof -
  have t: "\<not> terminal j" using assms(4) by (auto simp: working_def terminal_def)
  show ?thesis
  proof (cases "j_uploadId j")
    case None
    have "step_post env d extra j (cancel_confirmed j, [], False)"
      by (rule quiet_step [OF cancel_confirmed_inv [OF assms(2)]]) (simp_all add: cancel_confirmed_def run_place_def)
    then show ?thesis using None t assms(3) by (simp add: finishCancellation_def)
  next
    case (Some u)
    have "job_inv env d (j\<lparr>j_cancelling := True, j_await := AtDelete\<rparr>)"
      using assms Some t by (simp add: job_inv_def run_place_def cancel_place_def place_inv_def working_def queued_def terminal_def)
    then have "step_post env d extra j (j\<lparr>j_cancelling := True, j_await := AtDelete\<rparr>, [DeleteSession u], False)"
      by (rule quiet_step) (simp_all add: run_place_def)
    then show ?thesis using Some t assms(3) by (simp add: finishCancellation_def)
  qed
qed

lemma finishCancellation_quiet: "finishCancellation j = (j', rs, d) \<Longrightarrow> list_all (\<lambda>r. \<not> is_create r \<and> \<not> is_chunk r) rs"
  by (auto simp: finishCancellation_def split: if_splits option.splits)

lemma place_idle: "\<not> run_place (j_await j) \<Longrightarrow> place_inv env j"
  by (cases "j_await j") (simp_all add: place_inv_def run_place_def)

lemma step_post_pump:
  assumes "step_post env d extra j (j1, rs, disc)" "\<not> run_place (j_await j1)"
  shows "step_post env d extra j (j1\<lparr>j_pumpAfter := b\<rparr>, rs, disc)"
proof -
  have p: "j_id j1 = j_id j" "j_busy j1 = j_busy j" "job_inv env d j1"
    "\<forall>r \<in> set rs. is_create r \<or> is_chunk r \<longrightarrow> \<not> stopping d j" "length (filter is_create rs) + claim j \<le> claim j1 + extra"
    "j_uploadId j \<noteq> None \<longrightarrow> filter is_create rs = []" "j_uploadId j \<noteq> None \<longrightarrow> j_uploadId j1 = j_uploadId j" "disc \<longrightarrow> \<not> d"
    using assms(1) by (simp_all add: step_post_def)
  let ?j = "j1\<lparr>j_pumpAfter := b\<rparr>"
  have "\<not> j_busy j1" using p(3) assms(2) by (simp add: job_inv_def)
  moreover have "place_inv env ?j" using assms(2) by (intro place_idle) simp
  ultimately have "job_inv env d ?j"
    using p(3) by (simp add: job_inv_def resting_def working_def queued_def terminal_def)
  moreover have "in_flight j1 rs \<or> rs = []" using assms(1) by (auto simp: step_post_def)
  then have "in_flight ?j rs" using assms(2) by (auto simp: in_flight_def run_place_def)
  moreover have "claim ?j = claim j1" by (simp add: claim_def)
  ultimately show ?thesis using p by (simp add: step_post_def)
qed

lemma ended_job:
  assumes "job_inv env d j" "j_await j = Ended"
  shows "job_inv env d (j\<lparr>j_busy := False, j_aborted := False, j_await := Idle\<rparr>)" "j_busy j" "\<not> j_cancelling j" "resting j"
proof -
  show b: "j_busy j" "\<not> j_cancelling j" "resting j" using assms by (simp_all add: job_inv_def run_place_def cancel_place_def)
  then show "job_inv env d (j\<lparr>j_busy := False, j_aborted := False, j_await := Idle\<rparr>)"
    using assms(1) by (auto simp: job_inv_def run_place_def cancel_place_def place_inv_def resting_def working_def queued_def terminal_def)
qed

lemma logged_idle: "\<not> run_place (j_await j) \<Longrightarrow> logged l j"
  by (auto simp: logged_def run_place_def)

lemma finish_run_inv:
  assumes "queue_inv env g q" "get_job k q = Some j" "j_await j = Ended"
  shows "queue_inv env g (finish_run now j q) \<and> no_work q (finish_run now j q)"
proof -
  let ?j = "j\<lparr>j_busy := False, j_aborted := False, j_await := Idle\<rparr>"
  let ?q = "q\<lparr>q_active := q_active q - 1\<rparr>"
  have id: "j_id j = k" "j \<in> set (q_jobs q)" using get_job_id [OF assms(2)] by simp_all
  then have inv: "job_inv env (q_disposed q) j" "q_active q = length (filter j_busy (q_jobs q)) + q_detached q" "q_active q \<le> CONCURRENT_FILES"
    using assms(1) by (auto simp: queue_inv_def)
  note e = ended_job [OF inv(1) assms(3)]
  have pos: "1 \<le> q_active q" using inv(2) e(2) id(2) by (cases "filter j_busy (q_jobs q)") (auto simp: filter_empty_conv)
  have q: "queue_inv env g (put_job ?j ?q)"
    using put_inv [OF assms(1), of ?j j "[]" "put_job ?j ?q" 0] assms(2) id e pos inv(3) logged_idle [of ?j]
    by (simp add: put_job_def run_place_def claim_def)
  have here: "get_job k (put_job ?j ?q) = Some ?j" using assms(2) id by (simp add: get_put_job) (simp add: get_job_def)
  have quiet: "no_work q (put_job ?j ?q)" by (simp add: put_job_def)
  show ?thesis
  proof (cases "j_cancellationPending ?j \<and> j_state ?j \<noteq> QCompleted")
    case True
    obtain j2 rs d where r: "finishCancellation ?j = (j2, rs, d)" by (cases "finishCancellation ?j")
    have w: "working ?j" using e(4) True by (auto simp: resting_def working_def)
    have p: "step_post env (q_disposed q) 0 ?j (j2, rs, d)"
      using finishCancellation_post [OF e(1)] e(3) w True r by simp
    have same: "apply_step (x, rs, d) (put_job ?j ?q) = apply_step (x, rs, d) ?q" if "j_id x = k" for x
      using that id put_put_job [of x ?j ?q] by (simp add: apply_step_def)
    have id2: "j_id j2 = k" using p id by (simp add: step_post_def)
    have "queue_inv env g (apply_step (x, rs, d) ?q)" if "step_post env (q_disposed q) 0 ?j (x, rs, d)" for x
    proof -
      have "j_id x = k" using that id by (simp add: step_post_def)
      then show ?thesis using apply_step_quiet [OF q, of ?j "(x, rs, d)"] here id that same [of x] by simp
    qed
    note fin = this
    have nw: "no_work q (apply_step (x, rs, d) ?q)" for x
      using no_work_apply [OF finishCancellation_quiet [OF r], of ?q x d] by (auto simp: no_work_def)
    have "queue_inv env g (apply_step (j2\<lparr>j_pumpAfter := True\<rparr>, rs, d) ?q)" if "j_await j2 = AtDelete"
      by (rule fin, rule step_post_pump [OF p]) (simp add: that run_place_def)
    then show ?thesis
      using True r fin [OF p] nw pump_inv [of env g "apply_step (j2, rs, d) ?q" now] no_work_trans [OF nw [of j2]]
      by (simp add: finish_run_def Let_def)
  next
    case False
    then have "finish_run now j q = pump now (put_job ?j ?q)" unfolding finish_run_def Let_def by (rule if_not_P)
    then show ?thesis using pump_inv [OF q, of now] no_work_trans [OF quiet] by simp
  qed
qed


section \<open>The operations\<close>

lemma put_quiet:
  assumes "queue_inv env g q" "get_job k q = Some j0" "job_inv env (q_disposed q) j" "j_id j = k" "j_busy j = j_busy j0"
    "j_uploadId j = j_uploadId j0" "j_creationUncertain j = j_creationUncertain j0" "j_await j = j_await j0" "j_session j = j_session j0"
    "j_runFile j = j_runFile j0"
  shows "queue_inv env g (put_job j q) \<and> no_work q (put_job j q)"
proof -
  have "logged (q_log q) j0" "j_id j0 = k" using assms(1) get_job_id [OF assms(2)] by (auto simp: queue_inv_def)
  then have "logged (q_log q) j" using assms(4,8-10) by (simp add: logged_def)
  moreover have "claim j = claim j0" using assms(6,7) by (simp add: claim_def)
  ultimately show ?thesis using put_job_inv [OF assms(1) _ assms(3) _ assms(5)] assms(2,4,6) by simp
qed

lemma job_inv_of: "queue_inv env g q \<Longrightarrow> get_job k q = Some j \<Longrightarrow> job_inv env (q_disposed q) j \<and> j_id j = k"
  using get_job_id by (fastforce simp: queue_inv_def)

lemma place_inv_cong:
  assumes "j_await j' = j_await j" "j_session j' = j_session j" "j_runFile j' = j_runFile j" "j_uploadId j' = j_uploadId j"
    "j_creationUncertain j' = j_creationUncertain j" "j_accepted j' = j_accepted j" "j_verifyCommitted j \<longrightarrow> j_verifyCommitted j'"
    "place_inv env j"
  shows "place_inv env j'"
proof (cases "j_await j")
  case (AtDigest cs)
  then show ?thesis using assms parts_cong [OF assms(2)] verified_cong [OF assms(2,3)]
    by (auto simp: place_inv_def late_job_def)
qed (use assms call_inv_cong [OF assms(2-6)] in \<open>auto simp: place_inv_def fresh_job_def late_job_def split: hash_place.splits\<close>)

text \<open>An interruption: the flags stop the job and its signal is set when it runs.\<close>

lemma interrupt_inv:
  assumes "job_inv env d j" "\<not> terminal j" "\<not> j_cancelling j" "j_busy j' = j_busy j" "j_cancelling j' = j_cancelling j"
    "j_await j' = j_await j" "j_session j' = j_session j" "j_runFile j' = j_runFile j" "j_uploadId j' = j_uploadId j"
    "j_creationUncertain j' = j_creationUncertain j" "j_accepted j' = j_accepted j" "j_verifyCommitted j' = j_verifyCommitted j"
    "working j'" "j_busy j \<longrightarrow> j_aborted j'" "j_pauseRequested j' \<or> j_cancellationPending j'"
  shows "job_inv env d' j'"
proof -
  have "place_inv env j" using assms(1) by (simp add: job_inv_def)
  then have "place_inv env j'" using assms by (intro place_inv_cong [of j' j]) simp_all
  then show ?thesis using assms by (auto simp: job_inv_def run_inv_def resting_def working_def queued_def)
qed

lemma abort_job_fields [simp]:
  "j_id (abort_job j) = j_id j" "j_busy (abort_job j) = j_busy j" "j_cancelling (abort_job j) = j_cancelling j"
  "j_await (abort_job j) = j_await j" "j_session (abort_job j) = j_session j" "j_runFile (abort_job j) = j_runFile j"
  "j_uploadId (abort_job j) = j_uploadId j" "j_creationUncertain (abort_job j) = j_creationUncertain j"
  "j_accepted (abort_job j) = j_accepted j" "j_verifyCommitted (abort_job j) = j_verifyCommitted j" "j_state (abort_job j) = j_state j"
  "j_pauseRequested (abort_job j) = j_pauseRequested j" "j_cancellationPending (abort_job j) = j_cancellationPending j"
  "j_busy j \<Longrightarrow> j_aborted (abort_job j)"
  by (simp_all add: abort_job_def)

lemma pause_job_inv:
  assumes "job_inv env d j" "\<not> terminal j" "\<not> j_cancellationPending j"
  shows "job_inv env d' (pause_job j)"
proof -
  have "\<not> j_cancelling j" using assms(1,3) by (auto simp: job_inv_def)
  then show ?thesis by (intro interrupt_inv [OF assms(1,2)]) (simp_all add: pause_job_def working_def abort_job_def)
qed

lemma pause_inv:
  assumes "queue_inv env g q"
  shows "queue_inv env g (pause k q) \<and> no_work q (pause k q)"
proof (cases "get_job k q")
  case None
  then show ?thesis using assms by (simp add: pause_def)
next
  case (Some j)
  show ?thesis
  proof (cases "terminal j \<or> j_cancellationPending j \<or> j_state j = QCompleting")
    case True
    then show ?thesis using assms Some by (simp add: pause_def)
  next
    case False
    have inv: "job_inv env (q_disposed q) (pause_job j)" using pause_job_inv job_inv_of [OF assms Some] False by blast
    have "queue_inv env g (put_job (pause_job j) q) \<and> no_work q (put_job (pause_job j) q)"
      by (rule put_quiet [OF assms Some inv]) (use job_inv_of [OF assms Some] in \<open>simp_all add: pause_job_def\<close>)
    then show ?thesis using Some False by (simp add: pause_def)
  qed
qed

lemma cancel_job_inv:
  assumes "job_inv env d j" "\<not> terminal j" "\<not> j_cancelling j"
  shows "job_inv env d' (cancel_job j)"
  by (rule interrupt_inv [OF assms]) (simp_all add: cancel_job_def working_def abort_job_def)

lemma cancel_inv:
  assumes "queue_inv env g q"
  shows "queue_inv env g (cancel k q) \<and> no_work q (cancel k q)"
proof (cases "get_job k q")
  case None
  then show ?thesis using assms by (simp add: cancel_def)
next
  case (Some j)
  show ?thesis
  proof (cases "q_disposed q \<or> terminal j \<or> j_cancelling j")
    case True
    then show ?thesis using assms Some by (simp add: cancel_def)
  next
    case False
    have inv: "job_inv env (q_disposed q) (cancel_job j)" using cancel_job_inv job_inv_of [OF assms Some] False by blast
    note p = put_quiet [OF assms Some inv]
    have q: "queue_inv env g (put_job (cancel_job j) q)" "no_work q (put_job (cancel_job j) q)"
      using p job_inv_of [OF assms Some] by (simp_all add: cancel_job_def)
    have id: "j_id (cancel_job j) = k" using job_inv_of [OF assms Some] by (simp add: cancel_job_def)
    show ?thesis
    proof (cases "j_busy j")
      case True
      then show ?thesis using False Some q by (simp add: cancel_def)
    next
      case idle: False
      obtain j2 rs d where r: "finishCancellation (cancel_job j) = (j2, rs, d)" by (cases "finishCancellation (cancel_job j)")
      have post: "step_post env (q_disposed q) 0 (cancel_job j) (j2, rs, d)"
        using finishCancellation_post [OF inv] False idle r by (simp add: cancel_job_def working_def)
      have "get_job (j_id (cancel_job j)) (put_job (cancel_job j) q) = Some (cancel_job j)"
        using Some id by (simp add: get_put_job) 
      then have "queue_inv env g (apply_step (j2, rs, d) (put_job (cancel_job j) q))" using apply_step_quiet [OF q(1)] post by simp
      moreover have "apply_step (j2, rs, d) (put_job (cancel_job j) q) = apply_step (j2, rs, d) q"
        using post put_put_job [of j2 "cancel_job j" q] by (simp add: apply_step_def step_post_def)
      ultimately show ?thesis
        using False idle Some r no_work_apply [OF finishCancellation_quiet [OF r], of q j2 d] by (simp add: cancel_def)
    qed
  qed
qed

lemma idle_job: "job_inv env d j \<Longrightarrow> \<not> j_busy j \<Longrightarrow> \<not> j_cancelling j \<Longrightarrow> j_await j = Idle"
  by (cases "j_await j") (simp_all add: job_inv_def run_place_def cancel_place_def)

lemma requeue_inv:
  assumes "job_inv env d j" "\<not> j_busy j" "\<not> j_cancellationPending j" "\<not> j_creationUncertain j"
  shows "job_inv env False (requeue_job j)"
proof -
  have c: "\<not> j_cancelling j" using assms(1,3) by (auto simp: job_inv_def)
  have "j_await j = Idle" using idle_job [OF assms(1,2) c] .
  then show ?thesis using assms(2-4) c
    by (simp add: job_inv_def requeue_job_def run_place_def cancel_place_def place_inv_def queued_def terminal_def)
qed

text \<open>A change of what the invariant does not read, or of the state to one that is not of the queue.\<close>

lemma touch_inv:
  assumes "job_inv env d j" "\<not> j_busy j" "\<not> j_cancelling j" "\<not> terminal j" "working j'" "j_busy j' = j_busy j" "j_cancelling j' = j_cancelling j"
    "j_await j' = j_await j" "j_pauseRequested j' = j_pauseRequested j" "j_cancellationPending j' = j_cancellationPending j"
  shows "job_inv env d j'"
  using assms idle_job [OF assms(1-3)] by (simp add: job_inv_def run_place_def cancel_place_def place_inv_def working_def queued_def terminal_def)

lemma job_inv_cong:
  assumes "j_await j' = j_await j" "j_session j' = j_session j" "j_runFile j' = j_runFile j" "j_uploadId j' = j_uploadId j"
    "j_creationUncertain j' = j_creationUncertain j" "j_accepted j' = j_accepted j" "j_verifyCommitted j \<longrightarrow> j_verifyCommitted j'"
    "j_state j' = j_state j" "j_busy j' = j_busy j" "j_cancelling j' = j_cancelling j" "j_pauseRequested j' = j_pauseRequested j"
    "j_cancellationPending j' = j_cancellationPending j" "j_aborted j' = j_aborted j" "job_inv env d j"
  shows "job_inv env d j'"
proof -
  have "place_inv env j'" using assms(14) by (intro place_inv_cong [OF assms(1-7)]) (simp add: job_inv_def)
  then show ?thesis
    using assms(14) unfolding job_inv_def run_inv_def stopping_def resting_def working_def queued_def terminal_def assms(1-6,8-13)
    using assms(7) by blast
qed

lemma error_inv: "job_inv env d j \<Longrightarrow> job_inv env d (j\<lparr>j_error := b\<rparr>)"
  by (rule job_inv_cong [of "j\<lparr>j_error := b\<rparr>" j]) simp_all

lemma put_error:
  assumes "queue_inv env g q" "get_job k q = Some j"
  shows "queue_inv env g (put_job (j\<lparr>j_error := True\<rparr>) q) \<and> no_work q (put_job (j\<lparr>j_error := True\<rparr>) q)"
  by (rule put_quiet [OF assms]) (use job_inv_of [OF assms] in \<open>simp_all add: error_inv\<close>)

lemma resume_inv:
  assumes "queue_inv env g q"
  shows "queue_inv env g (resume now k q) \<and> no_work q (resume now k q)"
proof (cases "get_job k q")
  case None
  then show ?thesis using assms by (simp add: resume_def)
next
  case (Some j)
  note inv = job_inv_of [OF assms Some]
  show ?thesis
  proof (cases "q_disposed q \<or> terminal j \<or> j_busy j \<or> j_cancellationPending j")
    case True
    show ?thesis
    proof (cases "q_disposed q \<or> terminal j \<or> j_busy j")
      case True
      then show ?thesis using assms Some by (simp add: resume_def)
    next
      case False
      then have "resume now k q = cancel k q" using True Some by (simp add: resume_def)
      then show ?thesis using cancel_inv [OF assms] by simp
    qed
  next
    case False
    then have c: "\<not> j_cancelling j" using inv by (auto simp: job_inv_def)
    show ?thesis
    proof (cases "j_creationUncertain j")
      case True
      then have r: "resume now k q = discover (put_job (j\<lparr>j_error := True\<rparr>) q)" using False Some by (simp add: resume_def)
      note p = put_error [OF assms Some]
      show ?thesis unfolding r using discover_inv p no_work_trans [OF conjunct2 [OF p] no_work_discover] by blast
    next
      case certain: False
      show ?thesis
      proof (cases "j_file j")
        case None
        have "job_inv env (q_disposed q) (j\<lparr>j_state := QNeedsFile, j_needsFile := True\<rparr>)"
          by (rule touch_inv [of env "q_disposed q" j]) (use inv False c in \<open>simp_all add: working_def\<close>)
        then have "queue_inv env g (put_job (j\<lparr>j_state := QNeedsFile, j_needsFile := True\<rparr>) q)
            \<and> no_work q (put_job (j\<lparr>j_state := QNeedsFile, j_needsFile := True\<rparr>) q)"
          using inv by (intro put_quiet [OF assms Some]) simp_all
        then show ?thesis using None False certain Some by (simp add: resume_def)
      next
        case (Some f)
        have "job_inv env (q_disposed q) (requeue_job j)"
          using requeue_inv [of env "q_disposed q" j] inv False certain by simp
        then have p: "queue_inv env g (put_job (requeue_job j) q) \<and> no_work q (put_job (requeue_job j) q)"
          using inv by (intro put_quiet [OF assms \<open>get_job k q = Some j\<close>]) (simp_all add: requeue_job_def)
        then have "queue_inv env g (pump now (put_job (requeue_job j) q)) \<and> no_work q (pump now (put_job (requeue_job j) q))"
          using pump_inv no_work_trans by blast
        then show ?thesis using False certain assms Some \<open>get_job k q = Some j\<close> by (simp add: resume_def)
      qed
    qed
  qed
qed

lemma reselect_inv:
  assumes "queue_inv env g q"
  shows "queue_inv env g (reselect k f q) \<and> no_work q (reselect k f q)"
proof (cases "get_job k q")
  case None
  then show ?thesis using assms by (simp add: reselect_def)
next
  case (Some j)
  have q: "queue_inv env g (q\<lparr>q_reselecting := q_reselecting q @ [(k, f)]\<rparr>)" using assms unfolding queue_inv_def create_keys_def by simp
  show ?thesis unfolding reselect_def Some option.case using assms q put_error [OF assms Some] by simp
qed

lemma reselected_inv:
  assumes "queue_inv env g q"
  shows "queue_inv env g (reselected env now k f q) \<and> no_work q (reselected env now k f q)"
proof (cases "(k, f) \<in> set (q_reselecting q)")
  case False
  then show ?thesis using assms by (simp add: reselected_def)
next
  case True
  let ?q = "q\<lparr>q_reselecting := remove1 (k, f) (q_reselecting q)\<rparr>"
  have q: "queue_inv env g ?q" "no_work q ?q" using assms by (simp_all add: queue_inv_def create_keys_def)
  show ?thesis
  proof (cases "get_job k ?q")
    case None
    then show ?thesis using True q by (simp add: reselected_def Let_def)
  next
    case (Some j)
    note inv = job_inv_of [OF q(1) Some]
    let ?j = "j\<lparr>j_file := Some f, j_fingerprint := sampleFingerprint env f, j_needsFile := False, j_verifyCommitted := True\<rparr>"
    have "job_inv env (q_disposed ?q) ?j" by (rule job_inv_cong [of ?j j]) (use inv in simp_all)
    then have p: "queue_inv env g (put_job ?j ?q) \<and> no_work ?q (put_job ?j ?q)"
      using inv by (intro put_quiet [OF q(1) Some]) simp_all
    then have r: "queue_inv env g (resume now k (put_job ?j ?q)) \<and> no_work q (resume now k (put_job ?j ?q))"
      using resume_inv [of env g "put_job ?j ?q"] q(2) no_work_trans by blast
    have e: "queue_inv env g (put_job (j\<lparr>j_error := True\<rparr>) ?q) \<and> no_work q (put_job (j\<lparr>j_error := True\<rparr>) ?q)"
      using put_error [OF q(1) Some] q(2) no_work_trans by blast
    have "reselected env now k f q = (if j_fingerprint j \<noteq> None \<and> sampleFingerprint env f \<noteq> j_fingerprint j
        then put_job (j\<lparr>j_error := True\<rparr>) ?q else if q_disposed q \<or> j_cancellationPending j \<or> terminal j then ?q
        else resume now k (put_job ?j ?q))"
      using True Some unfolding reselected_def Let_def by (simp del: fun_upd_apply cong: if_cong)
    then show ?thesis using q r e by presburger
  qed
qed


text \<open>All jobs change at once.\<close>

lemma map_inv:
  assumes "queue_inv env g q" "q_jobs q' = map f (q_jobs q)"
    and "\<And>j. j \<in> set (q_jobs q) \<Longrightarrow> j_id (f j) = j_id j \<and> j_busy (f j) = j_busy j \<and> j_uploadId (f j) = j_uploadId j
           \<and> j_creationUncertain (f j) = j_creationUncertain j \<and> job_inv env (q_disposed q') (f j) \<and> logged (q_log q) (f j)"
    and "q_log q' = q_log q" "q_active q' = q_active q" "q_detached q' = q_detached q" "q_sequence q' = q_sequence q"
  shows "queue_inv env g q'"
proof -
  have ids: "map j_id (q_jobs q') = map j_id (q_jobs q)" using assms(2,3) by simp
  have "map (\<lambda>j. j_busy (f j)) (q_jobs q) = map j_busy (q_jobs q)" using assms(3) by simp
  then have "length (filter j_busy (q_jobs q')) = length (filter j_busy (q_jobs q))"
    unfolding assms(2) by (induction "q_jobs q") (auto simp: filter_map o_def cong: filter_cong)
  moreover have "known_id (q_sequence q) j \<Longrightarrow> j \<in> set (q_jobs q) \<Longrightarrow> known_id (q_sequence q) (f j)" for j
    using assms(3) by (simp add: known_id_def)
  moreover have "j \<in> set (q_jobs q) \<Longrightarrow> claim (f j) = claim j" for j using assms(3) by (simp add: claim_def)
  ultimately show ?thesis using assms ids by (auto simp: queue_inv_def create_keys_def simp del: map_map)
qed

lemma inv_job: "queue_inv env g q \<Longrightarrow> j \<in> set (q_jobs q) \<Longrightarrow> job_inv env (q_disposed q) j \<and> logged (q_log q) j"
  by (simp add: queue_inv_def)

lemma kept_inv:
  assumes "job_inv env d j" "terminal j \<or> j_cancellationPending j"
  shows "job_inv env d' j"
  using assms unfolding job_inv_def run_inv_def stopping_def working_def terminal_def by blast

lemma logged_cong:
  "logged l j \<Longrightarrow> j_id j' = j_id j \<Longrightarrow> j_await j' = j_await j \<Longrightarrow> j_session j' = j_session j \<Longrightarrow> j_runFile j' = j_runFile j \<Longrightarrow> logged l j'"
  by (simp add: logged_def)

lemma dispose_inv:
  assumes "queue_inv env g q"
  shows "queue_inv env g (dispose q) \<and> no_work q (dispose q)"
proof
  let ?f = "\<lambda>j. if terminal j \<or> j_cancellationPending j then j else pause_job j"
  show "queue_inv env g (dispose q)"
  proof (rule map_inv [OF assms, of _ ?f])
    fix j
    assume "j \<in> set (q_jobs q)"
    then have i: "job_inv env (q_disposed q) j" "logged (q_log q) j" using inv_job [OF assms] by simp_all
    have "logged (q_log q) (pause_job j)" by (rule logged_cong [OF i(2)]) (simp_all add: pause_job_def)
    moreover have "job_inv env True (?f j)" using kept_inv [OF i(1)] pause_job_inv [OF i(1)] by simp
    ultimately show "j_id (?f j) = j_id j \<and> j_busy (?f j) = j_busy j \<and> j_uploadId (?f j) = j_uploadId j
        \<and> j_creationUncertain (?f j) = j_creationUncertain j \<and> job_inv env (q_disposed (dispose q)) (?f j) \<and> logged (q_log q) (?f j)"
      using i(2) by (simp add: dispose_def pause_job_def)
  qed (simp_all add: dispose_def)
  show "no_work q (dispose q)" by (simp add: dispose_def)
qed

lemma queue_selected:
  assumes "job_inv env d j" "j_state j = QSelected"
  shows "job_inv env d (j\<lparr>j_state := QQueued\<rparr>)"
proof -
  have n: "\<not> working j" "\<not> resting j" "queued j" using assms(2) by (simp_all add: working_def resting_def queued_def)
  have idle: "\<not> j_busy j" "\<not> j_cancelling j" using assms(1) n unfolding job_inv_def by blast+
  then have "j_await j = Idle" using idle_job [OF assms(1)] by blast
  then show ?thesis using assms n idle
    by (auto simp: job_inv_def queued_def terminal_def run_place_def cancel_place_def place_inv_def)
qed

lemma startAll_inv:
  assumes "queue_inv env g q"
  shows "queue_inv env g (startAll now q) \<and> no_work q (startAll now q)"
proof (cases "q_disposed q")
  case True
  then show ?thesis using assms by (simp add: startAll_def)
next
  case False
  let ?f = "\<lambda>j. if j_state j = QSelected then j\<lparr>j_state := QQueued\<rparr> else j"
  let ?q = "q\<lparr>q_jobs := map ?f (q_jobs q)\<rparr>"
  have "queue_inv env g ?q"
  proof (rule map_inv [OF assms, of _ ?f])
    fix j
    assume "j \<in> set (q_jobs q)"
    then have i: "job_inv env (q_disposed q) j" "logged (q_log q) j" using inv_job [OF assms] by simp_all
    then show "j_id (?f j) = j_id j \<and> j_busy (?f j) = j_busy j \<and> j_uploadId (?f j) = j_uploadId j
        \<and> j_creationUncertain (?f j) = j_creationUncertain j \<and> job_inv env (q_disposed ?q) (?f j) \<and> logged (q_log q) (?f j)"
      using queue_selected by (simp add: logged_def)
  qed simp_all
  then have "queue_inv env g (pump now ?q) \<and> no_work ?q (pump now ?q)" by (rule pump_inv)
  then show ?thesis using False no_work_trans [of q ?q] by (simp add: startAll_def)
qed

lemma dismissCompleted_inv: "queue_inv env g q \<Longrightarrow> queue_inv env g (dismissCompleted q) \<and> no_work q (dismissCompleted q)"
  by (simp add: dismissCompleted_def queue_inv_def create_keys_def)


section \<open>New rows\<close>

lemma local_id_counter: "local_id t m = local_id t' m' \<Longrightarrow> m = m'"
proof -
  assume "local_id t m = local_id t' m'"
  then have e: "dec (nat \<lfloor>t\<rfloor>) @ [45] @ dec m = dec (nat \<lfloor>t'\<rfloor>) @ [45] @ dec m'" by (simp add: local_id_def)
  have free: "45 \<notin> set (dec n)" for n using dec_digits [of n] by (auto simp: digit_def)
  have tail: "drop 1 (dropWhile (\<lambda>c. c \<noteq> 45) (dec a @ [45] @ dec n)) = dec n" for a n
  proof -
    have "dropWhile (\<lambda>c. c \<noteq> 45) (dec a @ [45] @ dec n) = [45] @ dec n"
      using free [of a] by (subst dropWhile_append2) auto
    then show ?thesis by simp
  qed
  have "dec m = dec m'" using arg_cong [OF e, of "\<lambda>x. drop 1 (dropWhile (\<lambda>c. c \<noteq> 45) x)"] unfolding tail .
  then show "m = m'" by simp
qed

lemma local_not_server: "local_id t m \<noteq> js ''server-'' @ u"
  by (simp add: local_id_def js_def)

lemma get_job_None: "get_job k q = None \<longleftrightarrow> k \<notin> j_id ` set (q_jobs q)"
  by (auto simp: get_job_def find_None_iff)

lemma fresh_creates: "create_keys q \<Longrightarrow> (\<And>t m. k = local_id t m \<Longrightarrow> q_sequence q < m) \<Longrightarrow> creates k (q_log q) = 0"
  by (fastforce simp: creates_def create_keys_def filter_empty_conv)

lemma append_inv:
  assumes "queue_inv env g q" "get_job (j_id j) q = None" "job_inv env (q_disposed q) j" "\<not> j_busy j" "known_id n j" "q_sequence q \<le> n"
    "creates (j_id j) (q_log q) = 0"
  shows "queue_inv env g (q\<lparr>q_jobs := q_jobs q @ [j], q_sequence := n\<rparr>)"
proof -
  have "logged (q_log q) j" using assms(3,4) by (intro logged_idle) (simp add: job_inv_def)
  moreover have "known_id n x" if "x \<in> set (q_jobs q)" for x
  proof -
    have "known_id (q_sequence q) x" using assms(1) that by (simp add: queue_inv_def)
    then show ?thesis using assms(6) by (meson known_id_def le_trans)
  qed
  moreover have keys: "create_keys q" using assms(1) by (simp add: queue_inv_def)
  have "create_keys (q\<lparr>q_jobs := q_jobs q @ [j], q_sequence := n\<rparr>)"
    using keys assms(6) unfolding create_keys_def by (fastforce intro: order_trans)
  ultimately show ?thesis using assms(1-5,7) unfolding get_job_None by (auto simp: queue_inv_def)
qed

lemma new_job_inv: "job_inv env False (new_job k p b f)"
  by (simp add: new_job_def job_inv_def Let_def run_place_def cancel_place_def place_inv_def)

lemma enqueue_one_inv:
  assumes "queue_inv env g q" "\<not> q_disposed q"
  shows "queue_inv env g (set_job (new_job (local_id now (Suc (q_sequence q))) parent start f) (q\<lparr>q_sequence := Suc (q_sequence q)\<rparr>))"
proof -
  let ?j = "new_job (local_id now (Suc (q_sequence q))) parent start f"
  have id: "j_id ?j = local_id now (Suc (q_sequence q))" "\<not> j_busy ?j" by (simp_all add: new_job_def Let_def)
  have "local_id now (Suc (q_sequence q)) \<noteq> j_id x" if "x \<in> set (q_jobs q)" for x
  proof
    assume same: "local_id now (Suc (q_sequence q)) = j_id x"
    have "known_id (q_sequence q) x" using assms(1) that by (simp add: queue_inv_def)
    then obtain t m where "j_id x = local_id t m" "m \<le> q_sequence q"
      using same local_not_server by (auto simp: known_id_def)
    then show False using local_id_counter same by fastforce
  qed
  then have none: "get_job (j_id ?j) q = None" unfolding get_job_None id by auto
  have fresh: "creates (j_id ?j) (q_log q) = 0"
    by (rule fresh_creates) (use assms(1) id(1) local_id_counter in \<open>auto simp: queue_inv_def\<close>)
  have "known_id (Suc (q_sequence q)) ?j" using id by (auto simp: known_id_def)
  then have "queue_inv env g (q\<lparr>q_jobs := q_jobs q @ [?j], q_sequence := Suc (q_sequence q)\<rparr>)"
    using append_inv [OF assms(1) none _ id(2) _ _ fresh] new_job_inv assms(2) by simp
  moreover have "get_job (j_id ?j) (q\<lparr>q_sequence := Suc (q_sequence q)\<rparr>) = None" using none by (simp add: get_job_def)
  then have "set_job ?j (q\<lparr>q_sequence := Suc (q_sequence q)\<rparr>) = q\<lparr>q_jobs := q_jobs q @ [?j], q_sequence := Suc (q_sequence q)\<rparr>"
    by (cases q) (simp add: set_job_def)
  ultimately show ?thesis by simp
qed

lemma enqueue_files_inv:
  "queue_inv env g q \<Longrightarrow> \<not> q_disposed q \<Longrightarrow>
     queue_inv env g (enqueue_files now parent start fs q) \<and> q_log (enqueue_files now parent start fs q) = q_log q"
proof (induction fs arbitrary: q)
  case (Cons f fs)
  let ?q = "set_job (new_job (local_id now (Suc (q_sequence q))) parent start f) (q\<lparr>q_sequence := Suc (q_sequence q)\<rparr>)"
  have "q_log ?q = q_log q" "q_disposed ?q = q_disposed q" by (simp_all add: set_job_def)
  then show ?case using Cons.IH [OF enqueue_one_inv [OF Cons.prems]] Cons.prems(2) by simp
qed simp

lemma enqueue_inv:
  assumes "queue_inv env g q"
  shows "queue_inv env g (enqueue now fs parent start q) \<and> no_work q (enqueue now fs parent start q)"
proof (cases "q_disposed q")
  case False
  note e = enqueue_files_inv [OF assms False, of now parent start fs]
  have "no_work q (enqueue_files now parent start fs q)" using e by simp
  then show ?thesis using False pump_inv [OF conjunct1 [OF e], of now] no_work_trans by (simp add: enqueue_def)
qed (use assms in \<open>simp add: enqueue_def\<close>)

lemma restored_inv: "job_inv env d ((restoredJob v)\<lparr>j_session := s\<rparr>)"
  by (simp add: restoredJob_def job_inv_def run_place_def cancel_place_def place_inv_def queued_def)

lemma import_session_inv:
  assumes "queue_inv env g q"
  shows "queue_inv env g (import_session s q) \<and> q_log (import_session s q) = q_log q"
proof (cases "\<not> validSession s \<or> list_ex (\<lambda>j. j_uploadId j = Some (cs_uploadId s)) (q_jobs q)")
  case True
  then show ?thesis using assms unfolding import_session_def by simp
next
  case False
  let ?v = "\<lparr>sv_id = js ''server-'' @ cs_uploadId s, sv_name = cs_filename s, sv_size = cs_totalSize s,
          sv_parentId = cs_parentId s, sv_uploadId = cs_uploadId s, sv_committedBytes = cs_uploadedSize s, sv_expectedSha256 = None,
          sv_fingerprint = None, sv_notBefore = None, sv_cancellationPending = False\<rparr>"
  let ?j = "(restoredJob ?v)\<lparr>j_session := Some s\<rparr>"
  have id: "j_id ?j = js ''server-'' @ cs_uploadId s" "j_uploadId ?j = Some (cs_uploadId s)" "\<not> j_busy ?j"
    by (simp_all add: restoredJob_def)
  have "js ''server-'' @ cs_uploadId s \<noteq> j_id x" if "x \<in> set (q_jobs q)" for x
  proof
    assume same: "js ''server-'' @ cs_uploadId s = j_id x"
    have "known_id (q_sequence q) x" using assms that by (simp add: queue_inv_def)
    then obtain u where "j_id x = js ''server-'' @ u" "j_uploadId x = Some u"
      using same local_not_server by (metis known_id_def)
    then show False using same that False by (auto simp: list_ex_iff)
  qed
  then have none: "get_job (j_id ?j) q = None" unfolding get_job_None id by auto
  have fresh: "creates (j_id ?j) (q_log q) = 0"
    by (rule fresh_creates) (use assms id(1) local_not_server in \<open>auto simp: queue_inv_def dest: sym\<close>)
  have "known_id (q_sequence q) ?j" using id by (auto simp: known_id_def)
  then have "queue_inv env g (q\<lparr>q_jobs := q_jobs q @ [?j], q_sequence := q_sequence q\<rparr>)"
    using append_inv [OF assms none restored_inv id(3) _ _ fresh] by blast
  moreover have "import_session s q = q\<lparr>q_jobs := q_jobs q @ [?j]\<rparr>"
    using False none unfolding import_session_def set_job_def by simp
  ultimately show ?thesis by simp
qed

lemma import_all_inv:
  "queue_inv env g q \<Longrightarrow> queue_inv env g (foldl (\<lambda>q s. import_session s q) q ss) \<and> q_log (foldl (\<lambda>q s. import_session s q) q ss) = q_log q"
  by (induction ss arbitrary: q) (simp_all add: import_session_inv)

lemma discovered_inv:
  assumes "queue_inv env g q"
  shows "queue_inv env g (discovered r q) \<and> no_work q (discovered r q)"
proof -
  have q: "queue_inv env g (q\<lparr>q_discovering := False\<rparr>)" using assms by (simp add: queue_inv_def create_keys_def)
  show ?thesis using assms q import_all_inv [OF q] by (auto simp: discovered_def Let_def split: option.split)
qed


section \<open>Histories\<close>

lemma inv_mono: "queue_inv env g q \<Longrightarrow> (\<And>k. g k \<le> g' k) \<Longrightarrow> queue_inv env g' q"
  unfolding queue_inv_def by (meson Suc_le_mono add_le_mono1 order_trans)

lemma job_answered_inv:
  assumes "queue_inv env g q" "get_job k q = Some j"
  shows "queue_inv env (g(k := g k + rejections j a)) (job_answered env now a j q)"
proof -
  note inv = job_inv_of [OF assms]
  obtain j1 rs d where r: "job_answer env (q_disposed q) now a j = (j1, rs, d)" by (cases "job_answer env (q_disposed q) now a j")
  have p: "step_post env (q_disposed q) (rejections j a) j (j1, rs, d)" using job_answer_post [of env "q_disposed q" j a now] inv r by simp
  have here: "get_job (j_id j) q = Some j" "j_id j = k" using assms(2) inv by simp_all
  show ?thesis
  proof (cases "j_pumpAfter j1 \<and> j_await j1 = Idle")
    case True
    then have "step_post env (q_disposed q) (rejections j a) j (j1\<lparr>j_pumpAfter := False\<rparr>, rs, d)"
      using step_post_pump [OF p] by (simp add: run_place_def)
    then have "queue_inv env (g(k := g k + rejections j a)) (apply_step (j1\<lparr>j_pumpAfter := False\<rparr>, rs, d) q)"
      using apply_step_inv [OF assms(1) here(1)] here(2) by simp
    then show ?thesis using True r pump_inv by (simp add: job_answered_def)
  next
    case False
    then show ?thesis using r apply_step_inv [OF assms(1) here(1) p] here(2) by (auto simp: job_answered_def)
  qed
qed

text \<open>Only an answer sends a chunk or creates a session.\<close>

fun is_answer :: "queue_event \<Rightarrow> bool" where
  "is_answer (Answer k a) = True"
| "is_answer _ = False"

lemma detached_inv:
  assumes "queue_inv env g q"
  shows "queue_inv env g (queue_step env (now, FinallyDetached) q) \<and> no_work q (queue_step env (now, FinallyDetached) q)"
proof (cases "q_detached q = 0")
  case False
  let ?q = "q\<lparr>q_detached := q_detached q - 1, q_active := q_active q - 1\<rparr>"
  have "queue_inv env g ?q" using assms False by (auto simp: queue_inv_def create_keys_def)
  then have "queue_inv env g (pump now ?q) \<and> no_work ?q (pump now ?q)" by (rule pump_inv)
  then show ?thesis using False no_work_trans [of q ?q] by simp
qed (use assms in simp)

lemma finally_inv:
  assumes "queue_inv env g q"
  shows "queue_inv env g (queue_step env (now, Finally k) q) \<and> no_work q (queue_step env (now, Finally k) q)"
proof (cases "get_job k q")
  case (Some j)
  then show ?thesis using assms finish_run_inv [OF assms Some] by simp
qed (use assms in simp)

text \<open>The definite refusals of its creation that a row was answered with in a history.\<close>

definition refusals :: "queue \<Rightarrow> ustring \<Rightarrow> queue_event \<Rightarrow> nat" where
  "refusals q k e = (case e of
     Answer k' a \<Rightarrow> if k' = k then (case get_job k q of None \<Rightarrow> 0 | Some j \<Rightarrow> rejections j a) else 0
   | _ \<Rightarrow> 0)"

fun refused_from :: "queue_env \<Rightarrow> (rat \<times> queue_event) list \<Rightarrow> queue \<Rightarrow> ustring \<Rightarrow> nat" where
  "refused_from env [] q k = 0"
| "refused_from env (e # evs) q k = refusals q k (snd e) + refused_from env evs (queue_step env e q) k"

definition refused :: "queue_env \<Rightarrow> (rat \<times> queue_event) list \<Rightarrow> ustring \<Rightarrow> nat" where
  "refused env evs k = refused_from env evs empty_queue k"

lemma refused_from_append:
  "refused_from env (evs @ evs') q k = refused_from env evs q k + refused_from env evs' (queue_run env evs q) k"
  by (induction evs arbitrary: q) (simp_all add: queue_run_def)

lemma queue_step_inv:
  assumes "queue_inv env g q"
  shows "queue_inv env (\<lambda>k. g k + refusals q k (snd e)) (queue_step env e q) \<and> (is_answer (snd e) \<or> no_work q (queue_step env e q))"
proof -
  obtain now ev where e: "e = (now, ev)" by (cases e)
  have other: "queue_inv env (\<lambda>k. g k + refusals q k (snd e)) q'" if "queue_inv env g q'" for q'
    by (rule inv_mono [OF that]) simp
  show ?thesis
  proof (cases ev)
    case (Answer k a)
    show ?thesis
    proof (cases "get_job k q")
      case None
      then show ?thesis using other [OF assms] Answer e by simp
    next
      case (Some j)
      have "(\<lambda>k. g k + refusals q k (snd e)) = g(k := g k + rejections j a)" by (rule ext) (simp add: refusals_def e Answer Some)
      then show ?thesis using job_answered_inv [OF assms Some] Some Answer e by simp
    qed
  qed (use e other enqueue_inv [OF assms] startAll_inv [OF assms] pause_inv [OF assms] resume_inv [OF assms] cancel_inv [OF assms]
        reselect_inv [OF assms] reselected_inv [OF assms] discover_inv [OF assms] no_work_discover discovered_inv [OF assms]
        dispose_inv [OF assms] dismissCompleted_inv [OF assms] finally_inv [OF assms] detached_inv [OF assms] in simp_all)
qed

lemma empty_queue_inv: "queue_inv env (\<lambda>k. 0) empty_queue"
  by (simp add: queue_inv_def empty_queue_def create_keys_def)

lemma queue_run_inv: "queue_inv env (refused env evs) (queue_run env evs empty_queue)"
proof (induction evs rule: rev_induct)
  case Nil
  have "refused env [] = (\<lambda>k. 0)" by (simp add: fun_eq_iff refused_def)
  then show ?case by (simp add: queue_run_def empty_queue_inv)
next
  case (snoc e evs)
  have "refused env (evs @ [e]) = (\<lambda>k. refused env evs k + refusals (queue_run env evs empty_queue) k (snd e))"
    by (rule ext) (simp add: refused_def refused_from_append)
  then show ?case using queue_step_inv [OF snoc, of e] by (simp add: queue_run_def)
qed

end
