(* ===== verification/QueueTrip.thy ===== *)
theory QueueTrip
  imports QueueProps
begin

text \<open>The run of an upload that nothing disturbs.\<close>

section \<open>Answers to one row\<close>

text \<open>The answers that a row gets, with the requests it sends, and whether a step concerns other rows.\<close>

fun answers :: "queue_env \<Rightarrow> (rat \<times> answer) list \<Rightarrow> job \<Rightarrow> job \<times> request list \<times> bool" where
  "answers env [] j = (j, [], False)"
| "answers env ((now, a) # as) j =
     (case job_answer env False now a j of (j1, rs, d) \<Rightarrow>
        (case answers env as j1 of (j2, rs2, d2) \<Rightarrow> (j2, rs @ rs2, d \<or> j_pumpAfter j1 \<or> j_id j1 \<noteq> j_id j \<or> d2)))"

text \<open>What the bookkeeping of a row leaves alone.\<close>

definition same_row :: "job \<Rightarrow> job \<Rightarrow> bool" where
  "same_row j j' \<longleftrightarrow> j_id j' = j_id j \<and> j_busy j' = j_busy j \<and> j_size j' = j_size j \<and> \<not> j_pumpAfter j' \<and> \<not> j_pumpAfter j"

lemma same_row_trans: "same_row j j1 \<Longrightarrow> same_row j1 j2 \<Longrightarrow> same_row j j2"
  by (simp add: same_row_def)

lemma answers_append:
  "answers env as j = (j1, rs, False) \<Longrightarrow> answers env bs j1 = (j2, rs2, False) \<Longrightarrow> answers env (as @ bs) j = (j2, rs @ rs2, False)"
  by (induction as arbitrary: j rs) (auto split: prod.splits)

lemma answers_one: "job_answer env False now a j = (j1, rs, False) \<Longrightarrow> same_row j j1 \<Longrightarrow> answers env [(now, a)] j = (j1, rs, False)"
  by (simp add: same_row_def)

text \<open>A job that no one interrupts.\<close>

definition steady :: "client_file \<Rightarrow> job \<Rightarrow> bool" where
  "steady f j \<longleftrightarrow> \<not> j_pauseRequested j \<and> \<not> j_cancellationPending j \<and> \<not> j_aborted j \<and> j_runFile j = f \<and> rb_notBefore (j_budget j) = None"

lemma steady_go: "steady f j \<Longrightarrow> \<not> stopping False j \<and> \<not> signalled c j"
  by (simp add: steady_def stopping_def signalled_def split: call.split)

lemma begin_call_steady:
  assumes "steady f j" "0 \<le> now"
  shows "begin_call False now c j = attempt_call False c 1 j"
  using assms by (simp add: begin_call_def steady_def remaining_backoff_def Let_def MAX_RETRY_WAIT_MS_def)

lemma forget_steady [simp]: "steady f j \<Longrightarrow> forget_backoff j = j"
  by (cases j) (simp add: steady_def forget_backoff_def)

lemma steady_frame:
  assumes "steady f j" "j_pauseRequested j' = j_pauseRequested j" "j_cancellationPending j' = j_cancellationPending j"
    "j_aborted j' = j_aborted j" "j_runFile j' = j_runFile j" "j_budget j' = j_budget j"
  shows "steady f j'"
  using assms by (simp add: steady_def)


section \<open>The chunks\<close>

text \<open>The chunk \<open>i\<close> is on its way and all before it are held.\<close>

definition at_chunk :: "client_file \<Rightarrow> client_session \<Rightarrow> int \<Rightarrow> job \<Rightarrow> bool" where
  "at_chunk f s i j \<longleftrightarrow> steady f j \<and> j_session j = Some s \<and> j_await j = Flight (CallChunk i) 1 \<and> set (j_accepted j) = {0..<i}"

lemma next_index_first: "i < n \<Longrightarrow> i \<notin> set acc \<Longrightarrow> next_index acc i n = Some i"
  by (subst next_index.simps) simp

lemma next_index_end: "n \<le> i \<Longrightarrow> next_index acc i n = None"
  by (subst next_index.simps) simp

lemma send_next:
  assumes "steady f j" "j_session j = Some s" "0 \<le> now" "set (j_accepted j) = {0..<i}" "i < cs_totalChunks s"
  shows "send_from False now i j = (j\<lparr>j_state := QUploading, j_await := Flight (CallChunk i) 1\<rparr>,
      [PostChunk (cs_uploadId s) i (chunk_bytes_of s f i)], False)"
proof -
  let ?j = "j\<lparr>j_state := QUploading\<rparr>"
  have st: "steady f ?j" by (rule steady_frame [OF assms(1)]) simp_all
  have "next_index (j_accepted j) i (cs_totalChunks s) = Some i" using assms(4,5) by (intro next_index_first) simp_all
  then have "send_from False now i j = begin_call False now (CallChunk i) ?j"
    using assms(2) steady_go [OF assms(1)] by (simp add: send_from_def)
  also have "\<dots> = attempt_call False (CallChunk i) 1 ?j" by (rule begin_call_steady [OF st assms(3)])
  also have "\<dots> = (j\<lparr>j_state := QUploading, j_await := Flight (CallChunk i) 1\<rparr>, [PostChunk (cs_uploadId s) i (chunk_bytes_of s f i)], False)"
    using steady_go [OF st, of "CallChunk i"] assms(1,2) by (cases j) (simp add: attempt_call_def steady_def)
  finally show ?thesis .
qed

lemma send_end:
  assumes "steady f j" "j_session j = Some s" "0 \<le> now" "cs_totalChunks s \<le> i"
  shows "send_from False now i j = (j\<lparr>j_state := QCompleting, j_await := Flight CallComplete 1\<rparr>, [PostComplete (cs_uploadId s)], False)"
proof -
  let ?j = "j\<lparr>j_state := QCompleting\<rparr>"
  have st: "steady f ?j" by (rule steady_frame [OF assms(1)]) simp_all
  have "send_from False now i j = begin_call False now CallComplete ?j"
    using assms(2) steady_go [OF assms(1)] next_index_end [OF assms(4)] by (simp add: send_from_def)
  also have "\<dots> = attempt_call False CallComplete 1 ?j" by (rule begin_call_steady [OF st assms(3)])
  also have "\<dots> = (j\<lparr>j_state := QCompleting, j_await := Flight CallComplete 1\<rparr>, [PostComplete (cs_uploadId s)], False)"
    using steady_go [OF st, of CallComplete] assms(2) by (cases j) (simp add: attempt_call_def session_upload_def)
  finally show ?thesis .
qed

definition chunk_held :: "client_session \<Rightarrow> client_file \<Rightarrow> int \<Rightarrow> job \<Rightarrow> job" where
  "chunk_held s f i j = j\<lparr>j_accepted := i # j_accepted j, j_committed := j_committed j + int (length (chunk_bytes_of s f i))\<rparr>"

lemma chunk_answered:
  assumes "at_chunk f s i j"
  shows "job_answer env False now AOk j = send_from False now (i + 1) (chunk_held s f i j)"
  using assms by (simp add: at_chunk_def job_answer_def call_done_def chunk_held_def steady_def Let_def)

lemma chunk_held_fields:
  assumes "at_chunk f s i j" "0 \<le> i" "\<not> j_pumpAfter j"
  shows "steady f (chunk_held s f i j)" "j_session (chunk_held s f i j) = Some s" "set (j_accepted (chunk_held s f i j)) = {0..<i + 1}"
    "same_row j (chunk_held s f i j)"
  using assms by (auto simp: at_chunk_def chunk_held_def steady_def same_row_def)

lemma chunks_answered:
  assumes "at_chunk f s i j" "0 \<le> i" "i + int (length ts) + 1 = cs_totalChunks s" "\<forall>t \<in> set ts. 0 \<le> t" "\<not> j_pumpAfter j"
  shows "\<exists>j'. answers env (map (\<lambda>t. (t, AOk)) ts) j
            = (j', map (\<lambda>m. PostChunk (cs_uploadId s) m (chunk_bytes_of s f m)) [i + 1..i + int (length ts)], False)
          \<and> at_chunk f s (i + int (length ts)) j' \<and> same_row j j'"
  using assms
proof (induction ts arbitrary: i j)
  case Nil
  then show ?case by (simp add: same_row_def)
next
  case (Cons t ts)
  note c = chunk_held_fields [OF Cons.prems(1,2,5)]
  let ?j = "(chunk_held s f i j)\<lparr>j_state := QUploading, j_await := Flight (CallChunk (i + 1)) 1\<rparr>"
  have step: "job_answer env False t AOk j = (?j, [PostChunk (cs_uploadId s) (i + 1) (chunk_bytes_of s f (i + 1))], False)"
    using send_next [OF c(1,2) _ c(3), of t] Cons.prems chunk_answered [OF Cons.prems(1)] by simp
  have at: "at_chunk f s (i + 1) ?j" using c by (simp add: at_chunk_def steady_def)
  have "i + 1 + int (length ts) + 1 = cs_totalChunks s" "\<forall>t \<in> set ts. 0 \<le> t" "0 \<le> i + 1" using Cons.prems by simp_all
  then obtain j' where j': "answers env (map (\<lambda>t. (t, AOk)) ts) ?j
        = (j', map (\<lambda>m. PostChunk (cs_uploadId s) m (chunk_bytes_of s f m)) [i + 1 + 1..i + 1 + int (length ts)], False)"
      "at_chunk f s (i + 1 + int (length ts)) j'" "same_row ?j j'"
    using Cons.IH [OF at] Cons.prems(5) by (auto simp: chunk_held_def)
  have "same_row j ?j" using c(4) by (simp add: same_row_def)
  moreover have "[i + 1..i + int (length (t # ts))] = (i + 1) # [i + 1 + 1..i + 1 + int (length ts)]"
    by (simp add: upto_rec1 add.assoc)
  moreover have e: "i + int (length (t # ts)) = i + 1 + int (length ts)" by simp
  ultimately show ?case using step j' same_row_trans unfolding e by (auto simp: same_row_def)
qed


section \<open>The creation of the session\<close>

definition whole_hash :: "queue_env \<Rightarrow> client_limits \<Rightarrow> client_file \<Rightarrow> ustring option" where
  "whole_hash env l f = (if cl_wholeSha256Required l \<or> cl_ssd l then Some (qe_sha env (cf_bytes f)) else None)"

definition fair_limits :: "client_limits \<Rightarrow> client_file \<Rightarrow> bool" where
  "fair_limits l f \<longleftrightarrow> safe_integer (cl_effectiveMaxFileBytes l) \<and> cf_size f \<le> cl_effectiveMaxFileBytes l
     \<and> safe_integer (cl_maxChunkBytes l) \<and> 0 < cl_maxChunkBytes l \<and> safe_integer (cl_maxChunks l) \<and> 0 < cl_maxChunks l"

definition chosen_size :: "client_limits \<Rightarrow> client_file \<Rightarrow> int" where
  "chosen_size l f = min (cl_maxChunkBytes l) (max UPLOAD_CHUNK_SIZE (ceil_div (cf_size f) (cl_maxChunks l)))"

text \<open>A row that has no session yet.\<close>

definition fresh_row :: "client_file \<Rightarrow> nat option \<Rightarrow> job \<Rightarrow> bool" where
  "fresh_row f parent j \<longleftrightarrow> steady f j \<and> j_file j = Some f \<and> j_uploadId j = None \<and> \<not> j_verifyCommitted j \<and> j_parentId j = parent"

lemma fingerprint_answered:
  assumes "fresh_row f parent j" "j_await j = AtFingerprint" "0 \<le> now"
  shows "job_answer env False now ADone j
    = (j\<lparr>j_fingerprint := sampleFingerprint env f, j_await := Flight CallLimits 1\<rparr>, [GetLimits], False)"
proof -
  let ?j = "j\<lparr>j_fingerprint := sampleFingerprint env f\<rparr>"
  have st: "steady f ?j" using assms(1) by (simp add: fresh_row_def steady_def)
  have "job_answer env False now ADone j = begin_call False now CallLimits ?j"
    using assms steady_go [OF st] by (simp add: job_answer_def fingerprint_done_def fresh_row_def steady_def Let_def)
  also have "\<dots> = attempt_call False CallLimits 1 ?j" by (rule begin_call_steady [OF st assms(3)])
  finally show ?thesis using steady_go [OF st, of CallLimits] by (simp add: attempt_call_def)
qed

definition creating :: "int \<Rightarrow> job \<Rightarrow> job" where
  "creating sz j = j\<lparr>j_await := Flight (CallCreate sz) 1, j_creationUncertain := True\<rparr>"

lemma create_sent:
  assumes "fresh_row f parent j" "0 \<le> now"
  shows "begin_call False now (CallCreate sz) j
    = (creating sz j, [PostSession (cf_name f) (cf_size f) sz (j_expectedSha256 j) parent], False)"
proof -
  have st: "steady f j" "j_runFile j = f" "j_parentId j = parent" using assms(1) by (simp_all add: fresh_row_def steady_def)
  show ?thesis
    using begin_call_steady [OF st(1) assms(2)] steady_go [OF st(1), of "CallCreate sz"] st(2,3)
    by (simp add: attempt_call_def creating_def)
qed

lemma limits_answered:
  assumes "fresh_row f parent j" "j_await j = Flight CallLimits 1" "0 \<le> now" "fair_limits l f"
    "ceil_div (cf_size f) (chosen_size l f) \<le> cl_maxChunks l"
  shows "job_answer env False now (ALimits l) j
    = (if cl_wholeSha256Required l \<or> cl_ssd l
       then (j\<lparr>j_state := QHashing, j_await := AtHash (BeforeCreate (chosen_size l f)) f\<rparr>, [], False)
       else (creating (chosen_size l f) j, [PostSession (cf_name f) (cf_size f) (chosen_size l f) (j_expectedSha256 j) parent], False))"
proof -
  have st: "steady f j" "j_runFile j = f" "j_file j = Some f" using assms(1) by (simp_all add: fresh_row_def steady_def)
  have "job_answer env False now (ALimits l) j = limits_done False now l j"
    using assms(2) st(1) by (simp add: job_answer_def call_done_def Let_def)
  then show ?thesis
    using assms(4,5) steady_go [OF st(1)] create_sent [OF assms(1,3)] st(2,3)
    unfolding limits_done_def fair_limits_def chosen_size_def Let_def begin_hash_def by simp
qed

lemma hash_answered:
  assumes "fresh_row f parent j" "j_await j = AtHash (BeforeCreate sz) f" "0 \<le> now" "j_expectedSha256 j = None"
  shows "job_answer env False now ADone j
    = (creating sz (j\<lparr>j_expectedSha256 := Some (qe_sha env (cf_bytes f)), j_hashVerifiedFile := Some f\<rparr>),
       [PostSession (cf_name f) (cf_size f) sz (Some (qe_sha env (cf_bytes f))) parent], False)"
proof -
  let ?j = "j\<lparr>j_expectedSha256 := Some (qe_sha env (cf_bytes f)), j_hashVerifiedFile := Some f\<rparr>"
  have fr: "fresh_row f parent ?j" using assms(1) by (simp add: fresh_row_def steady_def)
  have "\<not> stopping False ?j" "\<not> j_aborted j" using fr by (simp_all add: fresh_row_def steady_def stopping_def)
  then have "job_answer env False now ADone j = begin_call False now (CallCreate sz) ?j"
    using assms(2,4) by (simp add: job_answer_def hash_done_def Let_def)
  then show ?thesis using create_sent [OF fr assms(3)] by simp
qed

text \<open>The answers before the session, and the row that they leave.\<close>

definition prelude_answers :: "client_limits \<Rightarrow> rat \<Rightarrow> rat \<Rightarrow> rat \<Rightarrow> (rat \<times> answer) list" where
  "prelude_answers l t1 t2 t3 = [(t1, ADone), (t2, ALimits l)] @ (if cl_wholeSha256Required l \<or> cl_ssd l then [(t3, ADone)] else [])"

lemma prelude_answered:
  assumes "fresh_row f parent j" "j_await j = AtFingerprint" "0 \<le> t1" "0 \<le> t2" "0 \<le> t3" "fair_limits l f"
    "ceil_div (cf_size f) (chosen_size l f) \<le> cl_maxChunks l" "j_expectedSha256 j = None" "\<not> j_pumpAfter j"
  shows "\<exists>j'. answers env (prelude_answers l t1 t2 t3) j
       = (j', [GetLimits, PostSession (cf_name f) (cf_size f) (chosen_size l f) (whole_hash env l f) parent], False)
     \<and> fresh_row f parent j' \<and> j_await j' = Flight (CallCreate (chosen_size l f)) 1 \<and> same_row j j'"
proof -
  let ?j1 = "j\<lparr>j_fingerprint := sampleFingerprint env f, j_await := Flight CallLimits 1\<rparr>"
  let ?sz = "chosen_size l f"
  have f1: "fresh_row f parent ?j1" using assms(1) by (simp add: fresh_row_def steady_def)
  note a1 = fingerprint_answered [OF assms(1-3), of env]
  note a2 = limits_answered [OF f1 _ assms(4,6,7), of env]
  show ?thesis
  proof (cases "cl_wholeSha256Required l \<or> cl_ssd l")
    case True
    let ?j2 = "?j1\<lparr>j_state := QHashing, j_await := AtHash (BeforeCreate ?sz) f\<rparr>"
    have f2: "fresh_row f parent ?j2" using f1 by (simp add: fresh_row_def steady_def)
    note a3 = hash_answered [OF f2 _ assms(5), of ?sz env]
    show ?thesis using True a1 a2 a3 assms(8,9) f2
      by (simp add: prelude_answers_def whole_hash_def creating_def fresh_row_def steady_def same_row_def)
  next
    case False
    then show ?thesis using a1 a2 assms(8,9) f1
      by (simp add: prelude_answers_def whole_hash_def creating_def fresh_row_def steady_def same_row_def)
  qed
qed

lemma session_answered:
  assumes "fresh_row f parent j" "j_await j = Flight (CallCreate sz) 1" "0 \<le> now" "0 < ceil_div (cf_size f) sz" "\<not> j_pumpAfter j"
  shows "\<exists>j' s'. job_answer env False now (ASession s) j = (j', [PostChunk (cs_uploadId s) 0 (chunk_bytes_of s' f 0)], False)
     \<and> at_chunk f s' 0 j' \<and> same_row j j' \<and> cs_uploadId s' = cs_uploadId s \<and> cs_chunkSize s' = sz
     \<and> cs_totalChunks s' = ceil_div (cf_size f) sz"
proof -
  let ?s = "s\<lparr>cs_filename := cf_name f, cs_totalSize := cf_size f, cs_chunkSize := sz, cs_totalChunks := ceil_div (cf_size f) sz,
      cs_uploadedSize := 0, cs_chunks := Some [], cs_parentId := parent\<rparr>"
  let ?j = "j\<lparr>j_creationUncertain := False, j_uploadId := Some (cs_uploadId s), j_session := Some ?s\<rparr>"
  let ?j1 = "?j\<lparr>j_accepted := []\<rparr>"
  have st: "steady f j" "steady f ?j1" "j_runFile j = f" "j_parentId j = parent" "\<not> j_verifyCommitted j"
    using assms(1) by (simp_all add: fresh_row_def steady_def)
  have go: "\<not> stopping False ?j" using assms(1) by (simp add: fresh_row_def steady_def stopping_def)
  have "job_answer env False now (ASession s) j = create_done False now sz s j"
    using assms(2) st(1) by (simp add: job_answer_def call_done_def Let_def)
  also have "\<dots> = enter_session False now ?j" using st(3,4) by (simp add: create_done_def Let_def)
  also have "\<dots> = start_sending False now ?j" using go st(5) by (simp add: enter_session_def)
  also have "\<dots> = send_from False now 0 ?j1" by (simp add: start_sending_def session_parts_def)
  also have "\<dots> = (?j1\<lparr>j_state := QUploading, j_await := Flight (CallChunk 0) 1\<rparr>, [PostChunk (cs_uploadId ?s) 0 (chunk_bytes_of ?s f 0)], False)"
    by (rule send_next [OF st(2) _ assms(3)]) (use assms(4) in simp_all)
  finally have r: "job_answer env False now (ASession s) j = \<dots>" .
  have "at_chunk f ?s 0 (?j1\<lparr>j_state := QUploading, j_await := Flight (CallChunk 0) 1\<rparr>)"
    using st(2) by (simp add: at_chunk_def steady_def)
  then show ?thesis using r
    by (intro exI [of _ "?j1\<lparr>j_state := QUploading, j_await := Flight (CallChunk 0) 1\<rparr>"] exI [of _ ?s]) (simp add: same_row_def assms(5))
qed


section \<open>The completion\<close>

lemma last_chunk_answered:
  assumes "at_chunk f s i j" "0 \<le> i" "cs_totalChunks s = i + 1" "0 \<le> now" "\<not> j_pumpAfter j"
  shows "\<exists>j'. job_answer env False now AOk j = (j', [PostComplete (cs_uploadId s)], False) \<and> steady f j'
     \<and> j_await j' = Flight CallComplete 1 \<and> same_row j j'"
proof -
  note c = chunk_held_fields [OF assms(1,2,5)]
  show ?thesis using chunk_answered [OF assms(1), of env now] send_end [OF c(1,2) assms(4), of "i + 1"] assms(3) c(1,4)
    by (simp add: steady_def same_row_def)
qed

lemma file_answered:
  assumes "steady f j" "j_await j = Flight CallComplete 1"
  shows "job_answer env False now (AFile n) j = ((complete_job n (cf_size f) j)\<lparr>j_await := Ended\<rparr>, [], False)"
  using assms by (simp add: job_answer_def call_done_def steady_def Let_def)


section \<open>The bytes\<close>

lemma chunk_bytes_at:
  assumes "0 < cs_chunkSize s"
  shows "chunk_bytes_of s f (int m) = take (nat (cs_chunkSize s)) (drop (m * nat (cs_chunkSize s)) (cf_bytes f))"
proof -
  obtain z where z: "cs_chunkSize s = int z" using assms by (metis zero_less_imp_eq_int)
  have start: "int m * cs_chunkSize s = int (m * z)" by (simp add: z)
  have "nat (min (int (m * z) + int z) (cf_size f) - int (m * z)) = min z (length (cf_bytes f) - m * z)"
    unfolding cf_size_def by linarith
  then show ?thesis unfolding chunk_bytes_of_def file_slice_def Let_def start by (simp add: z min_def del: of_nat_mult)
qed

lemma chunks_make_the_file:
  assumes "0 < cs_chunkSize s" "length (cf_bytes f) \<le> n * nat (cs_chunkSize s)"
  shows "concat (map (\<lambda>m. chunk_bytes_of s f (int m)) [0..<n]) = cf_bytes f"
proof -
  have "concat (map (\<lambda>m. chunk_bytes_of s f (int m)) [0..<n]) = take (n * nat (cs_chunkSize s)) (cf_bytes f)" for n
  proof (induction n)
    case (Suc n)
    have "n * nat (cs_chunkSize s) + nat (cs_chunkSize s) = Suc n * nat (cs_chunkSize s)" by simp
    then show ?case using Suc chunk_bytes_at [OF assms(1), of f n] take_add [of "n * nat (cs_chunkSize s)" "nat (cs_chunkSize s)" "cf_bytes f"]
      by (simp add: add.commute)
  qed simp
  then show ?thesis using assms(2) by simp
qed

end
