(* ===== verification/QueueClaims.thy ===== *)
theory QueueClaims
  imports QueueInv QueueTrip UploadTrip
begin

text \<open>
  Properties of the upload queue over every history of page events, answers and timers, and the run of an
  upload that nothing disturbs.
\<close>

section \<open>The slots\<close>

text \<open>C13: After every history of the queue at most two runs hold a slot, the number of slots in use is that of the busy rows
  and of the dismissed runs that have not ended, the rows have different names, a row is busy exactly while its
  run awaits something, and a disposed queue has only rows that are finished, paused or being cancelled.\<close>

theorem queue_histories_keep_slots:
  "let q = queue_run env evs empty_queue in
     q_active q = length (filter j_busy (q_jobs q)) + q_detached q \<and> q_active q \<le> 2 \<and> distinct (map j_id (q_jobs q))
     \<and> list_all (\<lambda>j. j_busy j = run_place (j_await j)) (q_jobs q)
     \<and> list_all (\<lambda>j. terminal j \<or> j_pauseRequested j \<or> j_cancellationPending j) (if q_disposed q then q_jobs q else [])"
proof -
  have "queue_inv env (refused env evs) (queue_run env evs empty_queue)" by (rule queue_run_inv)
  then show ?thesis by (simp add: queue_inv_def job_inv_def CONCURRENT_FILES_def list_all_iff Let_def)
qed

text \<open>C6: In every history the queue sends a creation of a session for a row at most once more than the server has
  definitely refused that row's creation: only an answer to the creation in flight counts, and only one that
  cannot have left a session behind.  Whatever is paused, resumed, cancelled, chosen again or discovered in
  between, a creation whose answer was lost is never repeated.\<close>

theorem queue_creates_once:
  "length (filter (\<lambda>p. fst p = k \<and> is_create (snd p)) (q_log (queue_run env evs empty_queue))) \<le> Suc (refused env evs k)"
  using queue_run_inv [of env evs] by (simp add: queue_inv_def creates_def)


section \<open>What is sent\<close>

lemma new_work:
  assumes "q_log q' = q_log q @ new" "no_work q' q''" "p \<in> set (drop (length (q_log q)) (q_log q''))"
    "is_create (snd p) \<or> is_chunk (snd p)"
  shows "p \<in> set new"
  using assms by (fastforce simp: no_work_def)

lemma apply_step_log: "\<exists>more. q_log (apply_step (j, rs, d) q) = q_log q @ map (Pair (j_id j)) rs @ more \<and> set more \<subseteq> {([], ListSessions)}"
  by (cases d) (auto simp: apply_step_def discover_def send_requests_def Let_def)

lemma apply_step_work:
  assumes "no_work (apply_step (j, rs, d) q) q'" "p \<in> set (drop (length (q_log q)) (q_log q'))"
    "is_create (snd p) \<or> is_chunk (snd p)"
  shows "fst p = j_id j \<and> snd p \<in> set rs"
proof -
  obtain more where m: "q_log (apply_step (j, rs, d) q) = q_log q @ map (Pair (j_id j)) rs @ more" "set more \<subseteq> {([], ListSessions)}"
    using apply_step_log [of j rs d q] by blast
  then show ?thesis using new_work [OF m(1) assms] m(2) assms(3) by auto
qed

lemma get_apply_step: "get_job (j_id j) q \<noteq> None \<Longrightarrow> get_job (j_id j) (apply_step (j, rs, d) q) = Some j"
  using get_put_job [of "j_id j" j q] by (cases d) (auto simp: apply_step_def discover_def send_requests_def Let_def get_job_def)

lemma answered_work:
  assumes "queue_inv env g q" "get_job k q = Some j"
    "p \<in> set (drop (length (q_log q)) (q_log (job_answered env now a j q)))" "is_create (snd p) \<or> is_chunk (snd p)"
  shows "fst p = k \<and> \<not> stopping (q_disposed q) j \<and> (is_chunk (snd p) \<longrightarrow> (\<exists>j' rs. get_job k (job_answered env now a j q) = Some j'
     \<and> place_inv env j' \<and> in_flight j' rs \<and> snd p \<in> set rs))"
proof -
  note inv = job_inv_of [OF assms(1,2)]
  obtain j1 rs d where r: "job_answer env (q_disposed q) now a j = (j1, rs, d)" by (cases "job_answer env (q_disposed q) now a j")
  have p: "step_post env (q_disposed q) (rejections j a) j (j1, rs, d)" using job_answer_post [of env "q_disposed q" j a now] inv r by simp
  then have id: "j_id j1 = k" using inv by (simp add: step_post_def)
  define pumped where "pumped \<longleftrightarrow> j_pumpAfter j1 \<and> j_await j1 = Idle"
  let ?j = "if pumped then j1\<lparr>j_pumpAfter := False\<rparr> else j1"
  have ans: "job_answered env now a j q = (if pumped then pump now (apply_step (?j, rs, d) q) else apply_step (?j, rs, d) q)"
    using r by (simp add: job_answered_def pumped_def)
  have post: "step_post env (q_disposed q) (rejections j a) j (?j, rs, d)"
    using p step_post_pump [OF p] by (simp add: pumped_def run_place_def)
  have idj: "j_id ?j = k" using id by simp
  have qi: "queue_inv env (g(k := g k + rejections j a)) (apply_step (?j, rs, d) q)"
    using apply_step_inv [OF assms(1) _ post] assms(2) inv by simp
  have "no_work (apply_step (?j, rs, d) q) (job_answered env now a j q)"
    using pump_inv [OF qi, of now] unfolding ans by (cases pumped) simp_all
  then have here: "fst p = k" "snd p \<in> set rs" using apply_step_work [OF _ assms(3,4)] idj by simp_all
  have "\<not> stopping (q_disposed q) j" using post here(2) assms(4) unfolding step_post_def by blast
  moreover have "\<exists>j' rs. get_job k (job_answered env now a j q) = Some j' \<and> place_inv env j' \<and> in_flight j' rs \<and> snd p \<in> set rs"
    if chunk: "is_chunk (snd p)"
  proof -
    have fl: "in_flight ?j rs" using post here(2) by (auto simp: step_post_def)
    then have "\<not> pumped" using chunk here(2) by (cases "snd p") (auto simp: in_flight_def pumped_def)
    then have "get_job k (job_answered env now a j q) = Some ?j"
      using ans get_apply_step [of ?j q rs d] assms(2) idj by simp
    moreover have "place_inv env ?j" using post by (simp add: step_post_def job_inv_def)
    ultimately show ?thesis using fl here(2) by blast
  qed
  ultimately show ?thesis using here(1) by blast
qed

text \<open>C5: A step of the queue sends a chunk or the creation of a session only for a row that was answered and is neither paused
  nor cancelled, on a queue that is not disposed.  The chunk is the part of the file of the run that its index
  names, for the session of the row; the server is not known to hold it; and every part that the server is
  known to hold has the digest of that part of the same file.\<close>

theorem queue_sends_verified_parts:
  assumes "(k, r) \<in> set (drop (length (q_log q)) (q_log (queue_step env e q)))" "is_create r \<or> is_chunk r"
    and "q = queue_run env evs empty_queue"
  shows "\<exists>a j. snd e = Answer k a \<and> get_job k q = Some j \<and> \<not> j_pauseRequested j \<and> \<not> j_cancellationPending j \<and> \<not> q_disposed q
     \<and> (case r of PostChunk u i b \<Rightarrow>
          (\<exists>j' s. get_job k (queue_step env e q) = Some j' \<and> j_session j' = Some s \<and> u = cs_uploadId s
             \<and> b = chunk_bytes_of s (j_runFile j') i \<and> i \<notin> set (j_accepted j')
             \<and> (\<forall>c \<in> set (session_parts j'). sc_index c \<in> set (j_accepted j')
                  \<and> qe_sha env (chunk_bytes_of s (j_runFile j') (sc_index c)) = map ascii_lower (sc_sha256 c)))
        | _ \<Rightarrow> True)"
proof -
  have inv: "queue_inv env (refused env evs) q" using queue_run_inv assms(3) by simp
  obtain now ev where e: "e = (now, ev)" by (cases e)
  have "\<not> no_work q (queue_step env e q)" using assms(1,2) by (fastforce simp: no_work_def)
  then have "is_answer ev" using queue_step_inv [OF inv, of e] e by simp
  then obtain k' a where a: "ev = Answer k' a" by (cases ev) simp_all
  then obtain j where j: "get_job k' q = Some j" using assms(1) e by (cases "get_job k' q") simp_all
  then have step: "queue_step env e q = job_answered env now a j q" using e a by simp
  have w: "k = k' \<and> \<not> stopping (q_disposed q) j \<and> (is_chunk r \<longrightarrow> (\<exists>j' rs. get_job k' (queue_step env e q) = Some j'
     \<and> place_inv env j' \<and> in_flight j' rs \<and> r \<in> set rs))"
    using answered_work [OF inv j, of "(k, r)" now a] assms(1,2) step by simp
  have "case r of PostChunk u i b \<Rightarrow>
          (\<exists>j' s. get_job k (queue_step env e q) = Some j' \<and> j_session j' = Some s \<and> u = cs_uploadId s
             \<and> b = chunk_bytes_of s (j_runFile j') i \<and> i \<notin> set (j_accepted j')
             \<and> (\<forall>c \<in> set (session_parts j'). sc_index c \<in> set (j_accepted j')
                  \<and> qe_sha env (chunk_bytes_of s (j_runFile j') (sc_index c)) = map ascii_lower (sc_sha256 c)))
        | _ \<Rightarrow> True"
  proof (cases r)
    case (PostChunk u i b)
    then obtain j' rs where j': "get_job k (queue_step env e q) = Some j'" "place_inv env j'" "in_flight j' rs" "PostChunk u i b \<in> set rs"
      using w by auto
    then obtain n s where s: "j_await j' = Flight (CallChunk i) n" "j_session j' = Some s" "u = cs_uploadId s"
      "b = chunk_bytes_of s (j_runFile j') i"
      unfolding in_flight_def by blast
    then have "sending env j'" "i \<notin> set (j_accepted j')" using j'(2) by (simp_all add: place_inv_def call_inv_def)
    then show ?thesis using PostChunk j'(1) s by (auto simp: sending_def verified_def)
  qed simp_all
  then show ?thesis using w a e j by (auto simp: stopping_def)
qed

text \<open>A file of five bytes in chunks of two.\<close>

definition page_env :: queue_env where
  "page_env = \<lparr>qe_sha = (\<lambda>b. replicate 64 (97 + length b mod 2)), qe_subtle = True,
     qe_retry = \<lparr>rt_aborted = (\<lambda>t. False), rt_random = (\<lambda>n. 0), rt_date = (\<lambda>t. None)\<rparr>\<rparr>"

definition page_file :: client_file where
  "page_file = \<lparr>cf_handle = 1, cf_name = js ''a'', cf_bytes = [1, 2, 3, 4, 5]\<rparr>"

definition page_limits :: client_limits where
  "page_limits = \<lparr>cl_effectiveMaxFileBytes = 100, cl_maxChunkBytes = 2, cl_maxChunks = 10, cl_wholeSha256Required = False, cl_ssd = False\<rparr>"

definition page_session :: client_session where
  "page_session = \<lparr>cs_uploadId = js ''u'', cs_filename = js ''a'', cs_totalSize = 5, cs_chunkSize = 2, cs_totalChunks = 3,
     cs_uploadedSize = 0, cs_parentId = None, cs_status = js ''pending'', cs_chunks = None, cs_file = None\<rparr>"

definition page_events :: "(rat \<times> queue_event) list" where
  "page_events = [(1, Enqueue [page_file] None True), (2, Answer (local_id 1 1) ADone), (3, Answer (local_id 1 1) (ALimits page_limits)),
     (4, Answer (local_id 1 1) (ASession page_session))]"

theorem queue_sends_verified_parts_witness:
  "\<exists>a j. Answer (local_id 1 1) AOk = Answer (local_id 1 1) a \<and> get_job (local_id 1 1) (queue_run page_env page_events empty_queue) = Some j
     \<and> \<not> j_pauseRequested j \<and> \<not> j_cancellationPending j"
proof -
  have new: "(local_id 1 1, PostChunk (js ''u'') 1 [3, 4]) \<in> set (drop (length (q_log (queue_run page_env page_events empty_queue)))
      (q_log (queue_step page_env (5, Answer (local_id 1 1) AOk) (queue_run page_env page_events empty_queue))))"
    by code_simp
  show ?thesis using queue_sends_verified_parts [OF new _ refl] by auto
qed


section \<open>An upload that nothing disturbs\<close>

lemma single_answers:
  assumes "answers env as j = (j', rs, False)" "q_jobs q = [j]" "\<not> q_disposed q" "j_id j = k"
  shows "queue_run env (map (\<lambda>(t, a). (t, Answer k a)) as) q = q\<lparr>q_jobs := [j'], q_log := q_log q @ map (Pair k) rs\<rparr>"
  using assms
proof (induction as arbitrary: j q rs)
  case Nil
  then show ?case by (cases q) (simp add: queue_run_def)
next
  case (Cons ta as)
  obtain now a where ta: "ta = (now, a)" by (cases ta)
  obtain j1 rs1 d where r: "job_answer env False now a j = (j1, rs1, d)" by (cases "job_answer env False now a j")
  obtain j2 rs2 d2 where r2: "answers env as j1 = (j2, rs2, d2)" by (cases "answers env as j1")
  have c: "\<not> d" "\<not> j_pumpAfter j1" "j_id j1 = k" "\<not> d2" "j2 = j'" "rs = rs1 @ rs2"
    using Cons.prems(1,4) by (simp_all add: ta r r2)
  let ?q = "q\<lparr>q_jobs := [j1], q_log := q_log q @ map (Pair k) rs1\<rparr>"
  have "get_job k q = Some j" using Cons.prems by (simp add: get_job_def)
  then have "queue_step env (now, Answer k a) q = ?q"
    using Cons.prems c r by (cases q) (simp add: job_answered_def apply_step_def send_requests_def put_job_def Let_def)
  moreover have "queue_run env (map (\<lambda>(t, a). (t, Answer k a)) as) ?q = ?q\<lparr>q_jobs := [j'], q_log := q_log ?q @ map (Pair k) rs2\<rparr>"
    by (rule Cons.IH) (use c r2 Cons.prems(3) in simp_all)
  ultimately show ?case using c by (simp add: queue_run_def ta)
qed

definition first_row :: "rat \<Rightarrow> nat option \<Rightarrow> client_file \<Rightarrow> job" where
  "first_row t parent f = (new_job (local_id t 1) parent True f)\<lparr>j_busy := True, j_aborted := False, j_state := QPreparing, j_runFile := f,
     j_await := AtFingerprint\<rparr>"

lemma first_enqueue:
  assumes "safe_integer (cf_size f)" "0 < cf_size f"
  shows "queue_step env (t, Enqueue [f] parent True) empty_queue
    = empty_queue\<lparr>q_jobs := [first_row t parent f], q_sequence := 1, q_active := 1\<rparr>"
  using assms
  by (simp add: enqueue_def empty_queue_def set_job_def get_job_def new_job_def Let_def pump_def CONCURRENT_FILES_def startable_def
      start_job_def begin_run_def apply_step_def send_requests_def put_job_def first_row_def)

lemma first_row_fresh: "fresh_row f parent (first_row t parent f) \<and> j_await (first_row t parent f) = AtFingerprint
    \<and> j_expectedSha256 (first_row t parent f) = None \<and> \<not> j_pumpAfter (first_row t parent f) \<and> j_id (first_row t parent f) = local_id t 1
    \<and> j_size (first_row t parent f) = cf_size f"
  by (simp add: first_row_def new_job_def fresh_row_def steady_def Let_def)

text \<open>The events of a run: the limits, the session, the chunks and the stored file are answered in turn.\<close>

definition undisturbed :: "rat \<Rightarrow> rat \<Rightarrow> rat \<Rightarrow> rat \<Rightarrow> rat \<Rightarrow> rat list \<Rightarrow> rat \<Rightarrow> client_file \<Rightarrow> nat option \<Rightarrow> client_limits \<Rightarrow> client_session \<Rightarrow> nat
    \<Rightarrow> (rat \<times> queue_event) list" where
  "undisturbed t0 t1 t2 t3 t4 ts t5 f parent l s n =
     [(t0, Enqueue [f] parent True)]
     @ map (\<lambda>(t, a). (t, Answer (local_id t0 1) a))
         (prelude_answers l t1 t2 t3 @ [(t4, ASession s)] @ map (\<lambda>t. (t, AOk)) ts @ [(t5, AFile n)])
     @ [(t5, Finally (local_id t0 1))]"

lemma upto_int: "[1..int n] = map int [1..<Suc n]"
proof (induction n)
  case (Suc n)
  have "[1..int (Suc n)] = [1..int n] @ [int (Suc n)]" using upto_rec2 [of 1 "int (Suc n)"] by simp
  then show ?case using Suc by simp
qed simp

lemma chunk_requests:
  "PostChunk u 0 (c 0) # map (\<lambda>m. PostChunk u m (c m)) [1..int n]
     = map (\<lambda>(i, b). PostChunk u (int i) b) (enumerate 0 (map (\<lambda>i. c (int i)) [0..<Suc n]))"
proof -
  have "[0..<Suc n] = 0 # [1..<Suc n]" by (simp add: upt_rec)
  then show ?thesis unfolding upto_int enumerate_map_upt by (simp add: o_def)
qed

text \<open>What a row answers from the session to its end.\<close>

lemma session_to_end:
  assumes "fresh_row f parent j" "j_await j = Flight (CallCreate sz) 1" "\<not> j_pumpAfter j" "0 < cf_size f" "0 < sz"
    "length ts = nat (ceil_div (cf_size f) sz)" "0 \<le> t4" "\<forall>t \<in> set ts. 0 \<le> t"
  shows "\<exists>j' chunks. answers env ([(t4, ASession s)] @ map (\<lambda>t. (t, AOk)) ts @ [(t5, AFile n)]) j
       = (j', map (\<lambda>(i, b). PostChunk (cs_uploadId s) (int i) b) (enumerate 0 chunks) @ [PostComplete (cs_uploadId s)], False)
     \<and> concat chunks = cf_bytes f \<and> length chunks = length ts \<and> same_row j j' \<and> j_await j' = Ended \<and> j_state j' = QCompleted
     \<and> j_completedFile j' = Some n \<and> j_committed j' = cf_size f"
proof -
  note B = ceil_div_bounds [OF assms(4,5)]
  obtain us u where ts: "ts = us @ [u]" using B(1) assms(6) by (cases ts rule: rev_cases) auto
  have total: "ceil_div (cf_size f) sz = int (length us) + 1" using B(1) assms(6) ts by simp
  obtain j1 s' where j1: "job_answer env False t4 (ASession s) j = (j1, [PostChunk (cs_uploadId s) 0 (chunk_bytes_of s' f 0)], False)"
      "at_chunk f s' 0 j1" "same_row j j1" "cs_uploadId s' = cs_uploadId s" "cs_chunkSize s' = sz" "cs_totalChunks s' = int (length us) + 1"
    using session_answered [OF assms(1,2,7) _ assms(3), of env s] total by auto
  have p1: "\<not> j_pumpAfter j1" using j1(3) by (simp add: same_row_def)
  obtain j2 where j2: "answers env (map (\<lambda>t. (t, AOk)) us) j1
        = (j2, map (\<lambda>m. PostChunk (cs_uploadId s) m (chunk_bytes_of s' f m)) [1..int (length us)], False)"
      "at_chunk f s' (int (length us)) j2" "same_row j1 j2"
    using chunks_answered [OF j1(2) _ _ _ p1, of us env] j1(4,6) assms(8) ts by auto
  have p2: "\<not> j_pumpAfter j2" using j2(3) by (simp add: same_row_def)
  obtain j3 where j3: "job_answer env False u AOk j2 = (j3, [PostComplete (cs_uploadId s)], False)" "steady f j3"
      "j_await j3 = Flight CallComplete 1" "same_row j2 j3"
    using last_chunk_answered [OF j2(2) _ j1(6) _ p2, of u env] j1(4) assms(8) ts by auto
  let ?j = "(complete_job n (cf_size f) j3)\<lparr>j_await := Ended\<rparr>"
  have j4: "job_answer env False t5 (AFile n) j3 = (?j, [], False)" by (rule file_answered [OF j3(2,3)])
  have r4: "same_row j3 ?j" using j3(4) by (simp add: same_row_def complete_job_def)
  let ?chunks = "map (\<lambda>i. chunk_bytes_of s' f (int i)) [0..<Suc (length us)]"
  have "answers env ([(t4, ASession s)] @ map (\<lambda>t. (t, AOk)) us @ [(u, AOk)] @ [(t5, AFile n)]) j
      = (?j, [PostChunk (cs_uploadId s) 0 (chunk_bytes_of s' f 0)]
          @ map (\<lambda>m. PostChunk (cs_uploadId s) m (chunk_bytes_of s' f m)) [1..int (length us)] @ [PostComplete (cs_uploadId s)] @ [], False)"
    by (intro answers_append [OF answers_one [OF j1(1,3)]] answers_append [OF j2(1)] answers_append [OF answers_one [OF j3(1,4)]]
        answers_one [OF j4 r4])
  then have "answers env ([(t4, ASession s)] @ map (\<lambda>t. (t, AOk)) ts @ [(t5, AFile n)]) j
      = (?j, map (\<lambda>(i, b). PostChunk (cs_uploadId s) (int i) b) (enumerate 0 ?chunks) @ [PostComplete (cs_uploadId s)], False)"
    using chunk_requests [of "cs_uploadId s" "chunk_bytes_of s' f" "length us"] by (simp add: ts)
  moreover have "concat ?chunks = cf_bytes f"
  proof (rule chunks_make_the_file)
    obtain z where z: "sz = int z" using assms(5) by (metis zero_less_imp_eq_int)
    have "cf_size f \<le> int (length us + 1) * sz" using B(2) total by (simp add: add.commute)
    then show "length (cf_bytes f) \<le> Suc (length us) * nat (cs_chunkSize s')"
      unfolding j1(5) z cf_size_def nat_int by (simp only: of_nat_le_iff Suc_eq_plus1 flip: of_nat_mult)
  qed (use j1(5) assms(5) in simp)
  moreover have "same_row j ?j" using j1(3) j2(3) j3(4) r4 same_row_trans by blast
  ultimately show ?thesis by (intro exI [of _ ?j] exI [of _ ?chunks]) (simp add: complete_job_def ts)
qed

text \<open>C7: A file that is put into an empty queue and that nothing disturbs is uploaded: when the limits admit it and the server answers
  every request, the queue asks for the limits, creates one session with the size of a chunk that the limits give
  (and the digest of the file, where the server wants it), sends the chunks of the file in their order, which are
  the bytes of the file, completes the session, and the row is completed with the stored file and its slot is free.\<close>

theorem undisturbed_upload_is_sent:
  assumes "safe_integer (cf_size f)" "0 < cf_size f" "fair_limits l f" "ceil_div (cf_size f) (chosen_size l f) \<le> cl_maxChunks l"
    "length ts = nat (ceil_div (cf_size f) (chosen_size l f))" "\<forall>t \<in> set (t1 # t2 # t3 # t4 # ts). 0 \<le> t"
  shows "let q = queue_run env (undisturbed t0 t1 t2 t3 t4 ts t5 f parent l s n) empty_queue in
    (\<exists>chunks. map snd (q_log q) = [GetLimits, PostSession (cf_name f) (cf_size f) (chosen_size l f) (whole_hash env l f) parent]
         @ map (\<lambda>(i, b). PostChunk (cs_uploadId s) (int i) b) (enumerate 0 chunks) @ [PostComplete (cs_uploadId s)]
       \<and> concat chunks = cf_bytes f \<and> length chunks = length ts)
    \<and> map (\<lambda>j. (j_id j, j_state j, j_completedFile j, j_committed j)) (q_jobs q) = [(local_id t0 1, QCompleted, Some n, cf_size f)]
    \<and> q_active q = 0"
proof -
  let ?k = "local_id t0 1"
  let ?j0 = "first_row t0 parent f"
  let ?q0 = "empty_queue\<lparr>q_jobs := [?j0], q_sequence := 1, q_active := 1\<rparr>"
  note fr = first_row_fresh [of f parent t0]
  have pos: "0 < chosen_size l f" using assms(3) by (simp add: chosen_size_def fair_limits_def UPLOAD_CHUNK_SIZE_def)
  obtain j1 where j1: "answers env (prelude_answers l t1 t2 t3) ?j0
        = (j1, [GetLimits, PostSession (cf_name f) (cf_size f) (chosen_size l f) (whole_hash env l f) parent], False)"
      "fresh_row f parent j1" "j_await j1 = Flight (CallCreate (chosen_size l f)) 1" "same_row ?j0 j1"
    using prelude_answered [of f parent ?j0 t1 t2 t3 l env] fr assms(3,4,6) by auto
  obtain j2 chunks where j2: "answers env ([(t4, ASession s)] @ map (\<lambda>t. (t, AOk)) ts @ [(t5, AFile n)]) j1
        = (j2, map (\<lambda>(i, b). PostChunk (cs_uploadId s) (int i) b) (enumerate 0 chunks) @ [PostComplete (cs_uploadId s)], False)"
      "concat chunks = cf_bytes f" "length chunks = length ts" "same_row j1 j2" "j_await j2 = Ended" "j_state j2 = QCompleted"
      "j_completedFile j2 = Some n" "j_committed j2 = cf_size f"
    using session_to_end [OF j1(2,3) _ assms(2) pos assms(5), of t4 env s t5 n] j1(4) assms(6) by (auto simp: same_row_def)
  note all = answers_append [OF j1(1) j2(1)]
  have id2: "j_id j2 = ?k" "\<not> j_pumpAfter j2" using j1(4) j2(4) fr by (simp_all add: same_row_def)
  let ?rs = "[GetLimits, PostSession (cf_name f) (cf_size f) (chosen_size l f) (whole_hash env l f) parent]
     @ map (\<lambda>(i, b). PostChunk (cs_uploadId s) (int i) b) (enumerate 0 chunks) @ [PostComplete (cs_uploadId s)]"
  let ?q1 = "?q0\<lparr>q_jobs := [j2], q_log := map (Pair ?k) ?rs\<rparr>"
  have run: "queue_run env (map (\<lambda>(t, a). (t, Answer ?k a))
      (prelude_answers l t1 t2 t3 @ [(t4, ASession s)] @ map (\<lambda>t. (t, AOk)) ts @ [(t5, AFile n)])) ?q0 = ?q1"
    using single_answers [OF all, of ?q0 ?k] fr by (simp add: empty_queue_def)
  let ?j3 = "j2\<lparr>j_busy := False, j_aborted := False, j_await := Idle\<rparr>"
  have get: "get_job ?k ?q1 = Some j2" using id2 by (simp add: get_job_def)
  have "finish_run t5 j2 ?q1 = ?q1\<lparr>q_jobs := [?j3], q_active := 0\<rparr>"
    using id2 j2(6) by (simp add: finish_run_def Let_def pump_def put_job_def get_job_def startable_def empty_queue_def)
  then have last: "queue_step env (t5, Finally ?k) ?q1 = ?q1\<lparr>q_jobs := [?j3], q_active := 0\<rparr>"
    using get j2(5) by simp
  have "queue_run env (undisturbed t0 t1 t2 t3 t4 ts t5 f parent l s n) empty_queue = ?q1\<lparr>q_jobs := [?j3], q_active := 0\<rparr>"
    using first_enqueue [OF assms(1,2), of env t0 parent] run last by (simp add: undisturbed_def queue_run_def)
  then show ?thesis using j2 id2 by (auto simp: Let_def o_def)
qed

theorem undisturbed_upload_is_sent_witness:
  "let q = queue_run page_env (undisturbed 1 2 3 3 4 [5, 6, 7] 8 page_file None page_limits page_session 9) empty_queue in
    (\<exists>chunks. map snd (q_log q) = [GetLimits, PostSession (js ''a'') 5 2 None None]
         @ map (\<lambda>(i, b). PostChunk (js ''u'') (int i) b) (enumerate 0 chunks) @ [PostComplete (js ''u'')]
       \<and> concat chunks = [1, 2, 3, 4, 5] \<and> length chunks = 3)
    \<and> map (\<lambda>j. (j_id j, j_state j, j_completedFile j, j_committed j)) (q_jobs q) = [(local_id 1 1, QCompleted, Some 9, 5)]
    \<and> q_active q = 0"
proof -
  have size: "cf_size page_file = 5" "cf_name page_file = js ''a''" "cf_bytes page_file = [1, 2, 3, 4, 5]" "cs_uploadId page_session = js ''u''"
    by (simp_all add: page_file_def cf_size_def page_session_def)
  have sz: "chosen_size page_limits page_file = 2" by code_simp
  have c: "safe_integer 5" "fair_limits page_limits page_file" "ceil_div 5 2 = 3" "(3::int) \<le> cl_maxChunks page_limits"
    "whole_hash page_env page_limits page_file = None" by code_simp+
  show ?thesis
    using undisturbed_upload_is_sent [of page_file page_limits "[5, 6, 7]" 2 3 3 4 page_env 1 8 None page_session 9] c
    unfolding size sz by (simp add: numeral_3_eq_3)
qed


section \<open>Stored uploads\<close>

lemma saved_restored [simp]: "saved_of (restoredJob v) = v"
  by (simp add: saved_of_def restoredJob_def)

lemma restore_rows:
  "distinct (map sv_id vs) \<Longrightarrow> sv_id ` set vs \<inter> j_id ` set (q_jobs q) = {} \<Longrightarrow>
     foldl (\<lambda>q v. if validSaved v then set_job (restoredJob v) q else q) q vs = q\<lparr>q_jobs := q_jobs q @ map restoredJob (filter validSaved vs)\<rparr>"
proof (induction vs arbitrary: q)
  case (Cons v vs)
  have id: "j_id (restoredJob v) = sv_id v" by (simp add: restoredJob_def)
  have "get_job (sv_id v) q = None" using Cons.prems(2) by (simp add: get_job_None)
  then have "set_job (restoredJob v) q = q\<lparr>q_jobs := q_jobs q @ [restoredJob v]\<rparr>" by (simp add: set_job_def id)
  moreover have "sv_id ` set vs \<inter> j_id ` set (q_jobs q @ [restoredJob v]) = {}" using Cons.prems id by auto
  ultimately show ?case using Cons.IH Cons.prems by auto
qed simp

text \<open>What a page stores of its uploads comes back when the page is loaded again: a queue that is restored from stored
  uploads with different names has a paused row for each valid one, and stores exactly these again.\<close>

theorem stored_uploads_come_back:
  assumes "distinct (map sv_id vs)"
  shows "saved_uploads (restore vs) = filter validSaved vs
    \<and> list_all (\<lambda>j. j_pauseRequested j \<and> \<not> j_busy j \<and> j_verifyCommitted j \<and> j_file j = None) (q_jobs (restore vs))"
proof -
  have "restore vs = empty_queue\<lparr>q_jobs := map restoredJob (filter validSaved vs)\<rparr>"
    using restore_rows [OF assms, of empty_queue] by (simp add: restore_def empty_queue_def)
  moreover have "filter (\<lambda>j. j_uploadId j \<noteq> None \<and> \<not> terminal j) (map restoredJob us) = map restoredJob us" for us
    by (rule filter_True) (auto simp: restoredJob_def terminal_def)
  ultimately show ?thesis
    by (auto simp: saved_uploads_def list_all_iff o_def) (simp_all add: restoredJob_def)
qed

definition stored_upload :: "ustring \<Rightarrow> int \<Rightarrow> saved_upload" where
  "stored_upload k n = \<lparr>sv_id = k, sv_name = js ''a'', sv_size = 5, sv_parentId = None, sv_uploadId = k, sv_committedBytes = n,
     sv_expectedSha256 = None, sv_fingerprint = None, sv_notBefore = None, sv_cancellationPending = False\<rparr>"

theorem stored_uploads_come_back_witness:
  "saved_uploads (restore [stored_upload [1] 2, stored_upload [2] 6]) = [stored_upload [1] 2]"
proof -
  have "filter validSaved [stored_upload [1] 2, stored_upload [2] 6] = [stored_upload [1] 2]" by code_simp
  then show ?thesis using stored_uploads_come_back [of "[stored_upload [1] 2, stored_upload [2] 6]"] by (simp add: stored_upload_def)
qed

end
