(* ===== verification/Spec2Isabelle.thy ===== *)
theory Spec2Isabelle
  imports FileClaims ShareLinkClaims ShareScopeClaims RateLimitClaims StoragePathClaims UploadTripClaims Sha256Spec DownloadClaims Capability AuthClaims ArchiveStreamClaims SsdClaims RetryProps QueueClaims
begin

text \<open>
  HomeCloud is a self-hosted file store: a NestJS backend (backend/src) over PostgreSQL and a disk, and a
  React front end (frontend/src).  A user signs in and gets rotating refresh tokens; keeps a tree of folders
  and files under a storage quota; uploads files in chunks that survive an interruption, directly to the
  disk or through an SSD from which a journal moves them; shares a file or a folder by a public link with a
  password and a limit of downloads; and downloads files, parts of files and ZIP archives.  The browser
  keeps a queue of uploads with bounded retries.

  A handler of the backend is a function from the state it reads and its arguments to a result: \<open>Inl\<close> of the
  HTTP exception it throws or \<open>Inr\<close> of the new state and the value (Prelude).  A transaction is one such
  function; where a handler reads before its transaction, or outside of one, the early read has its own
  argument, so that other requests may come in between.  Strings are lists of UTF-16 code units, JavaScript
  numbers that hold sizes are integers with the check for safe integers written out, and the words of the
  digest have 32 bits.

  \<^bold>\<open>Theories and code.\<close>
  \<^item> \<open>Prelude\<close>, \<open>Entities\<close>, \<open>Closure\<close>: strings, exceptions, tables by key; the rows of users, files and folders
    (entities/); the recursive queries of SQL.
  \<^item> \<open>Quota\<close>: users/users.service.ts and common/database-size.ts.  \<open>Namespace\<close>: files/namespace-name.ts.
  \<^item> \<open>FileOps\<close>: every operation of files/files.service.ts.  \<open>FileTree\<close> has the invariant, \<open>FileTreeOps\<close> its
    preservation by each operation and the histories, \<open>FileTreeProps\<close> and \<open>FileClaims\<close> the exact effects.
  \<^item> \<open>StoragePath\<close>: storage/storage-placement.ts and the paths of storage/storage.service.ts.
  \<^item> \<open>ShareLinks\<close>, \<open>ShareScope\<close>: sharing/sharing.service.ts, the links and the reach of a shared folder.
  \<^item> \<open>Downloads\<close>, \<open>PublicDownloads\<close>: the streams of files/files.controller.ts and sharing/sharing.controller.ts.
  \<^item> \<open>Archive\<close>, \<open>ArchiveStream\<close> (with \<open>ArchiveClaims\<close>, \<open>ArchivePlan\<close>, \<open>ArchiveStreamClaims\<close>):
    files/archive-downloads.service.ts and the ZIP engine common/archive-stream.ts.
  \<^item> \<open>Capability\<close>: files/download-capability.service.ts and its routes.  \<open>Auth\<close>: auth/auth.service.ts.
  \<^item> \<open>UploadState\<close>, \<open>Uploads\<close>, \<open>UploadFinish\<close>: uploads/uploads.service.ts on the legacy storage.  \<open>UploadProps\<close> and
    \<open>UploadClaims\<close> have the accounts over histories, \<open>UploadTrip\<close> and \<open>UploadTripClaims\<close> the way of a file.
  \<^item> \<open>RateLimit\<close> (with \<open>RateLimitProps\<close>, \<open>RateLimitClaims\<close>): uploads/upload-rate-limit.ts.
  \<^item> \<open>SsdJournal\<close>, \<open>SsdRecovery\<close> (with \<open>SsdSafety\<close>, \<open>SsdClaims\<close>): the finalization from the SSD, the files
    uploads/ssd-finalization-*.ts and uploads/ssd-cross-fs-finalizer.ts.
  \<^item> \<open>Sha256\<close>: frontend files/wholeSha256.ts, refined to the standard in \<open>Sha256Spec\<close>.
  \<^item> \<open>Retry\<close>: frontend api/errors.ts and the retries of files/upload.ts.  \<open>QueueJob\<close>, \<open>UploadQueue\<close>: frontend
    files/uploadQueue.ts, a job as a coroutine between its awaits and the queue of jobs; \<open>QueueProps\<close> and \<open>QueueInv\<close>
    have the invariants of both, \<open>QueueTrip\<close> and \<open>QueueClaims\<close> the undisturbed run.

  \<^bold>\<open>How the parts interact.\<close>  Uploads, copies and deletions move the balance of \<open>Quota\<close> and take names from
  \<open>Namespace\<close>; placements come from \<open>StoragePath\<close>; the reach of a share and of an archive is a closure over the
  tree that \<open>FileTree\<close> keeps a forest; a public download takes a slot of \<open>ShareLinks\<close> before its stream starts;
  the commit of a finalization writes the same tables as the file service; the queue of the browser sends the
  requests that \<open>Uploads\<close> answers.

  \<^bold>\<open>Contracts.\<close>  Four locales state what a client relies on; each is interpreted on the model.
  \<^item> \<open>quota_ledger\<close> (in \<open>Quota\<close>, as \<open>users\<close>): a charge is refused or adds exactly its bytes within the limit, a
    refund takes exactly its bytes; hence the balance over sequences of both.
  \<^item> \<open>name_allocator\<close> (in \<open>Namespace\<close>, as \<open>ns\<close>): an allocated name is free, and the destination is live.
  \<^item> \<open>one_time\<close> (in \<open>OneTime\<close>): an admission uses up one matching entry and nothing adds one; interpreted on
    refresh tokens (\<open>refresh_tokens\<close>), native downloads (\<open>caps\<close>) and archives (\<open>archives\<close>).
  \<^item> \<open>admission_gate\<close> (in \<open>ShareLinkClaims\<close>, as \<open>downloads\<close>): a counter with a cap over any interleaving of steps.

  \<^bold>\<open>What the lemmas show.\<close>  Invariants over histories of operations: the file tree with its quotas, the accounts
  of uploads, the rate limiter, the queue with its slots; the single use of tokens and capabilities; the limit
  and the lockout of links.  Exact effects: the subtree that a deletion removes, the reach of a share, the
  manifest of an archive, the acceptance of selections, ranges and object keys.  Round trips and refinement:
  the bytes of an upload, placements, the digest.  Interruption: a finalization that stops after any of its
  effects, any number of times.  Progress: the undisturbed upload.  And what the code does against its
  intention: the mirror row that can be deleted alone, the restored folder that doubles a name, the file that
  \<open>removeFile\<close> writes back, the attempt on one link that resets another, the taken name that stops every
  finalization, and archive paths that depend on the order of rows.

  \<^bold>\<open>Conditions worth knowing.\<close>  The histories of files leave out three uses (\<open>safe_op\<close>): the permanent deletion of
  a mirror row, the restoration of a live folder of a trashed parent to a root where its name is taken, and the
  save of \<open>removeFile\<close> behind a permanent deletion of the file or of its folder; \<open>FileClaims\<close> has a theorem for
  what each of them breaks.  The lockout is stated for the update as the query builder assembles it, without
  parentheses (\<open>wrap\<close> is \<open>False\<close>), and for the parenthesised one beside it.  The budget of the retries does not pay
  for the wait before the first attempt.  In the queue a creation is repeated only after an answer to the
  creation in flight that cannot have left a session behind.  A slot of a link that was taken is kept when the
  stream that follows fails or the client goes away.

  \<^bold>\<open>Bounds.\<close>  The closures of the recursive queries and the chain of token replacements recurse over a bound:
  the number of rows of their table, which is enough because every round adds a row or moves to a new one
  (\<open>Closure\<close>, \<open>logout_ends_session\<close>).  The loops of the retries, of the free names, of the padding and of the
  compression end by a measure.  An attempt of a finalization has a budget of effects; \<open>None\<close> is no interruption.

  \<^bold>\<open>Parameters.\<close>  bcrypt, JWT, random identifiers, clocks, \<open>Math.random\<close>, \<open>Date.parse\<close>, the digests of the platform,
  Unicode normalisation and case mapping, \<open>ILIKE\<close> and the orders of the database, the content of the disk, the
  live checks of paths, mounts and workspaces, the detected MIME type, and how a stream ends.

  \<^bold>\<open>Abstractions.\<close>  Columns that no modelled operation reads are left out, among them the checksum of a published
  row in the legacy mode, and \<open>updateProfile\<close> has the two fields that matter to other parts.  Row locks are the atomicity of
  a transaction; a copy of no bytes, which does not lock the row of the user, is atomic here too.  The bounded
  retries of a \<open>DELETE\<close> in the queue are one answer.  The test \<open>q = p\<close> and the first validation of the key in
  \<open>keyFromAbsolute\<close> follow from the checks around them, as in the code.

  \<^bold>\<open>Not modelled.\<close>  The SSD upload service before its journal and the receipts of public uploads (planned next);
  multipart ingress, descriptors, mounts and the native file system addon; controllers and decorators that only
  forward; configuration, start-up, logs, metrics, previews and updates; schema migrations except the triggers
  and constraints that running code meets; the React pages; benchmarks and scripts.
\<close>

end
